(* ===== verification/Prelude.thy ===== *)
theory Prelude
  imports Complex_Main "HOL-Library.Word"
begin

text \<open>
  Shared notions of the development: the collections the component theories fill,
  machine-integer conversions as the Rust source writes them (\<open>as i32\<close>, saturating
  arithmetic, truncating division), and the generic notion of a component that consumes
  inputs one at a time, returning its new state and the list of outputs it emits. The
  locale at the end lifts what one step keeps to what a whole run keeps; every state
  machine of the development interprets it on its own step function.
\<close>

named_theorems step_defs \<open>definitions of the transition functions\<close>
named_theorems inv_intros \<open>invariant preservation, one fact per operation\<close>

section \<open>Machine integers\<close>

text \<open>
  Signed 32- and 64-bit values that are only stored, compared and clamped are integers;
  where the code narrows or can overflow the width is written out here.
\<close>

abbreviation i32_min :: int where "i32_min \<equiv> - 2147483648"
abbreviation i32_max :: int where "i32_max \<equiv> 2147483647"
abbreviation i64_min :: int where "i64_min \<equiv> - 9223372036854775808"
abbreviation i64_max :: int where "i64_max \<equiv> 9223372036854775807"
abbreviation u64_max :: int where "u64_max \<equiv> 18446744073709551615"

definition is_i32 :: "int \<Rightarrow> bool" where
  "is_i32 i \<longleftrightarrow> i32_min \<le> i \<and> i \<le> i32_max"

definition is_i64 :: "int \<Rightarrow> bool" where
  "is_i64 i \<longleftrightarrow> i64_min \<le> i \<and> i \<le> i64_max"

text \<open>\<open>x as i32\<close> on a wider integer keeps the low 32 bits.\<close>

definition wrap32 :: "int \<Rightarrow> int" where
  "wrap32 i = (i + 2147483648) mod 4294967296 - 2147483648"

definition wrap64 :: "int \<Rightarrow> int" where
  "wrap64 i = (i + 9223372036854775808) mod 18446744073709551616 - 9223372036854775808"

lemma wrap32_range [simp]: "i32_min \<le> wrap32 i" "wrap32 i \<le> i32_max"
  unfolding wrap32_def by (simp_all add: pos_mod_bound [THEN zless_imp_add1_zle])

lemma wrap32_id: "i32_min \<le> i \<Longrightarrow> i \<le> i32_max \<Longrightarrow> wrap32 i = i"
  unfolding wrap32_def by simp

lemma wrap64_id: "i64_min \<le> i \<Longrightarrow> i \<le> i64_max \<Longrightarrow> wrap64 i = i"
  unfolding wrap64_def by simp

lemma is_i32_wrap32 [simp]: "is_i32 (wrap32 i)"
  by (simp add: is_i32_def)

definition sat32 :: "int \<Rightarrow> int" where
  "sat32 i = max i32_min (min i32_max i)"

lemma sat32_id: "i32_min \<le> i \<Longrightarrow> i \<le> i32_max \<Longrightarrow> sat32 i = i"
  by (simp add: sat32_def)

lemma sat32_range [simp]: "i32_min \<le> sat32 i" "sat32 i \<le> i32_max"
  by (simp_all add: sat32_def)

text \<open>Rust's \<open>/\<close> and \<open>%\<close> on signed integers truncate toward zero.\<close>

definition trunc_div :: "int \<Rightarrow> int \<Rightarrow> int" where
  "trunc_div a b = sgn a * sgn b * (\<bar>a\<bar> div \<bar>b\<bar>)"

definition trunc_mod :: "int \<Rightarrow> int \<Rightarrow> int" where
  "trunc_mod a b = a - b * trunc_div a b"

lemma trunc_div_nonneg: "0 \<le> a \<Longrightarrow> 0 < b \<Longrightarrow> trunc_div a b = a div b"
  by (cases "a = 0") (simp_all add: trunc_div_def)

lemma trunc_div_neg: "a < 0 \<Longrightarrow> 0 < b \<Longrightarrow> trunc_div a b = - ((- a) div b)"
  by (simp add: trunc_div_def)

text \<open>\<open>u64\<close> saturating addition and subtraction, on the values.\<close>

definition sat_add_u64 :: "int \<Rightarrow> int \<Rightarrow> int" where
  "sat_add_u64 a b = min u64_max (a + b)"

definition sat_sub_u :: "int \<Rightarrow> int \<Rightarrow> int" where
  "sat_sub_u a b = max 0 (a - b)"

section \<open>Instants\<close>

text \<open>Each instant is at least \<open>d\<close> after the one before it, the first after \<open>l\<close>.\<close>

fun spaced_by :: "int \<Rightarrow> int option \<Rightarrow> int list \<Rightarrow> bool" where
  "spaced_by d l [] = True"
| "spaced_by d l (t # ts) =
     ((case l of None \<Rightarrow> True | Some l \<Rightarrow> l + d \<le> t) \<and> spaced_by d (Some t) ts)"

section \<open>Decimal rendering\<close>

fun show_nat :: "nat \<Rightarrow> string" where
  "show_nat n = (if n < 10 then [char_of (48 + n)] else show_nat (n div 10) @ [char_of (48 + n mod 10)])"

declare show_nat.simps [simp del]

definition show_int :: "int \<Rightarrow> string" where
  "show_int i = (if i < 0 then ''-'' @ show_nat (nat (- i)) else show_nat (nat i))"

section \<open>Components that consume inputs\<close>

fun run_steps :: "('s \<Rightarrow> 'i \<Rightarrow> 's \<times> 'o list) \<Rightarrow> 's \<Rightarrow> 'i list \<Rightarrow> 's \<times> 'o list" where
  "run_steps step s [] = (s, [])"
| "run_steps step s (i # is) =
     (let (s', os) = step s i; (s'', os') = run_steps step s' is in (s'', os @ os'))"

lemma run_steps_append:
  "run_steps step s (is @ js) =
     (let (s', os) = run_steps step s is; (s'', os') = run_steps step s' js in (s'', os @ os'))"
  by (induction "is" arbitrary: s) (auto simp: split_beta Let_def)

lemma run_steps_Cons_fst:
  "fst (run_steps step s (i # is)) = fst (run_steps step (fst (step s i)) is)"
  by (simp add: split_beta Let_def)

lemma run_steps_Cons_snd:
  "snd (run_steps step s (i # is)) = snd (step s i) @ snd (run_steps step (fst (step s i)) is)"
  by (simp add: split_beta Let_def)

lemma run_steps_single: "run_steps step s [i] = step s i"
  by (simp add: split_beta Let_def)

text \<open>
  The contract every state machine of the development meets: an invariant of the start
  state that one step keeps, and a predicate every emitted output satisfies when the
  step started inside the invariant.
\<close>

locale machine =
  fixes step :: "'s \<Rightarrow> 'i \<Rightarrow> 's \<times> 'o list"
    and init :: "'s"
    and inv :: "'s \<Rightarrow> bool"
    and ok_out :: "'o \<Rightarrow> bool"
  assumes inv_init: "inv init"
    and inv_step: "inv s \<Longrightarrow> inv (fst (step s i))"
    and out_step: "inv s \<Longrightarrow> x \<in> set (snd (step s i)) \<Longrightarrow> ok_out x"
begin

lemma run_inv: "inv s \<Longrightarrow> inv (fst (run_steps step s is))"
  by (induction "is" arbitrary: s) (simp_all add: run_steps_Cons_fst inv_step del: run_steps.simps(2))

lemma run_out: "inv s \<Longrightarrow> x \<in> set (snd (run_steps step s is)) \<Longrightarrow> ok_out x"
proof (induction "is" arbitrary: s)
  case Nil
  then show ?case by simp
next
  case (Cons i "is")
  from Cons.prems(2) have "x \<in> set (snd (step s i)) \<or>
      x \<in> set (snd (run_steps step (fst (step s i)) is))"
    by (simp add: run_steps_Cons_snd del: run_steps.simps(2))
  then show ?case
    using out_step [OF Cons.prems(1)] Cons.IH [OF inv_step [OF Cons.prems(1)]] by blast
qed

lemma reach_inv: "inv (fst (run_steps step init is))"
  by (rule run_inv [OF inv_init])

lemma reach_out: "x \<in> set (snd (run_steps step init is)) \<Longrightarrow> ok_out x"
  by (rule run_out [OF inv_init])

end

end
