(* ===== verification/Ieee.thy ===== *)
theory Ieee
  imports Prelude
begin

text \<open>
  The binary floating point of the Rust language, as far as the source uses it: \<open>f32\<close>
  and \<open>f64\<close> multiplication, division, addition, comparison, rounding to an integral
  value and the saturating \<open>as\<close> casts. A number is a significand times a power of two,
  so every operation computes; NaN, the infinities and the negative zero are values of
  their own. Results are rounded to nearest, ties to even, into a format given by its
  precision and the exponents of its smallest and largest unit in the last place.
  The lemmas give each operation's exact real value whenever that value is representable.
\<close>

section \<open>Values and formats\<close>

datatype flt = NaN | Infty bool | NegZero | Fin int int

type_synonym f32 = flt
type_synonym f64 = flt

text \<open>\<open>Infty True\<close> is minus infinity; \<open>Fin m e\<close> is \<open>m\<close> times two to the \<open>e\<close>.\<close>

record fmt =
  prec :: int
  emin :: int
  emax :: int

definition single :: fmt where
  "single = \<lparr>prec = 24, emin = -149, emax = 104\<rparr>"

definition double :: fmt where
  "double = \<lparr>prec = 53, emin = -1074, emax = 971\<rparr>"

lemma format_simps [simp]:
  "prec single = 24" "emin single = -149" "emax single = 104"
  "prec double = 53" "emin double = -1074" "emax double = 971"
  by (simp_all add: single_def double_def)

fun fval :: "flt \<Rightarrow> real" where
  "fval (Fin m e) = of_int m * 2 powr of_int e"
| "fval _ = 0"

fun f_is_finite :: "flt \<Rightarrow> bool" where
  "f_is_finite (Fin _ _) = True"
| "f_is_finite NegZero = True"
| "f_is_finite _ = False"

fun f_signbit :: "flt \<Rightarrow> bool" where
  "f_signbit (Infty s) = s"
| "f_signbit NegZero = True"
| "f_signbit (Fin m e) = (m < 0)"
| "f_signbit NaN = False"

section \<open>Rounding\<close>

function (sequential) bit_len :: "int \<Rightarrow> int" where
  "bit_len n = (if n \<le> 0 then 0 else 1 + bit_len (n div 2))"
  by pat_completeness auto
termination
  by (relation "measure nat") auto

declare bit_len.simps [simp del]

text \<open>The quotient \<open>n / d\<close> in units of two to the \<open>e\<close>, as a fraction.\<close>

definition in_units :: "int \<Rightarrow> int \<Rightarrow> int \<Rightarrow> int \<times> int" where
  "in_units n d e = (if 0 \<le> e then (n, d * 2 ^ nat e) else (n * 2 ^ nat (- e), d))"

text \<open>The binary logarithm of \<open>n / d\<close>, rounded down.\<close>

definition log2_floor :: "int \<Rightarrow> int \<Rightarrow> int" where
  "log2_floor n d =
     (let k = bit_len n - bit_len d; (a, b) = in_units n d k in if b \<le> a then k else k - 1)"

definition unit_exp :: "fmt \<Rightarrow> int \<Rightarrow> int \<Rightarrow> int" where
  "unit_exp f n d = max (emin f) (log2_floor n d - prec f + 1)"

definition half_even :: "int \<Rightarrow> int \<Rightarrow> int" where
  "half_even a b =
     (let q = a div b; r = a mod b
      in if b < 2 * r \<or> b = 2 * r \<and> odd q then q + 1 else q)"

definition round_pos :: "fmt \<Rightarrow> int \<Rightarrow> int \<Rightarrow> flt" where
  "round_pos f n d =
     (let e = unit_exp f n d; (a, b) = in_units n d e; q = half_even a b
      in if emax f < e \<or> e = emax f \<and> 2 ^ nat (prec f) \<le> q then Infty False else Fin q e)"

fun f_neg :: "flt \<Rightarrow> flt" where
  "f_neg NaN = NaN"
| "f_neg (Infty s) = Infty (\<not> s)"
| "f_neg NegZero = Fin 0 0"
| "f_neg (Fin m e) = (if m = 0 then NegZero else Fin (- m) e)"

text \<open>The fraction \<open>n / d\<close>, \<open>0 \<le> n\<close> and \<open>0 < d\<close>, rounded and given the sign \<open>s\<close>.\<close>

definition round_frac :: "fmt \<Rightarrow> bool \<Rightarrow> int \<Rightarrow> int \<Rightarrow> flt" where
  "round_frac f s n d =
     (if n = 0 then if s then NegZero else Fin 0 0
      else if s then f_neg (round_pos f n d) else round_pos f n d)"

definition round_dyadic :: "fmt \<Rightarrow> bool \<Rightarrow> int \<Rightarrow> int \<Rightarrow> flt" where
  "round_dyadic f s m e =
     (let (a, b) = in_units \<bar>m\<bar> 1 (- e) in round_frac f s a b)"

section \<open>Operations\<close>

fun f_is_zero :: "flt \<Rightarrow> bool" where
  "f_is_zero NegZero = True"
| "f_is_zero (Fin m e) = (m = 0)"
| "f_is_zero _ = False"

fun f_sig :: "flt \<Rightarrow> int" where
  "f_sig (Fin m e) = m"
| "f_sig _ = 0"

fun f_exp :: "flt \<Rightarrow> int" where
  "f_exp (Fin m e) = e"
| "f_exp _ = 0"

definition f_mul :: "fmt \<Rightarrow> flt \<Rightarrow> flt \<Rightarrow> flt" where
  "f_mul f a b =
     (let s = (f_signbit a \<noteq> f_signbit b) in
      if a = NaN \<or> b = NaN then NaN
      else if \<not> f_is_finite a then if f_is_zero b then NaN else Infty s
      else if \<not> f_is_finite b then if f_is_zero a then NaN else Infty s
      else round_dyadic f s (f_sig a * f_sig b) (f_exp a + f_exp b))"

definition f_div :: "fmt \<Rightarrow> flt \<Rightarrow> flt \<Rightarrow> flt" where
  "f_div f a b =
     (let s = (f_signbit a \<noteq> f_signbit b) in
      if a = NaN \<or> b = NaN then NaN
      else if \<not> f_is_finite a then if \<not> f_is_finite b then NaN else Infty s
      else if \<not> f_is_finite b then if s then NegZero else Fin 0 0
      else if f_is_zero b then if f_is_zero a then NaN else Infty s
      else (let (p, q) = in_units \<bar>f_sig a\<bar> \<bar>f_sig b\<bar> (f_exp b - f_exp a)
            in round_frac f s p q))"

definition f_add :: "fmt \<Rightarrow> flt \<Rightarrow> flt \<Rightarrow> flt" where
  "f_add f a b =
     (if a = NaN \<or> b = NaN then NaN
      else if \<not> f_is_finite a then
        if \<not> f_is_finite b \<and> f_signbit a \<noteq> f_signbit b then NaN else a
      else if \<not> f_is_finite b then b
      else (let k = min (f_exp a) (f_exp b);
                z = f_sig a * 2 ^ nat (f_exp a - k) + f_sig b * 2 ^ nat (f_exp b - k)
            in if z = 0 then if a = NegZero \<and> b = NegZero then NegZero else Fin 0 0
               else round_dyadic f (z < 0) z k))"

definition f_sub :: "fmt \<Rightarrow> flt \<Rightarrow> flt \<Rightarrow> flt" where
  "f_sub f a b = f_add f a (f_neg b)"

text \<open>Comparisons as IEEE has them: every comparison with NaN is false.\<close>

definition f_diff_sign :: "flt \<Rightarrow> flt \<Rightarrow> int" where
  "f_diff_sign a b =
     (let k = min (f_exp a) (f_exp b)
      in f_sig a * 2 ^ nat (f_exp a - k) - f_sig b * 2 ^ nat (f_exp b - k))"

definition f_eq :: "flt \<Rightarrow> flt \<Rightarrow> bool" where
  "f_eq a b =
     (if a = NaN \<or> b = NaN then False
      else if f_is_finite a \<and> f_is_finite b then f_diff_sign a b = 0
      else a = b)"

definition f_lt :: "flt \<Rightarrow> flt \<Rightarrow> bool" where
  "f_lt a b =
     (if a = NaN \<or> b = NaN then False
      else if f_is_finite a \<and> f_is_finite b then f_diff_sign a b < 0
      else if f_is_finite a then b = Infty False
      else if f_is_finite b then a = Infty True
      else a = Infty True \<and> b = Infty False)"

definition f_le :: "flt \<Rightarrow> flt \<Rightarrow> bool" where
  "f_le a b \<longleftrightarrow> f_lt a b \<or> f_eq a b"

fun f_abs :: "flt \<Rightarrow> flt" where
  "f_abs NaN = NaN"
| "f_abs (Infty _) = Infty False"
| "f_abs NegZero = Fin 0 0"
| "f_abs (Fin m e) = Fin \<bar>m\<bar> e"

definition f_of_int :: "fmt \<Rightarrow> int \<Rightarrow> flt" where
  "f_of_int f i = round_frac f (i < 0) \<bar>i\<bar> 1"

text \<open>\<open>as f32\<close> on an \<open>f64\<close>; the other direction is exact and is the identity here.\<close>

fun f_narrow :: "fmt \<Rightarrow> flt \<Rightarrow> flt" where
  "f_narrow f (Fin m e) = round_dyadic f (m < 0) m e"
| "f_narrow f x = x"

text \<open>Rust's \<open>round\<close>: to an integral value, halves away from zero.\<close>

fun f_round :: "flt \<Rightarrow> flt" where
  "f_round (Fin m e) =
     (if 0 \<le> e then Fin m e
      else let b = 2 ^ nat (- e); q = (2 * \<bar>m\<bar> + b) div (2 * b)
           in if m < 0 then if q = 0 then NegZero else Fin (- q) 0 else Fin q 0)"
| "f_round x = x"

fun f_round_ties_even :: "flt \<Rightarrow> flt" where
  "f_round_ties_even (Fin m e) =
     (if 0 \<le> e then Fin m e
      else let q = half_even \<bar>m\<bar> (2 ^ nat (- e))
           in if m < 0 then if q = 0 then NegZero else Fin (- q) 0 else Fin q 0)"
| "f_round_ties_even x = x"

text \<open>\<open>as i32\<close>, \<open>as i64\<close>: truncation, saturation, and zero for NaN.\<close>

definition f_trunc :: "flt \<Rightarrow> int" where
  "f_trunc x =
     (if 0 \<le> f_exp x then f_sig x * 2 ^ nat (f_exp x)
      else sgn (f_sig x) * (\<bar>f_sig x\<bar> div 2 ^ nat (- f_exp x)))"

definition f_to_int :: "int \<Rightarrow> int \<Rightarrow> flt \<Rightarrow> int" where
  "f_to_int lo hi x =
     (case x of NaN \<Rightarrow> 0 | Infty True \<Rightarrow> lo | Infty False \<Rightarrow> hi
      | _ \<Rightarrow> max lo (min hi (f_trunc x)))"

abbreviation f_to_i32 :: "flt \<Rightarrow> int" where
  "f_to_i32 \<equiv> f_to_int i32_min i32_max"

abbreviation f_to_i64 :: "flt \<Rightarrow> int" where
  "f_to_i64 \<equiv> f_to_int i64_min i64_max"

text \<open>\<open>x.clamp(lo, hi)\<close>: NaN stays NaN.\<close>

definition f_clamp :: "flt \<Rightarrow> flt \<Rightarrow> flt \<Rightarrow> flt" where
  "f_clamp lo hi x = (if f_lt x lo then lo else if f_lt hi x then hi else x)"

section \<open>Rounding is exact on representable values\<close>

lemma bit_len_nonneg: "0 \<le> bit_len n"
proof (induction n rule: bit_len.induct)
  case (1 n)
  then show ?case by (cases "n \<le> 0") (simp_all add: bit_len.simps [of n])
qed

lemma bit_len_bounds: "0 < n \<Longrightarrow> 2 ^ nat (bit_len n) \<le> 2 * n \<and> n < 2 ^ nat (bit_len n)"
proof (induction n rule: bit_len.induct)
  case (1 n)
  show ?case
  proof (cases "n = 1")
    case True
    then show ?thesis by (simp add: bit_len.simps)
  next
    case False
    with "1.prems" have n: "\<not> n \<le> 0" "0 < n div 2" by auto
    have len: "nat (bit_len n) = Suc (nat (bit_len (n div 2)))"
      using n bit_len_nonneg [of "n div 2"] by (simp add: bit_len.simps [of n] nat_add_distrib)
    from "1.IH" [OF n] show ?thesis unfolding len by auto
  qed
qed

lemma in_units_value:
  assumes "0 < d"
  shows "0 < snd (in_units n d e)"
    and "of_int (fst (in_units n d e)) / of_int (snd (in_units n d e))
           = of_int n / (of_int d :: real) * 2 powr of_int (- e)"
proof -
  show "0 < snd (in_units n d e)"
    using assms by (simp add: in_units_def)
  have p: "(2 :: real) powr of_int k = 2 ^ nat k" if "0 \<le> k" for k
    using that by (metis of_nat_nat of_int_of_nat_eq powr_realpow zero_less_numeral)
  show "of_int (fst (in_units n d e)) / of_int (snd (in_units n d e))
           = of_int n / (of_int d :: real) * 2 powr of_int (- e)"
    using assms p [of e] p [of "- e"]
    by (cases "0 \<le> e") (simp_all add: in_units_def powr_minus divide_simps)
qed

lemma log2_floor_le:
  assumes "0 < n" "0 < d"
  shows "2 powr of_int (log2_floor n d) \<le> of_int n / (of_int d :: real)"
proof -
  define k where "k = bit_len n - bit_len d"
  define a where "a = fst (in_units n d k)"
  define b where "b = snd (in_units n d k)"
  have b: "0 < b" and ab: "of_int a / of_int b = of_int n / (of_int d :: real) * 2 powr of_int (- k)"
    using in_units_value [OF assms(2), of n k] by (simp_all add: a_def b_def)
  have L: "log2_floor n d = (if b \<le> a then k else k - 1)"
    by (simp add: log2_floor_def k_def [symmetric] a_def b_def split_beta Let_def)
  show ?thesis
  proof (cases "b \<le> a")
    case True
    then have "1 \<le> of_int a / (of_int b :: real)" using b by simp
    then have "1 * 2 powr of_int k \<le> of_int n / (of_int d :: real) * 2 powr of_int (- k) * 2 powr of_int k"
      unfolding ab by (rule mult_right_mono) simp
    then show ?thesis using True by (simp add: L mult.assoc powr_add [symmetric])
  next
    case False
    have pw: "(2 :: real) powr of_int (bit_len x) = of_int (2 ^ nat (bit_len x))" for x
      using bit_len_nonneg [of x]
      by (metis of_int_numeral of_int_of_nat_eq of_int_power of_nat_nat powr_realpow zero_less_numeral)
    have n: "2 powr of_int (bit_len n) \<le> 2 * (of_int n :: real)"
      using bit_len_bounds [OF assms(1)] unfolding pw
      by (metis of_int_le_iff of_int_mult of_int_numeral)
    have d: "(of_int d :: real) \<le> 2 powr of_int (bit_len d)"
      using bit_len_bounds [OF assms(2)] unfolding pw by linarith
    have "2 powr of_int (k - 1) = 2 powr of_int (bit_len n) / (2 * 2 powr (of_int (bit_len d) :: real))"
      by (simp add: k_def powr_diff)
    also have "\<dots> \<le> 2 * of_int n / (2 * 2 powr (of_int (bit_len d) :: real))"
      by (rule divide_right_mono [OF n]) simp
    also have "\<dots> \<le> of_int n / (of_int d :: real)"
      using assms d by (simp add: frac_le)
    finally show ?thesis using False by (simp add: L)
  qed
qed

lemma half_even_exact: "0 < b \<Longrightarrow> b dvd a \<Longrightarrow> half_even a b = a div b"
  by (simp add: half_even_def Let_def)

lemma half_even_near:
  assumes b: "0 < b"
  shows "\<bar>2 * (b * half_even a b - a)\<bar> \<le> b"
proof -
  define q where "q = a div b"
  define r where "r = a mod b"
  have a: "a = b * q + r" and r: "0 \<le> r" "r < b"
    using b by (simp_all add: q_def r_def)
  have "half_even a b = q + 1 \<and> b \<le> 2 * r \<or> half_even a b = q \<and> 2 * r \<le> b"
    unfolding half_even_def Let_def q_def [symmetric] r_def [symmetric] by auto
  then show ?thesis using r by (auto simp: a distrib_left abs_le_iff)
qed

text \<open>The real numbers of a format.\<close>

definition representable :: "fmt \<Rightarrow> real \<Rightarrow> bool" where
  "representable f x \<longleftrightarrow>
     (\<exists>m e. x = of_int m * 2 powr of_int e \<and> \<bar>m\<bar> < 2 ^ nat (prec f) \<and> emin f \<le> e \<and> e \<le> emax f)"

lemma representableI:
  "x = of_int m * 2 powr of_int e \<Longrightarrow> \<bar>m\<bar> < 2 ^ nat (prec f) \<Longrightarrow> emin f \<le> e \<Longrightarrow> e \<le> emax f
     \<Longrightarrow> representable f x"
  by (auto simp: representable_def)

lemma representable_of_int:
  "\<bar>i\<bar> < 2 ^ nat (prec f) \<Longrightarrow> emin f \<le> 0 \<Longrightarrow> 0 \<le> emax f \<Longrightarrow> representable f (of_int i)"
  by (rule representableI [of _ i 0]) auto

lemma representable_minus: "representable f (- x) \<longleftrightarrow> representable f x"
proof -
  have "representable f (- y)" if "representable f y" for y
    using that unfolding representable_def
    by (metis abs_minus_cancel mult_minus_left of_int_minus)
  from this [of x] this [of "- x"] show ?thesis by auto
qed

lemma round_pos_exact:
  assumes n: "0 < n" and d: "0 < d"
    and rep: "representable f (of_int n / of_int d)" and p: "0 \<le> prec f"
  shows "\<exists>q e. round_pos f n d = Fin q e \<and> 0 < q \<and> fval (Fin q e) = of_int n / of_int d"
proof -
  from rep obtain M E where
    x: "of_int n / (of_int d :: real) = of_int M * 2 powr of_int E"
    and M: "\<bar>M\<bar> < 2 ^ nat (prec f)" and E: "emin f \<le> E" "E \<le> emax f"
    unfolding representable_def by blast
  define e where "e = unit_exp f n d"
  define a where "a = fst (in_units n d e)"
  define b where "b = snd (in_units n d e)"
  have "0 < of_int n / (of_int d :: real)" using n d by simp
  then have "0 < (of_int M :: real)" unfolding x by (simp add: zero_less_mult_iff)
  then have M0: "0 < M" by simp
  have "(of_int M :: real) < 2 powr of_int (prec f)"
  proof -
    have "(of_int M :: real) < of_int (2 ^ nat (prec f))"
      using M M0 by (metis abs_of_pos of_int_less_iff)
    also have "\<dots> = 2 powr of_int (prec f)"
      using p by (simp add: powr_real_of_int)
    finally show ?thesis .
  qed
  then have "of_int M * 2 powr of_int E < 2 powr of_int (prec f) * (2 powr of_int E :: real)"
    by simp
  from order_le_less_trans [OF log2_floor_le [OF n d, unfolded x] this]
  have "2 powr of_int (log2_floor n d) < (2 powr of_int (prec f + E) :: real)"
    by (simp add: powr_add)
  then have "log2_floor n d < prec f + E" by simp
  then have eE: "e \<le> E" using E by (simp add: e_def unit_exp_def)
  have b: "0 < b" and ab: "of_int a / of_int b = of_int n / (of_int d :: real) * 2 powr of_int (- e)"
    using in_units_value [OF d, of n e] by (simp_all add: a_def b_def)
  define K where "K = M * 2 ^ nat (E - e)"
  have pe: "(2 :: real) powr of_int (E - e) = 2 ^ nat (E - e)"
    using eE by (simp add: powr_real_of_int del: of_int_diff)
  have "of_int a / of_int b = (of_int M * 2 powr of_int (E - e) :: real)"
    unfolding ab x by (simp add: mult.assoc powr_add [symmetric])
  also have "\<dots> = of_int K"
    by (simp only: K_def pe of_int_mult of_int_power of_int_numeral)
  finally have "(of_int a :: real) = of_int (b * K)"
    using b by (simp add: field_simps)
  then have aK: "a = b * K" by (simp only: of_int_eq_iff)
  have h: "half_even a b = K" using b by (simp add: half_even_exact aK)
  have fits: "\<not> (emax f < e \<or> e = emax f \<and> 2 ^ nat (prec f) \<le> K)"
    using E eE M M0 by (auto simp: K_def)
  have r: "round_pos f n d = Fin K e"
    using fits h unfolding round_pos_def a_def b_def e_def by (auto simp: split_beta Let_def)
  have v: "fval (Fin K e) = of_int n / of_int d"
  proof -
    have "fval (Fin K e) = of_int M * (2 powr of_int (E - e) * 2 powr of_int e)"
      by (simp only: fval.simps K_def pe of_int_mult of_int_power of_int_numeral mult.assoc)
    also have "\<dots> = of_int M * 2 powr of_int E"
      by (simp only: powr_add [symmetric] of_int_add [symmetric]) simp
    finally show ?thesis unfolding x .
  qed
  have "0 < K" using M0 by (simp add: K_def)
  with r v show ?thesis by blast
qed

section \<open>Exact values of the operations\<close>

lemma fval_neg [simp]: "fval (f_neg x) = - fval x"
  by (cases x) simp_all

lemma finite_neg [simp]: "f_is_finite (f_neg x) = f_is_finite x"
  by (cases x) simp_all

lemma round_frac_exact:
  assumes n: "0 \<le> n" and d: "0 < d" and p: "0 \<le> prec f"
    and rep: "representable f (of_int n / of_int d)"
  shows "f_is_finite (round_frac f s n d) \<and>
         fval (round_frac f s n d) = (if s then -1 else 1) * of_int n / of_int d"
proof (cases "n = 0")
  case True
  then show ?thesis by (simp add: round_frac_def)
next
  case False
  with n obtain q e where "round_pos f n d = Fin q e" "fval (Fin q e) = of_int n / of_int d"
    using round_pos_exact [OF _ d rep p] by auto
  with False show ?thesis by (simp add: round_frac_def del: f_neg.simps fval.simps)
qed

lemma round_dyadic_exact:
  assumes p: "0 \<le> prec f" and rep: "representable f (of_int m * 2 powr of_int e)"
    and s: "m \<noteq> 0 \<longrightarrow> s = (m < 0)"
  shows "f_is_finite (round_dyadic f s m e) \<and> fval (round_dyadic f s m e) = of_int m * 2 powr of_int e"
proof -
  define a where "a = fst (in_units \<bar>m\<bar> 1 (- e))"
  define b where "b = snd (in_units \<bar>m\<bar> 1 (- e))"
  have b: "0 < b" and v: "of_int a / of_int b = \<bar>of_int m\<bar> * (2 powr of_int e :: real)"
    using in_units_value [of 1 "\<bar>m\<bar>" "- e"] by (simp_all add: a_def b_def)
  have a: "0 \<le> a" by (simp add: a_def in_units_def)
  have "of_int a / of_int b = of_int m * (2 powr of_int e :: real) \<or>
        of_int a / of_int b = - (of_int m * (2 powr of_int e :: real))"
    unfolding v by (auto simp: abs_if)
  then have "representable f (of_int a / of_int b)"
    using rep representable_minus by metis
  moreover have "round_dyadic f s m e = round_frac f s a b"
    by (simp add: round_dyadic_def split_beta Let_def a_def b_def)
  ultimately show ?thesis
    using round_frac_exact [OF a b p, of s] s v by (auto simp: abs_if split: if_splits)
qed

lemma fval_sig_exp: "f_is_finite x \<Longrightarrow> fval x = of_int (f_sig x) * 2 powr of_int (f_exp x)"
  by (cases x) simp_all

lemma fval_less_0: "f_is_finite x \<Longrightarrow> fval x < 0 \<longleftrightarrow> f_sig x < 0"
  by (cases x) (simp_all add: mult_less_0_iff)

lemma fval_eq_0: "f_is_finite x \<Longrightarrow> fval x = 0 \<longleftrightarrow> f_sig x = 0"
  by (cases x) simp_all

lemma f_sig_signbit: "f_is_finite x \<Longrightarrow> f_sig x \<noteq> 0 \<Longrightarrow> f_signbit x = (f_sig x < 0)"
  by (cases x) simp_all

lemma f_not_nan: "f_is_finite x \<Longrightarrow> x \<noteq> NaN"
  by auto

lemma f_of_int_exact:
  assumes "0 \<le> prec f" "representable f (of_int i)"
  shows "f_is_finite (f_of_int f i) \<and> fval (f_of_int f i) = of_int i"
proof -
  have "representable f (of_int \<bar>i\<bar> / of_int 1)"
    using assms(2) representable_minus [of f "of_int i"] by (simp add: abs_if)
  from round_frac_exact [OF _ _ assms(1) this, of "i < 0"] show ?thesis
    by (auto simp: f_of_int_def)
qed

lemma f_mul_exact:
  assumes "0 \<le> prec f" "f_is_finite a" "f_is_finite b" "representable f (fval a * fval b)"
  shows "f_is_finite (f_mul f a b) \<and> fval (f_mul f a b) = fval a * fval b"
proof -
  have v: "fval a * fval b = of_int (f_sig a * f_sig b) * 2 powr of_int (f_exp a + f_exp b)"
    using assms(2,3) by (simp add: fval_sig_exp powr_add)
  have "f_sig a * f_sig b \<noteq> 0 \<longrightarrow> (f_signbit a \<noteq> f_signbit b) = (f_sig a * f_sig b < 0)"
    using f_sig_signbit [OF assms(2)] f_sig_signbit [OF assms(3)]
    by (auto simp: mult_less_0_iff)
  from round_dyadic_exact [OF assms(1) assms(4) [unfolded v] this]
  show ?thesis using assms(2,3) by (simp add: f_mul_def f_not_nan v)
qed

lemma f_div_exact:
  assumes "0 \<le> prec f" "f_is_finite a" "f_is_finite b" "fval b \<noteq> 0"
    and rep: "representable f (fval a / fval b)"
  shows "f_is_finite (f_div f a b) \<and> fval (f_div f a b) = fval a / fval b"
proof -
  have sb: "f_sig b \<noteq> 0" and nz: "\<not> f_is_zero b"
    using assms(3,4) by (cases b; simp)+
  define p where "p = fst (in_units \<bar>f_sig a\<bar> \<bar>f_sig b\<bar> (f_exp b - f_exp a))"
  define q where "q = snd (in_units \<bar>f_sig a\<bar> \<bar>f_sig b\<bar> (f_exp b - f_exp a))"
  have q: "0 < q" and v: "of_int p / of_int q =
      \<bar>of_int (f_sig a)\<bar> / (\<bar>of_int (f_sig b)\<bar> :: real) * 2 powr of_int (- (f_exp b - f_exp a))"
    using in_units_value [of "\<bar>f_sig b\<bar>" "\<bar>f_sig a\<bar>" "f_exp b - f_exp a"] sb
    by (simp_all add: p_def q_def)
  have p: "0 \<le> p" by (simp add: p_def in_units_def)
  have abs: "of_int p / of_int q = \<bar>fval a / fval b\<bar>"
    unfolding v using assms(2,3) by (simp add: fval_sig_exp abs_mult powr_diff)
  then have "representable f (of_int p / of_int q)"
    using rep representable_minus by (metis abs_if)
  note r = round_frac_exact [OF p q assms(1) this, of "f_signbit a \<noteq> f_signbit b"]
  have s: "(if f_signbit a \<noteq> f_signbit b then -1 else 1) * \<bar>fval a / fval b\<bar> = fval a / fval b"
    using f_sig_signbit [OF assms(2)] f_sig_signbit [OF assms(3) sb] assms(4)
    by (cases "f_sig a = 0")
       (auto simp: fval_less_0 [OF assms(2), symmetric] fval_less_0 [OF assms(3), symmetric]
          fval_eq_0 [OF assms(2), symmetric] abs_if divide_less_0_iff)
  from r have "f_is_finite (round_frac f (f_signbit a \<noteq> f_signbit b) p q) \<and>
      fval (round_frac f (f_signbit a \<noteq> f_signbit b) p q) = fval a / fval b"
    unfolding times_divide_eq_right [symmetric] abs s .
  then show ?thesis
    using assms(2,3) nz
    by (simp add: f_div_def f_not_nan split_beta Let_def p_def [symmetric] q_def [symmetric])
qed

section \<open>Comparison, truncation and rounding on values\<close>

lemma two_powr_nonneg: "0 \<le> k \<Longrightarrow> (2 :: real) powr of_int k = 2 ^ nat k"
  by (simp add: powr_real_of_int)

lemma two_powr_neg: "k < 0 \<Longrightarrow> (2 :: real) powr of_int k = 1 / 2 ^ nat (- k)"
  by (simp add: powr_real_of_int inverse_eq_divide)

lemma f_diff_sign_value:
  assumes "f_is_finite a" "f_is_finite b"
  shows "of_int (f_diff_sign a b) * 2 powr of_int (min (f_exp a) (f_exp b)) = fval a - fval b"
proof -
  define k where "k = min (f_exp a) (f_exp b)"
  have "(2 :: real) ^ nat (x - k) * 2 powr of_int k = 2 powr of_int x" if "k \<le> x" for x
  proof -
    have "(2 :: real) ^ nat (x - k) * 2 powr of_int k = 2 powr of_int (x - k) * 2 powr of_int k"
      using that by (simp only: two_powr_nonneg diff_ge_0_iff_ge)
    also have "\<dots> = 2 powr of_int x"
      by (simp only: powr_add [symmetric] of_int_add [symmetric]) simp
    finally show ?thesis .
  qed
  from this [of "f_exp a"] this [of "f_exp b"] show ?thesis
    unfolding f_diff_sign_def Let_def k_def [symmetric]
    by (simp add: k_def [symmetric] left_diff_distrib mult.assoc fval_sig_exp assms) (simp add: k_def)
qed

lemma f_lt_iff:
  assumes "f_is_finite a" "f_is_finite b"
  shows "f_lt a b \<longleftrightarrow> fval a < fval b"
proof -
  have "fval a < fval b \<longleftrightarrow> fval a - fval b < 0" by simp
  also have "\<dots> \<longleftrightarrow> f_diff_sign a b < 0"
    unfolding f_diff_sign_value [OF assms, symmetric] by (simp add: mult_less_0_iff)
  finally show ?thesis using assms by (simp add: f_lt_def f_not_nan)
qed

lemma f_eq_iff:
  assumes "f_is_finite a" "f_is_finite b"
  shows "f_eq a b \<longleftrightarrow> fval a = fval b"
proof -
  have "fval a = fval b \<longleftrightarrow> fval a - fval b = 0" by simp
  also have "\<dots> \<longleftrightarrow> f_diff_sign a b = 0"
    unfolding f_diff_sign_value [OF assms, symmetric] by simp
  finally show ?thesis using assms by (simp add: f_eq_def f_not_nan)
qed

lemma f_eq_refl: "f_eq x x \<longleftrightarrow> x \<noteq> NaN"
  by (cases x) (simp_all add: f_eq_def f_diff_sign_def)

lemma f_eq_sym: "f_eq a b \<longleftrightarrow> f_eq b a"
proof (cases "f_is_finite a \<and> f_is_finite b")
  case True
  then show ?thesis by (auto simp: f_eq_iff)
next
  case False
  then show ?thesis by (auto simp: f_eq_def)
qed

lemma f_to_int_range: "lo \<le> 0 \<Longrightarrow> 0 \<le> hi \<Longrightarrow> lo \<le> f_to_int lo hi x \<and> f_to_int lo hi x \<le> hi"
  by (simp add: f_to_int_def split: flt.splits bool.splits)

lemma f_trunc_exact:
  assumes "f_is_finite x" "fval x = of_int i"
  shows "f_trunc x = i"
proof (cases "0 \<le> f_exp x")
  case True
  have "(of_int (f_trunc x) :: real) = of_int i"
    using assms True by (simp add: f_trunc_def fval_sig_exp two_powr_nonneg)
  then show ?thesis by simp
next
  case False
  define b :: int where "b = 2 ^ nat (- f_exp x)"
  have b: "0 < b" by (simp add: b_def)
  have "of_int (f_sig x) / of_int b = (of_int i :: real)"
    using assms False by (simp add: fval_sig_exp two_powr_neg b_def)
  then have "(of_int (f_sig x) :: real) = of_int (i * b)"
    using b by (simp add: field_simps)
  then have "f_sig x = i * b" by (simp only: of_int_eq_iff)
  then show ?thesis
    using False b by (simp add: f_trunc_def b_def [symmetric] abs_mult sgn_mult)
       (metis mult_sgn_abs)
qed

lemma f_to_int_exact:
  "f_is_finite x \<Longrightarrow> fval x = of_int i \<Longrightarrow> lo \<le> i \<Longrightarrow> i \<le> hi \<Longrightarrow> f_to_int lo hi x = i"
  using f_trunc_exact [of x i] by (cases x) (auto simp: f_to_int_def)

lemma f_trunc_bounds:
  assumes "f_is_finite x" "0 \<le> fval x"
  shows "of_int (f_trunc x) \<le> fval x \<and> fval x < of_int (f_trunc x) + 1"
proof (cases "0 \<le> f_exp x")
  case True
  then show ?thesis using assms by (simp add: f_trunc_def fval_sig_exp two_powr_nonneg)
next
  case False
  define b :: int where "b = 2 ^ nat (- f_exp x)"
  have b: "0 < b" by (simp add: b_def)
  have s: "0 \<le> f_sig x" using assms fval_less_0 [of x] by linarith
  have v: "fval x = of_int (f_sig x) / of_int b"
    using assms False by (simp add: fval_sig_exp two_powr_neg b_def)
  have "f_trunc x = f_sig x div b"
    using False s by (cases "f_sig x = 0") (simp_all add: f_trunc_def b_def)
  moreover have "\<lfloor>of_int (f_sig x) / (of_int b :: real)\<rfloor> = f_sig x div b"
    by (rule floor_divide_of_int_eq)
  ultimately show ?thesis unfolding v by linarith
qed

lemma f_round_exact:
  assumes "f_is_finite x" "fval x = of_int i"
  shows "f_is_finite (f_round x) \<and> fval (f_round x) = of_int i"
proof (cases x)
  case (Fin m e)
  show ?thesis
  proof (cases "0 \<le> e")
    case True
    then show ?thesis using assms Fin by simp
  next
    case False
    define b :: int where "b = 2 ^ nat (- e)"
    have b: "0 < b" by (simp add: b_def)
    have "of_int m / of_int b = (of_int i :: real)"
      using assms(2) Fin False by (simp add: two_powr_neg b_def)
    then have "(of_int m :: real) = of_int (i * b)"
      using b by (simp add: field_simps)
    then have m: "m = i * b" by (simp only: of_int_eq_iff)
    have "(2 * \<bar>m\<bar> + b) div (2 * b) = \<bar>i\<bar>"
    proof -
      have "2 * \<bar>m\<bar> + b = \<bar>i\<bar> * (2 * b) + b" using b by (simp add: m abs_mult)
      moreover have "b div (2 * b) = 0" using b by (simp add: div_pos_pos_trivial)
      ultimately show ?thesis using b by (simp only: div_mult_self3)
    qed
    then show ?thesis
      using False b by (auto simp: Fin b_def [symmetric] Let_def m mult_less_0_iff)
  qed
qed (use assms in simp_all)

text \<open>Multiplying and dividing by small integers is exact in single precision.\<close>

lemma f_of_int_single:
  assumes "\<bar>i\<bar> < 16777216"
  shows "f_is_finite (f_of_int single i)" "fval (f_of_int single i) = of_int i"
  using f_of_int_exact [of single i] representable_of_int [of i single] assms by simp_all

end
