(* ===== verification/Playback_Types.thy ===== *)
theory Playback_Types
  imports Ieee
begin

text \<open>
  The data of the playback crate (\<open>playback/src/types.rs\<close>, \<open>Input\<close> of
  \<open>coordinator.rs\<close>): enums as datatypes with the source's variants, structs as records,
  \<open>i64\<close> and \<open>i32\<close> fields as integers (they are stored and compared, never computed
  with), \<open>f64\<close> fields as floating-point values compared with the IEEE equality.
\<close>

datatype media_type = Media_Unknown | Media_Audio | Media_Video

datatype player_presence = Presence_None | Presence_Present

datatype playback_phase = Phase_Starting | Phase_Playing | Phase_Paused | Phase_Stopped

datatype end_reason = End_Eof | End_Error | End_Canceled

record media_metadata =
  md_id :: string
  md_title :: string
  md_artist :: string
  md_album :: string
  md_track_number :: int
  md_duration_us :: int
  md_art_url :: string
  md_art_data_uri :: string
  md_media_type :: media_type

record buffered_range =
  start_ticks :: int
  end_ticks :: int

record playback_snapshot =
  presence :: player_presence
  phase :: playback_phase
  seeking :: bool
  buffering :: bool
  media_type :: media_type
  position_us :: int
  variant_switch_pending :: bool
  rate :: f64
  duration_us :: int
  fullscreen :: bool
  maximized_before_fullscreen :: bool
  display_hz :: f64
  buffered :: "buffered_range list"

definition default_snapshot :: playback_snapshot where
  "default_snapshot = \<lparr>presence = Presence_None, phase = Phase_Stopped, seeking = False,
     buffering = False, media_type = Media_Unknown, position_us = 0,
     variant_switch_pending = False, rate = Fin 0 0, duration_us = 0, fullscreen = False,
     maximized_before_fullscreen = False, display_hz = Fin 0 0, buffered = []\<rparr>"

definition fresh_snapshot :: playback_snapshot where
  "fresh_snapshot = default_snapshot\<lparr>rate := Fin 1 0\<rparr>"

datatype event_kind =
    Ev_Started | Ev_Paused | Ev_Finished | Ev_Canceled | Ev_Error
  | Ev_SeekingChanged | Ev_BufferingChanged | Ev_MediaTypeChanged | Ev_TrackLoaded
  | Ev_PositionChanged | Ev_DurationChanged | Ev_RateChanged | Ev_FullscreenChanged
  | Ev_BufferedRangesChanged | Ev_DisplayHzChanged | Ev_MetadataChanged
  | Ev_ArtworkChanged | Ev_QueueCapsChanged | Ev_Seeked

definition default_metadata :: media_metadata where
  "default_metadata = \<lparr>md_id = [], md_title = [], md_artist = [], md_album = [],
     md_track_number = 0, md_duration_us = 0, md_art_url = [], md_art_data_uri = [],
     md_media_type = Media_Unknown\<rparr>"

record playback_event =
  ev_kind :: event_kind
  ev_flag :: bool
  ev_error_message :: string
  ev_snapshot :: playback_snapshot
  ev_metadata :: media_metadata
  ev_artwork_uri :: string
  ev_can_go_next :: bool
  ev_can_go_prev :: bool

definition new_event :: "event_kind \<Rightarrow> playback_event" where
  "new_event k = \<lparr>ev_kind = k, ev_flag = False, ev_error_message = [],
     ev_snapshot = default_snapshot, ev_metadata = default_metadata, ev_artwork_uri = [],
     ev_can_go_next = False, ev_can_go_prev = False\<rparr>"

definition flag_event :: "event_kind \<Rightarrow> bool \<Rightarrow> playback_event" where
  "flag_event k b = (new_event k)\<lparr>ev_flag := b\<rparr>"

datatype playback_action = ApplyPendingTrackSelectionAndPlay

datatype input =
    FileLoaded
  | LoadStarting string
  | PauseChanged bool
  | EndFile end_reason string
  | SeekingChanged bool
  | PausedForCache bool
  | CoreIdle bool
  | Position int
  | MediaType media_type
  | VideoFrameAvailable bool
  | Speed f64
  | Duration int
  | Fullscreen bool bool
  | BufferedRanges "buffered_range list"
  | DisplayHz f64
  | Metadata media_metadata
  | Artwork string
  | QueueCaps bool bool
  | Seeked int

lemma ev_kind_new [simp]: "ev_kind (new_event k) = k" "ev_kind (flag_event k b) = k"
  by (simp_all add: new_event_def flag_event_def)

lemma ev_flag_new [simp]: "ev_flag (new_event k) = False" "ev_flag (flag_event k b) = b"
  by (simp_all add: new_event_def flag_event_def)

lemma new_event_inject [simp]: "new_event j = new_event k \<longleftrightarrow> j = k"
  by (metis ev_kind_new(1))

lemma fresh_snapshot_simps [simp]:
  "presence fresh_snapshot = Presence_None" "phase fresh_snapshot = Phase_Stopped"
  "seeking fresh_snapshot = False" "buffering fresh_snapshot = False"
  "media_type fresh_snapshot = Media_Unknown" "position_us fresh_snapshot = 0"
  "variant_switch_pending fresh_snapshot = False" "rate fresh_snapshot = Fin 1 0"
  "duration_us fresh_snapshot = 0" "fullscreen fresh_snapshot = False"
  "maximized_before_fullscreen fresh_snapshot = False" "display_hz fresh_snapshot = Fin 0 0"
  "buffered fresh_snapshot = []"
  by (simp_all add: fresh_snapshot_def default_snapshot_def)

end
