(* ===== verification/State_Machine.thy ===== *)
theory State_Machine
  imports Playback_Types
begin

text \<open>
  The playback state machine, \<open>playback/src/state_machine.rs\<close>: one function per
  \<open>on_*\<close> handler, taking the machine and returning it updated together with the
  events emitted, in order. \<open>consume_actions\<close> drains the pending actions.
\<close>

record playback_sm =
  snap :: playback_snapshot
  pending_load :: bool
  pause_requested :: bool
  paused_for_cache :: bool
  core_idle :: bool
  frame_available :: bool
  last_known_item_id :: string
  pending_actions :: "playback_action list"

definition new_sm :: playback_sm where
  "new_sm = \<lparr>snap = fresh_snapshot, pending_load = False, pause_requested = False,
     paused_for_cache = False, core_idle = False, frame_available = False,
     last_known_item_id = [], pending_actions = []\<rparr>"

definition consume_actions :: "playback_sm \<Rightarrow> playback_sm \<times> playback_action list" where
  "consume_actions m = (m\<lparr>pending_actions := []\<rparr>, pending_actions m)"

section \<open>Helpers\<close>

definition is_active_phase :: "playback_phase \<Rightarrow> bool" where
  "is_active_phase p \<longleftrightarrow> p = Phase_Starting \<or> p = Phase_Playing \<or> p = Phase_Paused"

definition ready_to_play :: "media_type \<Rightarrow> bool \<Rightarrow> bool" where
  "ready_to_play ty frame \<longleftrightarrow> ty \<noteq> Media_Video \<or> frame"

definition transition_to_playing :: "playback_snapshot \<Rightarrow> playback_event list
    \<Rightarrow> playback_snapshot \<times> playback_event list" where
  "transition_to_playing s out =
     (s\<lparr>phase := Phase_Playing, variant_switch_pending := False\<rparr>, out @ [new_event Ev_Started])"

definition apply_buffering_change :: "playback_snapshot \<Rightarrow> bool \<Rightarrow> bool \<Rightarrow> bool \<Rightarrow> bool
    \<Rightarrow> playback_snapshot \<times> playback_event list" where
  "apply_buffering_change s pfc idle play frame =
     (let combined = pfc \<or> idle in
      if buffering s = combined then (s, [])
      else let s' = s\<lparr>buffering := combined\<rparr>; out = [flag_event Ev_BufferingChanged combined] in
        if \<not> combined \<and> phase s' = Phase_Starting \<and> play \<and> ready_to_play (media_type s') frame
        then transition_to_playing s' out
        else (s', out))"

section \<open>Handlers\<close>

definition on_file_loaded :: "playback_sm \<Rightarrow> playback_sm \<times> playback_event list" where
  "on_file_loaded m =
     (m\<lparr>snap := (snap m)\<lparr>presence := Presence_Present, phase := Phase_Starting,
          seeking := False, buffering := paused_for_cache m \<or> core_idle m\<rparr>,
        pending_load := False, pause_requested := False, frame_available := False,
        pending_actions := pending_actions m @ [ApplyPendingTrackSelectionAndPlay]\<rparr>,
      [new_event Ev_TrackLoaded])"

definition on_load_starting :: "string \<Rightarrow> playback_sm \<Rightarrow> playback_sm \<times> playback_event list" where
  "on_load_starting item_id m =
     (m\<lparr>snap := (snap m)\<lparr>presence := Presence_Present, phase := Phase_Starting,
          seeking := False, buffering := paused_for_cache m \<or> core_idle m,
          variant_switch_pending := item_id \<noteq> [] \<and> item_id = last_known_item_id m\<rparr>,
        pending_load := True,
        last_known_item_id := (if item_id \<noteq> [] then item_id else last_known_item_id m),
        pause_requested := False, frame_available := False\<rparr>,
      [new_event Ev_TrackLoaded])"

definition on_pause_changed :: "bool \<Rightarrow> playback_sm \<Rightarrow> playback_sm \<times> playback_event list" where
  "on_pause_changed paused m =
     (if presence (snap m) = Presence_None then (m, [])
      else if phase (snap m) = Phase_Stopped then (m, [])
      else let m = m\<lparr>pause_requested := \<not> paused\<rparr> in
        if paused then
          if phase (snap m) = Phase_Paused then (m, [])
          else (m\<lparr>snap := (snap m)\<lparr>phase := Phase_Paused\<rparr>\<rparr>, [new_event Ev_Paused])
        else if phase (snap m) = Phase_Playing then (m, [])
        else if phase (snap m) = Phase_Paused then
          let (s, out) = transition_to_playing (snap m) [] in (m\<lparr>snap := s\<rparr>, out)
        else if phase (snap m) = Phase_Starting then
          if buffering (snap m) then (m, [])
          else if \<not> ready_to_play (media_type (snap m)) (frame_available m) then (m, [])
          else let (s, out) = transition_to_playing (snap m) [] in (m\<lparr>snap := s\<rparr>, out)
        else (m, []))"

definition on_end_file :: "end_reason \<Rightarrow> string \<Rightarrow> playback_sm \<Rightarrow> playback_sm \<times> playback_event list"
where
  "on_end_file reason msg m =
     (let s = snap m;
          out1 = (if seeking s then [flag_event Ev_SeekingChanged False] else []);
          out2 = (if buffering s then [flag_event Ev_BufferingChanged False] else []);
          s = s\<lparr>seeking := False, buffering := False\<rparr>
      in if pending_load m \<and> reason \<noteq> End_Error then
           (m\<lparr>snap := s\<lparr>presence := Presence_Present, phase := Phase_Starting\<rparr>,
              pending_load := False\<rparr>, out1 @ out2)
         else
           (m\<lparr>snap := s\<lparr>presence := Presence_None, phase := Phase_Stopped, position_us := 0,
                variant_switch_pending := False\<rparr>,
              pending_load := False, pause_requested := False, last_known_item_id := []\<rparr>,
            out1 @ out2 @
              [case reason of
                 End_Eof \<Rightarrow> new_event Ev_Finished
               | End_Canceled \<Rightarrow> new_event Ev_Canceled
               | End_Error \<Rightarrow> (new_event Ev_Error)\<lparr>ev_error_message := msg\<rparr>]))"

definition on_seeking_changed :: "bool \<Rightarrow> playback_sm \<Rightarrow> playback_sm \<times> playback_event list" where
  "on_seeking_changed b m =
     (if \<not> is_active_phase (phase (snap m)) then (m, [])
      else if seeking (snap m) = b then (m, [])
      else (m\<lparr>snap := (snap m)\<lparr>seeking := b\<rparr>\<rparr>, [flag_event Ev_SeekingChanged b]))"

definition on_paused_for_cache :: "bool \<Rightarrow> playback_sm \<Rightarrow> playback_sm \<times> playback_event list" where
  "on_paused_for_cache pfc m =
     (if paused_for_cache m = pfc then (m, [])
      else let m = m\<lparr>paused_for_cache := pfc\<rparr> in
        if \<not> is_active_phase (phase (snap m)) then (m, [])
        else let (s, out) = apply_buffering_change (snap m) (paused_for_cache m) (core_idle m)
                   (pause_requested m) (frame_available m)
             in (m\<lparr>snap := s\<rparr>, out))"

definition on_core_idle :: "bool \<Rightarrow> playback_sm \<Rightarrow> playback_sm \<times> playback_event list" where
  "on_core_idle idle m =
     (if core_idle m = idle then (m, [])
      else let m = m\<lparr>core_idle := idle\<rparr> in
        if \<not> is_active_phase (phase (snap m)) then (m, [])
        else let (s, out) = apply_buffering_change (snap m) (paused_for_cache m) (core_idle m)
                   (pause_requested m) (frame_available m)
             in (m\<lparr>snap := s\<rparr>, out))"

definition on_position :: "int \<Rightarrow> playback_sm \<Rightarrow> playback_sm \<times> playback_event list" where
  "on_position p m =
     (if position_us (snap m) = p \<and> \<not> seeking (snap m) then (m, [])
      else (m\<lparr>snap := (snap m)\<lparr>position_us := p, seeking := False\<rparr>\<rparr>,
            (if seeking (snap m) then [flag_event Ev_SeekingChanged False] else [])
              @ [new_event Ev_PositionChanged]))"

definition on_media_type :: "media_type \<Rightarrow> playback_sm \<Rightarrow> playback_sm \<times> playback_event list" where
  "on_media_type ty m =
     (if media_type (snap m) = ty then (m, [])
      else let s = (snap m)\<lparr>media_type := ty\<rparr>; out = [new_event Ev_MediaTypeChanged] in
        if phase s = Phase_Starting \<and> pause_requested m \<and> \<not> buffering s
           \<and> ready_to_play (media_type s) (frame_available m)
        then let (s', out') = transition_to_playing s out in (m\<lparr>snap := s'\<rparr>, out')
        else (m\<lparr>snap := s\<rparr>, out))"

definition on_video_frame_available :: "bool \<Rightarrow> playback_sm \<Rightarrow> playback_sm \<times> playback_event list"
where
  "on_video_frame_available av m =
     (if frame_available m = av then (m, [])
      else let m = m\<lparr>frame_available := av\<rparr> in
        if \<not> av then (m, [])
        else if phase (snap m) \<noteq> Phase_Starting then (m, [])
        else if \<not> pause_requested m then (m, [])
        else if buffering (snap m) then (m, [])
        else let (s, out) = transition_to_playing (snap m) [] in (m\<lparr>snap := s\<rparr>, out))"

definition on_speed :: "f64 \<Rightarrow> playback_sm \<Rightarrow> playback_sm \<times> playback_event list" where
  "on_speed r m =
     (if f_eq (rate (snap m)) r then (m, [])
      else (m\<lparr>snap := (snap m)\<lparr>rate := r\<rparr>\<rparr>, [new_event Ev_RateChanged]))"

definition on_duration :: "int \<Rightarrow> playback_sm \<Rightarrow> playback_sm \<times> playback_event list" where
  "on_duration d m =
     (if duration_us (snap m) = d then (m, [])
      else (m\<lparr>snap := (snap m)\<lparr>duration_us := d\<rparr>\<rparr>, [new_event Ev_DurationChanged]))"

definition on_fullscreen :: "bool \<Rightarrow> bool \<Rightarrow> playback_sm \<Rightarrow> playback_sm \<times> playback_event list" where
  "on_fullscreen fs was_max m =
     (if fullscreen (snap m) = fs then (m, [])
      else (m\<lparr>snap := (snap m)\<lparr>fullscreen := fs,
                maximized_before_fullscreen := (if fs then was_max else False)\<rparr>\<rparr>,
            [new_event Ev_FullscreenChanged]))"

definition on_buffered_ranges :: "buffered_range list \<Rightarrow> playback_sm \<Rightarrow> playback_sm \<times> playback_event list"
where
  "on_buffered_ranges rs m =
     (if rs = buffered (snap m) then (m, [])
      else (m\<lparr>snap := (snap m)\<lparr>buffered := rs\<rparr>\<rparr>, [new_event Ev_BufferedRangesChanged]))"

definition on_display_hz :: "f64 \<Rightarrow> playback_sm \<Rightarrow> playback_sm \<times> playback_event list" where
  "on_display_hz hz m =
     (if f_eq (display_hz (snap m)) hz then (m, [])
      else (m\<lparr>snap := (snap m)\<lparr>display_hz := hz\<rparr>\<rparr>, [new_event Ev_DisplayHzChanged]))"

lemmas handler_defs [step_defs] =
  on_file_loaded_def on_load_starting_def on_pause_changed_def on_end_file_def
  on_seeking_changed_def on_paused_for_cache_def on_core_idle_def on_position_def
  on_media_type_def on_video_frame_available_def on_speed_def on_duration_def
  on_fullscreen_def on_buffered_ranges_def on_display_hz_def

lemma is_active_phase_iff [simp]: "is_active_phase p \<longleftrightarrow> p \<noteq> Phase_Stopped"
  by (cases p) (simp_all add: is_active_phase_def)

lemmas helper_defs =
  transition_to_playing_def apply_buffering_change_def ready_to_play_def

section \<open>One input\<close>

text \<open>
  \<open>apply\<close> of \<open>coordinator.rs\<close>: the handler an input selects, with the events of the
  inputs that pass through the coordinator only.
\<close>

fun apply_input :: "playback_sm \<Rightarrow> input \<Rightarrow> playback_sm \<times> playback_event list" where
  "apply_input m FileLoaded = on_file_loaded m"
| "apply_input m (LoadStarting i) = on_load_starting i m"
| "apply_input m (PauseChanged p) = on_pause_changed p m"
| "apply_input m (EndFile r msg) = on_end_file r msg m"
| "apply_input m (SeekingChanged b) = on_seeking_changed b m"
| "apply_input m (PausedForCache b) = on_paused_for_cache b m"
| "apply_input m (CoreIdle b) = on_core_idle b m"
| "apply_input m (Position p) = on_position p m"
| "apply_input m (MediaType t) = on_media_type t m"
| "apply_input m (VideoFrameAvailable a) = on_video_frame_available a m"
| "apply_input m (Speed r) = on_speed r m"
| "apply_input m (Duration d) = on_duration d m"
| "apply_input m (Fullscreen fs mx) = on_fullscreen fs mx m"
| "apply_input m (BufferedRanges rs) = on_buffered_ranges rs m"
| "apply_input m (DisplayHz h) = on_display_hz h m"
| "apply_input m (Metadata md) =
     (let (m', out) = on_media_type (md_media_type md) m
      in (m', out @ [(new_event Ev_MetadataChanged)\<lparr>ev_metadata := md\<rparr>]))"
| "apply_input m (Artwork uri) = (m, [(new_event Ev_ArtworkChanged)\<lparr>ev_artwork_uri := uri\<rparr>])"
| "apply_input m (QueueCaps n p) =
     (m, [(new_event Ev_QueueCapsChanged)\<lparr>ev_can_go_next := n, ev_can_go_prev := p\<rparr>])"
| "apply_input m (Seeked p) =
     (let (m', out) = on_position p m in (m', out @ [new_event Ev_Seeked]))"

section \<open>The invariant\<close>

text \<open>
  What the handlers keep true between the fields: the player is present exactly when it
  is not stopped; a stopped machine carries nothing over from the last track; a playing
  machine was asked to play, a paused one was not; the buffering flag needs one of mpv's
  two reasons; the maximized mirror is only set in fullscreen.
\<close>

definition sm_inv :: "playback_sm \<Rightarrow> bool" where
  "sm_inv m \<longleftrightarrow>
     (presence (snap m) = Presence_None \<longleftrightarrow> phase (snap m) = Phase_Stopped) \<and>
     (phase (snap m) = Phase_Stopped \<longrightarrow>
        \<not> seeking (snap m) \<and> \<not> buffering (snap m) \<and> \<not> variant_switch_pending (snap m) \<and>
        \<not> pending_load m \<and> \<not> pause_requested m \<and> last_known_item_id m = []) \<and>
     (phase (snap m) = Phase_Playing \<longrightarrow>
        pause_requested m \<and> \<not> variant_switch_pending (snap m)) \<and>
     (phase (snap m) = Phase_Paused \<longrightarrow> \<not> pause_requested m) \<and>
     (buffering (snap m) \<longrightarrow> paused_for_cache m \<or> core_idle m) \<and>
     (maximized_before_fullscreen (snap m) \<longrightarrow> fullscreen (snap m))"

lemma presence_not_None [simp]: "p \<noteq> Presence_None \<longleftrightarrow> p = Presence_Present"
  by (cases p) simp_all

lemma sm_inv_new [inv_intros]: "sm_inv new_sm"
  by (simp add: sm_inv_def new_sm_def)

lemma sm_inv_file_loaded [inv_intros]: "sm_inv m \<Longrightarrow> sm_inv (fst (on_file_loaded m))"
  by (auto simp: sm_inv_def on_file_loaded_def)

lemma sm_inv_load_starting [inv_intros]: "sm_inv m \<Longrightarrow> sm_inv (fst (on_load_starting i m))"
  by (auto simp: sm_inv_def on_load_starting_def)

lemma sm_inv_pause_changed [inv_intros]: "sm_inv m \<Longrightarrow> sm_inv (fst (on_pause_changed b m))"
  by (auto simp: sm_inv_def on_pause_changed_def transition_to_playing_def Let_def)

lemma sm_inv_end_file [inv_intros]: "sm_inv m \<Longrightarrow> sm_inv (fst (on_end_file r msg m))"
  by (auto simp: sm_inv_def on_end_file_def Let_def)

lemma sm_inv_seeking_changed [inv_intros]: "sm_inv m \<Longrightarrow> sm_inv (fst (on_seeking_changed b m))"
  by (auto simp: sm_inv_def on_seeking_changed_def)

lemma sm_inv_paused_for_cache [inv_intros]: "sm_inv m \<Longrightarrow> sm_inv (fst (on_paused_for_cache b m))"
  by (auto simp: sm_inv_def on_paused_for_cache_def helper_defs Let_def)

lemma sm_inv_core_idle [inv_intros]: "sm_inv m \<Longrightarrow> sm_inv (fst (on_core_idle b m))"
  by (auto simp: sm_inv_def on_core_idle_def helper_defs Let_def)

lemma sm_inv_position [inv_intros]: "sm_inv m \<Longrightarrow> sm_inv (fst (on_position p m))"
  by (auto simp: sm_inv_def on_position_def)

lemma sm_inv_media_type [inv_intros]: "sm_inv m \<Longrightarrow> sm_inv (fst (on_media_type t m))"
  by (auto simp: sm_inv_def on_media_type_def transition_to_playing_def Let_def)

lemma sm_inv_video_frame [inv_intros]: "sm_inv m \<Longrightarrow> sm_inv (fst (on_video_frame_available b m))"
  by (auto simp: sm_inv_def on_video_frame_available_def transition_to_playing_def Let_def)

lemma sm_inv_plain [inv_intros]:
  "sm_inv m \<Longrightarrow> sm_inv (fst (on_speed r m))"
  "sm_inv m \<Longrightarrow> sm_inv (fst (on_duration d m))"
  "sm_inv m \<Longrightarrow> sm_inv (fst (on_fullscreen fs mx m))"
  "sm_inv m \<Longrightarrow> sm_inv (fst (on_buffered_ranges rs m))"
  "sm_inv m \<Longrightarrow> sm_inv (fst (on_display_hz h m))"
  by (auto simp: sm_inv_def on_speed_def on_duration_def on_fullscreen_def
      on_buffered_ranges_def on_display_hz_def)

lemma sm_inv_apply: "sm_inv m \<Longrightarrow> sm_inv (fst (apply_input m i))"
  by (cases i) (simp_all add: inv_intros split_beta Let_def)

lemma sm_inv_consume: "sm_inv m \<Longrightarrow> sm_inv (fst (consume_actions m))"
  by (simp add: sm_inv_def consume_actions_def)

interpretation psm: machine apply_input new_sm sm_inv "\<lambda>_. True"
  by unfold_locales (simp_all add: sm_inv_new sm_inv_apply)

text \<open>
  C6: In every state the machine reaches from its start, whatever the inputs, the player
  is present exactly when the phase is not Stopped; a stopped machine has no seek, no
  buffering, no pending load, no play request and no remembered item; a playing machine
  has a play request and no pending variant switch; a paused one has no play request;
  buffering is only ever reported while mpv gives a reason for it.
\<close>

theorem reachable_inv: "sm_inv (fst (run_steps apply_input new_sm is))"
  by (rule psm.reach_inv)

section \<open>What the events say\<close>

fun phase_after :: "playback_phase \<Rightarrow> event_kind \<Rightarrow> playback_phase" where
  "phase_after p Ev_Started = Phase_Playing"
| "phase_after p Ev_Paused = Phase_Paused"
| "phase_after p Ev_TrackLoaded = Phase_Starting"
| "phase_after p Ev_Finished = Phase_Stopped"
| "phase_after p Ev_Canceled = Phase_Stopped"
| "phase_after p Ev_Error = Phase_Stopped"
| "phase_after p _ = p"

abbreviation kinds :: "playback_event list \<Rightarrow> event_kind list" where
  "kinds \<equiv> map ev_kind"

definition observed_phase :: "playback_phase \<Rightarrow> playback_event list \<Rightarrow> playback_phase" where
  "observed_phase p evs = foldl phase_after p (kinds evs)"

text \<open>An end-of-file the machine hides because a fresh load is in flight.\<close>

fun swallows :: "playback_sm \<Rightarrow> input \<Rightarrow> bool" where
  "swallows m (EndFile r _) = (pending_load m \<and> r \<noteq> End_Error)"
| "swallows m _ = False"

definition is_terminal :: "event_kind \<Rightarrow> bool" where
  "is_terminal k \<longleftrightarrow> k = Ev_Finished \<or> k = Ev_Canceled \<or> k = Ev_Error"

lemma observed_phase_simps [simp]:
  "observed_phase p [] = p"
  "observed_phase p (e # es) = observed_phase (phase_after p (ev_kind e)) es"
  "observed_phase p (es @ es') = observed_phase (observed_phase p es) es'"
  by (simp_all add: observed_phase_def)

lemma phase_from_events:
  "phase (snap (fst (apply_input m i))) =
     (if swallows m i then Phase_Starting
      else observed_phase (phase (snap m)) (snd (apply_input m i)))"
proof (cases i)
  case (EndFile r msg)
  then show ?thesis by (cases r) (simp_all add: on_end_file_def Let_def)
qed (auto simp: step_defs helper_defs Let_def)

text \<open>The kinds that carry a phase carry it whatever was known before.\<close>

definition carries_phase :: "event_kind \<Rightarrow> bool" where
  "carries_phase k \<longleftrightarrow> k \<in> {Ev_Started, Ev_Paused, Ev_TrackLoaded, Ev_Finished, Ev_Canceled, Ev_Error}"

lemma phase_after_other: "\<not> carries_phase k \<Longrightarrow> phase_after p k = p"
  by (cases k) (simp_all add: carries_phase_def)

lemma phase_after_carrier: "carries_phase k \<Longrightarrow> phase_after p k = phase_after q k"
  by (cases k) (simp_all add: carries_phase_def)

lemma observed_silent: "\<not> list_ex carries_phase (kinds evs) \<Longrightarrow> observed_phase p evs = p"
  by (induction evs arbitrary: p) (simp_all add: phase_after_other)

lemma observed_carried: "list_ex carries_phase (kinds evs) \<Longrightarrow> observed_phase p evs = observed_phase q evs"
proof (induction evs arbitrary: p q)
  case (Cons e evs)
  then show ?case by (cases "carries_phase (ev_kind e)") (auto simp: phase_after_other phase_after_carrier [of _ p q])
qed simp

lemma swallowed_is_silent: "swallows m i \<Longrightarrow> \<not> list_ex carries_phase (kinds (snd (apply_input m i)))"
  by (cases i) (auto simp: on_end_file_def Let_def carries_phase_def new_event_def flag_event_def)

text \<open>A hidden end-of-file stays the last word about the phase while nothing carries one.\<close>

lemma hidden_extends:
  assumes "m = fst (run_steps apply_input new_sm (before @ j # since))"
    and "\<not> list_ex carries_phase (kinds (snd (run_steps apply_input (fst (run_steps apply_input new_sm before)) (j # since))))"
    and "\<not> list_ex carries_phase (kinds (snd (apply_input m i)))"
  shows "\<not> list_ex carries_phase (kinds (snd (run_steps apply_input (fst (run_steps apply_input new_sm before)) (j # since @ [i]))))"
proof -
  let ?b = "fst (run_steps apply_input new_sm before)"
  have "m = fst (run_steps apply_input ?b (j # since))"
    unfolding assms(1) by (simp add: run_steps_append split_beta Let_def del: run_steps.simps(2))
  then have "snd (run_steps apply_input ?b (j # since @ [i])) =
      snd (run_steps apply_input ?b (j # since)) @ snd (apply_input m i)"
    using run_steps_append [of apply_input ?b "j # since" "[i]"]
    by (simp add: run_steps_single split_beta Let_def del: run_steps.simps(2))
  then show ?thesis using assms(2,3) by (simp del: run_steps.simps(2))
qed

text \<open>
  C7: A consumer that folds the phase-carrying events (Started, Paused, TrackLoaded and the
  three terminal ones) of a whole run, from the start, is at the machine's own phase after any
  sequence of inputs - with one exception, and no other: an end-of-file was hidden during a track
  switch, no phase-carrying event came since, and the machine is still in Starting.
\<close>

theorem events_determine_phase:
  "observed_phase Phase_Stopped (snd (run_steps apply_input new_sm is)) =
     phase (snap (fst (run_steps apply_input new_sm is))) \<or>
   phase (snap (fst (run_steps apply_input new_sm is))) = Phase_Starting \<and>
   (\<exists>before i since. is = before @ i # since \<and> swallows (fst (run_steps apply_input new_sm before)) i \<and>
      \<not> list_ex carries_phase (kinds (snd (run_steps apply_input (fst (run_steps apply_input new_sm before)) (i # since)))))"
proof (induction "is" rule: rev_induct)
  case Nil
  then show ?case by (simp add: new_sm_def)
next
  case (snoc i js)
  define m where "m = fst (run_steps apply_input new_sm js)"
  have run: "run_steps apply_input new_sm (js @ [i]) =
      (fst (apply_input m i), snd (run_steps apply_input new_sm js) @ snd (apply_input m i))"
    by (simp add: run_steps_append run_steps_single m_def split_beta Let_def)
  show ?case
  proof (cases "swallows m i")
    case True
    then have "phase (snap (fst (apply_input m i))) = Phase_Starting" using phase_from_events [of m i] by simp
    moreover have "\<not> list_ex carries_phase (kinds (snd (run_steps apply_input m [i])))"
      unfolding run_steps_single by (rule swallowed_is_silent [OF True])
    ultimately show ?thesis using True unfolding run m_def fst_conv snd_conv by blast
  next
    case False
    then have ph: "phase (snap (fst (apply_input m i))) = observed_phase (phase (snap m)) (snd (apply_input m i))"
      using phase_from_events [of m i] by simp
    show ?thesis
    proof (cases "list_ex carries_phase (kinds (snd (apply_input m i)))")
      case True
      then show ?thesis using ph observed_carried [OF True] unfolding run by simp
    next
      case quiet: False
      from snoc.IH consider (same) "observed_phase Phase_Stopped (snd (run_steps apply_input new_sm js)) = phase (snap m)"
        | (hidden) before j since where "phase (snap m) = Phase_Starting" "js = before @ j # since"
            "swallows (fst (run_steps apply_input new_sm before)) j"
            "\<not> list_ex carries_phase (kinds (snd (run_steps apply_input (fst (run_steps apply_input new_sm before)) (j # since))))"
        unfolding m_def by blast
      then show ?thesis
      proof cases
        case same
        then show ?thesis using ph unfolding run by simp
      next
        case hidden
        have "\<not> list_ex carries_phase (kinds (snd (run_steps apply_input (fst (run_steps apply_input new_sm before)) (j # since @ [i]))))"
          using hidden_extends [OF _ hidden(4) quiet] hidden(2) by (simp add: m_def)
        moreover have "phase (snap (fst (apply_input m i))) = Phase_Starting" using ph observed_silent [OF quiet] hidden(1) by simp
        moreover have "js @ [i] = before @ j # (since @ [i])" using hidden(2) by simp
        ultimately show ?thesis using hidden(3) unfolding run fst_conv snd_conv by blast
      qed
    qed
  qed
qed

text \<open>
  The Started event is only emitted on entering Playing from Starting or Paused, with
  a play request standing; when it ends Starting, the machine is not buffering and, for
  video, the first frame is up.
\<close>

theorem started_gate:
  assumes "Ev_Started \<in> set (kinds (snd (apply_input m i)))"
  shows "phase (snap (fst (apply_input m i))) = Phase_Playing \<and>
         pause_requested (fst (apply_input m i)) \<and>
         (phase (snap m) = Phase_Paused \<or>
          phase (snap m) = Phase_Starting \<and> \<not> buffering (snap (fst (apply_input m i))) \<and>
          ready_to_play (media_type (snap (fst (apply_input m i))))
            (frame_available (fst (apply_input m i))))"
  using assms
proof (cases i)
  case (EndFile r msg)
  then show ?thesis using assms by (cases r) (auto simp: on_end_file_def Let_def split: if_splits)
qed (auto simp: step_defs helper_defs Let_def split: if_splits)

theorem started_gate_witness:
  "Ev_Started \<in> set (kinds (snd (apply_input (fst (apply_input new_sm FileLoaded)) (PauseChanged False)))) \<and>
   phase (snap (fst (apply_input (fst (apply_input new_sm FileLoaded)) (PauseChanged False)))) = Phase_Playing"
proof -
  let ?m = "fst (apply_input new_sm FileLoaded)"
  have h: "Ev_Started \<in> set (kinds (snd (apply_input ?m (PauseChanged False))))"
    by (simp add: new_sm_def on_file_loaded_def on_pause_changed_def helper_defs Let_def)
  from started_gate [OF h] h show ?thesis by blast
qed

text \<open>The inputs that mirror an mpv property.\<close>

fun edge_triggered :: "input \<Rightarrow> bool" where
  "edge_triggered (PauseChanged _) = True"
| "edge_triggered (SeekingChanged _) = True"
| "edge_triggered (PausedForCache _) = True"
| "edge_triggered (CoreIdle _) = True"
| "edge_triggered (Position _) = True"
| "edge_triggered (MediaType _) = True"
| "edge_triggered (VideoFrameAvailable _) = True"
| "edge_triggered (Speed r) = (r \<noteq> NaN)"
| "edge_triggered (Duration _) = True"
| "edge_triggered (Fullscreen _ _) = True"
| "edge_triggered (BufferedRanges _) = True"
| "edge_triggered (DisplayHz h) = (h \<noteq> NaN)"
| "edge_triggered _ = False"

text \<open>
  Inputs that mirror an mpv property are edge-triggered: repeating the input at once
  changes nothing and emits nothing (a speed or refresh rate of NaN aside, which compares
  unequal to itself).
\<close>

theorem repeated_input_silent:
  assumes "edge_triggered i"
  shows "apply_input (fst (apply_input m i)) i = (fst (apply_input m i), [])"
  using assms by (cases i) (auto simp: step_defs helper_defs Let_def f_eq_refl)

theorem repeated_input_silent_witness:
  "edge_triggered (Speed (Fin 3 (-1))) \<and>
   apply_input (fst (apply_input new_sm (Speed (Fin 3 (-1))))) (Speed (Fin 3 (-1)))
     = (fst (apply_input new_sm (Speed (Fin 3 (-1)))), [])"
proof -
  have h: "edge_triggered (Speed (Fin 3 (-1)))" by simp
  from h repeated_input_silent [OF h, of new_sm] show ?thesis by blast
qed

text \<open>
  An end of file that is not hidden emits exactly one terminal event, last, of the kind
  its reason selects and carrying the message only for an error, and resets the machine
  to Stopped at position zero; a hidden one emits no terminal event and goes to Starting;
  an error is never hidden.
\<close>

theorem end_file_outcome:
  "(swallows m (EndFile r msg) \<longrightarrow> r \<noteq> End_Error) \<and>
   filter (\<lambda>e. is_terminal (ev_kind e)) (snd (apply_input m (EndFile r msg))) =
     (if swallows m (EndFile r msg) then []
      else [(new_event (case r of End_Eof \<Rightarrow> Ev_Finished | End_Canceled \<Rightarrow> Ev_Canceled
               | End_Error \<Rightarrow> Ev_Error))
              \<lparr>ev_error_message := (if r = End_Error then msg else [])\<rparr>]) \<and>
   (let s = snap (fst (apply_input m (EndFile r msg))) in
      \<not> seeking s \<and> \<not> buffering s \<and>
      (if swallows m (EndFile r msg)
       then phase s = Phase_Starting \<and> position_us s = position_us (snap m)
       else phase s = Phase_Stopped \<and> presence s = Presence_None \<and> position_us s = 0 \<and>
            last (kinds (snd (apply_input m (EndFile r msg)))) =
              (case r of End_Eof \<Rightarrow> Ev_Finished | End_Canceled \<Rightarrow> Ev_Canceled
               | End_Error \<Rightarrow> Ev_Error)))"
  by (cases r) (auto simp: on_end_file_def is_terminal_def Let_def new_event_def)

theorem end_file_outcome_witness:
  "filter (\<lambda>e. is_terminal (ev_kind e)) (snd (apply_input new_sm (EndFile End_Error ''boom'')))
     = [(new_event Ev_Error)\<lparr>ev_error_message := ''boom''\<rparr>]"
  using end_file_outcome [of new_sm End_Error "''boom''"] by (simp add: new_sm_def del: apply_input.simps)

text \<open>
  The variant-switch mark is set by a load of the item already known and by nothing
  else; from then on it is kept by every input until playback starts, a terminal event is
  emitted or another load begins.
\<close>

theorem variant_switch_span:
  "variant_switch_pending (snap (fst (apply_input m i))) \<longleftrightarrow>
     (case i of
        LoadStarting item \<Rightarrow> item \<noteq> [] \<and> item = last_known_item_id m
      | _ \<Rightarrow> variant_switch_pending (snap m) \<and>
            (\<forall>e \<in> set (snd (apply_input m i)). ev_kind e \<noteq> Ev_Started \<and> \<not> is_terminal (ev_kind e)))"
proof (cases i)
  case (EndFile r msg)
  then show ?thesis by (cases r) (auto simp: on_end_file_def is_terminal_def Let_def)
qed (auto simp: step_defs helper_defs is_terminal_def Let_def)

theorem variant_switch_span_witness:
  "variant_switch_pending (snap (fst (apply_input
     (fst (apply_input new_sm (LoadStarting ''a''))) (LoadStarting ''a''))))"
  using variant_switch_span [of "fst (apply_input new_sm (LoadStarting ''a''))" "LoadStarting ''a''"]
  by (simp add: on_load_starting_def new_sm_def)

text \<open>
  A play request right after a hidden end of file starts playback although mpv still
  reports its core idle: the hidden end of file clears the buffering flag that the two
  load handlers recompute, so the flag no longer gates the start.
\<close>

theorem hidden_end_file_drops_idle_gate:
  "let (m, evs) = run_steps apply_input new_sm
         [LoadStarting [], CoreIdle True, EndFile End_Eof [], PauseChanged False]
   in core_idle m \<and> phase (snap m) = Phase_Playing \<and> Ev_Started \<in> set (kinds evs)"
  by (simp add: new_sm_def step_defs helper_defs Let_def)

end
