(* ===== verification/Coordinator.thy ===== *)
theory Coordinator
  imports State_Machine
begin

text \<open>
  The coordinator, \<open>playback/src/coordinator.rs\<close>: a queue of inputs any thread posts to,
  one worker that drains it in batches through the state machine, a published snapshot,
  and four lists of sinks the worker hands the batch's events and actions to. Sinks are
  identified by values of a type parameter; what they receive is recorded in order. The
  interleaving of producers and worker is the step relation \<open>coord_step\<close>, labelled with
  what happened: the worker may find any non-empty prefix of the queue when it drains it.
\<close>

section \<open>A batch\<close>

fun run_batch :: "playback_sm \<Rightarrow> input list
    \<Rightarrow> playback_sm \<times> playback_event list \<times> playback_action list" where
  "run_batch m [] = (m, [], [])"
| "run_batch m (i # is) =
     (let (m1, evs) = apply_input m i; (m2, acts) = consume_actions m1;
          (m3, evs', acts') = run_batch m2 is
      in (m3, evs @ evs', acts @ acts'))"

definition stamp :: "playback_snapshot \<Rightarrow> playback_event \<Rightarrow> playback_event" where
  "stamp s e = e\<lparr>ev_snapshot := s\<rparr>"

definition worker_batch :: "playback_sm \<Rightarrow> input list
    \<Rightarrow> playback_sm \<times> playback_event list \<times> playback_action list" where
  "worker_batch m is =
     (let (m', evs, acts) = run_batch m is in (m', map (stamp (snap m')) evs, acts))"

section \<open>The shared state\<close>

datatype stage = Stage_Events | Stage_Actions | Stage_Builtin_Events | Stage_Builtin_Actions

datatype worker =
    Worker_Not_Started
  | Worker_Waiting playback_sm
  | Worker_Dispatching stage playback_sm "playback_event list" "playback_action list"
  | Worker_Exited

datatype 'k delivery = Event_To 'k playback_event | Action_To 'k playback_action

record 'k coordinator =
  accepting :: bool
  queue :: "input list"
  worker :: worker
  published :: playback_snapshot
  event_sinks :: "'k list"
  action_sinks :: "'k list"
  builtin_event_sinks :: "'k list"
  builtin_action_sinks :: "'k list"
  delivered :: "'k delivery list"

definition new_coordinator :: "'k coordinator" where
  "new_coordinator = \<lparr>accepting = True, queue = [], worker = Worker_Not_Started,
     published = fresh_snapshot, event_sinks = [], action_sinks = [],
     builtin_event_sinks = [], builtin_action_sinks = [], delivered = []\<rparr>"

definition enqueue :: "input \<Rightarrow> 'k coordinator \<Rightarrow> 'k coordinator" where
  "enqueue i c = (if accepting c then c\<lparr>queue := queue c @ [i]\<rparr> else c)"

definition start :: "'k coordinator \<Rightarrow> 'k coordinator" where
  "start c = (if worker c = Worker_Not_Started then c\<lparr>worker := Worker_Waiting new_sm\<rparr> else c)"

text \<open>
  \<open>stop\<close> drops the sender; its join returns once the worker has exited, which the worker
  does when it waits on an empty queue nobody can post to any more.
\<close>

definition stop :: "'k coordinator \<Rightarrow> 'k coordinator" where
  "stop c = c\<lparr>accepting := False\<rparr>"

definition add_event_sink :: "'k \<Rightarrow> 'k coordinator \<Rightarrow> 'k coordinator" where
  "add_event_sink k c = c\<lparr>event_sinks := event_sinks c @ [k]\<rparr>"

definition add_action_sink :: "'k \<Rightarrow> 'k coordinator \<Rightarrow> 'k coordinator" where
  "add_action_sink k c = c\<lparr>action_sinks := action_sinks c @ [k]\<rparr>"

definition add_builtin_event_sink :: "'k \<Rightarrow> 'k coordinator \<Rightarrow> 'k coordinator" where
  "add_builtin_event_sink k c = c\<lparr>builtin_event_sinks := builtin_event_sinks c @ [k]\<rparr>"

definition add_builtin_action_sink :: "'k \<Rightarrow> 'k coordinator \<Rightarrow> 'k coordinator" where
  "add_builtin_action_sink k c = c\<lparr>builtin_action_sinks := builtin_action_sinks c @ [k]\<rparr>"

text \<open>The worker receives a batch: transitions, stamping, publication.\<close>

definition receive_batch :: "input list \<Rightarrow> playback_sm \<Rightarrow> 'k coordinator \<Rightarrow> 'k coordinator" where
  "receive_batch batch m c =
     (let (m', evs, acts) = worker_batch m batch
      in c\<lparr>queue := drop (length batch) (queue c), published := snap m',
           worker := Worker_Dispatching Stage_Events m' evs acts\<rparr>)"

definition to_all :: "('k \<Rightarrow> 'e \<Rightarrow> 'k delivery) \<Rightarrow> 'k list \<Rightarrow> 'e list \<Rightarrow> 'k delivery list" where
  "to_all d sinks es = concat (map (\<lambda>k. map (d k) es) sinks)"

fun dispatch_stage :: "stage \<Rightarrow> playback_sm \<Rightarrow> playback_event list \<Rightarrow> playback_action list
    \<Rightarrow> 'k coordinator \<Rightarrow> 'k coordinator" where
  "dispatch_stage Stage_Events m evs acts c =
     c\<lparr>delivered := delivered c @ to_all Event_To (event_sinks c) evs,
       worker := Worker_Dispatching Stage_Actions m evs acts\<rparr>"
| "dispatch_stage Stage_Actions m evs acts c =
     c\<lparr>delivered := delivered c @ to_all Action_To (action_sinks c) acts,
       worker := Worker_Dispatching Stage_Builtin_Events m evs acts\<rparr>"
| "dispatch_stage Stage_Builtin_Events m evs acts c =
     c\<lparr>delivered := delivered c @ to_all Event_To (builtin_event_sinks c) evs,
       worker := Worker_Dispatching Stage_Builtin_Actions m evs acts\<rparr>"
| "dispatch_stage Stage_Builtin_Actions m evs acts c =
     c\<lparr>delivered := delivered c @ to_all Action_To (builtin_action_sinks c) acts,
       worker := Worker_Waiting m\<rparr>"

section \<open>Steps\<close>

datatype 'k label =
    L_Enqueue input
  | L_Dropped input
  | L_Batch "input list"
  | L_Dispatch
  | L_Exit
  | L_Control

inductive coord_step :: "'k coordinator \<Rightarrow> 'k label \<Rightarrow> 'k coordinator \<Rightarrow> bool" where
  step_enqueue: "accepting c \<Longrightarrow> coord_step c (L_Enqueue i) (enqueue i c)"
| step_dropped: "\<not> accepting c \<Longrightarrow> coord_step c (L_Dropped i) (enqueue i c)"
| step_start: "coord_step c L_Control (start c)"
| step_stop: "coord_step c L_Control (stop c)"
| step_add_event: "coord_step c L_Control (add_event_sink k c)"
| step_add_action: "coord_step c L_Control (add_action_sink k c)"
| step_add_builtin_event: "coord_step c L_Control (add_builtin_event_sink k c)"
| step_add_builtin_action: "coord_step c L_Control (add_builtin_action_sink k c)"
| step_batch: "worker c = Worker_Waiting m \<Longrightarrow> queue c = batch @ rest \<Longrightarrow> batch \<noteq> [] \<Longrightarrow>
     coord_step c (L_Batch batch) (receive_batch batch m c)"
| step_dispatch: "worker c = Worker_Dispatching st m evs acts \<Longrightarrow>
     coord_step c L_Dispatch (dispatch_stage st m evs acts c)"
| step_exit: "worker c = Worker_Waiting m \<Longrightarrow> queue c = [] \<Longrightarrow> \<not> accepting c \<Longrightarrow>
     coord_step c L_Exit (c\<lparr>worker := Worker_Exited\<rparr>)"

inductive_cases coord_stepE: "coord_step c l c'"

inductive coord_trace :: "'k coordinator \<Rightarrow> 'k label list \<Rightarrow> 'k coordinator \<Rightarrow> bool" where
  trace_nil: "coord_trace c [] c"
| trace_snoc: "coord_trace c ls c' \<Longrightarrow> coord_step c' l c'' \<Longrightarrow> coord_trace c (ls @ [l]) c''"

fun accepted_by :: "'k label \<Rightarrow> input list" where
  "accepted_by (L_Enqueue i) = [i]"
| "accepted_by _ = []"

fun processed_by :: "'k label \<Rightarrow> input list" where
  "processed_by (L_Batch is) = is"
| "processed_by _ = []"

definition accepted :: "'k label list \<Rightarrow> input list" where
  "accepted ls = concat (map accepted_by ls)"

definition processed :: "'k label list \<Rightarrow> input list" where
  "processed ls = concat (map processed_by ls)"

lemma accepted_snoc [simp]: "accepted [] = []" "accepted (ls @ [l]) = accepted ls @ accepted_by l"
  by (simp_all add: accepted_def)

lemma processed_snoc [simp]: "processed [] = []" "processed (ls @ [l]) = processed ls @ processed_by l"
  by (simp_all add: processed_def)

section \<open>Batching is invisible to the state machine\<close>

text \<open>The machine without the actions it still has to hand over.\<close>

definition sm_core :: "playback_sm \<Rightarrow> playback_sm" where
  "sm_core m = m\<lparr>pending_actions := []\<rparr>"

lemma sm_core_simps [simp]:
  "snap (sm_core m) = snap m" "pending_actions (sm_core m) = []"
  "sm_core (sm_core m) = sm_core m" "sm_core (m\<lparr>pending_actions := a\<rparr>) = sm_core m"
  by (simp_all add: sm_core_def)

text \<open>A handler that neither reads nor forgets the pending actions.\<close>

definition ignores_actions :: "(playback_sm \<Rightarrow> playback_sm \<times> playback_event list) \<Rightarrow> bool" where
  "ignores_actions f \<longleftrightarrow>
     (\<forall>m. sm_core (fst (f (sm_core m))) = sm_core (fst (f m)) \<and> snd (f (sm_core m)) = snd (f m))"

named_theorems ignoring \<open>handlers that ignore the pending actions\<close>

lemma ignoring_file_loaded [ignoring]: "ignores_actions on_file_loaded"
  by (auto simp: ignores_actions_def on_file_loaded_def helper_defs sm_core_def Let_def)

lemma ignoring_load_starting [ignoring]: "ignores_actions (on_load_starting x)"
  by (auto simp: ignores_actions_def on_load_starting_def helper_defs sm_core_def Let_def)

lemma ignoring_pause_changed [ignoring]: "ignores_actions (on_pause_changed x)"
  by (auto simp: ignores_actions_def on_pause_changed_def helper_defs sm_core_def Let_def)

lemma ignoring_end_file [ignoring]: "ignores_actions (on_end_file r x)"
  by (auto simp: ignores_actions_def on_end_file_def helper_defs sm_core_def Let_def)

lemma ignoring_seeking_changed [ignoring]: "ignores_actions (on_seeking_changed x)"
  by (auto simp: ignores_actions_def on_seeking_changed_def helper_defs sm_core_def Let_def)

lemma ignoring_paused_for_cache [ignoring]: "ignores_actions (on_paused_for_cache x)"
  by (auto simp: ignores_actions_def on_paused_for_cache_def helper_defs sm_core_def Let_def)

lemma ignoring_core_idle [ignoring]: "ignores_actions (on_core_idle x)"
  by (auto simp: ignores_actions_def on_core_idle_def helper_defs sm_core_def Let_def)

lemma ignoring_position [ignoring]: "ignores_actions (on_position x)"
  by (auto simp: ignores_actions_def on_position_def helper_defs sm_core_def Let_def)

lemma ignoring_media_type [ignoring]: "ignores_actions (on_media_type x)"
  by (auto simp: ignores_actions_def on_media_type_def helper_defs sm_core_def Let_def)

lemma ignoring_video_frame_available [ignoring]: "ignores_actions (on_video_frame_available x)"
  by (auto simp: ignores_actions_def on_video_frame_available_def helper_defs sm_core_def Let_def)

lemma ignoring_speed [ignoring]: "ignores_actions (on_speed x)"
  by (auto simp: ignores_actions_def on_speed_def helper_defs sm_core_def Let_def)

lemma ignoring_duration [ignoring]: "ignores_actions (on_duration x)"
  by (auto simp: ignores_actions_def on_duration_def helper_defs sm_core_def Let_def)

lemma ignoring_fullscreen [ignoring]: "ignores_actions (on_fullscreen x y)"
  by (auto simp: ignores_actions_def on_fullscreen_def helper_defs sm_core_def Let_def)

lemma ignoring_buffered_ranges [ignoring]: "ignores_actions (on_buffered_ranges x)"
  by (auto simp: ignores_actions_def on_buffered_ranges_def helper_defs sm_core_def Let_def)

lemma ignoring_display_hz [ignoring]: "ignores_actions (on_display_hz x)"
  by (auto simp: ignores_actions_def on_display_hz_def helper_defs sm_core_def Let_def)

lemma apply_input_core:
  "sm_core (fst (apply_input (sm_core m) i)) = sm_core (fst (apply_input m i))"
  "snd (apply_input (sm_core m) i) = snd (apply_input m i)"
  by (cases i; simp add: ignoring [unfolded ignores_actions_def, rule_format] split_beta Let_def)+

lemma apply_input_core_eq:
  "sm_core m = sm_core n \<Longrightarrow> sm_core (fst (apply_input m i)) = sm_core (fst (apply_input n i))"
  "sm_core m = sm_core n \<Longrightarrow> snd (apply_input m i) = snd (apply_input n i)"
  by (metis apply_input_core(1)) (metis apply_input_core(2))

lemma pending_actions_apply:
  "pending_actions (fst (apply_input m i)) =
     pending_actions m @ (if i = FileLoaded then [ApplyPendingTrackSelectionAndPlay] else [])"
  by (cases i) (simp_all add: step_defs helper_defs Let_def)

lemma run_batch_Cons:
  "run_batch m (i # is) =
     (let n = (fst (apply_input m i))\<lparr>pending_actions := []\<rparr>
      in (fst (run_batch n is),
          snd (apply_input m i) @ fst (snd (run_batch n is)),
          pending_actions (fst (apply_input m i)) @ snd (snd (run_batch n is))))"
  by (simp add: consume_actions_def split_beta Let_def)

declare run_batch.simps(2) [simp del]

lemma run_batch_machine:
  "sm_core m = sm_core n \<Longrightarrow>
     sm_core (fst (run_batch m is)) = sm_core (fst (run_steps apply_input n is)) \<and>
     fst (snd (run_batch m is)) = snd (run_steps apply_input n is)"
proof (induction "is" arbitrary: m n)
  case Nil
  then show ?case by simp
next
  case (Cons i "is")
  let ?m = "(fst (apply_input m i))\<lparr>pending_actions := []\<rparr>"
  have "sm_core ?m = sm_core (fst (apply_input n i))"
    using apply_input_core_eq(1) [OF Cons.prems, of i] by simp
  from Cons.IH [OF this] apply_input_core_eq(2) [OF Cons.prems, of i] show ?case
    by (simp add: run_batch_Cons run_steps_Cons_fst run_steps_Cons_snd Let_def del: run_steps.simps(2))
qed

definition loads :: "input list \<Rightarrow> playback_action list" where
  "loads is = map (\<lambda>_. ApplyPendingTrackSelectionAndPlay) (filter (\<lambda>i. i = FileLoaded) is)"

lemma run_batch_actions:
  "pending_actions m = [] \<Longrightarrow>
     snd (snd (run_batch m is)) = loads is \<and> pending_actions (fst (run_batch m is)) = []"
proof (induction "is" arbitrary: m)
  case Nil
  then show ?case by (simp add: loads_def)
next
  case (Cons i "is")
  from Cons.IH [of "(fst (apply_input m i))\<lparr>pending_actions := []\<rparr>"] Cons.prems show ?case
    by (simp add: run_batch_Cons pending_actions_apply loads_def Let_def)
qed

lemma snap_core_eq: "sm_core m = sm_core n \<Longrightarrow> snap m = snap n"
  by (metis sm_core_simps(1))

section \<open>The worker refines the machine\<close>

text \<open>The machine after a list of inputs, from its start.\<close>

definition machine_after :: "input list \<Rightarrow> playback_sm" where
  "machine_after is = fst (run_steps apply_input new_sm is)"

lemma machine_after_append:
  "machine_after (is @ js) = fst (run_steps apply_input (machine_after is) js)"
  by (simp add: machine_after_def run_steps_append split_beta Let_def)

definition holds_machine :: "playback_sm \<Rightarrow> playback_sm \<Rightarrow> bool" where
  "holds_machine n m \<longleftrightarrow> sm_core m = sm_core n \<and> pending_actions m = []"

fun worker_ok :: "input list \<Rightarrow> input list \<Rightarrow> bool \<Rightarrow> worker \<Rightarrow> bool" where
  "worker_ok done q acc Worker_Not_Started \<longleftrightarrow> done = []"
| "worker_ok done q acc (Worker_Waiting m) \<longleftrightarrow> holds_machine (machine_after done) m"
| "worker_ok done q acc (Worker_Dispatching st m evs acts) \<longleftrightarrow> holds_machine (machine_after done) m"
| "worker_ok done q acc Worker_Exited \<longleftrightarrow> q = [] \<and> \<not> acc"

definition coord_ok :: "'k label list \<Rightarrow> 'k coordinator \<Rightarrow> bool" where
  "coord_ok ls c \<longleftrightarrow>
     processed ls @ queue c = accepted ls \<and>
     published c = snap (machine_after (processed ls)) \<and>
     worker_ok (processed ls) (queue c) (accepting c) (worker c)"

lemma machine_after_Nil: "machine_after [] = new_sm"
  by (simp add: machine_after_def)

lemma holds_machine_snap: "holds_machine n m \<Longrightarrow> snap m = snap n"
  unfolding holds_machine_def by (blast intro: snap_core_eq)

lemma holds_machine_batch:
  assumes "holds_machine (machine_after is) m"
  shows "holds_machine (machine_after (is @ batch)) (fst (run_batch m batch))"
  using assms run_batch_machine [of m "machine_after is" batch] run_batch_actions [of m batch]
  by (simp add: holds_machine_def machine_after_append)

lemma receive_batch_fields [simp]:
  "queue (receive_batch b m c) = drop (length b) (queue c)"
  "accepting (receive_batch b m c) = accepting c"
  "published (receive_batch b m c) = snap (fst (run_batch m b))"
  "delivered (receive_batch b m c) = delivered c"
  "event_sinks (receive_batch b m c) = event_sinks c"
  "action_sinks (receive_batch b m c) = action_sinks c"
  "builtin_event_sinks (receive_batch b m c) = builtin_event_sinks c"
  "builtin_action_sinks (receive_batch b m c) = builtin_action_sinks c"
  "worker (receive_batch b m c) =
     Worker_Dispatching Stage_Events (fst (run_batch m b))
       (map (stamp (snap (fst (run_batch m b)))) (fst (snd (run_batch m b))))
       (snd (snd (run_batch m b)))"
  by (simp_all add: receive_batch_def worker_batch_def split_beta Let_def)

lemma dispatch_stage_fields [simp]:
  "queue (dispatch_stage st m evs acts c) = queue c"
  "accepting (dispatch_stage st m evs acts c) = accepting c"
  "published (dispatch_stage st m evs acts c) = published c"
  "event_sinks (dispatch_stage st m evs acts c) = event_sinks c"
  "action_sinks (dispatch_stage st m evs acts c) = action_sinks c"
  "builtin_event_sinks (dispatch_stage st m evs acts c) = builtin_event_sinks c"
  "builtin_action_sinks (dispatch_stage st m evs acts c) = builtin_action_sinks c"
  by (cases st; simp)+

lemma coord_ok_init: "coord_ok [] new_coordinator"
  by (simp add: coord_ok_def new_coordinator_def machine_after_Nil new_sm_def)

lemma coord_ok_batch:
  assumes "coord_ok ls c" "worker c = Worker_Waiting m" "queue c = batch @ rest"
  shows "coord_ok (ls @ [L_Batch batch]) (receive_batch batch m c)"
proof -
  let ?m = "fst (run_batch m batch)"
  have "holds_machine (machine_after (processed ls)) m"
    using assms(1,2) by (simp add: coord_ok_def)
  then have hm: "holds_machine (machine_after (processed ls @ batch)) ?m"
    by (rule holds_machine_batch)
  then have "snap ?m = snap (machine_after (processed ls @ batch))"
    by (rule holds_machine_snap)
  moreover have "processed ls @ batch @ rest = accepted ls"
    using assms(1,3) unfolding coord_ok_def by metis
  moreover have "drop (length batch) (queue c) = rest"
    by (simp add: assms(3))
  ultimately show ?thesis
    using hm unfolding coord_ok_def receive_batch_fields worker_ok.simps
    by (simp only: processed_snoc accepted_snoc processed_by.simps accepted_by.simps append_assoc
        append_Nil2 receive_batch_fields)
qed

lemma coord_ok_dispatch:
  assumes "coord_ok ls c" "worker c = Worker_Dispatching st m evs acts"
  shows "coord_ok (ls @ [L_Dispatch]) (dispatch_stage st m evs acts c)"
  using assms by (cases st) (simp_all add: coord_ok_def)

text \<open>Only four fields matter, so the control operations are read off their fields.\<close>

lemma coord_ok_cong:
  assumes "coord_ok ls c" "processed ls' = processed ls" "accepted ls' = accepted ls @ extra"
    "queue c' = queue c @ extra" "published c' = published c"
    "worker_ok (processed ls) (queue c') (accepting c') (worker c')"
  shows "coord_ok ls' c'"
proof -
  from assms(1) have "processed ls @ queue c = accepted ls"
    "published c = snap (machine_after (processed ls))"
    unfolding coord_ok_def by blast+
  with assms(2-) show ?thesis
    unfolding coord_ok_def by (metis append.assoc)
qed

lemma coord_ok_worker: "coord_ok ls c \<Longrightarrow> worker_ok (processed ls) (queue c) (accepting c) (worker c)"
  unfolding coord_ok_def by blast

lemma worker_ok_enqueue: "worker_ok done q True w \<Longrightarrow> worker_ok done (q @ q') True w"
  by (cases w) simp_all

lemma worker_ok_stop: "worker_ok done q acc w \<Longrightarrow> worker_ok done q False w"
  by (cases w) simp_all

lemma worker_ok_start:
  "worker_ok done q acc w \<Longrightarrow> w = Worker_Not_Started \<Longrightarrow> worker_ok done q acc (Worker_Waiting new_sm)"
  by (simp add: machine_after_Nil holds_machine_def) (simp add: new_sm_def)

lemma coord_ok_enqueue:
  assumes "coord_ok ls c" "accepting c"
  shows "coord_ok (ls @ [L_Enqueue i]) (enqueue i c)"
  by (rule coord_ok_cong [OF assms(1), where extra = "[i]"])
     (use coord_ok_worker [OF assms(1)] assms(2) in \<open>simp_all add: enqueue_def worker_ok_enqueue\<close>)

lemma coord_ok_dropped:
  assumes "coord_ok ls c" "\<not> accepting c"
  shows "coord_ok (ls @ [L_Dropped i]) (enqueue i c)"
  by (rule coord_ok_cong [OF assms(1), where extra = "[]"])
     (use coord_ok_worker [OF assms(1)] assms(2) in \<open>simp_all add: enqueue_def\<close>)

lemma coord_ok_start:
  assumes "coord_ok ls c"
  shows "coord_ok (ls @ [L_Control]) (start c)"
  by (rule coord_ok_cong [OF assms, where extra = "[]"])
     (use coord_ok_worker [OF assms] in \<open>simp_all add: start_def worker_ok_start del: worker_ok.simps\<close>)

lemma coord_ok_stop:
  assumes "coord_ok ls c"
  shows "coord_ok (ls @ [L_Control]) (stop c)"
  by (rule coord_ok_cong [OF assms, where extra = "[]"])
     (use coord_ok_worker [OF assms] in \<open>simp_all add: stop_def worker_ok_stop\<close>)

lemma coord_ok_sinks:
  assumes "coord_ok ls c"
  shows "coord_ok (ls @ [L_Control]) (add_event_sink k c)"
    "coord_ok (ls @ [L_Control]) (add_action_sink k c)"
    "coord_ok (ls @ [L_Control]) (add_builtin_event_sink k c)"
    "coord_ok (ls @ [L_Control]) (add_builtin_action_sink k c)"
  by (rule coord_ok_cong [OF assms, where extra = "[]"],
      use coord_ok_worker [OF assms] in \<open>simp_all add: add_event_sink_def add_action_sink_def
        add_builtin_event_sink_def add_builtin_action_sink_def\<close>)+

lemma coord_ok_exit:
  "coord_ok ls c \<Longrightarrow> queue c = [] \<Longrightarrow> \<not> accepting c \<Longrightarrow>
     coord_ok (ls @ [L_Exit]) (c\<lparr>worker := Worker_Exited\<rparr>)"
  by (simp add: coord_ok_def)

lemma coord_ok_step:
  assumes "coord_step c l c'" "coord_ok ls c"
  shows "coord_ok (ls @ [l]) c'"
  using assms
  by (cases rule: coord_step.cases)
     (blast intro: coord_ok_enqueue coord_ok_dropped coord_ok_start coord_ok_stop coord_ok_sinks
        coord_ok_batch coord_ok_dispatch coord_ok_exit)+

lemma coord_ok_trace: "coord_trace c0 ls c \<Longrightarrow> c0 = new_coordinator \<Longrightarrow> coord_ok ls c"
  by (induction rule: coord_trace.induct) (blast intro: coord_ok_init coord_ok_step)+

text \<open>What the four hand-over stages deliver, in order.\<close>

definition batch_deliveries :: "'k coordinator \<Rightarrow> playback_event list \<Rightarrow> playback_action list
    \<Rightarrow> 'k delivery list" where
  "batch_deliveries c evs acts =
     to_all Event_To (event_sinks c) evs @ to_all Action_To (action_sinks c) acts @
     to_all Event_To (builtin_event_sinks c) evs @ to_all Action_To (builtin_action_sinks c) acts"

text \<open>The worker's own sequence for a batch, nothing else happening meanwhile.\<close>

fun dispatch :: "'k coordinator \<Rightarrow> 'k coordinator" where
  "dispatch c = (case worker c of
     Worker_Dispatching st m evs acts \<Rightarrow> dispatch_stage st m evs acts c | _ \<Rightarrow> c)"

definition whole_batch :: "input list \<Rightarrow> playback_sm \<Rightarrow> 'k coordinator \<Rightarrow> 'k coordinator" where
  "whole_batch batch m c = (dispatch ^^ 4) (receive_batch batch m c)"

lemma dispatch_step:
  "worker c = Worker_Dispatching st m evs acts \<Longrightarrow> coord_step c L_Dispatch (dispatch c)"
  by (simp add: step_dispatch)

lemma four_dispatches:
  assumes "worker c = Worker_Dispatching Stage_Events m evs acts"
  shows "(dispatch ^^ 4) c = c\<lparr>worker := Worker_Waiting m,
           delivered := delivered c @ batch_deliveries c evs acts\<rparr>"
  using assms by (simp add: eval_nat_numeral batch_deliveries_def)

lemma coord_trace_append:
  "coord_trace b ms d \<Longrightarrow> coord_trace a ls b \<Longrightarrow> coord_trace a (ls @ ms) d"
  by (induction rule: coord_trace.induct) (auto simp flip: append_assoc intro: coord_trace.intros)

lemma coord_trace_single: "coord_step a l b \<Longrightarrow> coord_trace a [l] b"
  using trace_snoc [OF trace_nil, of a l b] by simp

lemma whole_batch_trace:
  assumes "worker c = Worker_Waiting m" "queue c = batch @ rest" "batch \<noteq> []"
  shows "coord_trace c [L_Batch batch, L_Dispatch, L_Dispatch, L_Dispatch, L_Dispatch]
           (whole_batch batch m c)"
proof -
  let ?c = "receive_batch batch m c"
  have d: "coord_trace b [L_Dispatch] (dispatch b)"
    if "worker b = Worker_Dispatching st n evs acts" for b :: "'a coordinator" and st n evs acts
    using that by (intro coord_trace_single dispatch_step)
  have "coord_trace c ([L_Batch batch] @ [L_Dispatch] @ [L_Dispatch] @ [L_Dispatch] @ [L_Dispatch])
      (dispatch (dispatch (dispatch (dispatch ?c))))"
    by (rule coord_trace_append [rotated],
        rule coord_trace_single, rule step_batch [OF assms],
        rule coord_trace_append [rotated], rule d, simp,
        rule coord_trace_append [rotated], rule d, simp,
        rule coord_trace_append [rotated], rule d, simp,
        rule d, simp)
  then show ?thesis
    by (simp add: whole_batch_def eval_nat_numeral)
qed

section \<open>Shutdown\<close>

text \<open>Steps the worker thread takes on its own, and what it still has to do.\<close>

fun worker_label :: "'k label \<Rightarrow> bool" where
  "worker_label (L_Batch b) \<longleftrightarrow> True"
| "worker_label L_Dispatch \<longleftrightarrow> True"
| "worker_label L_Exit \<longleftrightarrow> True"
| "worker_label _ \<longleftrightarrow> False"

fun stage_weight :: "stage \<Rightarrow> nat" where
  "stage_weight Stage_Events = 5"
| "stage_weight Stage_Actions = 4"
| "stage_weight Stage_Builtin_Events = 3"
| "stage_weight Stage_Builtin_Actions = 2"

fun worker_weight :: "worker \<Rightarrow> nat" where
  "worker_weight Worker_Not_Started = 0"
| "worker_weight (Worker_Waiting m) = 1"
| "worker_weight (Worker_Dispatching st m evs acts) = stage_weight st"
| "worker_weight Worker_Exited = 0"

definition work_left :: "'k coordinator \<Rightarrow> nat" where
  "work_left c = 5 * length (queue c) + worker_weight (worker c)"

lemma worker_weight_dispatch:
  "worker_weight (worker (dispatch_stage st m evs acts c)) < stage_weight st"
  by (cases st) simp_all

definition draining :: "input list \<Rightarrow> 'k label list \<Rightarrow> 'k coordinator \<Rightarrow> bool" where
  "draining q ls c \<longleftrightarrow>
     \<not> accepting c \<and> worker c \<noteq> Worker_Not_Started \<and> (worker c = Worker_Exited \<longrightarrow> queue c = []) \<and>
     processed ls @ queue c = q \<and> length ls + work_left c \<le> 5 * length q + 5"

lemma draining_step:
  assumes "coord_step c l c'" "worker_label l" "draining q ls c"
  shows "draining q (ls @ [l]) c'"
  using assms
proof (cases rule: coord_step.cases)
  case (step_batch m batch rest)
  obtain b bs where "batch = b # bs" using step_batch(5) by (cases batch) simp_all
  with step_batch assms(3) show ?thesis
    by (auto simp: draining_def work_left_def)
next
  case (step_dispatch st m evs acts)
  with worker_weight_dispatch [of st m evs acts c] assms(3) show ?thesis
    by (cases st) (auto simp: draining_def work_left_def)
next
  case (step_exit m)
  with assms(3) show ?thesis
    by (auto simp: draining_def work_left_def)
qed simp_all

lemma draining_trace:
  "coord_trace c0 ls c \<Longrightarrow> draining q [] c0 \<Longrightarrow> \<forall>l\<in>set ls. worker_label l \<Longrightarrow> draining q ls c"
  by (induction rule: coord_trace.induct) (auto intro: draining_step)

lemma worker_enabled:
  assumes "draining q ls c" "worker c \<noteq> Worker_Exited"
  shows "\<exists>l c'. worker_label l \<and> coord_step c l c'"
proof (cases "worker c")
  case (Worker_Waiting m)
  show ?thesis
  proof (cases "queue c")
    case Nil
    with step_exit [OF Worker_Waiting] assms have "coord_step c L_Exit (c\<lparr>worker := Worker_Exited\<rparr>)"
      by (simp add: draining_def)
    then show ?thesis by (intro exI [of _ L_Exit]) auto
  next
    case (Cons i q')
    with step_batch [OF Worker_Waiting, of "queue c" "[]"]
    have "coord_step c (L_Batch (queue c)) (receive_batch (queue c) m c)"
      by simp
    then show ?thesis by (intro exI [of _ "L_Batch (queue c)"]) auto
  qed
next
  case (Worker_Dispatching st m evs acts)
  from step_dispatch [OF this] show ?thesis by (intro exI [of _ L_Dispatch]) auto
qed (use assms in \<open>simp_all add: draining_def\<close>)

lemma draining_init:
  assumes "coord_ok ls c" "worker c \<noteq> Worker_Not_Started"
  shows "draining (queue c) [] (stop c)"
proof -
  have "worker_weight (worker c) \<le> 5"
  proof (cases "worker c")
    case (Worker_Dispatching st m evs acts)
    then show ?thesis by (cases st) simp_all
  qed simp_all
  moreover have "worker c = Worker_Exited \<Longrightarrow> queue c = []"
    using coord_ok_worker [OF assms(1)] by simp
  ultimately show ?thesis
    using assms(2) by (simp add: draining_def stop_def work_left_def)
qed

section \<open>A small run\<close>

text \<open>One event sink, one input posted, then the worker starts.\<close>

definition sample :: "nat coordinator" where
  "sample = start (enqueue FileLoaded (add_event_sink 7 new_coordinator))"

definition sample_labels :: "nat label list" where
  "sample_labels = [L_Control, L_Enqueue FileLoaded, L_Control]"

lemma sample_fields: "worker sample = Worker_Waiting new_sm" "queue sample = [FileLoaded] @ []"
  by (simp_all add: sample_def new_coordinator_def enqueue_def start_def add_event_sink_def)

lemma sample_trace: "coord_trace new_coordinator sample_labels sample"
proof -
  have "coord_trace (new_coordinator :: nat coordinator)
      ((([] @ [L_Control]) @ [L_Enqueue FileLoaded]) @ [L_Control]) sample"
    unfolding sample_def
    by (rule trace_snoc, rule trace_snoc, rule trace_snoc, rule trace_nil, rule step_add_event,
        rule step_enqueue, simp add: new_coordinator_def add_event_sink_def, rule step_start)
  then show ?thesis by (simp add: sample_labels_def)
qed

lemma processed_sample: "processed sample_labels = []"
  by (simp add: sample_labels_def processed_def)

section \<open>The properties\<close>

text \<open>
  C1: However producers and the worker interleave, and however the worker cuts the queue
  into batches, every accepted input is applied exactly once and in the order it was
  posted, and the published snapshot is the one the state machine reaches on the inputs
  taken so far.
\<close>

theorem coordinator_refines_machine:
  assumes "coord_trace new_coordinator ls c"
  shows "processed ls @ queue c = accepted ls \<and>
    published c = snap (machine_after (processed ls))"
  using coord_ok_trace [OF assms refl] unfolding coord_ok_def by blast

theorem coordinator_refines_machine_witness:
  "\<exists>c :: nat coordinator. coord_trace new_coordinator (sample_labels @ [L_Batch [FileLoaded]]) c \<and>
     published c = snap (machine_after [FileLoaded])"
proof -
  let ?c = "receive_batch [FileLoaded] new_sm sample :: nat coordinator"
  have t: "coord_trace new_coordinator (sample_labels @ [L_Batch [FileLoaded]]) ?c"
    by (rule trace_snoc [OF sample_trace step_batch [OF sample_fields(1,2)]]) simp
  from coordinator_refines_machine [OF t] t show ?thesis
    by (intro exI [of _ ?c]) (simp only: processed_snoc processed_by.simps processed_sample append.simps)
qed

text \<open>
  C9: A batch reaches the sinks in four rounds: registered event sinks, registered action
  sinks, then the built-in event and action sinks. Every sink gets exactly the events the
  state machine emits for the batch, in order and stamped with the snapshot published for
  the batch, and one track-selection action for each file loaded in it.
\<close>

theorem batch_delivery:
  assumes "coord_trace new_coordinator ls c" "worker c = Worker_Waiting m"
    "queue c = batch @ rest" "batch \<noteq> []"
  shows "\<exists>c'. coord_trace c [L_Batch batch, L_Dispatch, L_Dispatch, L_Dispatch, L_Dispatch] c' \<and>
    queue c' = rest \<and> published c' = snap (machine_after (processed ls @ batch)) \<and>
    delivered c' = delivered c @ batch_deliveries c
      (map (stamp (published c')) (snd (run_steps apply_input (machine_after (processed ls)) batch)))
      (loads batch)"
proof -
  let ?n = "machine_after (processed ls)"
  let ?m = "fst (run_batch m batch)"
  have hm: "holds_machine ?n m"
    using coord_ok_worker [OF coord_ok_trace [OF assms(1) refl]] assms(2) by simp
  have snap: "snap ?m = snap (machine_after (processed ls @ batch))"
    by (rule holds_machine_snap [OF holds_machine_batch [OF hm]])
  have evs: "fst (snd (run_batch m batch)) = snd (run_steps apply_input ?n batch)"
    and acts: "snd (snd (run_batch m batch)) = loads batch"
    using hm run_batch_machine [of m ?n batch] run_batch_actions [of m batch]
    by (simp_all add: holds_machine_def)
  have "whole_batch batch m c = (receive_batch batch m c)\<lparr>worker := Worker_Waiting ?m,
      delivered := delivered c @ batch_deliveries c
        (map (stamp (snap ?m)) (snd (run_steps apply_input ?n batch))) (loads batch)\<rparr>"
    unfolding whole_batch_def
    by (subst four_dispatches, simp) (simp add: evs acts batch_deliveries_def)
  with whole_batch_trace [OF assms(2-4)] snap assms(3) show ?thesis
    by (intro exI [of _ "whole_batch batch m c"]) simp
qed

theorem batch_delivery_witness:
  "\<exists>c'. coord_trace sample [L_Batch [FileLoaded], L_Dispatch, L_Dispatch, L_Dispatch, L_Dispatch] c' \<and>
    queue c' = [] \<and> published c' = snap (machine_after [FileLoaded]) \<and>
    delivered c' = delivered sample @ batch_deliveries sample
      (map (stamp (published c')) (snd (run_steps apply_input (machine_after []) [FileLoaded])))
      [ApplyPendingTrackSelectionAndPlay]"
  using batch_delivery [OF sample_trace sample_fields]
  by (simp only: processed_sample append.simps loads_def filter.simps list.map list.distinct
      not_False_eq_True if_True refl simp_thms)

text \<open>
  C10: Shutdown terminates and loses nothing. After \<open>stop\<close>, a started worker makes at
  most five steps per queued input plus five, can always make another until it has
  exited, and when it has exited every input accepted before the stop has been applied.
\<close>

theorem coordinator_drains:
  assumes "coord_trace new_coordinator ls0 c" "worker c \<noteq> Worker_Not_Started"
    "coord_trace (stop c) ls c'" "\<forall>l\<in>set ls. worker_label l"
  shows "length ls \<le> 5 * length (queue c) + 5 \<and>
    (if worker c' = Worker_Exited then processed ls = queue c \<and> queue c' = []
     else \<exists>l c''. worker_label l \<and> coord_step c' l c'')"
proof -
  have "draining (queue c) [] (stop c)"
    using draining_init coord_ok_trace [OF assms(1) refl] assms(2) by blast
  then have d: "draining (queue c) ls c'"
    using draining_trace assms(3,4) by blast
  then show ?thesis
    using worker_enabled [OF d] by (auto simp: draining_def)
qed

theorem coordinator_drains_witness:
  "\<exists>c'. coord_trace (stop sample)
      [L_Batch [FileLoaded], L_Dispatch, L_Dispatch, L_Dispatch, L_Dispatch, L_Exit] c' \<and>
    worker c' = Worker_Exited \<and> queue c' = []"
proof -
  let ?s = "stop sample" and ?b = "whole_batch [FileLoaded] new_sm (stop sample)"
  let ?e = "?b\<lparr>worker := Worker_Exited\<rparr>"
  let ?ls = "[L_Batch [FileLoaded], L_Dispatch, L_Dispatch, L_Dispatch, L_Dispatch]"
  have f: "worker ?s = Worker_Waiting new_sm" "queue ?s = [FileLoaded] @ []" "\<not> accepting ?s"
    using sample_fields by (simp_all add: stop_def)
  have b: "worker ?b = Worker_Waiting (fst (run_batch new_sm [FileLoaded]))" "queue ?b = []"
    "\<not> accepting ?b"
    using f unfolding whole_batch_def by (subst four_dispatches, simp, simp)+
  have "coord_trace ?s (?ls @ [L_Exit]) ?e"
    by (rule trace_snoc [OF whole_batch_trace [OF f(1,2)] step_exit [OF b]]) simp
  with coordinator_drains [OF sample_trace, of "?ls @ [L_Exit]" ?e] sample_fields(1)
  show ?thesis by (intro exI [of _ ?e]) simp
qed

end
