(* ===== verification/Sinks.thy ===== *)
theory Sinks
  imports Coordinator
begin

text \<open>
  The built-in sinks of the playback crate (\<open>idle_inhibit_sink.rs\<close>, \<open>browser_sink.rs\<close>,
  \<open>theme_color_sink.rs\<close>) and the crate's public entry points (\<open>ffi.rs\<close>). What a sink asks
  of the platform or the web view is a value of \<open>platform_call\<close>: the calls into the page
  keep the function called and its arguments, not the text they are rendered to. An
  optional callback slot is a flag saying whether a callback is installed.
\<close>

section \<open>Calls to the outside\<close>

datatype js_call =
    Native_Emit string
  | Native_Emit_Error string
  | Native_Update_Position int
  | Native_Update_Duration int
  | Native_Set_Rate f64
  | Native_Fullscreen_Changed bool
  | Native_Update_Buffered_Ranges "(int \<times> int) list"

datatype platform_call =
    Set_Idle_Inhibit nat
  | Set_Video_Mode bool
  | Set_Browsers_Hz f64
  | Exec_Js js_call
  | Mpv_Apply_Pending_Track_Selection_And_Play

record handlers =
  h_idle_inhibit :: bool
  h_theme :: bool
  h_hz :: bool
  h_exec_js :: bool

section \<open>Idle inhibit\<close>

definition LEVEL_NONE :: nat where "LEVEL_NONE = 0"
definition LEVEL_SYSTEM :: nat where "LEVEL_SYSTEM = 1"
definition LEVEL_DISPLAY :: nat where "LEVEL_DISPLAY = 2"

definition inhibit_level :: "playback_snapshot \<Rightarrow> nat" where
  "inhibit_level s =
     (if phase s \<noteq> Phase_Playing then LEVEL_NONE
      else if media_type s = Media_Audio then LEVEL_SYSTEM else LEVEL_DISPLAY)"

definition idle_inhibit_apply :: "handlers \<Rightarrow> playback_snapshot \<Rightarrow> platform_call list" where
  "idle_inhibit_apply h s = (if h_idle_inhibit h then [Set_Idle_Inhibit (inhibit_level s)] else [])"

fun inhibit_relevant :: "event_kind \<Rightarrow> bool" where
  "inhibit_relevant Ev_Started = True"
| "inhibit_relevant Ev_Paused = True"
| "inhibit_relevant Ev_Finished = True"
| "inhibit_relevant Ev_Canceled = True"
| "inhibit_relevant Ev_Error = True"
| "inhibit_relevant Ev_MediaTypeChanged = True"
| "inhibit_relevant _ = False"

definition idle_inhibit_deliver :: "handlers \<Rightarrow> playback_event \<Rightarrow> platform_call list" where
  "idle_inhibit_deliver h ev =
     (if inhibit_relevant (ev_kind ev) then idle_inhibit_apply h (ev_snapshot ev) else [])"

section \<open>Theme color\<close>

definition theme_color_deliver :: "handlers \<Rightarrow> playback_event \<Rightarrow> platform_call list" where
  "theme_color_deliver h ev =
     (if ev_kind ev = Ev_Finished \<or> ev_kind ev = Ev_Canceled \<or> ev_kind ev = Ev_Error
      then (if h_theme h then [Set_Video_Mode False] else []) else [])"

section \<open>Browser\<close>

text \<open>\<open>CString::new\<close> never fails on these calls: JSON escapes the NUL bytes of an error text.\<close>

definition exec_js :: "handlers \<Rightarrow> js_call \<Rightarrow> platform_call list" where
  "exec_js h c = (if h_exec_js h then [Exec_Js c] else [])"

definition to_ms :: "int \<Rightarrow> int" where
  "to_ms us = wrap32 (trunc_div us 1000)"

text \<open>The first component is the \<open>WAS_MAXIMIZED\<close> flag the shutdown path reads.\<close>

fun browser_deliver_kind :: "handlers \<Rightarrow> event_kind \<Rightarrow> playback_event \<Rightarrow> bool \<Rightarrow> bool \<times> platform_call list" where
  "browser_deliver_kind h Ev_Started ev wm = (wm, exec_js h (Native_Emit ''playing''))"
| "browser_deliver_kind h Ev_Paused ev wm = (wm, exec_js h (Native_Emit ''paused''))"
| "browser_deliver_kind h Ev_Finished ev wm = (wm, exec_js h (Native_Emit ''finished''))"
| "browser_deliver_kind h Ev_Canceled ev wm = (wm, exec_js h (Native_Emit ''canceled''))"
| "browser_deliver_kind h Ev_Error ev wm =
     (wm, exec_js h (Native_Emit_Error
        (if ev_error_message ev = [] then ''Playback error'' else ev_error_message ev)))"
| "browser_deliver_kind h Ev_SeekingChanged ev wm =
     (wm, if ev_flag ev then exec_js h (Native_Emit ''seeking'') else [])"
| "browser_deliver_kind h Ev_TrackLoaded ev wm =
     (wm, if variant_switch_pending (ev_snapshot ev) then exec_js h (Native_Emit ''paused'') else [])"
| "browser_deliver_kind h Ev_PositionChanged ev wm =
     (wm, exec_js h (Native_Update_Position (to_ms (position_us (ev_snapshot ev)))))"
| "browser_deliver_kind h Ev_DurationChanged ev wm =
     (wm, exec_js h (Native_Update_Duration (to_ms (duration_us (ev_snapshot ev)))))"
| "browser_deliver_kind h Ev_RateChanged ev wm =
     (wm, exec_js h (Native_Set_Rate (rate (ev_snapshot ev))))"
| "browser_deliver_kind h Ev_FullscreenChanged ev wm =
     (maximized_before_fullscreen (ev_snapshot ev),
      exec_js h (Native_Fullscreen_Changed (fullscreen (ev_snapshot ev))))"
| "browser_deliver_kind h Ev_DisplayHzChanged ev wm =
     (wm, if h_hz h then [Set_Browsers_Hz (display_hz (ev_snapshot ev))] else [])"
| "browser_deliver_kind h Ev_BufferedRangesChanged ev wm =
     (wm, exec_js h (Native_Update_Buffered_Ranges
        (map (\<lambda>r. (start_ticks r, end_ticks r)) (buffered (ev_snapshot ev)))))"
| "browser_deliver_kind h _ ev wm = (wm, [])"

definition browser_deliver :: "handlers \<Rightarrow> bool \<Rightarrow> playback_event \<Rightarrow> bool \<times> platform_call list" where
  "browser_deliver h wm ev = browser_deliver_kind h (ev_kind ev) ev wm"

section \<open>The public entry points\<close>

text \<open>The sinks a coordinator can hold: the built-in four, and those other crates register.\<close>

datatype sink = Mpv_Sink | Idle_Inhibit_Sink | Browser_Sink | Theme_Color_Sink | Foreign_Sink nat

definition register_builtin_sinks :: "sink coordinator \<Rightarrow> sink coordinator" where
  "register_builtin_sinks c =
     add_builtin_event_sink Theme_Color_Sink
       (add_builtin_event_sink Browser_Sink
         (add_builtin_event_sink Idle_Inhibit_Sink (add_builtin_action_sink Mpv_Sink c)))"

definition playback_init :: "sink coordinator option \<Rightarrow> sink coordinator option" where
  "playback_init slot =
     (case slot of Some c \<Rightarrow> Some c
      | None \<Rightarrow> Some (start (register_builtin_sinks new_coordinator)))"

text \<open>The coordinator is taken out of the slot before it is stopped.\<close>

definition playback_shutdown :: "sink coordinator option
    \<Rightarrow> sink coordinator option \<times> sink coordinator option" where
  "playback_shutdown slot = (None, map_option stop slot)"

definition register_event_sink :: "sink \<Rightarrow> sink coordinator option \<Rightarrow> sink coordinator option" where
  "register_event_sink k = map_option (add_event_sink k)"

definition register_action_sink :: "sink \<Rightarrow> sink coordinator option \<Rightarrow> sink coordinator option" where
  "register_action_sink k = map_option (add_action_sink k)"

definition playback_current :: "sink coordinator option \<Rightarrow> playback_snapshot" where
  "playback_current slot = (case slot of None \<Rightarrow> fresh_snapshot | Some c \<Rightarrow> published c)"

definition post :: "input \<Rightarrow> sink coordinator option \<Rightarrow> sink coordinator option" where
  "post i = map_option (enqueue i)"

text \<open>What one delivery makes a sink do.\<close>

fun sink_reaction :: "handlers \<Rightarrow> bool \<Rightarrow> sink delivery \<Rightarrow> bool \<times> platform_call list" where
  "sink_reaction h wm (Event_To Idle_Inhibit_Sink ev) = (wm, idle_inhibit_deliver h ev)"
| "sink_reaction h wm (Event_To Browser_Sink ev) = browser_deliver h wm ev"
| "sink_reaction h wm (Event_To Theme_Color_Sink ev) = (wm, theme_color_deliver h ev)"
| "sink_reaction h wm (Action_To Mpv_Sink a) = (wm, [Mpv_Apply_Pending_Track_Selection_And_Play])"
| "sink_reaction h wm _ = (wm, [])"

section \<open>The inhibit level follows the playback\<close>

definition level_after :: "nat \<Rightarrow> platform_call list \<Rightarrow> nat" where
  "level_after l cs = foldl (\<lambda>l c. case c of Set_Idle_Inhibit n \<Rightarrow> n | _ \<Rightarrow> l) l cs"

text \<open>The machine and the level in force after the worker's batches, one after the other.\<close>

fun follow_batches :: "handlers \<Rightarrow> playback_sm \<Rightarrow> nat \<Rightarrow> input list list \<Rightarrow> playback_sm \<times> nat" where
  "follow_batches h m l [] = (m, l)"
| "follow_batches h m l (b # bs) =
     (let (m', evs, acts) = worker_batch m b
      in follow_batches h m' (level_after l (concat (map (idle_inhibit_deliver h) evs))) bs)"

lemma level_after_simps [simp]:
  "level_after l [] = l" "level_after l (Set_Idle_Inhibit n # cs) = level_after n cs"
  by (simp_all add: level_after_def)

lemma level_after_stamped:
  assumes "h_idle_inhibit h"
  shows "level_after l (concat (map (idle_inhibit_deliver h) (map (stamp s) evs))) =
    (if \<exists>e\<in>set evs. inhibit_relevant (ev_kind e) then inhibit_level s else l)"
proof (induction evs arbitrary: l)
  case Nil
  then show ?case by simp
next
  case (Cons e evs)
  then show ?case
    by (simp add: idle_inhibit_deliver_def idle_inhibit_apply_def stamp_def assms)
qed

lemma media_type_quiet:
  "\<forall>e\<in>set (snd (apply_input m i)). \<not> inhibit_relevant (ev_kind e) \<Longrightarrow>
     media_type (snap (fst (apply_input m i))) = media_type (snap m)"
  by (cases i) (auto simp: step_defs helper_defs Let_def split: if_splits)

lemma observed_quiet:
  "\<forall>e\<in>set evs. \<not> inhibit_relevant (ev_kind e) \<Longrightarrow>
     observed_phase p evs = p \<or> observed_phase p evs = Phase_Starting"
proof (induction evs arbitrary: p)
  case Nil
  then show ?case by simp
next
  case (Cons e evs)
  then have "phase_after p (ev_kind e) = p \<or> phase_after p (ev_kind e) = Phase_Starting"
    by (cases "ev_kind e") simp_all
  moreover from Cons have "observed_phase q evs = q \<or> observed_phase q evs = Phase_Starting" for q
    by simp
  ultimately show ?case by (metis observed_phase_simps(2))
qed

lemma phase_quiet:
  "\<forall>e\<in>set (snd (apply_input m i)). \<not> inhibit_relevant (ev_kind e) \<Longrightarrow>
     phase (snap (fst (apply_input m i))) = phase (snap m) \<or>
     phase (snap (fst (apply_input m i))) = Phase_Starting"
  unfolding phase_from_events using observed_quiet by auto

lemma batch_quiet:
  "\<forall>e\<in>set (fst (snd (run_batch m is))). \<not> inhibit_relevant (ev_kind e) \<Longrightarrow>
     media_type (snap (fst (run_batch m is))) = media_type (snap m) \<and>
     (phase (snap (fst (run_batch m is))) = phase (snap m) \<or>
      phase (snap (fst (run_batch m is))) = Phase_Starting)"
proof (induction "is" arbitrary: m)
  case Nil
  then show ?case by simp
next
  case (Cons i "is")
  let ?n = "(fst (apply_input m i))\<lparr>pending_actions := []\<rparr>"
  from Cons.prems have "\<forall>e\<in>set (snd (apply_input m i)). \<not> inhibit_relevant (ev_kind e)"
    and "\<forall>e\<in>set (fst (snd (run_batch ?n is))). \<not> inhibit_relevant (ev_kind e)"
    by (simp_all add: run_batch_Cons Let_def)
  from media_type_quiet [OF this(1)] phase_quiet [OF this(1)] Cons.IH [OF this(2)] show ?case
    by (auto simp: run_batch_Cons Let_def)
qed

definition level_ok :: "playback_snapshot \<Rightarrow> nat \<Rightarrow> bool" where
  "level_ok s l \<longleftrightarrow> (phase s \<noteq> Phase_Starting \<longrightarrow> l = inhibit_level s)"

lemma level_ok_batch:
  assumes "h_idle_inhibit h" "level_ok (snap m) l" "worker_batch m b = (m', evs, acts)"
  shows "level_ok (snap m') (level_after l (concat (map (idle_inhibit_deliver h) evs)))"
proof -
  obtain n es ac where rb: "run_batch m b = (n, es, ac)" by (metis prod_cases3)
  with assms(3) have eq: "m' = n" "evs = map (stamp (snap n)) es"
    by (auto simp: worker_batch_def)
  show ?thesis
  proof (cases "\<exists>e\<in>set es. inhibit_relevant (ev_kind e)")
    case True
    then show ?thesis by (simp add: eq level_after_stamped [OF assms(1)] level_ok_def del: map_map)
  next
    case False
    with batch_quiet [of m b] rb have "media_type (snap n) = media_type (snap m)"
      "phase (snap n) = phase (snap m) \<or> phase (snap n) = Phase_Starting" by auto
    with False assms(2) show ?thesis
      by (auto simp: eq level_after_stamped [OF assms(1)] level_ok_def inhibit_level_def simp del: map_map)
  qed
qed

lemma level_ok_batches:
  "h_idle_inhibit h \<Longrightarrow> level_ok (snap m) l \<Longrightarrow>
     level_ok (snap (fst (follow_batches h m l bs))) (snd (follow_batches h m l bs))"
proof (induction bs arbitrary: m l)
  case Nil
  then show ?case by simp
next
  case (Cons b bs)
  obtain m' evs acts where wb: "worker_batch m b = (m', evs, acts)" by (metis prod_cases3)
  from Cons.IH [OF Cons.prems(1) level_ok_batch [OF Cons.prems wb]] show ?case
    by (simp add: wb)
qed

lemma level_ok_new: "level_ok (snap new_sm) LEVEL_NONE"
  by (simp add: level_ok_def new_sm_def inhibit_level_def)

section \<open>The properties\<close>

text \<open>
  The platform's idle inhibition follows the playback: after every sequence of worker
  batches, unless a track is still starting, the level last set is the one the published
  snapshot calls for - display for video that plays, system for audio that plays, none when
  paused or stopped - however the inputs were cut into batches.
\<close>

theorem idle_inhibit_follows_playback:
  assumes "h_idle_inhibit h" "follow_batches h new_sm LEVEL_NONE bs = (m, l)"
    "phase (snap m) \<noteq> Phase_Starting"
  shows "l = inhibit_level (snap m)"
  using level_ok_batches [OF assms(1) level_ok_new, of bs] assms(2,3) by (simp add: level_ok_def)

theorem idle_inhibit_follows_playback_witness:
  "snd (follow_batches \<lparr>h_idle_inhibit = True, h_theme = False, h_hz = False, h_exec_js = False\<rparr>
     new_sm LEVEL_NONE [[MediaType Media_Audio, FileLoaded], [PauseChanged False]]) = LEVEL_SYSTEM"
proof -
  let ?h = "\<lparr>h_idle_inhibit = True, h_theme = False, h_hz = False, h_exec_js = False\<rparr>"
  let ?r = "follow_batches ?h new_sm LEVEL_NONE [[MediaType Media_Audio, FileLoaded], [PauseChanged False]]"
  have m: "phase (snap (fst ?r)) = Phase_Playing" "media_type (snap (fst ?r)) = Media_Audio"
    by (simp_all add: worker_batch_def run_batch_Cons new_sm_def step_defs helper_defs Let_def)
  have "snd ?r = inhibit_level (snap (fst ?r))"
    by (rule idle_inhibit_follows_playback [of ?h]) (simp_all add: m del: follow_batches.simps)
  then show ?thesis by (simp add: inhibit_level_def m del: follow_batches.simps)
qed

end
