(* ===== verification/Signals.thy ===== *)
theory Signals
  imports Sinks
begin

text \<open>
  The process-wide seams of the playback crate: the hotkey classifier (\<open>hotkey.rs\<close>), the
  shutdown signal (\<open>shutdown.rs\<close>) and the lifecycle slots (\<open>lifecycle.rs\<close>). Registered
  callbacks and wake events are named by numbers; what gets called is the output.
\<close>

section \<open>Hotkeys\<close>

unbundle bit_operations_syntax

datatype hotkey_action = Hotkey_None | Hotkey_Shutdown | Hotkey_Toggle_Fullscreen

definition VK_F :: int where "VK_F = 0x46"
definition VK_F4 :: int where "VK_F4 = 0x73"
definition VK_F11 :: int where "VK_F11 = 0x7A"
definition EVENTFLAG_ALT_DOWN :: "32 word" where "EVENTFLAG_ALT_DOWN = push_bit 3 1"

definition video_player_active :: "sink coordinator option \<Rightarrow> bool" where
  "video_player_active slot =
     (case slot of None \<Rightarrow> False
      | Some c \<Rightarrow> media_type (published c) = Media_Video \<and> presence (published c) = Presence_Present \<and>
                 phase (published c) \<noteq> Phase_Stopped)"

definition classify_keydown :: "sink coordinator option \<Rightarrow> int \<Rightarrow> 32 word \<Rightarrow> hotkey_action" where
  "classify_keydown slot key modifiers =
     (if key = VK_F4 \<and> (modifiers AND EVENTFLAG_ALT_DOWN) \<noteq> 0 then Hotkey_Shutdown
      else if key = VK_F \<or> key = VK_F11
      then if \<not> video_player_active slot then Hotkey_None else Hotkey_Toggle_Fullscreen
      else Hotkey_None)"

section \<open>Shutdown\<close>

record shutdown_state =
  shutting_down :: bool
  shutdown_handler :: "nat option"
  wakers :: "nat list"

datatype signal_call = Run_Handler nat | Signal_Waker nat

definition new_shutdown :: shutdown_state where
  "new_shutdown = \<lparr>shutting_down = False, shutdown_handler = None, wakers = []\<rparr>"

definition shutdown_set_handler :: "nat option \<Rightarrow> shutdown_state \<Rightarrow> shutdown_state" where
  "shutdown_set_handler h s = s\<lparr>shutdown_handler := h\<rparr>"

definition shutdown_register_waker :: "nat \<Rightarrow> shutdown_state \<Rightarrow> shutdown_state" where
  "shutdown_register_waker w s = s\<lparr>wakers := wakers s @ [w]\<rparr>"

definition shutdown_fanout :: "shutdown_state \<Rightarrow> signal_call list" where
  "shutdown_fanout s = map Signal_Waker (wakers s)"

text \<open>
  The flag is taken with one compare-and-swap, so concurrent calls are ordered by it; the
  handler runs on the thread that won.
\<close>

definition shutdown_initiate :: "shutdown_state \<Rightarrow> shutdown_state \<times> signal_call list" where
  "shutdown_initiate s =
     (if shutting_down s then (s, [])
      else (s\<lparr>shutting_down := True\<rparr>,
            case shutdown_handler s of None \<Rightarrow> [] | Some h \<Rightarrow> [Run_Handler h]))"

datatype shutdown_op = Set_Handler "nat option" | Register_Waker nat | Fanout | Initiate

fun shutdown_step :: "shutdown_state \<Rightarrow> shutdown_op \<Rightarrow> shutdown_state \<times> signal_call list" where
  "shutdown_step s (Set_Handler h) = (shutdown_set_handler h s, [])"
| "shutdown_step s (Register_Waker w) = (shutdown_register_waker w s, [])"
| "shutdown_step s Fanout = (s, shutdown_fanout s)"
| "shutdown_step s Initiate = shutdown_initiate s"

fun is_handler_run :: "signal_call \<Rightarrow> bool" where
  "is_handler_run (Run_Handler _) = True"
| "is_handler_run (Signal_Waker _) = False"

lemma no_handler_in_fanout [simp]: "filter is_handler_run (map Signal_Waker ws) = []"
  by (induction ws) simp_all

lemma handler_runs:
  "filter is_handler_run (snd (run_steps shutdown_step s ops)) = [] \<or>
   \<not> shutting_down s \<and> (\<exists>h. filter is_handler_run (snd (run_steps shutdown_step s ops)) = [Run_Handler h])"
proof (induction ops arbitrary: s)
  case Nil
  then show ?case by simp
next
  case (Cons op ops)
  have quiet: "filter is_handler_run (snd (run_steps shutdown_step t ops)) = []" if "shutting_down t" for t
    using Cons.IH [of t] that by blast
  show ?case
  proof (cases op)
    case Initiate
    then show ?thesis
      by (cases "shutting_down s"; cases "shutdown_handler s")
        (simp_all add: run_steps_Cons_snd shutdown_initiate_def quiet del: run_steps.simps(2))
  next
    case (Set_Handler h)
    then show ?thesis using Cons.IH [of "shutdown_set_handler h s"]
      by (simp add: run_steps_Cons_snd shutdown_set_handler_def del: run_steps.simps(2))
  next
    case (Register_Waker w)
    then show ?thesis using Cons.IH [of "shutdown_register_waker w s"]
      by (simp add: run_steps_Cons_snd shutdown_register_waker_def del: run_steps.simps(2))
  next
    case Fanout
    then show ?thesis using Cons.IH [of s]
      by (simp add: run_steps_Cons_snd shutdown_fanout_def del: run_steps.simps(2))
  qed
qed

section \<open>Lifecycle\<close>

record lifecycle_slots =
  slot_visible :: "nat option"
  slot_suspend :: "nat option"
  slot_resume :: "nat option"

datatype lifecycle_call = Call_Visible nat bool | Call_Suspend nat | Call_Resume nat

definition lifecycle_set_handlers :: "nat \<Rightarrow> nat \<Rightarrow> nat \<Rightarrow> lifecycle_slots \<Rightarrow> lifecycle_slots" where
  "lifecycle_set_handlers v s r _ = \<lparr>slot_visible = Some v, slot_suspend = Some s, slot_resume = Some r\<rparr>"

definition lifecycle_set_visible :: "bool \<Rightarrow> lifecycle_slots \<Rightarrow> lifecycle_call list" where
  "lifecycle_set_visible b l = (case slot_visible l of None \<Rightarrow> [] | Some f \<Rightarrow> [Call_Visible f b])"

definition lifecycle_suspend :: "lifecycle_slots \<Rightarrow> lifecycle_call list" where
  "lifecycle_suspend l = (case slot_suspend l of None \<Rightarrow> [] | Some f \<Rightarrow> [Call_Suspend f])"

definition lifecycle_resume :: "lifecycle_slots \<Rightarrow> lifecycle_call list" where
  "lifecycle_resume l = (case slot_resume l of None \<Rightarrow> [] | Some f \<Rightarrow> [Call_Resume f])"

section \<open>The properties\<close>

text \<open>
  Shutdown is a one-shot signal: in every sequence of registrations, fan-outs and
  initiations the handler runs at most once, and once the process is shutting down it never
  runs again.
\<close>

theorem shutdown_handler_once:
  "length (filter is_handler_run (snd (run_steps shutdown_step s ops))) \<le> (if shutting_down s then 0 else 1)"
  using handler_runs [of s ops] by (auto simp del: run_steps.simps)

end
