(* ===== verification/Sink_Core.thy ===== *)
theory Sink_Core
  imports Coordinator
begin

text \<open>
  The scaffolding of the OS media sinks (\<open>playback/src/sink_core.rs\<close>): the transport
  commands, the throttle of timeline pushes, and the bounded queue between the coordinator
  worker and a sink's consumer thread. Instants are nanoseconds.
\<close>

section \<open>Transport commands\<close>

datatype media_command = Cmd_Play | Cmd_Pause | Cmd_Play_Pause | Cmd_Stop | Cmd_Next | Cmd_Previous

datatype transport_call =
    Mpv_Play | Mpv_Pause | Mpv_Toggle_Pause | Mpv_Stop
  | Native_Host_Input string
  | Native_Seek int

fun execute :: "media_command \<Rightarrow> transport_call" where
  "execute Cmd_Play = Mpv_Play"
| "execute Cmd_Pause = Mpv_Pause"
| "execute Cmd_Play_Pause = Mpv_Toggle_Pause"
| "execute Cmd_Stop = Mpv_Stop"
| "execute Cmd_Next = Native_Host_Input ''next''"
| "execute Cmd_Previous = Native_Host_Input ''previous''"

definition seek_to_ms :: "int \<Rightarrow> transport_call" where
  "seek_to_ms ms = Native_Seek ms"

section \<open>The throttle\<close>

record position_throttle =
  last_push :: "int option"
  forced_push :: bool

definition throttle_interval :: int where
  "throttle_interval = 1000000000"

definition new_throttle :: position_throttle where
  "new_throttle = \<lparr>last_push = None, forced_push = False\<rparr>"

definition force_next :: "position_throttle \<Rightarrow> position_throttle" where
  "force_next t = t\<lparr>forced_push := True\<rparr>"

text \<open>The difference of two instants is zero when the second is the later one.\<close>

definition throttle_due :: "int \<Rightarrow> bool \<Rightarrow> position_throttle \<Rightarrow> position_throttle \<times> bool" where
  "throttle_due now force t =
     (let forced = force \<or> forced_push t;
          elapsed_ok = (case last_push t of None \<Rightarrow> True
                        | Some l \<Rightarrow> throttle_interval \<le> sat_sub_u now l)
      in if \<not> forced \<and> \<not> elapsed_ok then (t, False)
         else (\<lparr>last_push = Some now, forced_push = False\<rparr>, True))"

text \<open>The instants at which a sequence of calls reported a push due.\<close>

datatype throttle_call = Force_Next | Due int bool

fun throttle_step :: "position_throttle \<Rightarrow> throttle_call \<Rightarrow> position_throttle \<times> int list" where
  "throttle_step t Force_Next = (force_next t, [])"
| "throttle_step t (Due now force) =
     (let (t', due) = throttle_due now force t in (t', if due then [now] else []))"

section \<open>The coarse phase\<close>

datatype transport_phase = Transport_Playing | Transport_Paused | Transport_Stopped

fun map_kind_to_phase :: "event_kind \<Rightarrow> transport_phase" where
  "map_kind_to_phase Ev_Started = Transport_Playing"
| "map_kind_to_phase Ev_Paused = Transport_Paused"
| "map_kind_to_phase Ev_TrackLoaded = Transport_Paused"
| "map_kind_to_phase _ = Transport_Stopped"

section \<open>The queue and its consumer\<close>

definition event_queue_cap :: nat where
  "event_queue_cap = 256"

text \<open>
  A channel with its consumer: what is buffered, whether the producer end is still there,
  what the sink was asked to do, and (for the theorems) what was accepted.
\<close>

datatype sink_call = Sink_Init | Sink_Deliver playback_event | Sink_Teardown

record channel =
  buf :: "playback_event list"
  connected :: bool
  sink_log :: "sink_call list"
  accepted_events :: "playback_event list"

text \<open>
  Every \<open>run_sink\<close> that gets past the guard has its own channel; the producer slot holds
  the last one while the sink runs, \<open>hook\<close> says that the coordinator sink is registered.
\<close>

record harness =
  event_tx :: "nat option"
  hook :: bool
  channels :: "channel list"

definition new_harness :: harness where
  "new_harness = \<lparr>event_tx = None, hook = False, channels = []\<rparr>"

definition try_send :: "playback_event \<Rightarrow> channel \<Rightarrow> channel" where
  "try_send ev ch =
     (if length (buf ch) < event_queue_cap
      then ch\<lparr>buf := buf ch @ [ev], accepted_events := accepted_events ch @ [ev]\<rparr> else ch)"

definition on_event :: "playback_event \<Rightarrow> harness \<Rightarrow> harness" where
  "on_event ev h =
     (case event_tx h of None \<Rightarrow> h
      | Some i \<Rightarrow> h\<lparr>channels := (channels h)[i := try_send ev (channels h ! i)]\<rparr>)"

definition disconnect :: "harness \<Rightarrow> harness" where
  "disconnect h =
     (case event_tx h of None \<Rightarrow> h
      | Some i \<Rightarrow> h\<lparr>event_tx := None, channels := (channels h)[i := (channels h ! i)\<lparr>connected := False\<rparr>]\<rparr>)"

text \<open>The flag says whether the thread could be spawned; its consumer starts with \<open>init\<close>.\<close>

definition run_sink :: "bool \<Rightarrow> harness \<Rightarrow> harness" where
  "run_sink spawned h =
     (if event_tx h \<noteq> None then h
      else if spawned
      then h\<lparr>event_tx := Some (length (channels h)), hook := True,
             channels := channels h @ [\<lparr>buf = [], connected = True, sink_log = [Sink_Init],
                                        accepted_events = []\<rparr>]\<rparr>
      else h\<lparr>hook := True\<rparr>)"

definition stop_sink :: "harness \<Rightarrow> harness" where
  "stop_sink = disconnect"

text \<open>One turn of a consumer: it takes the next event, or tears down when none can come.\<close>

definition consume_one :: "channel \<Rightarrow> channel" where
  "consume_one ch =
     (if Sink_Teardown \<in> set (sink_log ch) then ch
      else case buf ch of
        ev # evs \<Rightarrow> ch\<lparr>buf := evs, sink_log := sink_log ch @ [Sink_Deliver ev]\<rparr>
      | [] \<Rightarrow> if connected ch then ch else ch\<lparr>sink_log := sink_log ch @ [Sink_Teardown]\<rparr>)"

definition consumer_turn :: "nat \<Rightarrow> harness \<Rightarrow> harness" where
  "consumer_turn i h =
     (if i < length (channels h) then h\<lparr>channels := (channels h)[i := consume_one (channels h ! i)]\<rparr> else h)"

datatype harness_op = H_Event playback_event | H_Run bool | H_Stop | H_Consume nat

fun harness_step :: "harness \<Rightarrow> harness_op \<Rightarrow> harness \<times> unit list" where
  "harness_step h (H_Event ev) = (if hook h then on_event ev h else h, [])"
| "harness_step h (H_Run ok) = (run_sink ok h, [])"
| "harness_step h H_Stop = (stop_sink h, [])"
| "harness_step h (H_Consume i) = (consumer_turn i h, [])"

section \<open>What a sink sees\<close>

definition channel_ok :: "channel \<Rightarrow> bool" where
  "channel_ok ch \<longleftrightarrow>
     length (buf ch) \<le> event_queue_cap \<and>
     (\<exists>evs. accepted_events ch = evs @ buf ch \<and>
        (sink_log ch = Sink_Init # map Sink_Deliver evs \<or>
         sink_log ch = Sink_Init # map Sink_Deliver evs @ [Sink_Teardown] \<and> buf ch = [] \<and> \<not> connected ch))"

definition harness_ok :: "harness \<Rightarrow> bool" where
  "harness_ok h \<longleftrightarrow>
     (\<forall>ch\<in>set (channels h). channel_ok ch) \<and>
     (\<forall>i<length (channels h). connected (channels h ! i) \<longleftrightarrow> event_tx h = Some i) \<and>
     (\<forall>i. event_tx h = Some i \<longrightarrow> i < length (channels h))"

lemma teardown_not_delivered [simp]: "Sink_Teardown \<notin> Sink_Deliver ` A"
  by auto

lemma channel_ok_send: "channel_ok ch \<Longrightarrow> connected ch \<Longrightarrow> channel_ok (try_send ev ch)"
  by (auto simp: channel_ok_def try_send_def)

lemma channel_ok_disconnect: "channel_ok ch \<Longrightarrow> channel_ok (ch\<lparr>connected := False\<rparr>)"
  by (auto simp: channel_ok_def)

lemma channel_ok_consume:
  assumes "channel_ok ch"
  shows "channel_ok (consume_one ch)"
proof -
  obtain evs where e: "accepted_events ch = evs @ buf ch" and len: "length (buf ch) \<le> event_queue_cap"
    and l: "sink_log ch = Sink_Init # map Sink_Deliver evs \<or>
      sink_log ch = Sink_Init # map Sink_Deliver evs @ [Sink_Teardown] \<and> buf ch = [] \<and> \<not> connected ch"
    using assms unfolding channel_ok_def by blast
  from l show ?thesis
  proof
    assume log: "sink_log ch = Sink_Init # map Sink_Deliver evs"
    show ?thesis
    proof (cases "buf ch")
      case Nil
      with log e show ?thesis by (auto simp: channel_ok_def consume_one_def)
    next
      case (Cons ev rest)
      with log e len show ?thesis
        unfolding channel_ok_def by (intro conjI exI [of _ "evs @ [ev]"]) (auto simp: consume_one_def)
    qed
  next
    assume "sink_log ch = Sink_Init # map Sink_Deliver evs @ [Sink_Teardown] \<and> buf ch = [] \<and> \<not> connected ch"
    with assms show ?thesis by (simp add: consume_one_def)
  qed
qed

lemma connected_simps [simp]:
  "connected (try_send ev ch) = connected ch" "connected (consume_one ch) = connected ch"
  by (simp_all add: try_send_def consume_one_def split: list.splits)

lemma harness_ok_event: "harness_ok h \<Longrightarrow> harness_ok (on_event ev h)"
  by (auto simp: harness_ok_def on_event_def nth_list_update channel_ok_send
      dest!: set_update_subset_insert [THEN subsetD] split: option.splits)

lemma harness_ok_disconnect: "harness_ok h \<Longrightarrow> harness_ok (disconnect h)"
  by (auto simp: harness_ok_def disconnect_def nth_list_update channel_ok_disconnect
      dest!: set_update_subset_insert [THEN subsetD] split: option.splits)

lemma harness_ok_run: "harness_ok h \<Longrightarrow> harness_ok (run_sink ok h)"
  by (auto simp: harness_ok_def run_sink_def nth_append channel_ok_def less_Suc_eq)

lemma harness_ok_consume: "harness_ok h \<Longrightarrow> harness_ok (consumer_turn i h)"
  by (auto simp: harness_ok_def consumer_turn_def nth_list_update channel_ok_consume
      dest!: set_update_subset_insert [THEN subsetD])

interpretation hm: machine harness_step new_harness harness_ok "\<lambda>_. True"
proof
  show "harness_ok new_harness" by (simp add: harness_ok_def new_harness_def)
  show "harness_ok (fst (harness_step h op))" if "harness_ok h" for h op
    using that by (cases op) (simp_all add: harness_ok_event harness_ok_run stop_sink_def
        harness_ok_disconnect harness_ok_consume)
qed simp

section \<open>Spacing of the pushes\<close>

lemma throttle_spaced:
  "\<not> forced_push t \<Longrightarrow>
     spaced_by throttle_interval (last_push t) (snd (run_steps throttle_step t (map (\<lambda>now. Due now False) nows)))"
proof (induction nows arbitrary: t)
  case Nil
  then show ?case by simp
next
  case (Cons now nows)
  from Cons.IH [OF Cons.prems] Cons.IH [of "\<lparr>last_push = Some now, forced_push = False\<rparr>"] Cons.prems
  show ?case
    by (auto simp: throttle_due_def Let_def split_beta sat_sub_u_def throttle_interval_def
        split: option.splits)
qed

section \<open>The properties\<close>

text \<open>
  C40: Whatever the interleaving of events, starts, stops and consumer turns, every media
  sink is initialised first, is given exactly the events its queue accepted, in order and
  without gap, is torn down at most once, last, and only after its producer is gone and
  its queue delivered; a queue never holds more than 256 events, and only the channel in
  the producer slot is still connected.
\<close>

theorem sink_channels_ordered: "harness_ok (fst (run_steps harness_step new_harness ops))"
  by (rule hm.reach_inv)

text \<open>
  As long as nobody forces one, two timeline pushes are at least one second apart,
  whatever the instants the throttle is asked at.
\<close>

theorem unforced_pushes_spaced:
  "spaced_by throttle_interval None (snd (run_steps throttle_step new_throttle (map (\<lambda>now. Due now False) nows)))"
  using throttle_spaced [of new_throttle nows] by (simp add: new_throttle_def)

end
