(* ===== verification/Geometry.thy ===== *)
theory Geometry
  imports Ieee
begin

text \<open>
  The window geometry values of the platform interface (\<open>platform_abi/src/geometry.rs\<close>).
  Sizes and positions are \<open>c_int\<close>, that is \<open>i32\<close>: arithmetic on them is written with
  its 32-bit wrap-around, a conversion from \<open>f32\<close> truncates and saturates.
\<close>

section \<open>Sizes and scales\<close>

definition scale_or_one :: "f32 \<Rightarrow> f32" where
  "scale_or_one s = (if f_lt (Fin 0 0) s then s else Fin 1 0)"

record logical_size =
  log_w :: int
  log_h :: int

record physical_size =
  phy_w :: int
  phy_h :: int

definition logical_to_physical :: "logical_size \<Rightarrow> f32 \<Rightarrow> physical_size" where
  "logical_to_physical l s =
     (let s = scale_or_one s
      in \<lparr>phy_w = f_to_i32 (f_round (f_mul single (f_of_int single (log_w l)) s)),
          phy_h = f_to_i32 (f_round (f_mul single (f_of_int single (log_h l)) s))\<rparr>)"

definition physical_to_logical :: "physical_size \<Rightarrow> f32 \<Rightarrow> logical_size" where
  "physical_to_logical p s =
     (let s = scale_or_one s
      in \<lparr>log_w = f_to_i32 (f_round (f_div single (f_of_int single (phy_w p)) s)),
          log_h = f_to_i32 (f_round (f_div single (f_of_int single (phy_h p)) s))\<rparr>)"

record physical_point =
  pp_x :: int
  pp_y :: int

record logical_point =
  lp_x :: int
  lp_y :: int

section \<open>Window extents\<close>

record window_extent =
  ext_logical :: logical_size
  ext_physical :: physical_size
  ext_scale :: f32

definition extent_new :: "physical_size \<Rightarrow> f32 \<Rightarrow> window_extent" where
  "extent_new p s = \<lparr>ext_logical = physical_to_logical p s, ext_physical = p, ext_scale = s\<rparr>"

definition extent_with_logical :: "physical_size \<Rightarrow> f32 \<Rightarrow> logical_size \<Rightarrow> window_extent" where
  "extent_with_logical p s l = \<lparr>ext_logical = l, ext_physical = p, ext_scale = s\<rparr>"

text \<open>The product of two \<open>i32\<close> values fits \<open>i64\<close>; the result is cut back to \<open>i32\<close>.\<close>

definition map_axis :: "int \<Rightarrow> int \<Rightarrow> int \<Rightarrow> int" where
  "map_axis v logical physical =
     (if physical \<le> 0 then v
      else let num = v * logical; q = trunc_div num physical
           in wrap32 (if trunc_mod num physical \<noteq> 0 \<and> num < 0 then q - 1 else q))"

definition to_logical_point :: "window_extent \<Rightarrow> physical_point \<Rightarrow> logical_point" where
  "to_logical_point e p =
     \<lparr>lp_x = map_axis (pp_x p) (log_w (ext_logical e)) (phy_w (ext_physical e)),
      lp_y = map_axis (pp_y p) (log_h (ext_logical e)) (phy_h (ext_physical e))\<rparr>"

section \<open>Saved and boot geometry\<close>

record window_pos =
  pos_x :: int
  pos_y :: int

record window_geometry =
  geo_w :: int
  geo_h :: int
  geo_position :: "window_pos option"

definition geometry_from_raw :: "int \<Rightarrow> int \<Rightarrow> int \<Rightarrow> int \<Rightarrow> window_geometry" where
  "geometry_from_raw w h x y =
     \<lparr>geo_w = w, geo_h = h,
      geo_position = (if 0 \<le> x \<and> 0 \<le> y then Some \<lparr>pos_x = x, pos_y = y\<rparr> else None)\<rparr>"

definition raw_position :: "window_geometry \<Rightarrow> int \<times> int" where
  "raw_position g = (case geo_position g of None \<Rightarrow> (-1, -1) | Some p \<Rightarrow> (pos_x p, pos_y p))"

record boot_geometry =
  boot_logical :: logical_size
  boot_physical :: physical_size
  boot_scale :: f32
  boot_position :: "window_pos option"
  boot_maximized :: bool

definition boot_from_clamped :: "logical_size \<Rightarrow> f32 \<Rightarrow> window_geometry \<Rightarrow> bool \<Rightarrow> boot_geometry" where
  "boot_from_clamped l s g mx =
     \<lparr>boot_logical = l, boot_physical = \<lparr>phy_w = geo_w g, phy_h = geo_h g\<rparr>, boot_scale = s,
      boot_position = geo_position g, boot_maximized = mx\<rparr>"

definition mpv_geometry_string :: "boot_geometry \<Rightarrow> string" where
  "mpv_geometry_string b =
     show_int (phy_w (boot_physical b)) @ ''x'' @ show_int (phy_h (boot_physical b)) @
     (case boot_position b of None \<Rightarrow> []
      | Some p \<Rightarrow> ''+'' @ show_int (pos_x p) @ ''+'' @ show_int (pos_y p))"

definition force_position :: "boot_geometry \<Rightarrow> bool" where
  "force_position b = (boot_position b \<noteq> None)"

section \<open>Clamping\<close>

record bounds =
  bound_w :: int
  bound_h :: int

text \<open>One axis of the clamp: the shrunk extent and the position along it.\<close>

definition clamp_to_bounds :: "window_geometry \<Rightarrow> bounds \<Rightarrow> window_geometry" where
  "clamp_to_bounds g b =
     (let vw = bound_w b; vh = bound_h b;
          w = (if geo_w g > vw then vw else geo_w g);
          h = (if geo_h g > vh then vh else geo_h g);
          (x, y) = (case geo_position g of
                      Some p \<Rightarrow> (pos_x p, pos_y p)
                    | None \<Rightarrow> (trunc_div (wrap32 (vw - w)) 2, trunc_div (wrap32 (vh - h)) 2));
          x = (if wrap32 (x + w) > vw then wrap32 (vw - w) else x);
          y = (if wrap32 (y + h) > vh then wrap32 (vh - h) else y);
          x = (if x < 0 then 0 else x);
          y = (if y < 0 then 0 else y)
      in \<lparr>geo_w = w, geo_h = h, geo_position = Some \<lparr>pos_x = x, pos_y = y\<rparr>\<rparr>)"

section \<open>Lemmas\<close>

lemma trunc_div_floor:
  assumes "0 < d"
  shows "(if trunc_mod n d \<noteq> 0 \<and> n < 0 then trunc_div n d - 1 else trunc_div n d) = n div d"
proof (cases "0 \<le> n")
  case True
  then show ?thesis using assms by (simp add: trunc_div_nonneg)
next
  case False
  then have neg: "trunc_div n d = - ((- n) div d)"
    using assms by (simp add: trunc_div_neg)
  then have m: "trunc_mod n d = - ((- n) mod d)"
    by (simp add: trunc_mod_def minus_mod_eq_mult_div [symmetric] algebra_simps)
  show ?thesis
    using False assms pos_mod_bound [of d n]
    by (simp add: neg m zdiv_zminus1_eq_if zmod_zminus1_eq_if less_imp_neq [symmetric])
qed

lemma map_axis_floor: "0 < p \<Longrightarrow> map_axis v l p = wrap32 (v * l div p)"
  using trunc_div_floor [of p "v * l"] by (simp add: map_axis_def Let_def)

lemma map_axis_exact:
  assumes "0 < p" "p \<le> i32_max" "0 \<le> l" "l \<le> i32_max" "0 \<le> v" "v \<le> p"
  shows "map_axis v l p = v * l div p"
proof -
  have "v * l div p \<le> p * l div p"
    using assms by (intro zdiv_mono1 mult_right_mono) simp_all
  also have "\<dots> = l" using assms by simp
  finally have "v * l div p \<le> l" .
  moreover have "0 \<le> v * l div p" using assms by (simp add: pos_imp_zdiv_nonneg_iff)
  ultimately show ?thesis using assms by (simp add: map_axis_floor wrap32_id)
qed

definition integer_scale :: "f32 \<Rightarrow> int \<Rightarrow> bool" where
  "integer_scale s k \<longleftrightarrow> f_is_finite s \<and> fval s = of_int k \<and> 0 < k"

lemma scale_or_one_integer: "integer_scale s k \<Longrightarrow> scale_or_one s = s"
  by (auto simp: scale_or_one_def integer_scale_def f_lt_iff)

lemma scale_up:
  assumes "integer_scale s k" "\<bar>v\<bar> < 16777216" "\<bar>v * k\<bar> < 16777216"
  shows "f_to_i32 (f_round (f_mul single (f_of_int single v) s)) = v * k"
proof -
  have v: "f_is_finite (f_of_int single v)" "fval (f_of_int single v) = of_int v"
    using f_of_int_single [OF assms(2)] by blast+
  have "fval (f_of_int single v) * fval s = of_int (v * k)"
    using v assms(1) by (simp add: integer_scale_def)
  moreover have "representable single (of_int (v * k))"
    using assms(3) by (intro representable_of_int) simp_all
  ultimately have "f_is_finite (f_mul single (f_of_int single v) s) \<and>
      fval (f_mul single (f_of_int single v) s) = of_int (v * k)"
    using f_mul_exact [of single "f_of_int single v" s] v assms(1) by (simp add: integer_scale_def)
  then have "f_is_finite (f_round (f_mul single (f_of_int single v) s)) \<and>
      fval (f_round (f_mul single (f_of_int single v) s)) = of_int (v * k)"
    by (intro f_round_exact) simp_all
  then show ?thesis
    using assms(3) by (intro f_to_int_exact) auto
qed

lemma scale_down:
  assumes "integer_scale s k" "\<bar>v\<bar> < 16777216" "\<bar>v * k\<bar> < 16777216"
  shows "f_to_i32 (f_round (f_div single (f_of_int single (v * k)) s)) = v"
proof -
  have v: "f_is_finite (f_of_int single (v * k))" "fval (f_of_int single (v * k)) = of_int (v * k)"
    using f_of_int_single [OF assms(3)] by blast+
  have "fval (f_of_int single (v * k)) / fval s = of_int v"
    using v assms(1) by (simp add: integer_scale_def)
  moreover have "representable single (of_int v)"
    using assms(2) by (intro representable_of_int) simp_all
  ultimately have "f_is_finite (f_div single (f_of_int single (v * k)) s) \<and>
      fval (f_div single (f_of_int single (v * k)) s) = of_int v"
    using f_div_exact [of single "f_of_int single (v * k)" s] v assms(1) by (simp add: integer_scale_def)
  then have "f_is_finite (f_round (f_div single (f_of_int single (v * k)) s)) \<and>
      fval (f_round (f_div single (f_of_int single (v * k)) s)) = of_int v"
    by (intro f_round_exact) simp_all
  then show ?thesis
    using assms(2) by (intro f_to_int_exact) auto
qed

lemma div_less_of_less_mult:
  fixes a b c :: int
  assumes "0 < c" "a < b * c"
  shows "a div c < b"
proof (rule ccontr)
  assume "\<not> a div c < b"
  then have "b * c \<le> a div c * c" using assms(1) by (simp add: mult_right_mono)
  also have "\<dots> \<le> a" using assms(1) by (simp add: div_mult_mod_eq [symmetric] flip: minus_mod_eq_div_mult)
  finally show False using assms(2) by simp
qed

text \<open>The geometry stays inside the bounds, and clamping again changes nothing.\<close>

definition inside :: "bounds \<Rightarrow> window_geometry \<Rightarrow> bool" where
  "inside b g \<longleftrightarrow> geo_w g \<le> bound_w b \<and> geo_h g \<le> bound_h b \<and>
     (\<exists>p. geo_position g = Some p \<and> 0 \<le> pos_x p \<and> 0 \<le> pos_y p \<and>
        pos_x p + geo_w g \<le> bound_w b \<and> pos_y p + geo_h g \<le> bound_h b)"

definition sane_bounds :: "bounds \<Rightarrow> bool" where
  "sane_bounds b \<longleftrightarrow> 0 \<le> bound_w b \<and> bound_w b \<le> i32_max \<and> 0 \<le> bound_h b \<and> bound_h b \<le> i32_max"

text \<open>No coordinate plus extent leaves \<open>i32\<close>.\<close>

definition sane_geometry :: "window_geometry \<Rightarrow> bool" where
  "sane_geometry g \<longleftrightarrow> 0 \<le> geo_w g \<and> geo_w g \<le> i32_max \<and> 0 \<le> geo_h g \<and> geo_h g \<le> i32_max \<and>
     (\<forall>p. geo_position g = Some p \<longrightarrow> i32_min \<le> pos_x p \<and> pos_x p + geo_w g \<le> i32_max \<and>
        i32_min \<le> pos_y p \<and> pos_y p + geo_h g \<le> i32_max)"

text \<open>The two axes are clamped alike.\<close>

definition clamp_axis :: "int \<Rightarrow> int \<Rightarrow> int option \<Rightarrow> int" where
  "clamp_axis v w p =
     (let x = (case p of Some x \<Rightarrow> x | None \<Rightarrow> trunc_div (wrap32 (v - w)) 2);
          x = (if wrap32 (x + w) > v then wrap32 (v - w) else x)
      in if x < 0 then 0 else x)"

lemma clamp_to_bounds_axes:
  "clamp_to_bounds g b =
     (let w = min (geo_w g) (bound_w b); h = min (geo_h g) (bound_h b)
      in \<lparr>geo_w = w, geo_h = h,
          geo_position = Some \<lparr>pos_x = clamp_axis (bound_w b) w (map_option pos_x (geo_position g)),
            pos_y = clamp_axis (bound_h b) h (map_option pos_y (geo_position g))\<rparr>\<rparr>)"
proof -
  have "(if geo_w g > bound_w b then bound_w b else geo_w g) = min (geo_w g) (bound_w b)"
    "(if geo_h g > bound_h b then bound_h b else geo_h g) = min (geo_h g) (bound_h b)" by auto
  then show ?thesis
    by (cases "geo_position g") (simp_all add: clamp_to_bounds_def clamp_axis_def Let_def)
qed

lemma clamp_axis_inside:
  assumes "0 \<le> w" "w \<le> v" "v \<le> i32_max"
    "\<forall>x. p = Some x \<longrightarrow> i32_min \<le> x \<and> x + w \<le> i32_max"
  shows "0 \<le> clamp_axis v w p \<and> clamp_axis v w p + w \<le> v"
proof -
  define x where "x = (case p of Some x \<Rightarrow> x | None \<Rightarrow> (v - w) div 2)"
  have half: "trunc_div (wrap32 (v - w)) 2 = (v - w) div 2"
    using assms by (simp add: wrap32_id trunc_div_nonneg)
  have "i32_min \<le> x" "x + w \<le> i32_max"
    using assms by (auto simp: x_def split: option.splits)
  then have "wrap32 (x + w) = x + w" using assms by (intro wrap32_id) simp_all
  moreover have "wrap32 (v - w) = v - w" using assms by (intro wrap32_id) simp_all
  moreover have "clamp_axis v w p =
      (let x = (if wrap32 (x + w) > v then wrap32 (v - w) else x) in if x < 0 then 0 else x)"
    using half by (simp add: clamp_axis_def x_def split: option.splits)
  ultimately show ?thesis
    using assms(1-3) by simp
qed

lemma clamp_axis_id:
  assumes "0 \<le> w" "0 \<le> x" "x + w \<le> v" "v \<le> i32_max"
  shows "clamp_axis v w (Some x) = x"
  using assms by (simp add: clamp_axis_def wrap32_id)

lemma clamp_inside:
  assumes "sane_bounds b" "sane_geometry g"
  shows "inside b (clamp_to_bounds g b)"
proof -
  have x: "\<forall>x. map_option pos_x (geo_position g) = Some x \<longrightarrow>
      i32_min \<le> x \<and> x + min (geo_w g) (bound_w b) \<le> i32_max"
    and y: "\<forall>y. map_option pos_y (geo_position g) = Some y \<longrightarrow>
      i32_min \<le> y \<and> y + min (geo_h g) (bound_h b) \<le> i32_max"
    using assms(2) by (force simp: sane_geometry_def)+
  show ?thesis
    using clamp_axis_inside [OF _ _ _ x, of "bound_w b"] clamp_axis_inside [OF _ _ _ y, of "bound_h b"] assms
    by (simp add: inside_def clamp_to_bounds_axes sane_bounds_def sane_geometry_def Let_def)
qed

lemma clamp_of_inside:
  assumes "sane_bounds b" "inside b g" "0 \<le> geo_w g" "0 \<le> geo_h g"
  shows "clamp_to_bounds g b = g"
proof -
  obtain p where "geo_position g = Some p" and "0 \<le> pos_x p" "0 \<le> pos_y p"
    "pos_x p + geo_w g \<le> bound_w b" "pos_y p + geo_h g \<le> bound_h b"
    using assms(2) by (auto simp: inside_def)
  with assms show ?thesis
    by (simp add: clamp_to_bounds_axes sane_bounds_def clamp_axis_id Let_def)
qed

section \<open>The properties\<close>

text \<open>
  C38: A restored window is fully on screen: for every geometry whose coordinates do not
  overflow, the clamped one fits the bounds, is no larger than asked, and clamping it
  again changes nothing.
\<close>

theorem clamp_fits_screen:
  assumes "sane_bounds b" "sane_geometry g"
  shows "inside b (clamp_to_bounds g b) \<and>
    geo_w (clamp_to_bounds g b) \<le> geo_w g \<and> geo_h (clamp_to_bounds g b) \<le> geo_h g \<and>
    clamp_to_bounds (clamp_to_bounds g b) b = clamp_to_bounds g b"
proof -
  have "0 \<le> geo_w (clamp_to_bounds g b)" "0 \<le> geo_h (clamp_to_bounds g b)"
    using assms by (simp_all add: clamp_to_bounds_axes Let_def sane_bounds_def sane_geometry_def)
  then have "clamp_to_bounds (clamp_to_bounds g b) b = clamp_to_bounds g b"
    by (rule clamp_of_inside [OF assms(1) clamp_inside [OF assms]])
  with clamp_inside [OF assms] show ?thesis
    by (simp add: clamp_to_bounds_axes [of g b] Let_def)
qed

theorem clamp_fits_screen_witness:
  "clamp_to_bounds \<lparr>geo_w = 1600, geo_h = 900, geo_position = Some \<lparr>pos_x = 900, pos_y = -5\<rparr>\<rparr>
      \<lparr>bound_w = 1920, bound_h = 1040\<rparr>
    = \<lparr>geo_w = 1600, geo_h = 900, geo_position = Some \<lparr>pos_x = 320, pos_y = 0\<rparr>\<rparr> \<and>
   inside \<lparr>bound_w = 1920, bound_h = 1040\<rparr>
     (clamp_to_bounds \<lparr>geo_w = 1600, geo_h = 900, geo_position = Some \<lparr>pos_x = 900, pos_y = -5\<rparr>\<rparr>
       \<lparr>bound_w = 1920, bound_h = 1040\<rparr>)"
proof -
  let ?b = "\<lparr>bound_w = 1920, bound_h = 1040\<rparr>"
  let ?g = "\<lparr>geo_w = 1600, geo_h = 900, geo_position = Some \<lparr>pos_x = 900, pos_y = -5\<rparr>\<rparr>"
  have "sane_bounds ?b" "sane_geometry ?g" by (simp_all add: sane_bounds_def sane_geometry_def)
  from clamp_fits_screen [OF this] show ?thesis
    by (simp add: clamp_to_bounds_def wrap32_def)
qed

text \<open>
  The clamp does not protect against a saved coordinate near the end of \<open>i32\<close>: the
  sum of position and extent wraps to a negative value in a release build, and the window
  is left where it was, outside the screen.
\<close>

theorem clamp_misses_far_position:
  "\<not> inside \<lparr>bound_w = 1920, bound_h = 1040\<rparr>
     (clamp_to_bounds \<lparr>geo_w = 1600, geo_h = 900, geo_position = Some \<lparr>pos_x = 2147483000, pos_y = 0\<rparr>\<rparr>
       \<lparr>bound_w = 1920, bound_h = 1040\<rparr>)"
  by (simp add: inside_def clamp_to_bounds_def wrap32_def)

text \<open>
  A pointer position inside the window's physical rectangle maps to a point inside its
  logical rectangle, exactly the floor of the scaled coordinate, in the same order; the far
  corner maps to the exact logical size.
\<close>

theorem pointer_maps_inside:
  assumes "0 < phy_w (ext_physical e)" "phy_w (ext_physical e) \<le> i32_max"
    "0 < log_w (ext_logical e)" "log_w (ext_logical e) \<le> i32_max"
    "0 \<le> pp_x p" "pp_x p \<le> pp_x q" "pp_x q \<le> phy_w (ext_physical e)"
  shows "lp_x (to_logical_point e p) = pp_x p * log_w (ext_logical e) div phy_w (ext_physical e) \<and>
    lp_x (to_logical_point e p) \<le> lp_x (to_logical_point e q) \<and>
    0 \<le> lp_x (to_logical_point e p) \<and>
    (if pp_x q = phy_w (ext_physical e) then lp_x (to_logical_point e q) = log_w (ext_logical e)
     else lp_x (to_logical_point e q) < log_w (ext_logical e))"
proof -
  let ?l = "log_w (ext_logical e)" and ?w = "phy_w (ext_physical e)"
  have eq: "lp_x (to_logical_point e p) = pp_x p * ?l div ?w" "lp_x (to_logical_point e q) = pp_x q * ?l div ?w"
    using assms by (simp_all add: to_logical_point_def map_axis_exact)
  have "pp_x p * ?l div ?w \<le> pp_x q * ?l div ?w"
    using assms by (intro zdiv_mono1 mult_right_mono) simp_all
  moreover have "0 \<le> pp_x p * ?l div ?w"
    using assms by (simp add: pos_imp_zdiv_nonneg_iff)
  moreover have "pp_x q * ?l div ?w < ?l" if "pp_x q \<noteq> ?w"
  proof -
    have "pp_x q * ?l < ?l * ?w" using assms that by (simp add: mult.commute)
    then show ?thesis using assms by (intro div_less_of_less_mult)
  qed
  ultimately show ?thesis
    using assms by (simp add: eq)
qed

theorem pointer_maps_inside_witness:
  "lp_x (to_logical_point (extent_with_logical \<lparr>phy_w = 1500, phy_h = 900\<rparr> (Fin 3 (-1)) \<lparr>log_w = 1000, log_h = 600\<rparr>)
     \<lparr>pp_x = 751, pp_y = 0\<rparr>) = 500"
proof -
  let ?e = "extent_with_logical \<lparr>phy_w = 1500, phy_h = 900\<rparr> (Fin 3 (-1)) \<lparr>log_w = 1000, log_h = 600\<rparr>"
  have "lp_x (to_logical_point ?e \<lparr>pp_x = 751, pp_y = 0\<rparr>) =
    pp_x \<lparr>pp_x = 751, pp_y = 0\<rparr> * log_w (ext_logical ?e) div phy_w (ext_physical ?e)"
    using pointer_maps_inside [of ?e "\<lparr>pp_x = 751, pp_y = 0\<rparr>" "\<lparr>pp_x = 751, pp_y = 0\<rparr>"]
    by (simp add: extent_with_logical_def)
  then show ?thesis by (simp add: extent_with_logical_def)
qed

text \<open>
  At an integer scale the two size conversions are inverse: a logical size turned into
  backing pixels and back is itself, as long as the sizes are exactly representable.
\<close>

theorem integer_scale_roundtrip:
  assumes "integer_scale s k"
    "\<bar>log_w l\<bar> < 16777216" "\<bar>log_w l * k\<bar> < 16777216"
    "\<bar>log_h l\<bar> < 16777216" "\<bar>log_h l * k\<bar> < 16777216"
  shows "logical_to_physical l s = \<lparr>phy_w = log_w l * k, phy_h = log_h l * k\<rparr> \<and>
    physical_to_logical (logical_to_physical l s) s = l"
  using scale_up [OF assms(1-3)] scale_up [OF assms(1,4,5)]
    scale_down [OF assms(1-3)] scale_down [OF assms(1,4,5)]
  by (simp add: logical_to_physical_def physical_to_logical_def scale_or_one_integer [OF assms(1)] Let_def)

theorem integer_scale_roundtrip_witness:
  "physical_to_logical (logical_to_physical \<lparr>log_w = 1280, log_h = 720\<rparr> (Fin 1 1)) (Fin 1 1)
     = \<lparr>log_w = 1280, log_h = 720\<rparr>"
proof -
  have "integer_scale (Fin 1 1) 2" by (simp add: integer_scale_def)
  then show ?thesis
    by (rule integer_scale_roundtrip [THEN conjunct2]) simp_all
qed

end
