(* ===== verification/Mpv_Events.thy ===== *)
theory Mpv_Events
  imports Ieee
begin

text \<open>
  The mpv values the ingest layer consumes: \<open>Node\<close> (\<open>mpv/src/node.rs\<close>), \<open>PropertyValue\<close>
  and \<open>Event\<close> (\<open>mpv/src/event.rs\<close>), with their decoding from libmpv's C structures. A C
  structure is a datatype with one constructor per format or event id and the union member
  that id selects, a nullable pointer an option; a C string is its decoded text.
\<close>

section \<open>Nodes\<close>

datatype node =
    Node_None
  | Node_String string
  | Node_Flag bool
  | Node_Int int
  | Node_Double f64
  | Node_Array "node list"
  | Node_Map "(string \<times> node) list"
  | Node_Byte_Array "int list"

datatype raw_node =
    Raw_None
  | Raw_String "string option"
  | Raw_Flag int
  | Raw_Int64 int
  | Raw_Double f64
  | Raw_Node_Array "raw_node list option"
  | Raw_Node_Map "(string option \<times> raw_node) list option"
  | Raw_Byte_Array "int list option option"
  | Raw_Other_Format int

definition cstr :: "string option \<Rightarrow> string" where
  "cstr p = (case p of None \<Rightarrow> [] | Some s \<Rightarrow> s)"

fun node_from_raw :: "raw_node \<Rightarrow> node" where
  "node_from_raw Raw_None = Node_None"
| "node_from_raw (Raw_String s) = Node_String (cstr s)"
| "node_from_raw (Raw_Flag f) = Node_Flag (f \<noteq> 0)"
| "node_from_raw (Raw_Int64 i) = Node_Int i"
| "node_from_raw (Raw_Double d) = Node_Double d"
| "node_from_raw (Raw_Node_Array None) = Node_Array []"
| "node_from_raw (Raw_Node_Array (Some l)) = Node_Array (map node_from_raw l)"
| "node_from_raw (Raw_Node_Map None) = Node_Map []"
| "node_from_raw (Raw_Node_Map (Some l)) = Node_Map (map (\<lambda>(k, v). (cstr k, node_from_raw v)) l)"
| "node_from_raw (Raw_Byte_Array None) = Node_Byte_Array []"
| "node_from_raw (Raw_Byte_Array (Some None)) = Node_Byte_Array []"
| "node_from_raw (Raw_Byte_Array (Some (Some b))) = Node_Byte_Array b"
| "node_from_raw (Raw_Other_Format f) = Node_None"

definition node_from_raw_ptr :: "raw_node option \<Rightarrow> node" where
  "node_from_raw_ptr p = (case p of None \<Rightarrow> Node_None | Some r \<Rightarrow> node_from_raw r)"

fun as_str :: "node \<Rightarrow> string option" where
  "as_str (Node_String s) = Some s"
| "as_str _ = None"

fun as_int :: "node \<Rightarrow> int option" where
  "as_int (Node_Int v) = Some v"
| "as_int _ = None"

fun as_double :: "node \<Rightarrow> f64 option" where
  "as_double (Node_Double v) = Some v"
| "as_double _ = None"

fun as_flag :: "node \<Rightarrow> bool option" where
  "as_flag (Node_Flag v) = Some v"
| "as_flag _ = None"

fun as_array :: "node \<Rightarrow> node list option" where
  "as_array (Node_Array a) = Some a"
| "as_array _ = None"

fun as_map :: "node \<Rightarrow> (string \<times> node) list option" where
  "as_map (Node_Map m) = Some m"
| "as_map _ = None"

definition node_get :: "string \<Rightarrow> node \<Rightarrow> node option" where
  "node_get key n =
     (case as_map n of None \<Rightarrow> None
      | Some m \<Rightarrow> map_option snd (find (\<lambda>(k, _). k = key) m))"

section \<open>Property values\<close>

datatype property_value =
    PV_None
  | PV_Flag bool
  | PV_Int int
  | PV_Double f64
  | PV_String string
  | PV_Node node

text \<open>A property event's name and its data: null, or what the format says it points to.\<close>

datatype raw_property_data =
    Raw_Data_Null
  | Raw_Data_Flag int
  | Raw_Data_Int64 int
  | Raw_Data_Double f64
  | Raw_Data_String "string option"
  | Raw_Data_Node raw_node
  | Raw_Data_Other int

record raw_property =
  raw_name :: "string option"
  raw_data :: raw_property_data

fun decode_property_data :: "raw_property_data \<Rightarrow> property_value" where
  "decode_property_data Raw_Data_Null = PV_None"
| "decode_property_data (Raw_Data_Flag i) = PV_Flag (i \<noteq> 0)"
| "decode_property_data (Raw_Data_Int64 i) = PV_Int i"
| "decode_property_data (Raw_Data_Double d) = PV_Double d"
| "decode_property_data (Raw_Data_String s) = PV_String (cstr s)"
| "decode_property_data (Raw_Data_Node n) = PV_Node (node_from_raw n)"
| "decode_property_data (Raw_Data_Other f) = PV_None"

definition property_value_from_raw :: "raw_property option \<Rightarrow> property_value" where
  "property_value_from_raw p = (case p of None \<Rightarrow> PV_None | Some r \<Rightarrow> decode_property_data (raw_data r))"

definition property_name :: "raw_property option \<Rightarrow> string" where
  "property_name p = (case p of None \<Rightarrow> [] | Some r \<Rightarrow> cstr (raw_name r))"

section \<open>Events\<close>

datatype end_file_reason =
    EF_Eof | EF_Stop | EF_Quit | EF_Error int | EF_Redirect | EF_Unknown int

text \<open>libmpv's enumerations: the named values, and any other integer.\<close>

datatype raw_end_reason =
    Raw_Reason_Eof | Raw_Reason_Stop | Raw_Reason_Quit | Raw_Reason_Error | Raw_Reason_Redirect
  | Raw_Reason_Other int

fun end_file_reason_from_raw :: "raw_end_reason \<Rightarrow> int \<Rightarrow> end_file_reason" where
  "end_file_reason_from_raw Raw_Reason_Eof err = EF_Eof"
| "end_file_reason_from_raw Raw_Reason_Stop err = EF_Stop"
| "end_file_reason_from_raw Raw_Reason_Quit err = EF_Quit"
| "end_file_reason_from_raw Raw_Reason_Error err = EF_Error err"
| "end_file_reason_from_raw Raw_Reason_Redirect err = EF_Redirect"
| "end_file_reason_from_raw (Raw_Reason_Other other) err = EF_Unknown other"

datatype log_level =
    Log_Off | Log_Fatal | Log_Error | Log_Warn | Log_Info | Log_Verbose | Log_Debug | Log_Trace

datatype raw_log_level =
    Raw_Level_Fatal | Raw_Level_Error | Raw_Level_Warn | Raw_Level_Info | Raw_Level_V
  | Raw_Level_Debug | Raw_Level_Trace | Raw_Level_Other int

fun log_level_from_raw :: "raw_log_level \<Rightarrow> log_level" where
  "log_level_from_raw Raw_Level_Fatal = Log_Fatal"
| "log_level_from_raw Raw_Level_Error = Log_Error"
| "log_level_from_raw Raw_Level_Warn = Log_Warn"
| "log_level_from_raw Raw_Level_Info = Log_Info"
| "log_level_from_raw Raw_Level_V = Log_Verbose"
| "log_level_from_raw Raw_Level_Debug = Log_Debug"
| "log_level_from_raw Raw_Level_Trace = Log_Trace"
| "log_level_from_raw (Raw_Level_Other i) = Log_Off"

record log_message =
  log_prefix :: string
  log_lvl :: log_level
  log_text :: string

datatype mpv_event =
    Mpv_None
  | Mpv_Shutdown
  | Mpv_Log_Message log_message
  | Mpv_Get_Property_Reply int int property_value string
  | Mpv_Set_Property_Reply int int
  | Mpv_Command_Reply int int
  | Mpv_Start_File
  | Mpv_End_File end_file_reason
  | Mpv_File_Loaded
  | Mpv_Client_Message "string list"
  | Mpv_Video_Reconfig
  | Mpv_Audio_Reconfig
  | Mpv_Seek
  | Mpv_Playback_Restart
  | Mpv_Property_Change int string property_value
  | Mpv_Queue_Overflow
  | Mpv_Hook int string
  | Mpv_Other int

datatype disposition = Disp_Ignore | Disp_Log | Disp_Forward bool

fun event_disposition :: "mpv_event \<Rightarrow> disposition" where
  "event_disposition Mpv_None = Disp_Ignore"
| "event_disposition (Mpv_Log_Message m) = Disp_Log"
| "event_disposition Mpv_Shutdown = Disp_Forward True"
| "event_disposition _ = Disp_Forward False"

datatype raw_event_data =
    Raw_Ev_None
  | Raw_Ev_Shutdown
  | Raw_Ev_Log_Message "string option" raw_log_level "string option"
  | Raw_Ev_Get_Property_Reply "raw_property option"
  | Raw_Ev_Set_Property_Reply
  | Raw_Ev_Command_Reply
  | Raw_Ev_Start_File
  | Raw_Ev_End_File raw_end_reason int
  | Raw_Ev_File_Loaded
  | Raw_Ev_Client_Message "string option list"
  | Raw_Ev_Video_Reconfig
  | Raw_Ev_Audio_Reconfig
  | Raw_Ev_Seek
  | Raw_Ev_Playback_Restart
  | Raw_Ev_Property_Change "raw_property option"
  | Raw_Ev_Queue_Overflow
  | Raw_Ev_Hook int "string option"
  | Raw_Ev_Other int

record raw_event =
  raw_event_data :: raw_event_data
  raw_error :: int
  raw_reply_userdata :: int

fun decode_event :: "int \<Rightarrow> int \<Rightarrow> raw_event_data \<Rightarrow> mpv_event" where
  "decode_event reply err Raw_Ev_None = Mpv_None"
| "decode_event reply err Raw_Ev_Shutdown = Mpv_Shutdown"
| "decode_event reply err (Raw_Ev_Log_Message p l t) =
     Mpv_Log_Message \<lparr>log_prefix = cstr p, log_lvl = log_level_from_raw l, log_text = cstr t\<rparr>"
| "decode_event reply err (Raw_Ev_Get_Property_Reply p) =
     Mpv_Get_Property_Reply reply err (property_value_from_raw p) (property_name p)"
| "decode_event reply err Raw_Ev_Set_Property_Reply = Mpv_Set_Property_Reply reply err"
| "decode_event reply err Raw_Ev_Command_Reply = Mpv_Command_Reply reply err"
| "decode_event reply err Raw_Ev_Start_File = Mpv_Start_File"
| "decode_event reply err (Raw_Ev_End_File r e) = Mpv_End_File (end_file_reason_from_raw r e)"
| "decode_event reply err Raw_Ev_File_Loaded = Mpv_File_Loaded"
| "decode_event reply err (Raw_Ev_Client_Message args) = Mpv_Client_Message (map cstr args)"
| "decode_event reply err Raw_Ev_Video_Reconfig = Mpv_Video_Reconfig"
| "decode_event reply err Raw_Ev_Audio_Reconfig = Mpv_Audio_Reconfig"
| "decode_event reply err Raw_Ev_Seek = Mpv_Seek"
| "decode_event reply err Raw_Ev_Playback_Restart = Mpv_Playback_Restart"
| "decode_event reply err (Raw_Ev_Property_Change p) =
     Mpv_Property_Change reply (property_name p) (property_value_from_raw p)"
| "decode_event reply err Raw_Ev_Queue_Overflow = Mpv_Queue_Overflow"
| "decode_event reply err (Raw_Ev_Hook i n) = Mpv_Hook i (cstr n)"
| "decode_event reply err (Raw_Ev_Other i) = Mpv_Other i"

definition event_from_raw :: "raw_event option \<Rightarrow> mpv_event" where
  "event_from_raw p =
     (case p of None \<Rightarrow> Mpv_None
      | Some e \<Rightarrow> decode_event (raw_reply_userdata e) (raw_error e) (raw_event_data e))"

section \<open>Lookup\<close>

lemma node_get_Map_Cons [simp]:
  "node_get key (Node_Map []) = None"
  "node_get key (Node_Map ((k, v) # m)) = (if k = key then Some v else node_get key (Node_Map m))"
  by (simp_all add: node_get_def)

lemma node_get_not_map: "as_map n = None \<Longrightarrow> node_get key n = None"
  by (simp add: node_get_def)

text \<open>A lookup in a decoded map is the first entry of that name, decoded.\<close>

lemma node_get_decoded:
  "node_get key (node_from_raw (Raw_Node_Map (Some l))) =
     map_option node_from_raw (map_of (map (\<lambda>(k, v). (cstr k, v)) l) key)"
  by (induction l) (auto simp: split_beta)

end
