(* ===== verification/Telemetry.thy ===== *)
theory Telemetry
  imports Mpv_Events
begin

text \<open>
  The two mpv channels that bypass the coordinator: the A-B loop mirror
  (\<open>playback/src/ab_loop.rs\<close>) and the statistics overlay (\<open>playback/src/stats.rs\<close>). What
  is pushed to the page is recorded as the values sent; instants are nanoseconds, passed
  to the operations that read the clock.
\<close>

section \<open>The A-B loop\<close>

definition AB_LOOP_OBSERVE_ID :: int where "AB_LOOP_OBSERVE_ID = 101"

type_synonym points = "f64 option \<times> f64 option"

record ab_inner =
  ab_a :: "f64 option"
  ab_b :: "f64 option"
  ab_pushed :: points

definition new_ab :: ab_inner where
  "new_ab = \<lparr>ab_a = None, ab_b = None, ab_pushed = (None, None)\<rparr>"

datatype ab_action = Set_A | Set_B | Clear

definition ab_parse :: "string \<Rightarrow> ab_action option" where
  "ab_parse s =
     (if s = ''set-a'' then Some Set_A else if s = ''set-b'' then Some Set_B
      else if s = ''clear'' then Some Clear else None)"

datatype ab_command = Cycle | Clear_Both | Ignore

fun command_for :: "ab_action \<Rightarrow> points \<Rightarrow> ab_command" where
  "command_for Set_A (None, None) = Cycle"
| "command_for Set_B (Some _, None) = Cycle"
| "command_for Clear _ = Clear_Both"
| "command_for _ _ = Ignore"

text \<open>The mpv command an action of the web layer runs, if any.\<close>

definition ab_loop_action :: "string \<Rightarrow> ab_inner \<Rightarrow> ab_command option" where
  "ab_loop_action s g =
     (case ab_parse s of None \<Rightarrow> None
      | Some act \<Rightarrow>
          (case command_for act (ab_a g, ab_b g) of Ignore \<Rightarrow> None | c \<Rightarrow> Some c))"

definition clear_ab_loop :: ab_command where
  "clear_ab_loop = Clear_Both"

fun f_finite :: "flt \<Rightarrow> bool" where
  "f_finite NaN = False"
| "f_finite (Infty _) = False"
| "f_finite _ = True"

fun point_from_value :: "property_value \<Rightarrow> f64 option" where
  "point_from_value (PV_Double d) = (if f_finite d then Some d else None)"
| "point_from_value (PV_Node (Node_Double d)) = (if f_finite d then Some d else None)"
| "point_from_value (PV_Int i) = Some (f_of_int double i)"
| "point_from_value (PV_Node (Node_Int i)) = Some (f_of_int double i)"
| "point_from_value _ = None"

text \<open>The derived equality of optional doubles and of pairs of them.\<close>

fun opt_eq :: "f64 option \<Rightarrow> f64 option \<Rightarrow> bool" where
  "opt_eq None None = True"
| "opt_eq (Some x) (Some y) = f_eq x y"
| "opt_eq _ _ = False"

definition points_eq :: "points \<Rightarrow> points \<Rightarrow> bool" where
  "points_eq p q \<longleftrightarrow> opt_eq (fst p) (fst q) \<and> opt_eq (snd p) (snd q)"

definition push_points :: "ab_inner \<Rightarrow> ab_inner \<times> points list" where
  "push_points g =
     (let points = (ab_a g, ab_b g)
      in if points_eq (ab_pushed g) points then (g, []) else (g\<lparr>ab_pushed := points\<rparr>, [points]))"

definition ab_on_property :: "ab_inner \<Rightarrow> string \<times> property_value \<Rightarrow> ab_inner \<times> points list" where
  "ab_on_property g p =
     (case p of (name, value) \<Rightarrow>
        if name = ''ab-loop-a'' then push_points (g\<lparr>ab_a := point_from_value value\<rparr>)
        else if name = ''ab-loop-b'' then push_points (g\<lparr>ab_b := point_from_value value\<rparr>)
        else (g, []))"

section \<open>Statistics\<close>

definition PUSH_INTERVAL :: int where "PUSH_INTERVAL = 1000000000"
definition FIRST_PUSH_DELAY :: int where "FIRST_PUSH_DELAY = 250000000"
definition STATS_OBSERVE_ID :: int where "STATS_OBSERVE_ID = 100"

record stats_data =
  st_video_codec :: "string option"
  st_hwdec :: "string option"
  st_width :: "int option"
  st_height :: "int option"
  st_pixel_format :: "string option"
  st_color_matrix :: "string option"
  st_container_fps :: "f64 option"
  st_estimated_fps :: "f64 option"
  st_dropped_frames_vo :: "int option"
  st_dropped_frames_decoder :: "int option"
  st_video_bitrate :: "f64 option"
  st_vo :: "string option"
  st_audio_codec :: "string option"
  st_audio_format :: "string option"
  st_audio_sample_rate :: "int option"
  st_audio_channels :: "int option"
  st_audio_bitrate :: "f64 option"
  st_ao :: "string option"
  st_mpv_version :: "string option"
  st_cache_duration :: "f64 option"
  st_cache_buffering :: "int option"
  st_display_fps :: "f64 option"
  st_avsync :: "f64 option"

definition default_stats :: stats_data where
  "default_stats = \<lparr>st_video_codec = None, st_hwdec = None, st_width = None, st_height = None,
     st_pixel_format = None, st_color_matrix = None, st_container_fps = None,
     st_estimated_fps = None, st_dropped_frames_vo = None, st_dropped_frames_decoder = None,
     st_video_bitrate = None, st_vo = None, st_audio_codec = None, st_audio_format = None,
     st_audio_sample_rate = None, st_audio_channels = None, st_audio_bitrate = None,
     st_ao = None, st_mpv_version = None, st_cache_duration = None, st_cache_buffering = None,
     st_display_fps = None, st_avsync = None\<rparr>"

fun stat_string :: "property_value \<Rightarrow> string option" where
  "stat_string (PV_String s) = (if s \<noteq> [] then Some s else None)"
| "stat_string _ = None"

fun stat_int :: "property_value \<Rightarrow> int option" where
  "stat_int (PV_Int i) = Some i"
| "stat_int _ = None"

fun stat_double :: "property_value \<Rightarrow> f64 option" where
  "stat_double (PV_Double d) = (if f_finite d then Some d else None)"
| "stat_double _ = None"

fun stat_node_int :: "property_value \<Rightarrow> string \<Rightarrow> int option" where
  "stat_node_int (PV_Node n) key = Option.bind (node_get key n) as_int"
| "stat_node_int _ key = None"

fun stat_node_string :: "property_value \<Rightarrow> string \<Rightarrow> string option" where
  "stat_node_string (PV_Node n) key =
     (case Option.bind (node_get key n) as_str of
        Some s \<Rightarrow> (if s \<noteq> [] then Some s else None) | None \<Rightarrow> None)"
| "stat_node_string _ key = None"

text \<open>\<open>set\<close>: the new value of a slot and whether it changed, for exact and for IEEE equality.\<close>

definition set_slot :: "'a option \<Rightarrow> 'a option \<Rightarrow> 'a option \<times> bool" where
  "set_slot slot v = (if slot = v then (slot, False) else (v, True))"

definition set_fslot :: "f64 option \<Rightarrow> f64 option \<Rightarrow> f64 option \<times> bool" where
  "set_fslot slot v = (if opt_eq slot v then (slot, False) else (v, True))"

definition stats_apply :: "string \<Rightarrow> property_value \<Rightarrow> stats_data \<Rightarrow> stats_data \<times> bool" where
  "stats_apply name v d =
     (if name = ''video-codec'' then
        (let (x, c) = set_slot (st_video_codec d) (stat_string v) in (d\<lparr>st_video_codec := x\<rparr>, c))
      else if name = ''hwdec-current'' then
        (let (x, c) = set_slot (st_hwdec d) (stat_string v) in (d\<lparr>st_hwdec := x\<rparr>, c))
      else if name = ''video-params'' then
        (let (w, c1) = set_slot (st_width d) (stat_node_int v ''w'');
             (h, c2) = set_slot (st_height d) (stat_node_int v ''h'');
             (p, c3) = set_slot (st_pixel_format d) (stat_node_string v ''pixelformat'');
             (m, c4) = set_slot (st_color_matrix d) (stat_node_string v ''colormatrix'')
         in (d\<lparr>st_width := w, st_height := h, st_pixel_format := p, st_color_matrix := m\<rparr>,
             c1 \<or> c2 \<or> c3 \<or> c4))
      else if name = ''container-fps'' then
        (let (x, c) = set_fslot (st_container_fps d) (stat_double v) in (d\<lparr>st_container_fps := x\<rparr>, c))
      else if name = ''estimated-vf-fps'' then
        (let (x, c) = set_fslot (st_estimated_fps d) (stat_double v) in (d\<lparr>st_estimated_fps := x\<rparr>, c))
      else if name = ''frame-drop-count'' then
        (let (x, c) = set_slot (st_dropped_frames_vo d) (stat_int v) in (d\<lparr>st_dropped_frames_vo := x\<rparr>, c))
      else if name = ''decoder-frame-drop-count'' then
        (let (x, c) = set_slot (st_dropped_frames_decoder d) (stat_int v)
         in (d\<lparr>st_dropped_frames_decoder := x\<rparr>, c))
      else if name = ''video-bitrate'' then
        (let (x, c) = set_fslot (st_video_bitrate d) (stat_double v) in (d\<lparr>st_video_bitrate := x\<rparr>, c))
      else if name = ''current-vo'' then
        (let (x, c) = set_slot (st_vo d) (stat_string v) in (d\<lparr>st_vo := x\<rparr>, c))
      else if name = ''audio-codec-name'' then
        (let (x, c) = set_slot (st_audio_codec d) (stat_string v) in (d\<lparr>st_audio_codec := x\<rparr>, c))
      else if name = ''audio-params'' then
        (let (f, c1) = set_slot (st_audio_format d) (stat_node_string v ''format'');
             (r, c2) = set_slot (st_audio_sample_rate d) (stat_node_int v ''samplerate'');
             (n, c3) = set_slot (st_audio_channels d) (stat_node_int v ''channel-count'')
         in (d\<lparr>st_audio_format := f, st_audio_sample_rate := r, st_audio_channels := n\<rparr>, c1 \<or> c2 \<or> c3))
      else if name = ''audio-bitrate'' then
        (let (x, c) = set_fslot (st_audio_bitrate d) (stat_double v) in (d\<lparr>st_audio_bitrate := x\<rparr>, c))
      else if name = ''current-ao'' then
        (let (x, c) = set_slot (st_ao d) (stat_string v) in (d\<lparr>st_ao := x\<rparr>, c))
      else if name = ''mpv-version'' then
        (let (x, c) = set_slot (st_mpv_version d) (stat_string v) in (d\<lparr>st_mpv_version := x\<rparr>, c))
      else if name = ''demuxer-cache-duration'' then
        (let (x, c) = set_fslot (st_cache_duration d) (stat_double v) in (d\<lparr>st_cache_duration := x\<rparr>, c))
      else if name = ''cache-buffering-state'' then
        (let (x, c) = set_slot (st_cache_buffering d) (stat_int v) in (d\<lparr>st_cache_buffering := x\<rparr>, c))
      else if name = ''avsync'' then
        (let (x, c) = set_fslot (st_avsync d) (stat_double v) in (d\<lparr>st_avsync := x\<rparr>, c))
      else (d, False))"

record stats_inner =
  sx_active :: bool
  sx_data :: stats_data
  sx_dirty :: bool
  sx_last_push :: "int option"

definition new_stats :: stats_inner where
  "new_stats = \<lparr>sx_active = False, sx_data = default_stats, sx_dirty = False, sx_last_push = None\<rparr>"

datatype stats_call = Observe_Stats | Unobserve_Stats | Push_Null | Push_Stats stats_data

text \<open>
  \<open>checked_sub\<close> on an instant fails when the clock would go below its origin. The flag
  says whether mpv's handle exists (the observe calls do nothing without it).
\<close>

definition set_stats_active :: "int \<Rightarrow> bool \<Rightarrow> bool \<Rightarrow> stats_inner \<Rightarrow> stats_inner \<times> stats_call list \<times> bool" where
  "set_stats_active now has_handle active g =
     (if sx_active g = active then (g, [], False)
      else (\<lparr>sx_active = active, sx_data = default_stats, sx_dirty = False,
             sx_last_push = (if active then
                (let t = now - (PUSH_INTERVAL - FIRST_PUSH_DELAY) in if 0 \<le> t then Some t else None)
                else None)\<rparr>,
            (if active then (if has_handle then [Observe_Stats] else [])
             else (if has_handle then [Unobserve_Stats] else []) @ [Push_Null]),
            True))"

definition stats_on_property :: "int \<Rightarrow> f64 \<Rightarrow> string \<Rightarrow> property_value \<Rightarrow> stats_inner
    \<Rightarrow> stats_inner \<times> stats_call list" where
  "stats_on_property now hz name v g =
     (if \<not> sx_active g then (g, [])
      else
        let (data, changed) = stats_apply name v (sx_data g);
            g = g\<lparr>sx_data := data, sx_dirty := sx_dirty g \<or> changed\<rparr>
        in if \<not> sx_dirty g then (g, [])
           else if (case sx_last_push g of None \<Rightarrow> False | Some l \<Rightarrow> sat_sub_u now l < PUSH_INTERVAL)
           then (g, [])
           else (g\<lparr>sx_last_push := Some now, sx_dirty := False\<rparr>,
                 [Push_Stats (if f_lt (Fin 0 0) hz then data\<lparr>st_display_fps := Some hz\<rparr> else data)]))"

section \<open>The mirror shows what mpv reported\<close>

definition no_nan :: "f64 option \<Rightarrow> bool" where
  "no_nan p \<longleftrightarrow> p \<noteq> Some NaN"

lemma round_frac_not_NaN: "round_frac f s n d \<noteq> NaN"
proof -
  have "round_pos f n d = Infty False \<or> (\<exists>q e. round_pos f n d = Fin q e)"
    by (simp add: round_pos_def split_beta Let_def)
  then show ?thesis by (auto simp: round_frac_def split: if_splits)
qed

lemma point_from_value_no_nan: "no_nan (point_from_value v)"
proof -
  have "f_of_int double i \<noteq> NaN" for i by (simp add: f_of_int_def round_frac_not_NaN)
  then show ?thesis
    by (cases v rule: point_from_value.cases) (auto simp: no_nan_def)
qed

lemma opt_eq_refl: "no_nan p \<Longrightarrow> opt_eq p p"
  by (cases p) (simp_all add: no_nan_def f_eq_refl)

text \<open>Consecutive pushes differ, the first one from \<open>p\<close>; the last is what the page shows.\<close>

fun all_news :: "points \<Rightarrow> points list \<Rightarrow> bool" where
  "all_news p [] = True"
| "all_news p (q # qs) = (\<not> points_eq p q \<and> all_news q qs)"

definition shown :: "points \<Rightarrow> points list \<Rightarrow> points" where
  "shown p qs = (if qs = [] then p else last qs)"

definition ab_ok :: "ab_inner \<Rightarrow> bool" where
  "ab_ok g \<longleftrightarrow> no_nan (ab_a g) \<and> no_nan (ab_b g) \<and> points_eq (ab_pushed g) (ab_a g, ab_b g)"

lemma push_points_ok:
  assumes "no_nan (ab_a g)" "no_nan (ab_b g)"
  shows "ab_ok (fst (push_points g)) \<and> all_news (ab_pushed g) (snd (push_points g)) \<and>
    ab_pushed (fst (push_points g)) = shown (ab_pushed g) (snd (push_points g))"
  using assms by (simp add: ab_ok_def push_points_def shown_def points_eq_def opt_eq_refl Let_def)

lemma ab_on_property_ok:
  assumes "ab_ok g"
  shows "ab_ok (fst (ab_on_property g p)) \<and> all_news (ab_pushed g) (snd (ab_on_property g p)) \<and>
    ab_pushed (fst (ab_on_property g p)) = shown (ab_pushed g) (snd (ab_on_property g p))"
proof -
  obtain name v where p: "p = (name, v)" by fastforce
  let ?a = "g\<lparr>ab_a := point_from_value v\<rparr>" and ?b = "g\<lparr>ab_b := point_from_value v\<rparr>"
  have "ab_on_property g p = push_points ?a \<or> ab_on_property g p = push_points ?b \<or>
      ab_on_property g p = (g, [])"
    by (simp add: p ab_on_property_def)
  moreover have "no_nan (ab_a g)" "no_nan (ab_b g)" using assms by (simp_all add: ab_ok_def)
  ultimately show ?thesis
    using push_points_ok [of ?a] push_points_ok [of ?b] assms point_from_value_no_nan [of v]
    by (elim disjE) (simp_all add: shown_def)
qed

lemma all_news_append: "all_news p (qs @ rs) \<longleftrightarrow> all_news p qs \<and> all_news (shown p qs) rs"
  by (induction qs arbitrary: p) (auto simp: shown_def)

lemma shown_append: "shown p (qs @ rs) = shown (shown p qs) rs"
  by (simp add: shown_def)

lemma ab_run_ok:
  "ab_ok g \<Longrightarrow> ab_ok (fst (run_steps ab_on_property g ps)) \<and>
     all_news (ab_pushed g) (snd (run_steps ab_on_property g ps)) \<and>
     ab_pushed (fst (run_steps ab_on_property g ps)) = shown (ab_pushed g) (snd (run_steps ab_on_property g ps))"
proof (induction ps arbitrary: g)
  case Nil
  then show ?case by (simp add: shown_def)
next
  case (Cons p ps)
  from ab_on_property_ok [OF Cons.prems, of p] Cons.IH [of "fst (ab_on_property g p)"] show ?case
    by (simp add: run_steps_Cons_fst run_steps_Cons_snd all_news_append shown_append del: run_steps.simps(2))
qed

lemma ab_ok_new: "ab_ok new_ab"
  by (simp add: ab_ok_def new_ab_def no_nan_def points_eq_def)

section \<open>The overlay loses no change\<close>

definition keeps :: "stats_data \<Rightarrow> stats_data \<times> bool \<Rightarrow> bool" where
  "keeps d r \<longleftrightarrow> snd r \<or> fst r = d"

lemma keeps_if: "keeps d x \<Longrightarrow> keeps d y \<Longrightarrow> keeps d (if c then x else y)"
  by simp

lemma stats_apply_keeps: "keeps d (stats_apply name v d)"
  unfolding stats_apply_def
  by (intro keeps_if; simp add: keeps_def set_slot_def set_fslot_def)

lemma stats_apply_unchanged: "\<not> snd (stats_apply name v d) \<Longrightarrow> fst (stats_apply name v d) = d"
  using stats_apply_keeps [of d name v] by (simp add: keeps_def)

type_synonym stats_obs = "int \<times> f64 \<times> string \<times> property_value"

definition stats_step :: "stats_inner \<Rightarrow> stats_obs \<Rightarrow> stats_inner \<times> (int \<times> stats_data) list" where
  "stats_step g ob = (case ob of (now, hz, name, v) \<Rightarrow>
     (let (g', calls) = stats_on_property now hz name v g
      in (g', concat (map (\<lambda>c. case c of Push_Stats d \<Rightarrow> [(now, d)] | _ \<Rightarrow> []) calls))))"

text \<open>The page is up to date: what it shows is what mpv last reported, the refresh rate aside.\<close>

definition up_to_date :: "stats_data \<Rightarrow> stats_data \<Rightarrow> bool" where
  "up_to_date d e \<longleftrightarrow> d\<lparr>st_display_fps := None\<rparr> = e\<lparr>st_display_fps := None\<rparr>"

definition shown_stats :: "stats_data \<Rightarrow> (int \<times> stats_data) list \<Rightarrow> stats_data" where
  "shown_stats d ps = (if ps = [] then d else snd (last ps))"

lemma shown_stats_Cons: "shown_stats d ((now, e) # ps) = shown_stats e ps"
  by (simp add: shown_stats_def)

lemma stats_step_cases:
  assumes "sx_active g"
  obtains (quiet) "snd (stats_step g ob) = []" "sx_active (fst (stats_step g ob))"
      "sx_last_push (fst (stats_step g ob)) = sx_last_push g"
      "\<not> sx_dirty (fst (stats_step g ob)) \<Longrightarrow> \<not> sx_dirty g \<and> sx_data (fst (stats_step g ob)) = sx_data g"
  | (push) now d where "snd (stats_step g ob) = [(now, d)]" "sx_active (fst (stats_step g ob))"
      "sx_last_push (fst (stats_step g ob)) = Some now" "up_to_date d (sx_data (fst (stats_step g ob)))"
      "case sx_last_push g of None \<Rightarrow> True | Some l \<Rightarrow> l + PUSH_INTERVAL \<le> now"
proof -
  obtain now hz name v where ob: "ob = (now, hz, name, v)" by (metis prod_cases4)
  obtain data ch where ap: "stats_apply name v (sx_data g) = (data, ch)" by fastforce
  have un: "\<not> ch \<Longrightarrow> data = sx_data g" using stats_apply_unchanged [of name v "sx_data g"] ap by simp
  let ?dirty = "sx_dirty g \<or> ch"
  let ?wait = "case sx_last_push g of None \<Rightarrow> False | Some l \<Rightarrow> sat_sub_u now l < PUSH_INTERVAL"
  show thesis
  proof (cases "?dirty \<and> \<not> ?wait")
    case False
    then show thesis
      using assms un by (intro quiet) (auto simp: stats_step_def ob stats_on_property_def ap Let_def)
  next
    case True
    then show thesis
      using assms
      by (intro push [of now "if f_lt (Fin 0 0) hz then data\<lparr>st_display_fps := Some hz\<rparr> else data"])
        (auto simp: stats_step_def ob stats_on_property_def ap Let_def up_to_date_def sat_sub_u_def
          PUSH_INTERVAL_def split: option.splits)
  qed
qed

lemma stats_run_ok:
  "sx_active g \<Longrightarrow> (\<not> sx_dirty g \<longrightarrow> up_to_date d (sx_data g)) \<Longrightarrow>
     spaced_by PUSH_INTERVAL (sx_last_push g) (map fst (snd (run_steps stats_step g obs))) \<and>
     (\<not> sx_dirty (fst (run_steps stats_step g obs)) \<longrightarrow>
        up_to_date (shown_stats d (snd (run_steps stats_step g obs))) (sx_data (fst (run_steps stats_step g obs))))"
proof (induction obs arbitrary: g d)
  case Nil
  then show ?case by (simp add: shown_stats_def)
next
  case (Cons ob obs)
  note run = run_steps_Cons_fst run_steps_Cons_snd
  show ?case
  proof (rule stats_step_cases [OF Cons.prems(1), of ob])
    assume q: "snd (stats_step g ob) = []" "sx_active (fst (stats_step g ob))"
      "sx_last_push (fst (stats_step g ob)) = sx_last_push g"
      "\<not> sx_dirty (fst (stats_step g ob)) \<Longrightarrow> \<not> sx_dirty g \<and> sx_data (fst (stats_step g ob)) = sx_data g"
    then have "\<not> sx_dirty (fst (stats_step g ob)) \<longrightarrow> up_to_date d (sx_data (fst (stats_step g ob)))"
      using Cons.prems(2) by simp
    from Cons.IH [OF q(2) this] q(1,3) show ?thesis
      by (simp add: run del: run_steps.simps(2))
  next
    fix now e
    assume p: "snd (stats_step g ob) = [(now, e)]" "sx_active (fst (stats_step g ob))"
      "sx_last_push (fst (stats_step g ob)) = Some now" "up_to_date e (sx_data (fst (stats_step g ob)))"
      "case sx_last_push g of None \<Rightarrow> True | Some l \<Rightarrow> l + PUSH_INTERVAL \<le> now"
    from Cons.IH [OF p(2), of e] p show ?thesis
      by (simp add: run shown_stats_Cons del: run_steps.simps(2))
  qed
qed

section \<open>The properties\<close>

text \<open>
  The page's A-B loop is mpv's: after any observations, the pair last pushed is the
  pair mpv last reported, and no push repeats the one before it.
\<close>

theorem ab_loop_mirrors_mpv:
  "points_eq (shown (None, None) (snd (run_steps ab_on_property new_ab ps)))
     (ab_a (fst (run_steps ab_on_property new_ab ps)), ab_b (fst (run_steps ab_on_property new_ab ps))) \<and>
   all_news (None, None) (snd (run_steps ab_on_property new_ab ps))"
proof -
  have "ab_pushed new_ab = (None, None)" by (simp add: new_ab_def)
  with ab_run_ok [OF ab_ok_new, of ps] show ?thesis unfolding ab_ok_def by metis
qed

text \<open>
  While the statistics panel is open, pushes are at least a second apart, the first at
  least 250 ms after the opening, and no change is lost: unless one is still marked for
  the next push, what the page shows is everything mpv reported (an empty snapshot before
  the first push).
\<close>

theorem stats_pushes_spaced_and_complete:
  assumes "\<not> sx_active g" "PUSH_INTERVAL \<le> now" "set_stats_active now hh True g = (g1, calls, chg)"
  shows "spaced_by PUSH_INTERVAL (Some (now - (PUSH_INTERVAL - FIRST_PUSH_DELAY)))
      (map fst (snd (run_steps stats_step g1 obs))) \<and>
    (\<not> sx_dirty (fst (run_steps stats_step g1 obs)) \<longrightarrow>
       up_to_date (shown_stats default_stats (snd (run_steps stats_step g1 obs)))
         (sx_data (fst (run_steps stats_step g1 obs))))"
proof -
  have g1: "sx_active g1" "\<not> sx_dirty g1" "sx_data g1 = default_stats"
    "sx_last_push g1 = Some (now - (PUSH_INTERVAL - FIRST_PUSH_DELAY))"
    using assms by (auto simp: set_stats_active_def PUSH_INTERVAL_def FIRST_PUSH_DELAY_def Let_def)
  from stats_run_ok [OF g1(1), of default_stats obs] g1 show ?thesis
    by (simp add: up_to_date_def)
qed

theorem stats_pushes_spaced_and_complete_witness:
  "\<exists>g1. sx_active g1 \<and> spaced_by PUSH_INTERVAL (Some 5000000000)
     (map fst (snd (run_steps stats_step g1 [(5800000000, Fin 0 0, ''current-vo'', PV_String ''gpu''),
        (6000000000, Fin 0 0, ''current-ao'', PV_String ''pipewire'')])))"
proof -
  let ?g1 = "fst (set_stats_active 5750000000 True True new_stats)"
  have s: "set_stats_active 5750000000 True True new_stats = (?g1, [Observe_Stats], True)"
    "sx_active ?g1" "\<not> sx_active new_stats"
    by (simp_all add: set_stats_active_def new_stats_def)
  have "PUSH_INTERVAL \<le> 5750000000" by (simp add: PUSH_INTERVAL_def)
  from stats_pushes_spaced_and_complete [OF s(3) this s(1),
      of "[(5800000000, Fin 0 0, ''current-vo'', PV_String ''gpu''),
           (6000000000, Fin 0 0, ''current-ao'', PV_String ''pipewire'')]"] s(2)
  show ?thesis
    by (intro exI [of _ ?g1]) (simp add: PUSH_INTERVAL_def FIRST_PUSH_DELAY_def)
qed

end
