(* ===== verification/Ingest.thy ===== *)
theory Ingest
  imports Sinks Geometry Telemetry
begin

text \<open>
  The ingest layer: mpv events become coordinator inputs (\<open>playback/src/ingest.rs\<close>), and
  the driver posts them (\<open>playback/src/ingest_driver.rs\<close>). The process-wide cells of
  \<open>IngestState\<close> are a record; what the platform is asked for on each event - its scale and,
  on macOS, the logical content size - is an argument. The text libmpv gives an error code
  is the parameter \<open>msg_of\<close>.
\<close>

section \<open>Observed properties\<close>

definition OSD_DIMS :: int where "OSD_DIMS = 2"
definition FULLSCREEN :: int where "FULLSCREEN = 3"
definition PAUSE :: int where "PAUSE = 4"
definition TIME_POS :: int where "TIME_POS = 5"
definition DURATION :: int where "DURATION = 6"
definition SPEED :: int where "SPEED = 7"
definition SEEKING :: int where "SEEKING = 8"
definition DISPLAY_FPS :: int where "DISPLAY_FPS = 9"
definition CACHE_STATE :: int where "CACHE_STATE = 10"
definition WINDOW_MAX :: int where "WINDOW_MAX = 11"
definition DISPLAY_SCALE :: int where "DISPLAY_SCALE = 12"
definition PAUSED_FOR_CACHE :: int where "PAUSED_FOR_CACHE = 13"
definition CORE_IDLE :: int where "CORE_IDLE = 14"
definition VIDEO_FRAME_INFO :: int where "VIDEO_FRAME_INFO = 15"
definition WINDOW_ID :: int where "WINDOW_ID = 16"

lemmas observe_ids =
  OSD_DIMS_def FULLSCREEN_def PAUSE_def TIME_POS_def DURATION_def SPEED_def SEEKING_def
  DISPLAY_FPS_def CACHE_STATE_def WINDOW_MAX_def DISPLAY_SCALE_def PAUSED_FOR_CACHE_def
  CORE_IDLE_def VIDEO_FRAME_INFO_def WINDOW_ID_def

definition MAX_BUFFERED_RANGES :: nat where "MAX_BUFFERED_RANGES = 8"

section \<open>State and outputs\<close>

record ingest_ctx =
  ctx_scale :: f32
  ctx_macos_logical :: "(int \<times> int) option"

datatype ingest_out = Out_Input input | Out_Window_Extent_Changed | Out_Shutdown

record ingest_state =
  ing_fullscreen :: bool
  ing_window_maximized :: bool
  ing_extent :: "window_extent option"
  ing_display_scale :: f64
  ing_display_hz :: f64
  ing_window_id :: int

definition new_ingest_state :: ingest_state where
  "new_ingest_state = \<lparr>ing_fullscreen = False, ing_window_maximized = False, ing_extent = None,
     ing_display_scale = Fin 0 0, ing_display_hz = Fin 0 0, ing_window_id = 0\<rparr>"

definition window_id :: "ingest_state \<Rightarrow> int option" where
  "window_id s = (if ing_window_id s \<noteq> 0 then Some (ing_window_id s) else None)"

fun pv_flag :: "property_value \<Rightarrow> bool option" where
  "pv_flag (PV_Flag f) = Some f"
| "pv_flag _ = None"

fun pv_int :: "property_value \<Rightarrow> int option" where
  "pv_int (PV_Int i) = Some i"
| "pv_int _ = None"

fun pv_double :: "property_value \<Rightarrow> f64 option" where
  "pv_double (PV_Double d) = Some d"
| "pv_double _ = None"

section \<open>Digesting\<close>

text \<open>Seconds to a fixed-point count: the literal is exact in \<open>f64\<close>, the cast saturates.\<close>

definition scaled_i64 :: "int \<Rightarrow> f64 \<Rightarrow> int" where
  "scaled_i64 n d = f_to_i64 (f_mul double d (f_of_int double n))"

fun end_file_input :: "(int \<Rightarrow> string) \<Rightarrow> end_file_reason \<Rightarrow> input" where
  "end_file_input msg_of EF_Eof = EndFile End_Eof []"
| "end_file_input msg_of EF_Redirect = EndFile End_Eof []"
| "end_file_input msg_of EF_Stop = EndFile End_Canceled []"
| "end_file_input msg_of EF_Quit = EndFile End_Canceled []"
| "end_file_input msg_of (EF_Error e) = EndFile End_Error (msg_of e)"
| "end_file_input msg_of (EF_Unknown _) = EndFile End_Canceled []"

definition node_int_or_0 :: "string \<Rightarrow> node \<Rightarrow> int" where
  "node_int_or_0 key n = (case Option.bind (node_get key n) as_int of None \<Rightarrow> 0 | Some i \<Rightarrow> i)"

definition node_double_or_0 :: "string \<Rightarrow> node \<Rightarrow> f64" where
  "node_double_or_0 key n = (case Option.bind (node_get key n) as_double of None \<Rightarrow> Fin 0 0 | Some d \<Rightarrow> d)"

fun digest_osd_dims :: "property_value \<Rightarrow> ingest_state \<Rightarrow> ingest_ctx \<Rightarrow> ingest_state \<times> ingest_out list" where
  "digest_osd_dims (PV_Node n) s ctx =
     (let w = node_int_or_0 ''w'' n; h = node_int_or_0 ''h'' n
      in if w \<le> 0 \<or> h \<le> 0 then (s, [])
         else
           let scale = (if f_lt (Fin 0 0) (ctx_scale ctx) then ctx_scale ctx else Fin 1 0);
               pw = wrap32 w; ph = wrap32 h;
               lw = f_to_i32 (f_div single (f_of_int single pw) scale);
               lh = f_to_i32 (f_div single (f_of_int single ph) scale);
               (pw, ph, lw, lh) =
                 (case ctx_macos_logical ctx of
                    Some (qw, qh) \<Rightarrow>
                      if 0 < qw \<and> 0 < qh
                      then (f_to_i32 (f_mul single (f_of_int single qw) scale),
                            f_to_i32 (f_mul single (f_of_int single qh) scale), qw, qh)
                      else (pw, ph, lw, lh)
                  | None \<Rightarrow> (pw, ph, lw, lh))
           in if lw \<le> 0 \<or> lh \<le> 0 then (s, [])
              else (s\<lparr>ing_extent := Some (extent_with_logical \<lparr>phy_w = pw, phy_h = ph\<rparr> scale
                         \<lparr>log_w = lw, log_h = lh\<rparr>)\<rparr>, [Out_Window_Extent_Changed]))"
| "digest_osd_dims _ s ctx = (s, [])"

definition buffered_range_of :: "node \<Rightarrow> buffered_range" where
  "buffered_range_of n =
     \<lparr>start_ticks = scaled_i64 10000000 (node_double_or_0 ''start'' n),
      end_ticks = scaled_i64 10000000 (node_double_or_0 ''end'' n)\<rparr>"

fun digest_cache_state :: "property_value \<Rightarrow> ingest_out list" where
  "digest_cache_state (PV_Node n) =
     (case Option.bind (node_get ''seekable-ranges'' n) as_array of None \<Rightarrow> []
      | Some arr \<Rightarrow> [Out_Input (BufferedRanges (map buffered_range_of (take MAX_BUFFERED_RANGES arr)))])"
| "digest_cache_state _ = []"

definition flag_input :: "(bool \<Rightarrow> input) \<Rightarrow> property_value \<Rightarrow> ingest_out list" where
  "flag_input c v = (case pv_flag v of None \<Rightarrow> [] | Some f \<Rightarrow> [Out_Input (c f)])"

definition double_input :: "(f64 \<Rightarrow> input) \<Rightarrow> property_value \<Rightarrow> ingest_out list" where
  "double_input c v = (case pv_double v of None \<Rightarrow> [] | Some d \<Rightarrow> [Out_Input (c d)])"

definition digest_fullscreen :: "property_value \<Rightarrow> ingest_state \<Rightarrow> ingest_state \<times> ingest_out list" where
  "digest_fullscreen v s =
     (case pv_flag v of None \<Rightarrow> (s, [])
      | Some f \<Rightarrow> (s\<lparr>ing_fullscreen := f\<rparr>,
                  [Out_Input (Fullscreen f (if f then ing_window_maximized s else False))]))"

definition digest_display_scale :: "property_value \<Rightarrow> ingest_state \<Rightarrow> ingest_state \<times> ingest_out list" where
  "digest_display_scale v s =
     (case pv_double v of None \<Rightarrow> (s, [])
      | Some d \<Rightarrow>
          let s' = s\<lparr>ing_display_scale := d\<rparr>
          in if f_eq (ing_display_scale s) d then (s', [])
             else case ing_extent s' of
               Some e \<Rightarrow> (s'\<lparr>ing_extent := Some (extent_new (ext_physical e) (f_narrow single d))\<rparr>,
                          [Out_Window_Extent_Changed])
             | None \<Rightarrow> (s', []))"

definition digest_display_fps :: "property_value \<Rightarrow> ingest_state \<Rightarrow> ingest_state \<times> ingest_out list" where
  "digest_display_fps v s =
     (case pv_double v of None \<Rightarrow> (s, [])
      | Some d \<Rightarrow> if f_eq d (ing_display_hz s) then (s, [])
                  else (s\<lparr>ing_display_hz := d\<rparr>, [Out_Input (DisplayHz d)]))"

definition digest_property :: "int \<Rightarrow> property_value \<Rightarrow> ingest_state \<Rightarrow> ingest_ctx
    \<Rightarrow> ingest_state \<times> ingest_out list" where
  "digest_property pid v s ctx =
     (if pid = OSD_DIMS then digest_osd_dims v s ctx
      else if pid = PAUSE then (s, flag_input PauseChanged v)
      else if pid = TIME_POS then (s, double_input (\<lambda>d. Position (scaled_i64 1000000 d)) v)
      else if pid = DURATION then (s, double_input (\<lambda>d. Duration (scaled_i64 1000000 d)) v)
      else if pid = FULLSCREEN then digest_fullscreen v s
      else if pid = SPEED then (s, double_input Speed v)
      else if pid = SEEKING then (s, flag_input SeekingChanged v)
      else if pid = PAUSED_FOR_CACHE then (s, flag_input PausedForCache v)
      else if pid = CORE_IDLE then (s, flag_input CoreIdle v)
      else if pid = VIDEO_FRAME_INFO then (s, [Out_Input (VideoFrameAvailable (v \<noteq> PV_None))])
      else if pid = WINDOW_ID then
        (case pv_int v of None \<Rightarrow> s | Some i \<Rightarrow> s\<lparr>ing_window_id := i\<rparr>, [])
      else if pid = WINDOW_MAX then
        (case pv_flag v of None \<Rightarrow> s | Some f \<Rightarrow> s\<lparr>ing_window_maximized := f\<rparr>, [])
      else if pid = DISPLAY_SCALE then digest_display_scale v s
      else if pid = DISPLAY_FPS then digest_display_fps v s
      else if pid = CACHE_STATE then (s, digest_cache_state v)
      else (s, []))"

fun ingest :: "(int \<Rightarrow> string) \<Rightarrow> mpv_event \<Rightarrow> ingest_state \<Rightarrow> ingest_ctx \<Rightarrow> ingest_state \<times> ingest_out list" where
  "ingest msg_of Mpv_Shutdown s ctx = (s, [Out_Shutdown])"
| "ingest msg_of Mpv_File_Loaded s ctx = (s, [Out_Input FileLoaded])"
| "ingest msg_of (Mpv_End_File r) s ctx = (s, [Out_Input (end_file_input msg_of r)])"
| "ingest msg_of (Mpv_Property_Change pid name v) s ctx = digest_property pid v s ctx"
| "ingest msg_of _ s ctx = (s, [])"

section \<open>The driver\<close>

text \<open>
  The driver's process-wide state: the ingest cells, the coordinator slot and the two side
  channels. What it asks of others is a \<open>driver_call\<close>; the providers are sampled on each
  event: the platform's scale and macOS size, the clock, and mpv's refresh rate cache is
  the ingest state's own.
\<close>

record driver =
  drv_ingest :: ingest_state
  drv_coord :: "sink coordinator option"
  drv_ab :: ab_inner
  drv_stats :: stats_inner

datatype driver_call =
    Notify_Window_Changed
  | Fullscreen_Handler bool
  | Shutdown_Handler
  | Video_Mode_Reply int property_value
  | Ab_Push points
  | Stats_Push stats_data

record driver_ctx =
  dc_now :: int
  dc_scale :: "f32 option"
  dc_macos_logical :: "(int \<times> int) option"

definition snapshot_scale :: "f32 option \<Rightarrow> f32" where
  "snapshot_scale p =
     (let s = (case p of None \<Rightarrow> Fin 1 0 | Some s \<Rightarrow> s) in if f_lt (Fin 0 0) s then s else Fin 1 0)"

text \<open>\<open>dispatch\<close>: the flag is \<open>INGEST_FLAG_SHUTDOWN\<close>.\<close>

fun dispatch_outs :: "ingest_out list \<Rightarrow> driver \<Rightarrow> driver \<times> driver_call list \<times> bool" where
  "dispatch_outs [] d = (d, [], False)"
| "dispatch_outs (Out_Input i # outs) d = dispatch_outs outs (d\<lparr>drv_coord := post i (drv_coord d)\<rparr>)"
| "dispatch_outs (Out_Window_Extent_Changed # outs) d =
     (let (d', calls, stop) = dispatch_outs outs d in (d', Notify_Window_Changed # calls, stop))"
| "dispatch_outs (Out_Shutdown # outs) d =
     (let (d', calls, stop) = dispatch_outs outs d in (d', calls, True))"

definition ingest_mpv_event :: "(int \<Rightarrow> string) \<Rightarrow> mpv_event \<Rightarrow> ingest_ctx \<Rightarrow> driver
    \<Rightarrow> driver \<times> driver_call list \<times> bool" where
  "ingest_mpv_event msg_of ev ctx d =
     (let (st, outs) = ingest msg_of ev (drv_ingest d) ctx
      in dispatch_outs outs (d\<lparr>drv_ingest := st\<rparr>))"

definition digest_and_dispatch :: "int \<Rightarrow> property_value \<Rightarrow> ingest_ctx \<Rightarrow> driver
    \<Rightarrow> driver \<times> driver_call list \<times> bool" where
  "digest_and_dispatch pid v ctx d =
     (let (st, outs) = digest_property pid v (drv_ingest d) ctx in dispatch_outs outs (d\<lparr>drv_ingest := st\<rparr>))"

definition post_window_state :: "bool \<Rightarrow> bool \<Rightarrow> driver \<Rightarrow> driver \<times> driver_call list" where
  "post_window_state fs mx d =
     (let ctx = \<lparr>ctx_scale = Fin 1 0, ctx_macos_logical = None\<rparr>;
          (d, calls, _) = digest_and_dispatch FULLSCREEN (PV_Flag fs) ctx d;
          (d, calls', _) = digest_and_dispatch WINDOW_MAX (PV_Flag mx) ctx d
      in (d, calls @ calls'))"

datatype mpv_format = Format_Int64 | Format_Double | Format_Node | Format_Flag

datatype backend = Backend_Wayland | Backend_X11 | Backend_Other

text \<open>The registrations made for a backend, in order.\<close>

definition observed_pairs :: "backend \<Rightarrow> (int \<times> string \<times> mpv_format) list" where
  "observed_pairs b =
     filter (\<lambda>(pid, _). \<not> (b \<in> {Backend_Wayland, Backend_X11} \<and>
                           pid \<in> {OSD_DIMS, FULLSCREEN, WINDOW_MAX, WINDOW_ID}))
       [(WINDOW_ID, ''window-id'', Format_Int64),
        (DISPLAY_SCALE, ''display-hidpi-scale'', Format_Double),
        (OSD_DIMS, ''osd-dimensions'', Format_Node),
        (FULLSCREEN, ''fullscreen'', Format_Flag),
        (PAUSE, ''pause'', Format_Flag),
        (TIME_POS, ''time-pos'', Format_Double),
        (DURATION, ''duration'', Format_Double),
        (SPEED, ''speed'', Format_Double),
        (SEEKING, ''seeking'', Format_Flag),
        (DISPLAY_FPS, ''display-fps'', Format_Double),
        (CACHE_STATE, ''demuxer-cache-state'', Format_Node),
        (WINDOW_MAX, ''window-maximized'', Format_Flag),
        (PAUSED_FOR_CACHE, ''paused-for-cache'', Format_Flag),
        (CORE_IDLE, ''core-idle'', Format_Flag),
        (VIDEO_FRAME_INFO, ''video-frame-info'', Format_Node),
        (AB_LOOP_OBSERVE_ID, ''ab-loop-a'', Format_Node),
        (AB_LOOP_OBSERVE_ID, ''ab-loop-b'', Format_Node)]"

text \<open>The synchronous probe: mpv's return code and the rate it wrote.\<close>

definition seed_display_hz :: "int \<Rightarrow> f64 \<Rightarrow> ingest_state \<Rightarrow> ingest_state" where
  "seed_display_hz rc fps s = (if 0 \<le> rc \<and> f_lt (Fin 0 0) fps then s\<lparr>ing_display_hz := fps\<rparr> else s)"

text \<open>
  One turn of the ingest thread. Whether a property reply belongs to the video-mode module
  is \<open>consume_reply\<close>'s answer: its four reply identifiers.
\<close>

definition video_mode_reply :: "int \<Rightarrow> bool" where
  "video_mode_reply reply \<longleftrightarrow> reply = 2 \<or> reply = 3 \<or> reply = 4 \<or> reply = 5"

fun fullscreen_call :: "mpv_event \<Rightarrow> driver_call list" where
  "fullscreen_call (Mpv_Property_Change pid name (PV_Flag f)) =
     (if pid = FULLSCREEN then [Fullscreen_Handler f] else [])"
| "fullscreen_call _ = []"

definition forward_event :: "(int \<Rightarrow> string) \<Rightarrow> mpv_event \<Rightarrow> driver_ctx \<Rightarrow> driver
    \<Rightarrow> driver \<times> driver_call list \<times> bool" where
  "forward_event msg_of ev c d =
     (let (d', calls, stop) =
        ingest_mpv_event msg_of ev
          \<lparr>ctx_scale = snapshot_scale (dc_scale c), ctx_macos_logical = dc_macos_logical c\<rparr> d
      in (d', fullscreen_call ev @ calls @ (if stop then [Shutdown_Handler] else []), stop))"

fun ingest_event :: "(int \<Rightarrow> string) \<Rightarrow> mpv_event \<Rightarrow> driver_ctx \<Rightarrow> driver
    \<Rightarrow> driver \<times> driver_call list \<times> bool" where
  "ingest_event msg_of (Mpv_Get_Property_Reply reply err value name) c d =
     (if video_mode_reply reply then (d, [Video_Mode_Reply reply value], False)
      else forward_event msg_of (Mpv_Get_Property_Reply reply err value name) c d)"
| "ingest_event msg_of (Mpv_Property_Change pid name value) c d =
     (if pid = STATS_OBSERVE_ID then
        (let (g, calls) = stats_on_property (dc_now c) (ing_display_hz (drv_ingest d)) name value (drv_stats d)
         in (d\<lparr>drv_stats := g\<rparr>,
             concat (map (\<lambda>x. case x of Push_Stats s \<Rightarrow> [Stats_Push s] | _ \<Rightarrow> []) calls), False))
      else if pid = AB_LOOP_OBSERVE_ID then
        (let (g, pushes) = ab_on_property (drv_ab d) (name, value)
         in (d\<lparr>drv_ab := g\<rparr>, map Ab_Push pushes, False))
      else forward_event msg_of (Mpv_Property_Change pid name value) c d)"
| "ingest_event msg_of ev c d = forward_event msg_of ev c d"

fun ingest_events :: "(int \<Rightarrow> string) \<Rightarrow> (mpv_event \<times> driver_ctx) list \<Rightarrow> driver \<Rightarrow> driver \<times> driver_call list" where
  "ingest_events msg_of [] d = (d, [])"
| "ingest_events msg_of ((ev, c) # evs) d =
     (let (d', calls, stop) = ingest_event msg_of ev c d
      in if stop then (d', calls)
         else let (d'', calls') = ingest_events msg_of evs d' in (d'', calls @ calls'))"

section \<open>What reaches the coordinator\<close>

fun out_inputs :: "ingest_out list \<Rightarrow> input list" where
  "out_inputs [] = []"
| "out_inputs (Out_Input i # outs) = i # out_inputs outs"
| "out_inputs (_ # outs) = out_inputs outs"

fun side_channel :: "mpv_event \<Rightarrow> bool" where
  "side_channel (Mpv_Get_Property_Reply reply err value name) \<longleftrightarrow> video_mode_reply reply"
| "side_channel (Mpv_Property_Change pid name value) \<longleftrightarrow> pid = STATS_OBSERVE_ID \<or> pid = AB_LOOP_OBSERVE_ID"
| "side_channel ev \<longleftrightarrow> False"

lemma dispatch_outs_simps:
  "drv_coord (fst (dispatch_outs outs d)) = fold post (out_inputs outs) (drv_coord d)"
  "drv_ingest (fst (dispatch_outs outs d)) = drv_ingest d"
  "drv_ab (fst (dispatch_outs outs d)) = drv_ab d"
  "drv_stats (fst (dispatch_outs outs d)) = drv_stats d"
  "snd (snd (dispatch_outs outs d)) = (Out_Shutdown \<in> set outs)"
  "Shutdown_Handler \<notin> set (fst (snd (dispatch_outs outs d)))"
  by (induction outs d rule: dispatch_outs.induct) (simp_all add: split_beta Let_def)

lemma digest_no_shutdown: "Out_Shutdown \<notin> set (snd (digest_property pid v s ctx))"
proof -
  have "Out_Shutdown \<notin> set (snd (digest_osd_dims v s ctx))"
    by (cases v) (simp_all add: Let_def split: option.splits prod.splits)
  moreover have "Out_Shutdown \<notin> set (digest_cache_state v)"
    by (cases v) (simp_all split: option.splits)
  ultimately show ?thesis
    by (simp add: digest_property_def digest_fullscreen_def digest_display_scale_def
        digest_display_fps_def flag_input_def double_input_def Let_def split: option.splits)
qed

lemma ingest_shutdown: "Out_Shutdown \<in> set (snd (ingest msg_of ev s ctx)) \<longleftrightarrow> ev = Mpv_Shutdown"
  by (cases ev) (simp_all add: digest_no_shutdown)

lemma forward_event_simps:
  "drv_coord (fst (forward_event msg_of ev c d)) =
     fold post (out_inputs (snd (ingest msg_of ev (drv_ingest d)
       \<lparr>ctx_scale = snapshot_scale (dc_scale c), ctx_macos_logical = dc_macos_logical c\<rparr>))) (drv_coord d)"
  "drv_ab (fst (forward_event msg_of ev c d)) = drv_ab d"
  "drv_stats (fst (forward_event msg_of ev c d)) = drv_stats d"
  "snd (snd (forward_event msg_of ev c d)) = (ev = Mpv_Shutdown)"
  by (simp_all add: forward_event_def ingest_mpv_event_def split_beta Let_def dispatch_outs_simps
      ingest_shutdown)

lemma fullscreen_call_no_shutdown: "Shutdown_Handler \<notin> set (fullscreen_call ev)"
  by (cases ev rule: fullscreen_call.cases) simp_all

lemma forward_event_calls:
  "\<exists>pre. Shutdown_Handler \<notin> set pre \<and>
     fst (snd (forward_event msg_of ev c d)) = pre @ (if ev = Mpv_Shutdown then [Shutdown_Handler] else [])"
  by (simp add: forward_event_def ingest_mpv_event_def split_beta Let_def dispatch_outs_simps
      ingest_shutdown)
    (metis Un_iff append_assoc dispatch_outs_simps(6) fullscreen_call_no_shutdown set_append)

lemma side_calls_no_shutdown:
  "Shutdown_Handler \<notin> set (concat (map (\<lambda>x. case x of Push_Stats s \<Rightarrow> [Stats_Push s] | _ \<Rightarrow> []) calls))"
  "Shutdown_Handler \<notin> set (map Ab_Push pushes)"
  by (auto split: stats_call.splits)

lemma ingest_event_forward: "\<not> side_channel ev \<Longrightarrow> ingest_event msg_of ev c d = forward_event msg_of ev c d"
  by (cases ev) simp_all

text \<open>The three side channels, one by one.\<close>

lemma side_channel_cases:
  assumes "side_channel ev"
  obtains (video) reply err val name where "ev = Mpv_Get_Property_Reply reply err val name"
      "ingest_event msg_of ev c d = (d, [Video_Mode_Reply reply val], False)"
  | (stats) name val g calls where "ev = Mpv_Property_Change STATS_OBSERVE_ID name val"
      "ingest_event msg_of ev c d = (d\<lparr>drv_stats := g\<rparr>,
         concat (map (\<lambda>x. case x of Push_Stats s \<Rightarrow> [Stats_Push s] | _ \<Rightarrow> []) calls), False)"
  | (ab) name val g pushes where "ev = Mpv_Property_Change AB_LOOP_OBSERVE_ID name val"
      "ingest_event msg_of ev c d = (d\<lparr>drv_ab := g\<rparr>, map Ab_Push pushes, False)"
proof (cases ev)
  case (Mpv_Get_Property_Reply reply err val name)
  with assms show thesis by (intro video) simp_all
next
  case (Mpv_Property_Change pid name val)
  show thesis
  proof (cases "pid = STATS_OBSERVE_ID")
    case True
    obtain g calls where
      "stats_on_property (dc_now c) (ing_display_hz (drv_ingest d)) name val (drv_stats d) = (g, calls)"
      by fastforce
    with Mpv_Property_Change True show thesis by (intro stats) simp_all
  next
    case False
    obtain g pushes where "ab_on_property (drv_ab d) (name, val) = (g, pushes)" by fastforce
    with Mpv_Property_Change False assms show thesis
      by (intro ab) (auto simp: STATS_OBSERVE_ID_def AB_LOOP_OBSERVE_ID_def)
  qed
qed (use assms in simp_all)

lemma side_channel_effect:
  assumes "side_channel ev"
  shows "ev \<noteq> Mpv_Shutdown"
    and "drv_coord (fst (ingest_event msg_of ev c d)) = drv_coord d"
    and "drv_ingest (fst (ingest_event msg_of ev c d)) = drv_ingest d"
    and "snd (ingest_event msg_of ev c d) = (fst (snd (ingest_event msg_of ev c d)), False)"
    and "Shutdown_Handler \<notin> set (fst (snd (ingest_event msg_of ev c d)))"
proof -
  show "ev \<noteq> Mpv_Shutdown" using assms by auto
  have "\<exists>d' calls. ingest_event msg_of ev c d = (d', calls, False) \<and> drv_coord d' = drv_coord d \<and>
      drv_ingest d' = drv_ingest d \<and> Shutdown_Handler \<notin> set calls"
  proof (rule side_channel_cases [OF assms, of msg_of c d])
    fix reply err val name
    assume "ingest_event msg_of ev c d = (d, [Video_Mode_Reply reply val], False)"
    then show ?thesis by simp
  next
    fix g calls
    assume "ingest_event msg_of ev c d = (d\<lparr>drv_stats := g\<rparr>,
         concat (map (\<lambda>x. case x of Push_Stats s \<Rightarrow> [Stats_Push s] | _ \<Rightarrow> []) calls), False)"
    with side_calls_no_shutdown(1) [of calls] show ?thesis by (metis driver.select_convs(1,2) driver.surjective driver.update_convs(4))
  next
    fix g pushes
    assume "ingest_event msg_of ev c d = (d\<lparr>drv_ab := g\<rparr>, map Ab_Push pushes, False)"
    with side_calls_no_shutdown(2) [of pushes] show ?thesis by simp
  qed
  then obtain d' calls where r: "ingest_event msg_of ev c d = (d', calls, False)"
    "drv_coord d' = drv_coord d" "drv_ingest d' = drv_ingest d" "Shutdown_Handler \<notin> set calls"
    by blast
  show "drv_coord (fst (ingest_event msg_of ev c d)) = drv_coord d"
    "drv_ingest (fst (ingest_event msg_of ev c d)) = drv_ingest d"
    "snd (ingest_event msg_of ev c d) = (fst (snd (ingest_event msg_of ev c d)), False)"
    "Shutdown_Handler \<notin> set (fst (snd (ingest_event msg_of ev c d)))"
    unfolding r(1) using r(2-4) by simp_all
qed

lemma ingest_event_calls:
  "\<exists>pre. Shutdown_Handler \<notin> set pre \<and>
     snd (ingest_event msg_of ev c d) =
       (pre @ (if ev = Mpv_Shutdown then [Shutdown_Handler] else []), ev = Mpv_Shutdown)"
proof (cases "side_channel ev")
  case True
  from side_channel_effect(1) [OF True] side_channel_effect(4,5) [OF True, where msg_of = msg_of and c = c and d = d]
  show ?thesis
    by (intro exI [of _ "fst (snd (ingest_event msg_of ev c d))"]) (simp del: ingest_event.simps)
next
  case False
  obtain pre where "Shutdown_Handler \<notin> set pre" "fst (snd (forward_event msg_of ev c d)) =
      pre @ (if ev = Mpv_Shutdown then [Shutdown_Handler] else [])"
    using forward_event_calls by blast
  then show ?thesis
    unfolding ingest_event_forward [OF False] prod_eq_iff fst_conv snd_conv forward_event_simps(4)
    by (intro exI [of _ pre] conjI refl)
qed

lemma ingest_events_calls:
  "\<exists>pre. Shutdown_Handler \<notin> set pre \<and>
     snd (ingest_events msg_of evs d) =
       pre @ (if Mpv_Shutdown \<in> fst ` set evs then [Shutdown_Handler] else [])"
proof (induction evs arbitrary: d)
  case Nil
  then show ?case by simp
next
  case (Cons x evs)
  obtain ev c where x: "x = (ev, c)" by fastforce
  from ingest_event_calls [of msg_of ev c d] obtain pre where pre: "Shutdown_Handler \<notin> set pre"
    "snd (ingest_event msg_of ev c d) = (pre @ (if ev = Mpv_Shutdown then [Shutdown_Handler] else []), ev = Mpv_Shutdown)"
    by blast
  define d' where "d' = fst (ingest_event msg_of ev c d)"
  have r: "ingest_event msg_of ev c d =
      (d', pre @ (if ev = Mpv_Shutdown then [Shutdown_Handler] else []), ev = Mpv_Shutdown)"
    unfolding d'_def by (rule prod_eqI) (simp_all only: pre(2) fst_conv snd_conv)
  from Cons.IH [of d'] obtain pre' where "Shutdown_Handler \<notin> set pre'"
    "snd (ingest_events msg_of evs d') = pre' @ (if Mpv_Shutdown \<in> fst ` set evs then [Shutdown_Handler] else [])"
    by blast
  with pre(1) show ?case
    by (intro exI [of _ "if ev = Mpv_Shutdown then pre else pre @ pre'"])
      (simp add: x r split_beta Let_def del: ingest_event.simps)
qed

section \<open>Whole seconds are exact\<close>

lemma whole_seconds:
  assumes "\<bar>n\<bar> * 10000000 < 2 ^ 53" "0 \<le> k" "k \<le> 10000000"
  shows "scaled_i64 k (f_of_int double n) = n * k"
proof -
  have bound: "\<bar>n * k\<bar> < 2 ^ 53"
  proof -
    have "\<bar>n * k\<bar> \<le> \<bar>n\<bar> * 10000000" using assms(2,3) by (simp add: abs_mult mult_left_mono)
    then show ?thesis using assms(1) by simp
  qed
  have n: "f_is_finite (f_of_int double n) \<and> fval (f_of_int double n) = of_int n"
    using assms(1) by (intro f_of_int_exact representable_of_int) simp_all
  have k: "f_is_finite (f_of_int double k) \<and> fval (f_of_int double k) = of_int k"
    using assms(2,3) by (intro f_of_int_exact representable_of_int) simp_all
  have "representable double (fval (f_of_int double n) * fval (f_of_int double k))"
    using n k bound representable_of_int [of "n * k" double] by simp
  with f_mul_exact [of double "f_of_int double n" "f_of_int double k"] n k
  have "f_is_finite (f_mul double (f_of_int double n) (f_of_int double k)) \<and>
      fval (f_mul double (f_of_int double n) (f_of_int double k)) = of_int (n * k)"
    by simp
  then show ?thesis
    unfolding scaled_i64_def using bound by (intro f_to_int_exact) auto
qed

lemma to_ms_exact: "0 \<le> s \<Longrightarrow> s \<le> 2147483 \<Longrightarrow> to_ms (s * 1000000) = s * 1000"
proof -
  assume s: "0 \<le> s" "s \<le> 2147483"
  have "s * 1000000 div 1000 = s * 1000" by simp
  with s show ?thesis by (simp add: to_ms_def trunc_div_nonneg wrap32_id)
qed

section \<open>The properties\<close>

text \<open>
  Going from a window into fullscreen keeps what the window was: after the host reports
  window mode with a maximized flag and then fullscreen (whose own flag is false), the
  coordinator is posted exactly a leave and an enter carrying the window's flag, and the
  state machine's snapshot remembers it, from any driver and machine state.
\<close>

theorem fullscreen_remembers_maximized:
  "drv_coord (fst (post_window_state True False (fst (post_window_state False mx d)))) =
     post (Fullscreen True mx) (post (Fullscreen False False) (drv_coord d)) \<and>
   maximized_before_fullscreen
     (snap (fst (run_steps apply_input m [Fullscreen False False, Fullscreen True mx]))) = mx"
proof
  show "drv_coord (fst (post_window_state True False (fst (post_window_state False mx d)))) =
     post (Fullscreen True mx) (post (Fullscreen False False) (drv_coord d))"
    by (simp add: post_window_state_def digest_and_dispatch_def digest_property_def observe_ids
        digest_fullscreen_def Let_def)
  show "maximized_before_fullscreen
     (snap (fst (run_steps apply_input m [Fullscreen False False, Fullscreen True mx]))) = mx"
    by (cases "fullscreen (snap m)") (simp_all add: on_fullscreen_def Let_def)
qed

text \<open>
  The three side channels stay apart from the playback: a video-mode reply, a
  statistics property or a loop point changes neither the ingest cells nor the coordinator
  and never ends the thread; every other event leaves the side channels alone and posts to
  the coordinator exactly the inputs the digest produces.
\<close>

theorem side_channels_apart:
  "(if side_channel ev
    then drv_coord (fst (ingest_event msg_of ev c d)) = drv_coord d \<and>
      drv_ingest (fst (ingest_event msg_of ev c d)) = drv_ingest d \<and>
      \<not> snd (snd (ingest_event msg_of ev c d))
    else drv_ab (fst (ingest_event msg_of ev c d)) = drv_ab d \<and>
      drv_stats (fst (ingest_event msg_of ev c d)) = drv_stats d \<and>
      drv_coord (fst (ingest_event msg_of ev c d)) =
        fold post (out_inputs (snd (ingest msg_of ev (drv_ingest d)
          \<lparr>ctx_scale = snapshot_scale (dc_scale c), ctx_macos_logical = dc_macos_logical c\<rparr>))) (drv_coord d))"
proof (cases "side_channel ev")
  case True
  from side_channel_effect(2-4) [OF this, where msg_of = msg_of and c = c and d = d] True show ?thesis
    by (metis snd_conv)
next
  case False
  then show ?thesis
    by (simp add: ingest_event_forward forward_event_simps del: ingest_event.simps)
qed

text \<open>
  The shutdown handler runs exactly when mpv announces its shutdown among the events,
  once, and it is the last thing the ingest thread does.
\<close>

theorem shutdown_handler_last:
  "\<exists>pre. Shutdown_Handler \<notin> set pre \<and>
     snd (ingest_events msg_of evs d) =
       pre @ (if Mpv_Shutdown \<in> fst ` set evs then [Shutdown_Handler] else [])"
  by (rule ingest_events_calls)

text \<open>
  A whole number of seconds survives the two unit changes without rounding: the
  position mpv reports as a double is posted in exact microseconds and reaches the page as
  exact milliseconds (for the first 24 days).
\<close>

theorem whole_seconds_reach_page:
  assumes "0 \<le> n" "n \<le> 2147483"
  shows "snd (digest_property TIME_POS (PV_Double (f_of_int double n)) s ctx) =
      [Out_Input (Position (n * 1000000))] \<and> to_ms (n * 1000000) = n * 1000"
proof -
  have "\<bar>n\<bar> * 10000000 < 2 ^ 53" using assms by simp
  from whole_seconds [OF this, of 1000000] show ?thesis
    using assms by (simp add: digest_property_def observe_ids double_input_def to_ms_exact)
qed

theorem whole_seconds_reach_page_witness:
  "snd (digest_property TIME_POS (PV_Double (f_of_int double 3600)) new_ingest_state
      \<lparr>ctx_scale = Fin 1 0, ctx_macos_logical = None\<rparr>) = [Out_Input (Position 3600000000)] \<and>
   to_ms 3600000000 = 3600000"
  using whole_seconds_reach_page [of 3600 new_ingest_state "\<lparr>ctx_scale = Fin 1 0, ctx_macos_logical = None\<rparr>"]
  by simp

end
