(* ===== verification/Window_Lifecycle.thy ===== *)
theory Window_Lifecycle
  imports Geometry
begin

text \<open>
  What is remembered of the window and who follows it: saved geometry at boot and exit
  (\<open>jfn_rust/src/window_geometry.rs\<close>, with the saved record of \<open>config/src/lib.rs\<close> and the
  snapshot of \<open>platform_abi/src/window_source.rs\<close>), and the sizing of the CEF layers
  (\<open>jfn_cef/src/window_sync.rs\<close>), whose threads interleave in a step relation.
\<close>

section \<open>Snapshots and saved geometry\<close>

record window_snapshot =
  ws_extent :: "window_extent option"
  ws_position :: "window_pos option"
  ws_maximized :: bool
  ws_fullscreen :: bool

record saved_geometry =
  sg_x :: int
  sg_y :: int
  sg_width :: int
  sg_height :: int
  sg_logical_width :: int
  sg_logical_height :: int
  sg_scale :: f32
  sg_maximized :: bool

definition default_saved :: saved_geometry where
  "default_saved = \<lparr>sg_x = -1, sg_y = -1, sg_width = 0, sg_height = 0, sg_logical_width = 0,
     sg_logical_height = 0, sg_scale = Fin 0 0, sg_maximized = False\<rparr>"

definition DEFAULT_LOGICAL :: logical_size where
  "DEFAULT_LOGICAL = \<lparr>log_w = 1600, log_h = 900\<rparr>"

definition resolve_boot :: "saved_geometry \<Rightarrow> f32 \<Rightarrow> (window_geometry \<Rightarrow> window_geometry) \<Rightarrow> boot_geometry" where
  "resolve_boot g scale clamp =
     (let logical =
            (if 0 < sg_logical_width g \<and> 0 < sg_logical_height g
             then \<lparr>log_w = sg_logical_width g, log_h = sg_logical_height g\<rparr>
             else if 0 < sg_width g \<and> 0 < sg_height g
             then \<lparr>log_w = sg_width g, log_h = sg_height g\<rparr>
             else DEFAULT_LOGICAL);
          scale = scale_or_one scale;
          physical = logical_to_physical logical scale;
          clamped = clamp (geometry_from_raw (phy_w physical) (phy_h physical) (sg_x g) (sg_y g))
      in boot_from_clamped logical scale clamped (sg_maximized g))"

definition geometry_to_persist :: "window_snapshot \<Rightarrow> saved_geometry \<Rightarrow> bool \<Rightarrow> saved_geometry option" where
  "geometry_to_persist snap saved was_max =
     (if ws_fullscreen snap then Some (saved\<lparr>sg_maximized := was_max\<rparr>)
      else if ws_maximized snap then Some (saved\<lparr>sg_maximized := True\<rparr>)
      else case ws_extent snap of None \<Rightarrow> None
      | Some ext \<Rightarrow>
          let physical = ext_physical ext; logical = ext_logical ext; scale = scale_or_one (ext_scale ext)
          in if phy_w physical \<le> 0 \<or> phy_h physical \<le> 0 then None
             else Some \<lparr>sg_x = (case ws_position snap of None \<Rightarrow> -1 | Some p \<Rightarrow> pos_x p),
                        sg_y = (case ws_position snap of None \<Rightarrow> -1 | Some p \<Rightarrow> pos_y p),
                        sg_width = phy_w physical, sg_height = phy_h physical,
                        sg_logical_width = log_w logical, sg_logical_height = log_h logical,
                        sg_scale = scale, sg_maximized = False\<rparr>)"

section \<open>CEF follows the window\<close>

record cef_view_size =
  cvs_logical :: logical_size
  cvs_physical :: physical_size

definition cef_size_from_snapshot :: "window_snapshot \<Rightarrow> cef_view_size option" where
  "cef_size_from_snapshot snap =
     (case ws_extent snap of None \<Rightarrow> None
      | Some e \<Rightarrow>
          if log_w (ext_logical e) \<le> 0 \<or> log_h (ext_logical e) \<le> 0 \<or>
             phy_w (ext_physical e) \<le> 0 \<or> phy_h (ext_physical e) \<le> 0 then None
          else Some \<lparr>cvs_logical = ext_logical e, cvs_physical = ext_physical e\<rparr>)"

text \<open>
  A run of \<open>reconcile\<close> on one thread, between two atomic actions: about to pull, a size
  pulled, the cell swapped and the size about to be applied, returned.
\<close>

datatype 's sync_pc = Sync_Pull | Sync_Pulled 's | Sync_Apply 's | Sync_Done

text \<open>The window's size as a pull sees it, the cell, and the size CEF was last given.\<close>

record 's sync_state =
  win :: "'s option"
  last_applied :: "'s option"
  cef_size :: "'s option"
  threads :: "'s sync_pc list"

fun sync_pull :: "'s option \<Rightarrow> 's sync_pc" where
  "sync_pull None = Sync_Done"
| "sync_pull (Some s) = Sync_Pulled s"

inductive sync_step :: "'s sync_state \<Rightarrow> 's sync_state \<Rightarrow> bool" where
  sync_resize: "sync_step c (c\<lparr>win := w, threads := threads c @ [Sync_Pull]\<rparr>)"
| sync_pulls: "i < length (threads c) \<Longrightarrow> threads c ! i = Sync_Pull \<Longrightarrow>
     sync_step c (c\<lparr>threads := (threads c)[i := sync_pull (win c)]\<rparr>)"
| sync_swap_same: "i < length (threads c) \<Longrightarrow> threads c ! i = Sync_Pulled s \<Longrightarrow> last_applied c = Some s \<Longrightarrow>
     sync_step c (c\<lparr>threads := (threads c)[i := Sync_Done]\<rparr>)"
| sync_swap_new: "i < length (threads c) \<Longrightarrow> threads c ! i = Sync_Pulled s \<Longrightarrow> last_applied c \<noteq> Some s \<Longrightarrow>
     sync_step c (c\<lparr>last_applied := Some s, threads := (threads c)[i := Sync_Apply s]\<rparr>)"
| sync_applies: "i < length (threads c) \<Longrightarrow> threads c ! i = Sync_Apply s \<Longrightarrow>
     sync_step c (c\<lparr>cef_size := Some s, threads := (threads c)[i := Sync_Pull]\<rparr>)"

text \<open>One thread alone, pulling a sequence of sizes (\<open>None\<close> at its end).\<close>

fun reconcile :: "'s option list \<Rightarrow> 's option \<Rightarrow> 's option \<times> 's list" where
  "reconcile [] cell = (cell, [])"
| "reconcile (None # ps) cell = (cell, [])"
| "reconcile (Some s # ps) cell =
     (if cell = Some s then (cell, [])
      else let (cell', applied) = reconcile ps (Some s) in (cell', s # applied))"

section \<open>Lemmas\<close>

text \<open>
  Alone, a thread hands on what it swapped before anything else looks: the cell is the size
  in force except between its own swap and its own apply.
\<close>

definition settled :: "'s sync_pc list \<Rightarrow> bool" where
  "settled ts \<longleftrightarrow> set ts \<subseteq> {Sync_Done}"

fun lone_ok :: "'s sync_state \<Rightarrow> 's sync_pc \<Rightarrow> bool" where
  "lone_ok c (Sync_Apply s) = (last_applied c = Some s)"
| "lone_ok c _ = (last_applied c = cef_size c)"

text \<open>The sequential discipline: a new run starts only when the others have returned.\<close>

inductive lone_run :: "'s sync_state \<Rightarrow> 's sync_state \<Rightarrow> bool" where
  lone_start: "lone_run c (c\<lparr>threads := [Sync_Pull]\<rparr>)"
| lone_step: "lone_run c c' \<Longrightarrow> sync_step c' c'' \<Longrightarrow> length (threads c'') = 1 \<Longrightarrow> lone_run c c''"

lemma single_thread: "length ts = 1 \<Longrightarrow> \<exists>t. ts = [t]"
  by (cases ts) simp_all

lemma lone_window:
  "lone_run c c' \<Longrightarrow> last_applied c = cef_size c \<Longrightarrow>
     win c' = win c \<and> (\<exists>t. threads c' = [t] \<and> lone_ok c' t \<and>
       (t = Sync_Done \<longrightarrow> win c = None \<or> cef_size c' = win c) \<and>
       (\<forall>s. t = Sync_Pulled s \<longrightarrow> win c = Some s) \<and>
       (\<forall>s. t = Sync_Apply s \<longrightarrow> win c = Some s))"
proof (induction rule: lone_run.induct)
  case (lone_start c)
  then show ?case by simp
next
  case (lone_step c c' c'')
  then obtain t where t: "threads c' = [t]" "win c' = win c" "lone_ok c' t"
    "t = Sync_Done \<longrightarrow> win c = None \<or> cef_size c' = win c"
    "\<forall>s. t = Sync_Pulled s \<longrightarrow> win c = Some s" "\<forall>s. t = Sync_Apply s \<longrightarrow> win c = Some s" by auto
  from lone_step.hyps(2) show ?case
  proof (cases rule: sync_step.cases)
    case (sync_resize w)
    then show ?thesis using lone_step.hyps(3) t(1) by simp
  next
    case (sync_pulls i)
    then show ?thesis using t by (cases "win c") auto
  next
    case (sync_swap_same i s)
    then show ?thesis using t by auto
  next
    case (sync_swap_new i s)
    then show ?thesis using t by auto
  next
    case (sync_applies i s)
    then show ?thesis using t by auto
  qed
qed

section \<open>The properties\<close>

text \<open>One session after another: each writes at its end over what the one before left, or leaves it.\<close>

fun sessions :: "(window_snapshot \<times> bool) list \<Rightarrow> saved_geometry \<Rightarrow> saved_geometry" where
  "sessions [] saved = saved"
| "sessions ((snap, was_max) # rest) saved =
     sessions rest (case geometry_to_persist snap saved was_max of None \<Rightarrow> saved | Some g \<Rightarrow> g)"

definition ends_big :: "window_snapshot \<times> bool \<Rightarrow> bool" where
  "ends_big x \<longleftrightarrow> ws_fullscreen (fst x) \<or> ws_maximized (fst x)"

text \<open>A session that ends maximized or fullscreen changes the flag only.\<close>

lemma big_sessions_keep:
  "list_all ends_big later \<Longrightarrow>
   sessions later saved = saved\<lparr>sg_maximized :=
     (if later = [] then sg_maximized saved
      else if ws_fullscreen (fst (last later)) then snd (last later) else True)\<rparr>"
proof (induction later arbitrary: saved)
  case (Cons x later)
  obtain snap was_max where x: "x = (snap, was_max)" by fastforce
  have "geometry_to_persist snap saved was_max = Some (saved\<lparr>sg_maximized := (if ws_fullscreen snap then was_max else True)\<rparr>)"
    using Cons.prems by (auto simp: x ends_big_def geometry_to_persist_def)
  then show ?case using Cons.IH Cons.prems by (simp add: x)
qed simp

text \<open>Where a window of a logical size opens at a scale, before the clamp.\<close>

definition opens_at :: "logical_size \<Rightarrow> f32 \<Rightarrow> window_pos option \<Rightarrow> window_geometry" where
  "opens_at l s p =
     (let physical = logical_to_physical l (scale_or_one s) in \<lparr>geo_w = phy_w physical, geo_h = phy_h physical, geo_position = p\<rparr>)"

text \<open>
  C37: Closing and reopening restores the window, across sessions. One session ends with the window
  neither maximized nor fullscreen, with a size and, where the platform reports one, a position that is
  not negative; any number of later sessions end maximized or fullscreen. The next start then has the
  logical size of the first, whatever the clamp; the maximized flag of the last; and, with no clamp or
  with the clamp of a screen the window fits on as it opens, the position of the first.
\<close>

theorem persist_then_boot:
  fixes saved :: saved_geometry and was_max :: bool
  assumes "\<not> ws_fullscreen snap" "\<not> ws_maximized snap" "ws_extent snap = Some e"
    "0 < phy_w (ext_physical e)" "0 < phy_h (ext_physical e)" "0 < log_w (ext_logical e)" "0 < log_h (ext_logical e)"
    "list_all ends_big later"
  defines "g \<equiv> sessions ((snap, was_max) # later) saved"
  shows "boot_logical (resolve_boot g s clamp) = ext_logical e \<and>
    boot_maximized (resolve_boot g s clamp) =
      (if later = [] then False else if ws_fullscreen (fst (last later)) then snd (last later) else True) \<and>
    (\<forall>p. ws_position snap = Some p \<and> 0 \<le> pos_x p \<and> 0 \<le> pos_y p \<and>
         (clamp = (\<lambda>w. w) \<or>
          (\<exists>b. clamp = (\<lambda>w. clamp_to_bounds w b) \<and> sane_bounds b \<and> inside b (opens_at (ext_logical e) s (Some p)) \<and>
             0 \<le> geo_w (opens_at (ext_logical e) s None) \<and> 0 \<le> geo_h (opens_at (ext_logical e) s None))) \<longrightarrow>
       boot_position (resolve_boot g s clamp) = Some p) \<and>
    (ws_position snap = None \<and> clamp = (\<lambda>w. w) \<longrightarrow> boot_position (resolve_boot g s clamp) = None)"
proof -
  define g0 where "g0 = \<lparr>sg_x = (case ws_position snap of None \<Rightarrow> -1 | Some p \<Rightarrow> pos_x p),
      sg_y = (case ws_position snap of None \<Rightarrow> -1 | Some p \<Rightarrow> pos_y p),
      sg_width = phy_w (ext_physical e), sg_height = phy_h (ext_physical e),
      sg_logical_width = log_w (ext_logical e), sg_logical_height = log_h (ext_logical e),
      sg_scale = scale_or_one (ext_scale e), sg_maximized = False\<rparr>"
  have "geometry_to_persist snap saved was_max = Some g0"
    using assms(1-5) by (simp add: geometry_to_persist_def g0_def Let_def)
  then have g: "g = g0\<lparr>sg_maximized := (if later = [] then False
      else if ws_fullscreen (fst (last later)) then snd (last later) else True)\<rparr>"
    using big_sessions_keep [OF assms(8), of g0] by (simp add: g_def g0_def)
  let ?p = "case ws_position snap of None \<Rightarrow> None | Some p \<Rightarrow> if 0 \<le> pos_x p \<and> 0 \<le> pos_y p then Some p else None"
  have boot: "resolve_boot g s clamp = boot_from_clamped (ext_logical e) (scale_or_one s)
      (clamp (opens_at (ext_logical e) s ?p)) (sg_maximized g)"
  proof -
    have l: "\<lparr>log_w = log_w (ext_logical e), log_h = log_h (ext_logical e)\<rparr> = ext_logical e" by (cases "ext_logical e") simp
    have p: "\<lparr>pos_x = pos_x q, pos_y = pos_y q\<rparr> = q" for q :: window_pos by (cases q) simp
    show ?thesis using assms(6,7)
      by (cases "ws_position snap") (simp_all add: g g0_def resolve_boot_def Let_def opens_at_def geometry_from_raw_def l p)
  qed
  have "clamp_to_bounds (opens_at l s (Some p)) b = opens_at l s (Some p)"
    if "sane_bounds b" "inside b (opens_at l s (Some p))" "0 \<le> geo_w (opens_at l s None)" "0 \<le> geo_h (opens_at l s None)" for l p b
    using clamp_of_inside [OF that(1,2)] that(3,4) by (simp add: opens_at_def Let_def)
  then show ?thesis unfolding boot by (auto simp: boot_from_clamped_def g opens_at_def Let_def split: option.split)
qed

theorem persist_then_boot_witness:
  "let e = extent_with_logical \<lparr>phy_w = 1500, phy_h = 900\<rparr> (Fin 3 (-1)) \<lparr>log_w = 1000, log_h = 600\<rparr>;
       snap = \<lparr>ws_extent = Some e, ws_position = Some \<lparr>pos_x = 40, pos_y = 30\<rparr>, ws_maximized = False, ws_fullscreen = False\<rparr>;
       g = sessions [(snap, False), (snap\<lparr>ws_maximized := True\<rparr>, False)] default_saved;
       boot = resolve_boot g (Fin 1 0) (\<lambda>w. clamp_to_bounds w \<lparr>bound_w = 1920, bound_h = 1080\<rparr>)
   in boot_logical boot = \<lparr>log_w = 1000, log_h = 600\<rparr> \<and> boot_position boot = Some \<lparr>pos_x = 40, pos_y = 30\<rparr> \<and> boot_maximized boot"
proof -
  define e where "e = extent_with_logical \<lparr>phy_w = 1500, phy_h = 900\<rparr> (Fin 3 (-1)) \<lparr>log_w = 1000, log_h = 600\<rparr>"
  define snap where "snap = \<lparr>ws_extent = Some e, ws_position = Some \<lparr>pos_x = 40, pos_y = 30\<rparr>, ws_maximized = False, ws_fullscreen = False\<rparr>"
  let ?b = "\<lparr>bound_w = 1920, bound_h = 1080\<rparr>"
  have h: "\<not> ws_fullscreen snap" "\<not> ws_maximized snap" "ws_extent snap = Some e"
    "0 < phy_w (ext_physical e)" "0 < phy_h (ext_physical e)" "0 < log_w (ext_logical e)" "0 < log_h (ext_logical e)"
    "list_all ends_big [(snap\<lparr>ws_maximized := True\<rparr>, False)]"
    by (simp_all add: snap_def e_def extent_with_logical_def ends_big_def)
  have l: "ext_logical e = \<lparr>log_w = 1000, log_h = 600\<rparr>" by (simp add: e_def extent_with_logical_def)
  have opens: "opens_at \<lparr>log_w = 1000, log_h = 600\<rparr> (Fin 1 0) p = \<lparr>geo_w = 1000, geo_h = 600, geo_position = p\<rparr>" for p
  proof -
    have "logical_to_physical \<lparr>log_w = 1000, log_h = 600\<rparr> (scale_or_one (Fin 1 0)) = \<lparr>phy_w = 1000, phy_h = 600\<rparr>" by code_simp
    then show ?thesis by (simp add: opens_at_def)
  qed
  have "sane_bounds ?b" "inside ?b (opens_at (ext_logical e) (Fin 1 0) (Some \<lparr>pos_x = 40, pos_y = 30\<rparr>))"
    "0 \<le> geo_w (opens_at (ext_logical e) (Fin 1 0) None) \<and> 0 \<le> geo_h (opens_at (ext_logical e) (Fin 1 0) None)"
    by (simp_all add: l opens sane_bounds_def inside_def)
  with persist_then_boot [OF h, of False default_saved "Fin 1 0" "\<lambda>w. clamp_to_bounds w ?b"] show ?thesis
    unfolding Let_def snap_def [symmetric] e_def [symmetric] by (auto simp: l snap_def)
qed

text \<open>
  As long as reconciliations do not overlap, CEF ends at the window's size: when a run
  that started with the cell in agreement returns, the size last applied is the current one
  (or there is none to apply).
\<close>

theorem lone_reconcile_settles:
  assumes "last_applied c = cef_size c" "lone_run c c'" "settled (threads c')"
  shows "win c' = None \<or> cef_size c' = win c'"
  using lone_window [OF assms(2,1)] assms(3) by (auto simp: settled_def)

theorem lone_reconcile_settles_witness:
  "\<exists>c'. lone_run \<lparr>win = Some (7::nat), last_applied = None, cef_size = None, threads = []\<rparr> c' \<and>
     cef_size c' = Some 7"
proof -
  let ?c = "\<lparr>win = Some (7::nat), last_applied = None, cef_size = None, threads = []\<rparr>"
  let ?d = "\<lambda>l a t. \<lparr>win = Some (7::nat), last_applied = l, cef_size = a, threads = [t]\<rparr>"
  have a: "lone_run ?c (?d None None Sync_Pull)" using lone_start [of ?c] by simp
  have b: "lone_run ?c (?d None None (Sync_Pulled 7))"
    using lone_step [OF a sync_pulls [of 0]] by simp
  have d: "lone_run ?c (?d (Some 7) None (Sync_Apply 7))"
    using lone_step [OF b sync_swap_new [of 0 _ 7]] by simp
  have e: "lone_run ?c (?d (Some 7) (Some 7) Sync_Pull)"
    using lone_step [OF d sync_applies [of 0 _ 7]] by simp
  have f: "lone_run ?c (?d (Some 7) (Some 7) (Sync_Pulled 7))"
    using lone_step [OF e sync_pulls [of 0]] by simp
  have g: "lone_run ?c (?d (Some 7) (Some 7) Sync_Done)"
    using lone_step [OF f sync_swap_same [of 0 _ 7]] by simp
  from lone_reconcile_settles [OF _ g] have "cef_size (?d (Some 7) (Some 7) Sync_Done) = Some 7"
    by (simp add: settled_def)
  with g show ?thesis by blast
qed

text \<open>
  Overlapping reconciliations can leave CEF at a stale size for good: one thread swaps
  the cell and is delayed before applying; another swaps in and applies the newer size and
  returns; the first then applies its old size, pulls the newer one, finds it already in
  the cell and returns. Every thread is done, the cell holds the window's size, CEF does not.
\<close>

theorem overlapping_reconciles_go_stale:
  "\<exists>c. sync_step\<^sup>*\<^sup>* \<lparr>win = Some (1::nat), last_applied = None, cef_size = None, threads = [Sync_Pull]\<rparr> c \<and>
     settled (threads c) \<and> last_applied c = win c \<and> win c = Some 2 \<and> cef_size c = Some 1"
proof -
  let ?d = "\<lambda>w l a ts. \<lparr>win = Some (w::nat), last_applied = l, cef_size = a, threads = ts\<rparr>"
  note step = rtranclp.rtrancl_into_rtrancl
  have 0: "sync_step\<^sup>*\<^sup>* (?d 1 None None [Sync_Pull]) (?d 1 None None [Sync_Pull])" by simp
  have 1: "sync_step\<^sup>*\<^sup>* (?d 1 None None [Sync_Pull]) (?d 1 None None [Sync_Pulled 1])"
    using step [OF 0 sync_pulls [of 0]] by simp
  have 2: "sync_step\<^sup>*\<^sup>* (?d 1 None None [Sync_Pull]) (?d 1 (Some 1) None [Sync_Apply 1])"
    using step [OF 1 sync_swap_new [of 0 _ 1]] by simp
  have 3: "sync_step\<^sup>*\<^sup>* (?d 1 None None [Sync_Pull]) (?d 2 (Some 1) None [Sync_Apply 1, Sync_Pull])"
    using step [OF 2 sync_resize [of _ "Some 2"]] by simp
  have 4: "sync_step\<^sup>*\<^sup>* (?d 1 None None [Sync_Pull]) (?d 2 (Some 1) None [Sync_Apply 1, Sync_Pulled 2])"
    using step [OF 3 sync_pulls [of 1]] by simp
  have 5: "sync_step\<^sup>*\<^sup>* (?d 1 None None [Sync_Pull]) (?d 2 (Some 2) None [Sync_Apply 1, Sync_Apply 2])"
    using step [OF 4 sync_swap_new [of 1 _ 2]] by simp
  have 6: "sync_step\<^sup>*\<^sup>* (?d 1 None None [Sync_Pull]) (?d 2 (Some 2) (Some 2) [Sync_Apply 1, Sync_Pull])"
    using step [OF 5 sync_applies [of 1 _ 2]] by simp
  have 7: "sync_step\<^sup>*\<^sup>* (?d 1 None None [Sync_Pull]) (?d 2 (Some 2) (Some 2) [Sync_Apply 1, Sync_Pulled 2])"
    using step [OF 6 sync_pulls [of 1]] by simp
  have 8: "sync_step\<^sup>*\<^sup>* (?d 1 None None [Sync_Pull]) (?d 2 (Some 2) (Some 2) [Sync_Apply 1, Sync_Done])"
    using step [OF 7 sync_swap_same [of 1 _ 2]] by simp
  have 9: "sync_step\<^sup>*\<^sup>* (?d 1 None None [Sync_Pull]) (?d 2 (Some 2) (Some 1) [Sync_Pull, Sync_Done])"
    using step [OF 8 sync_applies [of 0 _ 1]] by simp
  have 10: "sync_step\<^sup>*\<^sup>* (?d 1 None None [Sync_Pull]) (?d 2 (Some 2) (Some 1) [Sync_Pulled 2, Sync_Done])"
    using step [OF 9 sync_pulls [of 0]] by simp
  have "sync_step\<^sup>*\<^sup>* (?d 1 None None [Sync_Pull]) (?d 2 (Some 2) (Some 1) [Sync_Done, Sync_Done])"
    using step [OF 10 sync_swap_same [of 0 _ 2]] by simp
  then show ?thesis
    by (intro exI [of _ "?d 2 (Some 2) (Some 1) [Sync_Done, Sync_Done]"]) (simp add: settled_def)
qed

end
