(* ===== verification/X11_Logic.thy ===== *)
theory X11_Logic
  imports Window_Lifecycle "HOL-Library.Sublist"
begin

text \<open>
  The pure decisions of the X11 backend: the geometry thread's arithmetic
  (\<open>x11/src/geometry_logic.rs\<close>), host window construction (\<open>lifecycle_logic.rs\<close>), display
  scale (\<open>scale_logic.rs\<close>) and the upload arithmetic of the overlay actor
  (\<open>overlay_actor_logic.rs\<close>). Window ids and atoms are integers; \<open>i32\<close> sums wrap; \<open>usize\<close>
  is the 64-bit one.
\<close>

section \<open>How much work a pass owes\<close>

datatype pending = Idle | Reconcile | Restack | Refocus

fun pending_rank :: "pending \<Rightarrow> nat" where
  "pending_rank Idle = 0"
| "pending_rank Reconcile = 1"
| "pending_rank Restack = 2"
| "pending_rank Refocus = 3"

lemma pending_rank_inject [simp]: "pending_rank a = pending_rank b \<longleftrightarrow> a = b"
  by (cases a; cases b) simp_all

instantiation pending :: linorder
begin

definition less_eq_pending :: "pending \<Rightarrow> pending \<Rightarrow> bool" where
  "less_eq_pending a b \<longleftrightarrow> pending_rank a \<le> pending_rank b"

definition less_pending :: "pending \<Rightarrow> pending \<Rightarrow> bool" where
  "less_pending a b \<longleftrightarrow> pending_rank a < pending_rank b"

instance
  by standard (auto simp: less_eq_pending_def less_pending_def)

end

definition pending_merge :: "pending \<Rightarrow> pending \<Rightarrow> pending" where
  "pending_merge a b = max a b"

section \<open>Classification\<close>

datatype property_target = Target_Parent | Target_Resource_Manager | Target_Other

definition classify_property :: "int \<Rightarrow> int \<Rightarrow> int \<Rightarrow> int \<Rightarrow> int \<Rightarrow> property_target" where
  "classify_property window atom parent root_win resource_manager =
     (if window = parent then Target_Parent
      else if window = root_win \<and> atom = resource_manager then Target_Resource_Manager
      else Target_Other)"

text \<open>Appending what the caller omitted, first occurrences only.\<close>

fun append_missing :: "'a list \<Rightarrow> 'a list \<Rightarrow> 'a list" where
  "append_missing order [] = order"
| "append_missing order (x # xs) = append_missing (if x \<in> set order then order else order @ [x]) xs"

definition merged_order :: "'a list \<Rightarrow> 'a list \<Rightarrow> ('a \<Rightarrow> bool) \<Rightarrow> 'a list" where
  "merged_order requested current is_owned = append_missing (filter is_owned requested) current"

definition fold_wm_state :: "int list \<Rightarrow> int \<Rightarrow> int \<Rightarrow> int \<Rightarrow> bool \<times> bool" where
  "fold_wm_state values fs_atom mv_atom mh_atom =
     (let (fs, mv, mh) =
        fold (\<lambda>a (fs, mv, mh). (fs \<or> a = fs_atom, mv \<or> a = mv_atom, mh \<or> a = mh_atom)) values
          (False, False, False)
      in (fs, mv \<and> mh))"

type_synonym geom = "int \<times> int \<times> int \<times> int"

definition geometric_fullscreen :: "geom \<Rightarrow> int \<Rightarrow> int \<Rightarrow> bool" where
  "geometric_fullscreen g root_w root_h = (case g of (x, y, w, h) \<Rightarrow> root_w \<le> w \<and> root_h \<le> h)"

definition host_fill_size :: "int \<Rightarrow> int \<Rightarrow> int \<times> int" where
  "host_fill_size w h = (max w 1, max h 1)"

definition parent_changed :: "geom \<times> bool \<times> bool \<Rightarrow> geom \<Rightarrow> bool \<Rightarrow> bool \<Rightarrow> bool" where
  "parent_changed previous g fs mx = (previous \<noteq> (g, fs, mx))"

text \<open>\<open>f32::EPSILON\<close> is two to the minus 23.\<close>

definition scale_changed :: "f32 \<Rightarrow> f32 \<Rightarrow> bool" where
  "scale_changed published probed = f_lt (Fin 1 (-23)) (f_abs (f_sub single published probed))"

definition is_wm_delete :: "int \<Rightarrow> int \<Rightarrow> int \<Rightarrow> int \<Rightarrow> bool" where
  "is_wm_delete ty data0 wm_protocols wm_delete_window = (ty = wm_protocols \<and> data0 = wm_delete_window)"

text \<open>The client message's five data words; the high word is read as signed.\<close>

definition sync_request_value :: "int \<Rightarrow> 32 word list \<Rightarrow> int \<Rightarrow> 32 word \<Rightarrow> 32 word \<Rightarrow> (int \<times> 32 word) option" where
  "sync_request_value ty data wm_protocols net_wm_sync_request sync_counter =
     (if sync_counter = 0 \<or> net_wm_sync_request = 0 then None
      else if ty \<noteq> wm_protocols \<or> data ! 0 \<noteq> net_wm_sync_request then None
      else Some (sint (data ! 3), data ! 2))"

section \<open>The resize handshake\<close>

record resize_sync =
  rs_counter :: "32 word"
  rs_pending :: "(int \<times> 32 word) option"
  rs_armed :: bool

definition new_resize_sync :: "32 word \<Rightarrow> resize_sync" where
  "new_resize_sync counter = \<lparr>rs_counter = counter, rs_pending = None, rs_armed = False\<rparr>"

definition latch :: "int \<Rightarrow> 32 word \<Rightarrow> resize_sync \<Rightarrow> resize_sync" where
  "latch hi lo s = (if rs_counter s = 0 then s else s\<lparr>rs_pending := Some (hi, lo), rs_armed := False\<rparr>)"

definition arm :: "resize_sync \<Rightarrow> resize_sync" where
  "arm s = s\<lparr>rs_armed := True\<rparr>"

definition take_commit :: "resize_sync \<Rightarrow> resize_sync \<times> (32 word \<times> int \<times> 32 word) option" where
  "take_commit s =
     (if \<not> rs_armed s then (s, None)
      else case rs_pending s of None \<Rightarrow> (s, None)
      | Some (hi, lo) \<Rightarrow> (s\<lparr>rs_pending := None, rs_armed := False\<rparr>, Some (rs_counter s, hi, lo)))"

datatype resize_op = Op_Latch int "32 word" | Op_Arm | Op_Take

fun resize_step :: "resize_sync \<Rightarrow> resize_op \<Rightarrow> resize_sync \<times> (32 word \<times> int \<times> 32 word) list" where
  "resize_step s (Op_Latch hi lo) = (latch hi lo s, [])"
| "resize_step s Op_Arm = (arm s, [])"
| "resize_step s Op_Take = (let (s', r) = take_commit s in (s', case r of None \<Rightarrow> [] | Some c \<Rightarrow> [c]))"

section \<open>Snapshots\<close>

record parent_snapshot =
  ps_origin_x :: int
  ps_origin_y :: int
  ps_width :: int
  ps_height :: int
  ps_fullscreen :: bool
  ps_maximized :: bool
  ps_scale :: f32

definition x11_window_snapshot :: "parent_snapshot \<Rightarrow> window_snapshot" where
  "x11_window_snapshot m =
     \<lparr>ws_extent = (if 0 < ps_width m \<and> 0 < ps_height m
                    then Some (extent_new \<lparr>phy_w = ps_width m, phy_h = ps_height m\<rparr> (ps_scale m)) else None),
      ws_position = Some \<lparr>pos_x = ps_origin_x m, pos_y = ps_origin_y m\<rparr>,
      ws_maximized = ps_maximized m, ws_fullscreen = ps_fullscreen m\<rparr>"

definition empty_window_snapshot :: window_snapshot where
  "empty_window_snapshot =
     \<lparr>ws_extent = None, ws_position = None, ws_maximized = False, ws_fullscreen = False\<rparr>"

section \<open>Host window construction\<close>

record boot_placement =
  bp_w :: int
  bp_h :: int
  bp_position :: "window_pos option"
  bp_maximized :: bool

definition placement_origin :: "boot_placement \<Rightarrow> int \<times> int" where
  "placement_origin b = (case bp_position b of None \<Rightarrow> (0, 0) | Some p \<Rightarrow> (pos_x p, pos_y p))"

definition boot_placement_of :: "boot_geometry option \<Rightarrow> f32 \<Rightarrow> boot_placement" where
  "boot_placement_of boot scale =
     (let (w, h) = (case boot of
            None \<Rightarrow> (f_to_i32 (f_mul double (Fin 1600 0) scale), f_to_i32 (f_mul double (Fin 900 0) scale))
          | Some b \<Rightarrow> (max (phy_w (boot_physical b)) 1, max (phy_h (boot_physical b)) 1))
      in \<lparr>bp_w = w, bp_h = h, bp_position = Option.bind boot boot_position,
          bp_maximized = (case boot of None \<Rightarrow> False | Some b \<Rightarrow> boot_maximized b)\<rparr>)"

definition clamp_to_screen :: "int \<Rightarrow> int \<Rightarrow> int \<Rightarrow> int \<Rightarrow> int \<times> int" where
  "clamp_to_screen w h screen_w screen_h =
     (if 0 < screen_w \<and> screen_w < w then screen_w else w,
      if 0 < screen_h \<and> screen_h < h then screen_h else h)"

definition wm_protocols_list :: "int \<Rightarrow> int \<Rightarrow> int \<Rightarrow> int list" where
  "wm_protocols_list wm_delete_window net_wm_sync_request sync_counter =
     wm_delete_window # (if sync_counter \<noteq> 0 \<and> net_wm_sync_request \<noteq> 0 then [net_wm_sync_request] else [])"

text \<open>A screen as its allowed depths, each with the class and id of its visuals.\<close>

datatype visual_class = True_Color | Other_Class

definition find_argb_visual :: "(int \<times> (visual_class \<times> int) list) list \<Rightarrow> int option" where
  "find_argb_visual depths =
     map_option snd (find (\<lambda>(c, _). c = True_Color) (concat (map snd (filter (\<lambda>(d, _). d = 32) depths))))"

definition shm_version_supported :: "int \<Rightarrow> int \<Rightarrow> bool" where
  "shm_version_supported major minor \<longleftrightarrow> 1 < major \<or> major = 1 \<and> 2 \<le> minor"

text \<open>\<open>x11rb::NONE\<close> is zero.\<close>

definition compositor_owner_present :: "int option \<Rightarrow> bool" where
  "compositor_owner_present owner = (case owner of None \<Rightarrow> True | Some o' \<Rightarrow> o' \<noteq> 0)"

definition cm_atom_name :: "int \<Rightarrow> string" where
  "cm_atom_name n = ''_NET_WM_CM_S'' @ show_int n"

section \<open>Display scale\<close>

definition quantize_dpi_steps :: "f64 \<Rightarrow> int option" where
  "quantize_dpi_steps dpi =
     (if \<not> f_is_finite dpi then None
      else let s = f_to_i32 (f_round_ties_even (f_clamp (Fin 0 0) (Fin 20 0)
                 (f_div double (f_mul double (Fin 2 0) dpi) (Fin 96 0))))
           in if 2 < s \<and> s < 20 then Some s else None)"

definition half_steps :: "int \<Rightarrow> f32" where
  "half_steps s = f_div single (f_of_int single s) (Fin 2 0)"

definition quantize_dpi :: "f64 \<Rightarrow> f32 option" where
  "quantize_dpi dpi = map_option half_steps (quantize_dpi_steps dpi)"

definition axis_dpi :: "int \<Rightarrow> int \<Rightarrow> f64" where
  "axis_dpi px mm =
     f_div double (f_mul double (f_of_int double px) (round_frac double False 254 10)) (f_of_int double mm)"

definition screen_dpi_scale :: "int \<Rightarrow> int \<Rightarrow> int \<Rightarrow> int \<Rightarrow> f32 option" where
  "screen_dpi_scale w_px h_px w_mm h_mm =
     (if w_mm = 0 \<or> h_mm = 0 then None
      else let dx = axis_dpi w_px w_mm; dy = axis_dpi h_px h_mm
           in if \<not> f_is_finite dx \<or> \<not> f_is_finite dy then None
              else case (quantize_dpi_steps dx, quantize_dpi_steps dy) of
                (Some sx, Some sy) \<Rightarrow> if sx = sy then Some (half_steps sx) else None
              | _ \<Rightarrow> None)"

definition positive_scale_or_one :: "f32 \<Rightarrow> f32" where
  "positive_scale_or_one s = (if f_lt (Fin 0 0) s then s else Fin 1 0)"

definition logical_from_physical :: "int \<Rightarrow> f32 \<Rightarrow> int" where
  "logical_from_physical physical scale =
     f_to_i32 (f_div double (f_of_int double physical) (positive_scale_or_one scale))"

section \<open>Uploads\<close>

record software_frame =
  sf_stride :: int
  sf_len :: int

text \<open>The saturating product and the checked one, on the values of a 64-bit \<open>usize\<close>.\<close>

definition software_frame_of :: "int \<Rightarrow> int \<Rightarrow> int \<Rightarrow> software_frame option" where
  "software_frame_of width height pixels_len =
     (if width \<le> 0 \<or> height \<le> 0 then None
      else let stride = min u64_max (width * 4); len = height * stride
           in if u64_max < len then None
              else if pixels_len < len then None
              else Some \<lparr>sf_stride = stride, sf_len = len\<rparr>)"

record jfn_rect =
  rect_x :: int
  rect_y :: int
  rect_w :: int
  rect_h :: int

definition clip_rect :: "jfn_rect \<Rightarrow> int \<Rightarrow> int \<Rightarrow> (int \<times> int \<times> int \<times> int) option" where
  "clip_rect r width height =
     (let rx = rect_x r; ry = rect_y r; rw = rect_w r; rh = rect_h r;
          (rx, rw) = (if rx < 0 then (0, wrap32 (rw + rx)) else (rx, rw));
          (ry, rh) = (if ry < 0 then (0, wrap32 (rh + ry)) else (ry, rh));
          rw = (if width < wrap32 (rx + rw) then wrap32 (width - rx) else rw);
          rh = (if height < wrap32 (ry + rh) then wrap32 (height - ry) else rh)
      in if rw \<le> 0 \<or> rh \<le> 0 then None else Some (rx, ry, rw, rh))"

text \<open>Half-open byte ranges. The casts from \<open>i32\<close> see non-negative values only.\<close>

definition row_ranges :: "int \<Rightarrow> int \<Rightarrow> int \<Rightarrow> int \<Rightarrow> int \<Rightarrow> int \<Rightarrow> (int \<times> int) \<times> (int \<times> int)" where
  "row_ranges rx ry row rw src_stride dst_stride =
     (let line = ry + row; column = rx * 4; row_bytes = rw * 4;
          src_off = line * src_stride + column; dst_off = line * dst_stride + column
      in ((src_off, src_off + row_bytes), (dst_off, dst_off + row_bytes)))"

definition next_buffer :: "64 word \<Rightarrow> 64 word" where
  "next_buffer idx = xor idx 1"

definition image_depth :: "int option \<Rightarrow> int" where
  "image_depth d = (case d of None \<Rightarrow> 32 | Some d \<Rightarrow> d)"

definition degrade_to_shm_on_gpu_init_failure :: "bool \<Rightarrow> bool" where
  "degrade_to_shm_on_gpu_init_failure frame_is_shared = (\<not> frame_is_shared)"

section \<open>Stacking order\<close>

lemma append_missing_set: "set (append_missing order xs) = set order \<union> set xs"
  by (induction order xs rule: append_missing.induct) auto

lemma append_missing_prefix: "prefix order (append_missing order xs)"
  by (induction order xs rule: append_missing.induct) (auto split: if_splits dest: append_prefixD)

lemma append_missing_distinct: "distinct order \<Longrightarrow> distinct (append_missing order xs)"
  by (induction order xs rule: append_missing.induct) simp_all

section \<open>Clipping\<close>

fun in_box :: "int \<times> int \<times> int \<times> int \<Rightarrow> int \<Rightarrow> int \<Rightarrow> bool" where
  "in_box (x, y, w, h) px py \<longleftrightarrow> x \<le> px \<and> px < x + w \<and> y \<le> py \<and> py < y + h"

text \<open>Both axes are clipped alike.\<close>

definition clip_axis :: "int \<Rightarrow> int \<Rightarrow> int \<Rightarrow> int \<times> int" where
  "clip_axis x w n =
     (let (x, w) = (if x < 0 then (0, wrap32 (w + x)) else (x, w))
      in (x, if n < wrap32 (x + w) then wrap32 (n - x) else w))"

lemma clip_rect_axes:
  "clip_rect r width height =
     (case (clip_axis (rect_x r) (rect_w r) width, clip_axis (rect_y r) (rect_h r) height) of
        ((x, w), (y, h)) \<Rightarrow> if w \<le> 0 \<or> h \<le> 0 then None else Some (x, y, w, h))"
  by (simp add: clip_rect_def clip_axis_def Let_def)

definition small_coord :: "int \<Rightarrow> bool" where
  "small_coord i \<longleftrightarrow> - 1073741824 \<le> i \<and> i \<le> 1073741823"

lemma clip_axis_sound:
  assumes "small_coord x" "small_coord w" "0 < n" "n \<le> i32_max" "clip_axis x w n = (x', w')"
  shows "0 \<le> x' \<and> x' + w' \<le> n \<and> (\<forall>p. x' \<le> p \<and> p < x' + w' \<longleftrightarrow> x \<le> p \<and> p < x + w \<and> 0 \<le> p \<and> p < n)"
proof (cases "x < 0")
  case True
  then have "wrap32 (w + x) = w + x" using assms by (intro wrap32_id) (simp_all add: small_coord_def)
  moreover have "wrap32 (n - 0) = n" using assms by (simp add: wrap32_id)
  ultimately show ?thesis using True assms by (auto simp: clip_axis_def split: if_splits)
next
  case False
  then have "wrap32 (x + w) = x + w" using assms by (intro wrap32_id) (simp_all add: small_coord_def)
  moreover have "wrap32 (n - x) = n - x"
    using False assms by (intro wrap32_id) (simp_all add: small_coord_def)
  ultimately show ?thesis using False assms by (auto simp: clip_axis_def split: if_splits)
qed

definition small_rect :: "jfn_rect \<Rightarrow> bool" where
  "small_rect r \<longleftrightarrow> small_coord (rect_x r) \<and> small_coord (rect_y r) \<and>
     small_coord (rect_w r) \<and> small_coord (rect_h r)"

lemma clip_rect_sound:
  assumes "small_rect r" "0 < width" "width \<le> i32_max" "0 < height" "height \<le> i32_max"
  shows "(case clip_rect r width height of None \<Rightarrow> False | Some b \<Rightarrow> in_box b px py) \<longleftrightarrow>
      in_box (rect_x r, rect_y r, rect_w r, rect_h r) px py \<and> in_box (0, 0, width, height) px py"
    and "clip_rect r width height = Some (x, y, w, h) \<Longrightarrow>
      0 \<le> x \<and> 0 \<le> y \<and> 0 < w \<and> 0 < h \<and> x + w \<le> width \<and> y + h \<le> height"
proof -
  obtain x' w' where X: "clip_axis (rect_x r) (rect_w r) width = (x', w')" by fastforce
  obtain y' h' where Y: "clip_axis (rect_y r) (rect_h r) height = (y', h')" by fastforce
  have sx: "0 \<le> x' \<and> x' + w' \<le> width \<and>
      (\<forall>p. x' \<le> p \<and> p < x' + w' \<longleftrightarrow> rect_x r \<le> p \<and> p < rect_x r + rect_w r \<and> 0 \<le> p \<and> p < width)"
    using assms by (intro clip_axis_sound [OF _ _ _ _ X]) (simp_all add: small_rect_def)
  have sy: "0 \<le> y' \<and> y' + h' \<le> height \<and>
      (\<forall>p. y' \<le> p \<and> p < y' + h' \<longleftrightarrow> rect_y r \<le> p \<and> p < rect_y r + rect_h r \<and> 0 \<le> p \<and> p < height)"
    using assms by (intro clip_axis_sound [OF _ _ _ _ Y]) (simp_all add: small_rect_def)
  show "(case clip_rect r width height of None \<Rightarrow> False | Some b \<Rightarrow> in_box b px py) \<longleftrightarrow>
      in_box (rect_x r, rect_y r, rect_w r, rect_h r) px py \<and> in_box (0, 0, width, height) px py"
  proof (cases "w' \<le> 0 \<or> h' \<le> 0")
    case True
    then have "clip_rect r width height = None" by (auto simp: clip_rect_axes X Y)
    moreover have "\<not> (x' \<le> px \<and> px < x' + w') \<or> \<not> (y' \<le> py \<and> py < y' + h')" using True by auto
    ultimately show ?thesis using sx sy by auto
  next
    case False
    then have "clip_rect r width height = Some (x', y', w', h')" by (simp add: clip_rect_axes X Y)
    then show ?thesis using sx sy by auto
  qed
  show "clip_rect r width height = Some (x, y, w, h) \<Longrightarrow>
      0 \<le> x \<and> 0 \<le> y \<and> 0 < w \<and> 0 < h \<and> x + w \<le> width \<and> y + h \<le> height"
    using sx sy by (simp add: clip_rect_axes X Y split: if_splits)
qed

section \<open>What a pending commit stands for\<close>

definition answers :: "resize_op list \<Rightarrow> int \<Rightarrow> 32 word \<Rightarrow> bool \<Rightarrow> bool" where
  "answers ops hi lo armed \<longleftrightarrow>
     (\<exists>pre mid. ops = pre @ Op_Latch hi lo # mid \<and> (\<forall>h l. Op_Latch h l \<notin> set mid) \<and>
        (armed \<longrightarrow> Op_Arm \<in> set mid))"

lemma answers_latch: "answers (ops @ [Op_Latch hi lo]) hi lo False"
  unfolding answers_def by (rule exI [of _ ops], rule exI [of _ "[]"]) simp

lemma answers_snoc:
  assumes "answers ops hi lo a" "\<forall>h l. op \<noteq> Op_Latch h l" "b \<longrightarrow> a \<or> op = Op_Arm"
  shows "answers (ops @ [op]) hi lo b"
proof -
  from assms(1) obtain pre mid where "ops = pre @ Op_Latch hi lo # mid"
    "\<forall>h l. Op_Latch h l \<notin> set mid" "a \<longrightarrow> Op_Arm \<in> set mid"
    unfolding answers_def by blast
  with assms(2,3) show ?thesis
    unfolding answers_def
    apply -
    apply (rule exI [of _ pre])
    apply (rule exI [of _ "mid @ [op]"])
    by auto
qed

definition justified :: "resize_op list \<Rightarrow> resize_sync \<Rightarrow> bool" where
  "justified ops s \<longleftrightarrow>
     (\<forall>hi lo. rs_pending s = Some (hi, lo) \<longrightarrow> rs_counter s \<noteq> 0 \<and> answers ops hi lo (rs_armed s))"

lemma rs_counter_step [simp]: "rs_counter (fst (resize_step s op)) = rs_counter s"
  by (cases op) (simp_all add: latch_def arm_def take_commit_def Let_def split_beta split: option.splits)

lemma rs_counter_run [simp]: "rs_counter (fst (run_steps resize_step s ops)) = rs_counter s"
  by (induction ops arbitrary: s) (simp_all add: run_steps_Cons_fst del: run_steps.simps(2))

lemma justified_step:
  assumes "justified ops s"
  shows "justified (ops @ [op]) (fst (resize_step s op))"
proof (cases op)
  case (Op_Latch hi lo)
  then show ?thesis
    using assms answers_latch [of ops hi lo] by (auto simp: justified_def latch_def)
next
  case Op_Arm
  with assms show ?thesis
    by (auto simp: justified_def arm_def intro: answers_snoc)
next
  case Op_Take
  then have "rs_pending (fst (resize_step s op)) = None \<or> fst (resize_step s op) = s"
    by (auto simp: take_commit_def Let_def split: option.splits)
  with assms Op_Take show ?thesis
    by (auto simp: justified_def intro: answers_snoc simp del: resize_step.simps)
qed

lemma justified_run: "justified pre s \<Longrightarrow> justified (pre @ ops) (fst (run_steps resize_step s ops))"
proof (induction ops arbitrary: pre s)
  case Nil
  then show ?case by simp
next
  case (Cons op ops)
  from Cons.IH [OF justified_step [OF Cons.prems, of op]] show ?case
    by (simp add: run_steps_Cons_fst del: run_steps.simps(2))
qed

section \<open>The properties\<close>

text \<open>
  A restack loses no overlay: the new order starts with the requested ids still owned,
  in the order asked, and contains exactly those and every overlay the caller left out;
  a request that names no id twice gives an order without duplicates.
\<close>

theorem merged_order_complete:
  "prefix (filter is_owned requested) (merged_order requested current is_owned) \<and>
   set (merged_order requested current is_owned) = {x \<in> set requested. is_owned x} \<union> set current \<and>
   distinct (merged_order (remdups requested) current is_owned)"
  by (auto simp: merged_order_def append_missing_prefix append_missing_set append_missing_distinct)

text \<open>
  Damage clipping is exact: a pixel is in the clipped rectangle exactly when it is in
  the damage and in the frame, and nothing is left exactly when no such pixel exists (for
  coordinates below 2^30 in magnitude).
\<close>

theorem clip_is_intersection:
  assumes "small_rect r" "0 < width" "width \<le> i32_max" "0 < height" "height \<le> i32_max"
  shows "(case clip_rect r width height of None \<Rightarrow> False | Some b \<Rightarrow> in_box b px py) =
    (in_box (rect_x r, rect_y r, rect_w r, rect_h r) px py \<and> in_box (0, 0, width, height) px py)"
  by (rule clip_rect_sound(1) [OF assms])

theorem clip_is_intersection_witness:
  "(case clip_rect \<lparr>rect_x = -5, rect_y = 10, rect_w = 20, rect_h = 100\<rparr> 640 50 of
      None \<Rightarrow> False | Some b \<Rightarrow> in_box b 14 49) = True"
proof -
  have "small_rect \<lparr>rect_x = -5, rect_y = 10, rect_w = 20, rect_h = 100\<rparr>"
    by (simp add: small_rect_def small_coord_def)
  from clip_is_intersection [OF this, of 640 50 14 49] show ?thesis by simp
qed

text \<open>
  The row copy never leaves its buffers: for a frame accepted by the validation and a
  damage rectangle that survives clipping, every row of it reads inside the bytes the frame
  occupies, which the producer's buffer covers, and writes inside a tightly packed segment.
\<close>

theorem row_copy_in_bounds:
  assumes "software_frame_of width height pixels_len = Some f" "width \<le> i32_max" "height \<le> i32_max"
    "small_rect r" "clip_rect r width height = Some (x, y, w, h)" "0 \<le> row" "row < h"
    "row_ranges x y row w (sf_stride f) (width * 4) = ((s0, s1), (d0, d1))"
  shows "0 \<le> s0 \<and> s0 < s1 \<and> s1 \<le> sf_len f \<and> sf_len f \<le> pixels_len \<and>
    0 \<le> d0 \<and> d0 < d1 \<and> d1 \<le> width * height * 4 \<and> s1 - s0 = d1 - d0"
proof -
  have f: "0 < width" "0 < height" "sf_stride f = width * 4" "sf_len f = height * (width * 4)"
    "sf_len f \<le> pixels_len"
    using assms(1,2) by (auto simp: software_frame_of_def Let_def split: if_splits)
  have c: "0 \<le> x" "0 \<le> y" "0 < w" "x + w \<le> width" "y + h \<le> height"
    using clip_rect_sound(2) [OF assms(4) f(1) assms(2) f(2) assms(3,5)] by blast+
  have rr: "s0 = (y + row) * (width * 4) + x * 4" "s1 = s0 + w * 4" "d0 = s0" "d1 = s1"
    using assms(8) by (auto simp: row_ranges_def f(3) Let_def)
  have line: "(y + row) * (width * 4) \<le> (height - 1) * (width * 4)"
    using c assms(7) f(1) by (intro mult_right_mono) auto
  have "s1 = (y + row) * (width * 4) + (x + w) * 4" using rr by simp
  also have "\<dots> \<le> (height - 1) * (width * 4) + width * 4" using c by (intro add_mono line) simp
  finally have "s1 \<le> height * (width * 4)" by (simp add: algebra_simps)
  moreover have "0 \<le> (y + row) * (width * 4)" using c assms(6) f(1) by simp
  ultimately show ?thesis using c rr f(4,5) by (simp add: algebra_simps)
qed

theorem row_copy_in_bounds_witness:
  "\<exists>f s0 s1 d0 d1. software_frame_of 64 48 20000 = Some f \<and>
     row_ranges 0 40 7 10 (sf_stride f) 256 = ((s0, s1), (d0, d1)) \<and> s1 \<le> sf_len f \<and> sf_len f \<le> 20000"
proof -
  let ?r = "\<lparr>rect_x = -6, rect_y = 40, rect_w = 16, rect_h = 90\<rparr>"
  obtain f where f: "software_frame_of 64 48 20000 = Some f" by (simp add: software_frame_of_def)
  have r: "small_rect ?r" by (simp add: small_rect_def small_coord_def)
  have c: "clip_rect ?r 64 48 = Some (0, 40, 10, 8)" by (simp add: clip_rect_def wrap32_def)
  obtain s0 s1 d0 d1 where rr: "row_ranges 0 40 7 10 (sf_stride f) (64 * 4) = ((s0, s1), (d0, d1))"
    by (metis surj_pair)
  from row_copy_in_bounds [OF f _ _ r c _ _ rr] have "s1 \<le> sf_len f \<and> sf_len f \<le> 20000" by simp
  with f rr show ?thesis by auto
qed

text \<open>
  The window manager is never told a resize is done before its configure arrived: a
  counter write answers the last value latched, after a parent configure that came later
  than the latch, only where the protocol was advertised, and never twice.
\<close>

theorem resize_commit_answers_configure:
  assumes "take_commit (fst (run_steps resize_step (new_resize_sync counter) ops)) = (s', Some (c, hi, lo))"
  shows "c = counter \<and> counter \<noteq> 0 \<and>
    (\<exists>pre mid. ops = pre @ Op_Latch hi lo # mid \<and> Op_Arm \<in> set mid \<and> (\<forall>h l. Op_Latch h l \<notin> set mid)) \<and>
    snd (take_commit (arm s')) = None"
proof -
  let ?s = "fst (run_steps resize_step (new_resize_sync counter) ops)"
  have c: "rs_counter ?s = counter" by (simp add: new_resize_sync_def)
  have j: "justified ops ?s"
    using justified_run [of "[]" "new_resize_sync counter" ops] by (simp add: justified_def new_resize_sync_def)
  from assms have t: "rs_armed ?s" "rs_pending ?s = Some (hi, lo)" "c = rs_counter ?s"
    "s' = ?s\<lparr>rs_pending := None, rs_armed := False\<rparr>"
    by (auto simp: take_commit_def split: if_splits option.splits)
  from t(4) have "snd (take_commit (arm s')) = None" by (simp add: take_commit_def arm_def)
  moreover from j t(1,2) have "rs_counter ?s \<noteq> 0 \<and> (\<exists>pre mid. ops = pre @ Op_Latch hi lo # mid \<and>
      (\<forall>h l. Op_Latch h l \<notin> set mid) \<and> Op_Arm \<in> set mid)"
    unfolding justified_def answers_def by blast
  ultimately show ?thesis using c t(3) by auto
qed

theorem resize_commit_answers_configure_witness:
  "\<exists>pre mid. [Op_Arm, Op_Latch 0 5, Op_Arm] = pre @ Op_Latch 0 5 # mid \<and> Op_Arm \<in> set mid"
proof -
  let ?s = "fst (run_steps resize_step (new_resize_sync 9) [Op_Arm, Op_Latch 0 5, Op_Arm])"
  have "take_commit ?s = (?s\<lparr>rs_pending := None, rs_armed := False\<rparr>, Some (9, 0, 5))"
    by (simp add: take_commit_def new_resize_sync_def latch_def arm_def)
  from resize_commit_answers_configure [OF this] show ?thesis by blast
qed

text \<open>
  A probed scale is one of mpv's half steps: whatever DPI the server reports, the scale
  is a half-integer between 1.5 and 9.5, represented exactly, or no opinion.
\<close>

theorem quantized_scale_is_half_step:
  "case quantize_dpi dpi of None \<Rightarrow> True
   | Some s \<Rightarrow> \<exists>k. 3 \<le> k \<and> k \<le> 19 \<and> f_is_finite s \<and> fval s = of_int k / 2"
proof (cases "quantize_dpi_steps dpi")
  case None
  then show ?thesis by (simp add: quantize_dpi_def)
next
  case (Some k)
  then have k: "3 \<le> k" "k \<le> 19"
    by (auto simp: quantize_dpi_steps_def Let_def split: if_splits)
  have n: "f_is_finite (f_of_int single k)" "fval (f_of_int single k) = of_int k"
    using k by (simp_all add: f_of_int_single)
  have "representable single (of_int k / 2)"
    using k by (intro representableI [of _ k "-1"]) (simp_all add: powr_minus_divide)
  with f_div_exact [of single "f_of_int single k" "Fin 2 0"] n
  have "f_is_finite (half_steps k) \<and> fval (half_steps k) = of_int k / 2"
    by (simp add: half_steps_def)
  with k Some show ?thesis by (auto simp: quantize_dpi_def)
qed

end
