(* ===== verification/Compositor.thy ===== *)
theory Compositor
  imports X11_Logic
begin

text \<open>
  Overlay placement and composition: the per-overlay state machine that tracks the parent
  window (\<open>x11/src/overlay_fsm.rs\<close>, executed by \<open>apply_overlay_effects\<close> of
  \<open>x11/src/geometry.rs\<close>), the surface registry and the transition gate
  (\<open>compositor_core/src/stack.rs\<close>, \<open>transition.rs\<close>).
\<close>

section \<open>One overlay\<close>

record overlay_state =
  ov_mapped :: bool
  ov_unmanaged :: bool

definition new_mapped :: "bool \<Rightarrow> overlay_state" where
  "new_mapped fs = \<lparr>ov_mapped = True, ov_unmanaged = fs\<rparr>"

definition new_unmapped :: "bool \<Rightarrow> overlay_state" where
  "new_unmapped fs = \<lparr>ov_mapped = False, ov_unmanaged = fs\<rparr>"

record overlay_inputs =
  parent_geom :: geom
  parent_fullscreen :: bool
  want_visible :: bool
  observed :: "geom option"
  observed_mapped :: "bool option"

datatype overlay_effect = Set_Override_Redirect bool | Map_And_Raise | Unmap | Place

definition rect_differs :: "geom option \<Rightarrow> geom \<Rightarrow> bool" where
  "rect_differs obs g = (case obs of None \<Rightarrow> True | Some o' \<Rightarrow> o' \<noteq> g)"

definition overlay_step :: "overlay_state \<Rightarrow> overlay_inputs \<Rightarrow> overlay_state \<times> overlay_effect list" where
  "overlay_step st i =
     (let st = (if observed_mapped i = Some False then st\<lparr>ov_mapped := False\<rparr> else st);
          (st, flip) =
            (if ov_unmanaged st \<noteq> parent_fullscreen i
             then (st\<lparr>ov_unmanaged := parent_fullscreen i, ov_mapped := False\<rparr>,
                   [Set_Override_Redirect (parent_fullscreen i)])
             else (st, []))
      in if \<not> want_visible i
         then (if ov_mapped st then (st\<lparr>ov_mapped := False\<rparr>, flip @ [Unmap]) else (st, flip))
         else
           let (st, mapping, force) =
                 (if \<not> ov_mapped st then (st\<lparr>ov_mapped := True\<rparr>, [Map_And_Raise], True) else (st, [], False))
           in (st, flip @ mapping @
                 (if force \<or> rect_differs (observed i) (parent_geom i) then [Place] else [])))"

section \<open>The server window it drives\<close>

text \<open>
  What an effect requests of the X server, which carries requests out in order: the override-redirect
  flip unmaps first, and a window is at least one pixel wide and high. What the window manager makes of
  a request - refusing the map, another place - is a disturbance that may follow at once.
\<close>

record server_window =
  srv_mapped :: bool
  srv_override :: bool
  srv_geom :: geom

fun placed_rect :: "geom \<Rightarrow> geom" where
  "placed_rect (x, y, w, h) = (x, y, max 1 w, max 1 h)"

fun apply_effect :: "geom \<Rightarrow> overlay_effect \<Rightarrow> server_window \<Rightarrow> server_window" where
  "apply_effect g (Set_Override_Redirect b) w = w\<lparr>srv_mapped := False, srv_override := b\<rparr>"
| "apply_effect g Map_And_Raise w = w\<lparr>srv_mapped := True\<rparr>"
| "apply_effect g Unmap w = w\<lparr>srv_mapped := False\<rparr>"
| "apply_effect g Place w = w\<lparr>srv_geom := placed_rect g\<rparr>"

text \<open>A pass: observe the window, step, apply. Either sample may be missing.\<close>

definition observe :: "geom \<Rightarrow> bool \<Rightarrow> bool \<Rightarrow> bool \<Rightarrow> bool \<Rightarrow> server_window \<Rightarrow> overlay_inputs" where
  "observe g fs visible sampled map_known w =
     \<lparr>parent_geom = g, parent_fullscreen = fs, want_visible = visible,
      observed = (if sampled then Some (srv_geom w) else None),
      observed_mapped = (if map_known then Some (srv_mapped w) else None)\<rparr>"

definition overlay_pass :: "geom \<Rightarrow> bool \<Rightarrow> bool \<Rightarrow> bool \<Rightarrow> bool \<Rightarrow> overlay_state \<times> server_window
    \<Rightarrow> overlay_state \<times> server_window" where
  "overlay_pass g fs visible sampled map_known sw =
     (case sw of (st, w) \<Rightarrow>
        let (st', effs) = overlay_step st (observe g fs visible sampled map_known w)
        in (st', fold (apply_effect g) effs w))"

text \<open>
  Passes, whatever the parent is and whatever is sampled, and the window manager: it may move, resize
  and withdraw the window at any time, and map it again unless the program has withdrawn it.
\<close>

datatype overlay_event = Overlay_Pass geom bool bool bool bool | Disturbed bool geom

fun overlay_event_step :: "overlay_state \<times> server_window \<Rightarrow> overlay_event \<Rightarrow> overlay_state \<times> server_window" where
  "overlay_event_step sw (Overlay_Pass g fs visible sampled map_known) = overlay_pass g fs visible sampled map_known sw"
| "overlay_event_step (st, w) (Disturbed m r) = (st, w\<lparr>srv_mapped := (m \<and> ov_mapped st), srv_geom := r\<rparr>)"

definition overlay_born :: "bool \<Rightarrow> geom \<Rightarrow> overlay_state \<times> server_window" where
  "overlay_born fs r = (new_unmapped fs, \<lparr>srv_mapped = False, srv_override = fs, srv_geom = r\<rparr>)"

text \<open>What the belief and the window keep in common through all of it.\<close>

definition tracks :: "overlay_state \<Rightarrow> server_window \<Rightarrow> bool" where
  "tracks st w \<longleftrightarrow> ov_unmanaged st = srv_override w \<and> (srv_mapped w \<longrightarrow> ov_mapped st)"

definition as_wanted :: "geom \<Rightarrow> bool \<Rightarrow> bool \<Rightarrow> server_window \<Rightarrow> bool" where
  "as_wanted g fs visible w \<longleftrightarrow> srv_override w = fs \<and> srv_mapped w = visible \<and> (visible \<longrightarrow> srv_geom w = placed_rect g)"

lemma overlay_pass_tracks:
  "tracks st w \<Longrightarrow> tracks (fst (overlay_pass g fs visible sampled map_known (st, w)))
     (snd (overlay_pass g fs visible sampled map_known (st, w)))"
  by (auto simp: tracks_def overlay_pass_def observe_def overlay_step_def Let_def split: if_splits)

lemma overlay_events_track:
  "tracks (fst sw) (snd sw) \<Longrightarrow>
   tracks (fst (foldl overlay_event_step sw es)) (snd (foldl overlay_event_step sw es))"
proof (induction es arbitrary: sw)
  case (Cons e es)
  obtain st w where "sw = (st, w)" by fastforce
  then have "tracks (fst (overlay_event_step sw e)) (snd (overlay_event_step sw e))"
    using Cons.prems overlay_pass_tracks [of st w] by (cases e) (simp_all add: tracks_def)
  then show ?case using Cons.IH by simp
qed simp

definition one_pixel :: "geom \<Rightarrow> bool" where
  "one_pixel g \<longleftrightarrow> placed_rect g = g"

lemma overlay_pass_converges:
  assumes "tracks st w" "one_pixel g"
  shows "as_wanted g fs visible (snd (overlay_pass g fs visible sampled True (st, w)))"
    and "ov_mapped (fst (overlay_pass g fs visible sampled True (st, w))) = visible"
    and "ov_unmanaged (fst (overlay_pass g fs visible sampled True (st, w))) = fs"
  using assms
  by (auto simp: tracks_def as_wanted_def overlay_pass_def observe_def overlay_step_def one_pixel_def
      rect_differs_def Let_def split: if_splits)

lemma overlay_step_quiet:
  assumes "as_wanted g fs visible w" "ov_unmanaged st = fs" "ov_mapped st = visible" "one_pixel g"
  shows "overlay_step st (observe g fs visible True map_known w) = (st, [])"
  using assms
  by (cases st) (auto simp: as_wanted_def observe_def overlay_step_def rect_differs_def one_pixel_def Let_def)

text \<open>A pass that cannot ask for the map state trusts its belief: a withdrawn window stays withdrawn.\<close>

lemma unknown_map_state_is_trusted:
  "srv_mapped (snd (foldl overlay_event_step (overlay_born False r)
     [Overlay_Pass g False True True True, Disturbed False g, Overlay_Pass g False True True False])) = False"
  by (cases g) (simp add: overlay_born_def overlay_pass_def overlay_step_def observe_def new_unmapped_def rect_differs_def)

section \<open>The surface registry\<close>

record 'a surface_stack =
  live :: "'a list"
  stack :: "'a list"
  main :: "'a option"

definition new_stack :: "'a surface_stack" where
  "new_stack = \<lparr>live = [], stack = [], main = None\<rparr>"

fun first :: "'a list \<Rightarrow> 'a option" where
  "first [] = None"
| "first (x # xs) = Some x"

definition register :: "'a \<Rightarrow> 'a surface_stack \<Rightarrow> 'a surface_stack" where
  "register h s = s\<lparr>live := live s @ [h]\<rparr>"

definition deregister :: "'a \<Rightarrow> 'a surface_stack \<Rightarrow> 'a surface_stack" where
  "deregister h s =
     (let s = s\<lparr>live := filter (\<lambda>x. x \<noteq> h) (live s), stack := filter (\<lambda>x. x \<noteq> h) (stack s)\<rparr>
      in if main s = Some h then s\<lparr>main := first (stack s)\<rparr> else s)"

definition replace_stack :: "'a list \<Rightarrow> 'a surface_stack \<Rightarrow> 'a surface_stack" where
  "replace_stack ordered s = s\<lparr>stack := ordered, main := first ordered\<rparr>"

definition is_main :: "'a \<Rightarrow> 'a surface_stack \<Rightarrow> bool" where
  "is_main h s = (main s = Some h)"

definition take_stack :: "'a surface_stack \<Rightarrow> 'a surface_stack \<times> 'a list" where
  "take_stack s = (s\<lparr>main := None, stack := []\<rparr>, stack s)"

datatype 'a stack_op = Register 'a | Deregister 'a | Replace_Stack "'a list" | Take_Stack

fun stack_step :: "'a surface_stack \<Rightarrow> 'a stack_op \<Rightarrow> 'a surface_stack \<times> 'a list" where
  "stack_step s (Register h) = (register h s, [])"
| "stack_step s (Deregister h) = (deregister h s, [])"
| "stack_step s (Replace_Stack hs) = (replace_stack hs s, [])"
| "stack_step s Take_Stack = take_stack s"

definition stack_ok :: "'a surface_stack \<Rightarrow> bool" where
  "stack_ok s \<longleftrightarrow> main s = first (stack s)"

lemma first_filter: "first xs \<noteq> Some h \<Longrightarrow> first (filter (\<lambda>x. x \<noteq> h) xs) = first xs"
  by (cases xs) simp_all

lemma stack_ok_step: "stack_ok s \<Longrightarrow> stack_ok (fst (stack_step s op))"
  by (cases op) (auto simp: stack_ok_def register_def deregister_def replace_stack_def take_stack_def
      first_filter Let_def)

interpretation stm: machine stack_step new_stack stack_ok "\<lambda>_. True"
  by unfold_locales (simp_all add: stack_ok_step, simp add: stack_ok_def new_stack_def)

section \<open>The transition gate\<close>

datatype present_decision = Reject | End_Transition_Then_Present | Present

record transition_gate =
  in_transition :: bool
  expected :: "(int \<times> int) option"
  captured :: "(int \<times> int) option"

definition new_gate :: transition_gate where
  "new_gate = \<lparr>in_transition = False, expected = None, captured = None\<rparr>"

definition gate_begin :: "transition_gate \<Rightarrow> transition_gate" where
  "gate_begin g = g\<lparr>in_transition := True\<rparr>"

definition begin_capturing :: "int \<times> int \<Rightarrow> transition_gate \<Rightarrow> transition_gate" where
  "begin_capturing c g = g\<lparr>in_transition := True, captured := Some c\<rparr>"

definition gate_end :: "transition_gate \<Rightarrow> transition_gate" where
  "gate_end g = g\<lparr>in_transition := False, expected := None, captured := None\<rparr>"

definition set_expected :: "int \<times> int \<Rightarrow> transition_gate \<Rightarrow> transition_gate" where
  "set_expected sz g =
     (if in_transition g \<and> captured g = Some sz then g else g\<lparr>expected := Some sz\<rparr>)"

definition note_present_size :: "int \<times> int \<Rightarrow> transition_gate \<Rightarrow> transition_gate \<times> bool" where
  "note_present_size sz g =
     (case expected g of
        Some e \<Rightarrow> if 0 < fst e \<and> e = sz then (g\<lparr>expected := None, in_transition := False\<rparr>, True) else (g, False)
      | None \<Rightarrow> (g, False))"

definition main_present_decision :: "transition_gate \<Rightarrow> int \<times> int \<Rightarrow> transition_gate \<times> present_decision list" where
  "main_present_decision g frame =
     (if \<not> in_transition g then (g, [Present])
      else if fst frame \<le> 0 \<or> snd frame \<le> 0 \<or> captured g = Some frame then (g, [Reject])
      else (gate_end g, [End_Transition_Then_Present]))"

text \<open>A frame the gate holds back: degenerate, or of the size being left.\<close>

definition stale :: "int \<times> int \<Rightarrow> int \<times> int \<Rightarrow> bool" where
  "stale c frame \<longleftrightarrow> fst frame \<le> 0 \<or> snd frame \<le> 0 \<or> c = frame"

lemma presents_when_open:
  "\<not> in_transition g \<Longrightarrow> snd (run_steps main_present_decision g frames) = map (\<lambda>_. Present) frames"
  by (induction frames) (simp_all add: main_present_decision_def split_beta)

lemma gate_run:
  "in_transition g \<Longrightarrow> captured g = Some c \<Longrightarrow>
     snd (run_steps main_present_decision g frames) =
       map (\<lambda>_. Reject) (takeWhile (stale c) frames) @
       (case dropWhile (stale c) frames of [] \<Rightarrow> []
        | f # fs \<Rightarrow> End_Transition_Then_Present # map (\<lambda>_. Present) fs)"
proof (induction frames)
  case Nil
  then show ?case by simp
next
  case (Cons f fs)
  show ?case
  proof (cases "stale c f")
    case True
    with Cons show ?thesis by (auto simp: main_present_decision_def stale_def Let_def split_beta)
  next
    case False
    then have "main_present_decision g f = (gate_end g, [End_Transition_Then_Present])"
      using Cons.prems by (auto simp: main_present_decision_def stale_def)
    moreover have "\<not> in_transition (gate_end g)" by (simp add: gate_end_def)
    ultimately show ?thesis
      using False presents_when_open [of "gate_end g" fs] by (simp add: Let_def split_beta)
  qed
qed

section \<open>The properties\<close>


definition overlay_history :: "overlay_event list" where
  "overlay_history =
     [Overlay_Pass (5, 5, 800, 600) False True False True, Overlay_Pass (0, 0, 1920, 1080) True True True True,
      Disturbed False (5, 5, 800, 600)]"


text \<open>
  The registry's main surface is always the bottom of its stacking order, whatever
  surfaces are registered, dropped, restacked or drained.
\<close>

theorem main_is_bottom:
  "main (fst (run_steps stack_step new_stack ops)) = first (stack (fst (run_steps stack_step new_stack ops)))"
  using stm.reach_inv [of ops] by (simp add: stack_ok_def)

text \<open>
  A resize transition never strands the picture: after a capture, the frames still of
  the old size (and degenerate ones) are dropped, the first other frame ends the transition
  and is presented, and every later one is presented.
\<close>

theorem transition_ends_at_first_new_size:
  "snd (run_steps main_present_decision (begin_capturing c g) frames) =
     map (\<lambda>_. Reject) (takeWhile (stale c) frames) @
     (case dropWhile (stale c) frames of [] \<Rightarrow> []
      | f # fs \<Rightarrow> End_Transition_Then_Present # map (\<lambda>_. Present) fs)"
  by (rule gate_run) (simp_all add: begin_capturing_def)

end
