(* ===== verification/Input_Gates.thy ===== *)
theory Input_Gates
  imports Ieee
begin

text \<open>
  Small deciders between the user, the page and the player: the scroll accumulator
  (\<open>input/src/scroll.rs\<close>), the click counter (\<open>input/src/click_count.rs\<close>), the listener's
  policy (\<open>instance_ipc/src/policy.rs\<close>), the command rate gate (\<open>jfn_cef/src/rate_gate.rs\<close>)
  and menu ownership (\<open>jfn_cef/src/menu_ownership.rs\<close>). Clock readings are arguments.
\<close>

section \<open>Scrolling\<close>

definition PIXELS_PER_TICK :: f32 where "PIXELS_PER_TICK = Fin 40 0"
definition DRAIN :: f32 where "DRAIN = round_frac single False 45 100"

record scroll_flush =
  sfl_x :: int
  sfl_y :: int
  sfl_dx :: int
  sfl_dy :: int
  sfl_mods :: "32 word"
  sfl_precise :: bool

record scroll_accum =
  sa_ax :: f32
  sa_ay :: f32
  sa_x :: int
  sa_y :: int
  sa_mods :: "32 word"
  sa_precise :: bool
  sa_pending :: bool
  sa_flush_scheduled :: bool

definition new_scroll :: scroll_accum where
  "new_scroll = \<lparr>sa_ax = Fin 0 0, sa_ay = Fin 0 0, sa_x = 0, sa_y = 0, sa_mods = 0,
     sa_precise = False, sa_pending = False, sa_flush_scheduled = False\<rparr>"

definition accumulate :: "int \<Rightarrow> int \<Rightarrow> 32 word \<Rightarrow> bool \<Rightarrow> f32 \<Rightarrow> f32 \<Rightarrow> scroll_accum \<Rightarrow> scroll_accum \<times> bool" where
  "accumulate x y mods precise dx dy s =
     (let (ax, ay) =
        (if precise then (f_add single (sa_ax s) dx, f_add single (sa_ay s) dy)
         else (f_add single (sa_ax s) (f_mul single dx PIXELS_PER_TICK),
               f_add single (sa_ay s) (f_mul single dy PIXELS_PER_TICK)))
      in (s\<lparr>sa_x := x, sa_y := y, sa_mods := mods, sa_precise := precise, sa_ax := ax, sa_ay := ay,
            sa_pending := True, sa_flush_scheduled := True\<rparr>,
          \<not> sa_flush_scheduled s))"

text \<open>One axis of the smoothed drain: the chunk and the remainder.\<close>

definition drain_axis :: "f32 \<Rightarrow> int \<times> f32" where
  "drain_axis a =
     (let d = f_to_i32 (f_round (f_mul single a DRAIN));
          d = (if d = 0 \<and> f_le (Fin 1 0) (f_abs a) then if f_lt (Fin 0 0) a then 1 else -1 else d);
          r = f_sub single a (f_of_int single d)
      in (d, if f_lt (f_abs r) (Fin 1 (-1)) then Fin 0 0 else r))"

definition precise_axis :: "f32 \<Rightarrow> int \<times> f32" where
  "precise_axis a = (let d = f_to_i32 (f_round a) in (d, f_sub single a (f_of_int single d)))"

definition flush :: "scroll_accum \<Rightarrow> scroll_accum \<times> scroll_flush option" where
  "flush s =
     (let s = s\<lparr>sa_flush_scheduled := False\<rparr>
      in if \<not> sa_pending s then (s, None)
         else
           let axis = (if sa_precise s then precise_axis else drain_axis);
               (dx, ax) = axis (sa_ax s); (dy, ay) = axis (sa_ay s);
               s = s\<lparr>sa_ax := ax, sa_ay := ay,
                     sa_pending := \<not> f_eq ax (Fin 0 0) \<or> \<not> f_eq ay (Fin 0 0)\<rparr>
           in (s, if dx = 0 \<and> dy = 0 then None
                  else Some \<lparr>sfl_x = sa_x s, sfl_y = sa_y s, sfl_dx = dx, sfl_dy = dy,
                             sfl_mods = sa_mods s, sfl_precise = sa_precise s\<rparr>))"

text \<open>
  A platform that schedules one drain for every call that asks for one, and runs the
  drains it has scheduled: the second component counts those still to run.
\<close>

inductive scroll_run :: "scroll_accum \<Rightarrow> nat \<Rightarrow> bool" where
  scroll_init: "scroll_run new_scroll 0"
| scroll_event: "scroll_run s n \<Longrightarrow> accumulate x y mods precise dx dy s = (s', asked) \<Longrightarrow>
     scroll_run s' (if asked then Suc n else n)"
| scroll_drain: "scroll_run s (Suc n) \<Longrightarrow> flush s = (s', chunk) \<Longrightarrow> scroll_run s' n"

lemma flush_latch: "flush s = (s', chunk) \<Longrightarrow> \<not> sa_flush_scheduled s'"
  by (auto simp: flush_def split_beta Let_def split: if_splits)

lemma scroll_latch: "scroll_run s n \<Longrightarrow> n = (if sa_flush_scheduled s then 1 else 0)"
proof (induction rule: scroll_run.induct)
  case scroll_init
  then show ?case by (simp add: new_scroll_def)
next
  case (scroll_event s n x y mods precise dx dy s' asked)
  then show ?case by (auto simp: accumulate_def split_beta Let_def)
next
  case (scroll_drain s n s' chunk)
  then show ?case using flush_latch [of s s' chunk] by (simp split: if_splits)
qed

section \<open>Clicks\<close>

definition DOUBLE_CLICK_MS :: int where "DOUBLE_CLICK_MS = 500"
definition SLOP_PX :: int where "SLOP_PX = 4"
definition MAX_CLICKS :: int where "MAX_CLICKS = 3"

record press =
  pr_button :: int
  pr_x :: int
  pr_y :: int
  pr_at_ms :: int
  pr_count :: int

text \<open>A press as it arrives: button, position, time.\<close>

type_synonym click = "int \<times> int \<times> int \<times> int"

definition press_step :: "press option \<Rightarrow> click \<Rightarrow> press option \<times> int list" where
  "press_step l c =
     (case c of (button, x, y, now) \<Rightarrow>
        let count = (case l of
              Some p \<Rightarrow>
                if pr_button p = button \<and> sat_sub_u now (pr_at_ms p) < DOUBLE_CLICK_MS \<and>
                   \<bar>x - pr_x p\<bar> \<le> SLOP_PX \<and> \<bar>y - pr_y p\<bar> \<le> SLOP_PX
                then min (pr_count p + 1) MAX_CLICKS else 1
            | None \<Rightarrow> 1)
        in (Some \<lparr>pr_button = button, pr_x = x, pr_y = y, pr_at_ms = now, pr_count = count\<rparr>, [count]))"

definition last_count :: "press option \<Rightarrow> int" where
  "last_count l = (case l of None \<Rightarrow> 1 | Some p \<Rightarrow> pr_count p)"

text \<open>The rule, without a counter: how many presses in a row each repeat the one before.\<close>

fun repeats :: "click \<Rightarrow> click \<Rightarrow> bool" where
  "repeats (b, x, y, t) (b', x', y', t') \<longleftrightarrow>
     b' = b \<and> sat_sub_u t' t < DOUBLE_CLICK_MS \<and> \<bar>x' - x\<bar> \<le> SLOP_PX \<and> \<bar>y' - y\<bar> \<le> SLOP_PX"

fun chain :: "click list \<Rightarrow> int" where
  "chain [] = 0"
| "chain [c] = 1"
| "chain (c # d # cs) = (if repeats d c then 1 + chain (d # cs) else 1)"

definition counts :: "click list \<Rightarrow> press option \<Rightarrow> bool" where
  "counts hist l \<longleftrightarrow>
     (case hist of [] \<Rightarrow> l = None
      | (b, x, y, t) # _ \<Rightarrow>
          l = Some \<lparr>pr_button = b, pr_x = x, pr_y = y, pr_at_ms = t, pr_count = min (chain hist) MAX_CLICKS\<rparr>)"

lemma chain_pos: "cs \<noteq> [] \<Longrightarrow> 1 \<le> chain cs"
  by (induction cs rule: chain.induct) auto

lemma press_step_counts:
  assumes "counts hist l"
  shows "counts (c # hist) (fst (press_step l c)) \<and>
    snd (press_step l c) = [min (chain (c # hist)) MAX_CLICKS]"
proof -
  obtain b x y t where c: "c = (b, x, y, t)" by (metis prod_cases4)
  show ?thesis
  proof (cases hist)
    case Nil
    with assms show ?thesis by (simp add: counts_def press_step_def c MAX_CLICKS_def)
  next
    case (Cons d ds)
    obtain b' x' y' t' where d: "d = (b', x', y', t')" by (metis prod_cases4)
    have "1 \<le> chain (d # ds)" by (simp add: chain_pos)
    with assms show ?thesis
      by (auto simp: counts_def press_step_def c d Cons MAX_CLICKS_def Let_def)
  qed
qed

lemma press_run:
  "counts hist l \<Longrightarrow>
     snd (run_steps press_step l cs) =
       map (\<lambda>i. min (chain (rev (take (Suc i) cs) @ hist)) MAX_CLICKS) [0..<length cs]"
proof (induction cs arbitrary: hist l)
  case Nil
  then show ?case by simp
next
  case (Cons c cs)
  have "map (\<lambda>i. min (chain (rev (take (Suc i) (c # cs)) @ hist)) MAX_CLICKS) [0..<length (c # cs)] =
      min (chain (c # hist)) MAX_CLICKS #
      map (\<lambda>i. min (chain (rev (take (Suc i) cs) @ c # hist)) MAX_CLICKS) [0..<length cs]"
    by (simp add: upt_conv_Cons map_Suc_upt [symmetric] del: upt_Suc)
  with Cons.IH [of "c # hist"] press_step_counts [OF Cons.prems, of c] show ?case
    by (simp add: run_steps_Cons_snd del: run_steps.simps(2))
qed

section \<open>The listener's policy\<close>

text \<open>Durations in milliseconds.\<close>

definition BACKOFF_MIN :: int where "BACKOFF_MIN = 10"
definition BACKOFF_MAX :: int where "BACKOFF_MAX = 1000"
definition MAX_CONNECTIONS :: int where "MAX_CONNECTIONS = 8"
definition REBIND_RETRIES :: int where "REBIND_RETRIES = 5"
definition REBIND_DELAY :: int where "REBIND_DELAY = 50"

definition new_backoff :: int where
  "new_backoff = BACKOFF_MIN"

definition next_delay :: "int \<Rightarrow> int \<times> int" where
  "next_delay b = (min (b * 2) BACKOFF_MAX, b)"

definition backoff_reset :: "int \<Rightarrow> int" where
  "backoff_reset b = BACKOFF_MIN"

datatype accept_result = Accept_Ok | Accept_Failed

text \<open>The waits of the accept loop on a sequence of results.\<close>

fun backoff_step :: "int \<Rightarrow> accept_result \<Rightarrow> int \<times> int list" where
  "backoff_step b Accept_Ok = (backoff_reset b, [])"
| "backoff_step b Accept_Failed = (let (b', d) = next_delay b in (b', [d]))"

definition has_capacity :: "int \<Rightarrow> bool" where
  "has_capacity active = (active < MAX_CONNECTIONS)"

datatype error_kind = Connection_Refused | Not_Found | Other_Error

definition probe_is_stale :: "error_kind \<Rightarrow> bool" where
  "probe_is_stale k = (k = Connection_Refused \<or> k = Not_Found)"

definition rebind_delay :: "int \<Rightarrow> int option" where
  "rebind_delay done = (if done < REBIND_RETRIES then Some REBIND_DELAY else None)"

lemma backoff_streak:
  "0 < b \<Longrightarrow> b \<le> BACKOFF_MAX \<Longrightarrow>
     snd (run_steps backoff_step b (replicate n Accept_Failed)) = map (\<lambda>i. min (b * 2 ^ i) BACKOFF_MAX) [0..<n]"
proof (induction n arbitrary: b)
  case 0
  then show ?case by simp
next
  case (Suc n)
  let ?b = "min (b * 2) BACKOFF_MAX"
  have "min (?b * 2 ^ i) BACKOFF_MAX = min (b * 2 ^ Suc i) BACKOFF_MAX" for i
  proof (cases "b * 2 \<le> BACKOFF_MAX")
    case True
    then show ?thesis by (simp add: mult.assoc)
  next
    case False
    have one: "BACKOFF_MAX * 1 \<le> BACKOFF_MAX * 2 ^ i" by (intro mult_left_mono) (simp_all add: BACKOFF_MAX_def)
    have two: "BACKOFF_MAX * 2 ^ i \<le> b * 2 * 2 ^ i" using False by (intro mult_right_mono) simp_all
    have "BACKOFF_MAX \<le> b * 2 * 2 ^ i" using one two by linarith
    moreover have "?b = BACKOFF_MAX" using False by simp
    ultimately have "BACKOFF_MAX \<le> b * 2 ^ Suc i" "BACKOFF_MAX \<le> ?b * 2 ^ i"
      using one by (simp_all only: power_Suc mult.assoc mult_1_right)
    then show ?thesis by (simp add: min_absorb2)
  qed
  moreover have "map (\<lambda>i. min (b * 2 ^ i) BACKOFF_MAX) [0..<Suc n] =
      b # map (\<lambda>i. min (b * 2 ^ Suc i) BACKOFF_MAX) [0..<n]"
    using Suc.prems(2) by (simp add: upt_conv_Cons map_Suc_upt [symmetric] del: upt_Suc)
  moreover have "snd (run_steps backoff_step ?b (replicate n Accept_Failed)) =
      map (\<lambda>i. min (?b * 2 ^ i) BACKOFF_MAX) [0..<n]"
    using Suc.prems by (intro Suc.IH) (simp_all add: BACKOFF_MAX_def)
  ultimately show ?case
    by (simp add: run_steps_Cons_snd next_delay_def del: run_steps.simps(2))
qed

section \<open>The rate gate\<close>

definition COMMAND_MIN_INTERVAL_MS :: int where "COMMAND_MIN_INTERVAL_MS = 250"

record rate_gate =
  rg_window :: int
  rg_last :: "int option"

definition new_rate_gate :: "int \<Rightarrow> rate_gate" where
  "new_rate_gate w = \<lparr>rg_window = w, rg_last = None\<rparr>"

definition rate_accept :: "rate_gate \<Rightarrow> int \<Rightarrow> rate_gate \<times> bool list" where
  "rate_accept g now =
     (let allowed = (case rg_last g of None \<Rightarrow> True | Some l \<Rightarrow> sat_add_u64 l (rg_window g) \<le> now)
      in (if allowed then g\<lparr>rg_last := Some now\<rparr> else g, [allowed]))"

text \<open>The readings that were accepted, and the last one before each reading.\<close>

definition accepted_at :: "int list \<Rightarrow> bool list \<Rightarrow> int list" where
  "accepted_at nows oks = map fst (filter snd (zip nows oks))"

fun greedy :: "int \<Rightarrow> int option \<Rightarrow> int list \<Rightarrow> bool list \<Rightarrow> bool" where
  "greedy w l (t # ts) (ok # oks) \<longleftrightarrow>
     (ok \<longleftrightarrow> (case l of None \<Rightarrow> True | Some l \<Rightarrow> l + w \<le> t)) \<and>
     greedy w (if ok then Some t else l) ts oks"
| "greedy w l [] [] \<longleftrightarrow> True"
| "greedy w l _ _ \<longleftrightarrow> False"

lemma rate_run:
  "\<forall>t\<in>set nows. t < u64_max \<Longrightarrow>
     greedy (rg_window g) (rg_last g) nows (snd (run_steps rate_accept g nows))"
proof (induction nows arbitrary: g)
  case Nil
  then show ?case by simp
next
  case (Cons t ts)
  have "sat_add_u64 l (rg_window g) \<le> t \<longleftrightarrow> l + rg_window g \<le> t" for l
    using Cons.prems by (auto simp: sat_add_u64_def)
  with Cons.IH [of "fst (rate_accept g t)"] Cons.prems show ?case
    by (auto simp: run_steps_Cons_snd rate_accept_def Let_def simp del: run_steps.simps(2) split: option.splits)
qed

lemma greedy_spaced:
  "greedy w l ts oks \<Longrightarrow> spaced_by w l (accepted_at ts oks)"
  by (induction w l ts oks rule: greedy.induct) (auto simp: accepted_at_def)

section \<open>Menu ownership\<close>

text \<open>The handle is the key the slot map returns for the new session.\<close>

record 'h menu_ownership =
  mo_sessions :: "'h set"
  mo_current :: "'h option"

definition new_menu :: "'h menu_ownership" where
  "new_menu = \<lparr>mo_sessions = {}, mo_current = None\<rparr>"

definition menu_open :: "'h \<Rightarrow> 'h menu_ownership \<Rightarrow> 'h menu_ownership \<times> 'h option" where
  "menu_open key m =
     (if mo_current m \<noteq> None then (m, None)
      else (m\<lparr>mo_sessions := insert key (mo_sessions m), mo_current := Some key\<rparr>, Some key))"

definition menu_resolve :: "'h \<Rightarrow> 'h menu_ownership \<Rightarrow> 'h menu_ownership \<times> bool" where
  "menu_resolve key m =
     (if mo_current m \<noteq> Some key then (m, False)
      else (m\<lparr>mo_current := None, mo_sessions := mo_sessions m - {key}\<rparr>, True))"

definition menu_reset :: "'h menu_ownership \<Rightarrow> 'h menu_ownership" where
  "menu_reset m = m\<lparr>mo_current := None, mo_sessions := {}\<rparr>"

datatype 'h menu_op = Menu_Open 'h | Menu_Resolve 'h | Menu_Reset

fun menu_step :: "'h menu_ownership \<Rightarrow> 'h menu_op \<Rightarrow> 'h menu_ownership \<times> 'h list" where
  "menu_step m (Menu_Open key) = (fst (menu_open key m), [])"
| "menu_step m (Menu_Resolve key) = (let (m', ok) = menu_resolve key m in (m', if ok then [key] else []))"
| "menu_step m Menu_Reset = (menu_reset m, [])"

definition menu_ok :: "'h menu_ownership \<Rightarrow> bool" where
  "menu_ok m \<longleftrightarrow> mo_sessions m = set_option (mo_current m)"

interpretation mom: machine menu_step new_menu menu_ok "\<lambda>_. True"
proof
  show "menu_ok new_menu" by (simp add: menu_ok_def new_menu_def)
  show "menu_ok (fst (menu_step m op))" if "menu_ok m" for m op
    using that by (cases op) (auto simp: menu_ok_def menu_open_def menu_resolve_def menu_reset_def Let_def)
qed simp

section \<open>The properties\<close>

text \<open>
  At most one drain is ever scheduled: a platform that schedules one for each event
  that asks, and runs what it scheduled, has exactly one outstanding while the latch is
  set and none otherwise, whatever the deltas.
\<close>

theorem scroll_drains_single:
  assumes "scroll_run s n"
  shows "n = (if sa_flush_scheduled s then 1 else 0)"
  by (rule scroll_latch [OF assms])

theorem scroll_drains_single_witness:
  "scroll_run (fst (accumulate 1 2 0 True (Fin 3 0) (Fin 0 0) new_scroll)) 1 \<and>
   sa_flush_scheduled (fst (accumulate 1 2 0 True (Fin 3 0) (Fin 0 0) new_scroll))"
proof -
  let ?s = "fst (accumulate 1 2 0 True (Fin 3 0) (Fin 0 0) new_scroll)"
  have "accumulate 1 2 0 True (Fin 3 0) (Fin 0 0) new_scroll = (?s, True)"
    by (simp add: accumulate_def new_scroll_def Let_def)
  from scroll_event [OF scroll_init this] have r: "scroll_run ?s 1" by simp
  from r scroll_drains_single [OF r] show ?thesis by (simp split: if_splits)
qed

text \<open>
  The click counter counts what the rule says: for any sequence of presses, the count
  given for each is the number of presses in a row that repeat the one before (same button,
  within half a second, at most four pixels away on each axis), capped at three.
\<close>

theorem click_counts_streaks:
  "snd (run_steps press_step None cs) =
     map (\<lambda>i. min (chain (rev (take (Suc i) cs))) MAX_CLICKS) [0..<length cs]"
  using press_run [of "[]" None cs] by (simp add: counts_def)

text \<open>
  Accept failures back off exponentially: whatever came before, after a successful
  accept the i-th failure in a row waits ten milliseconds doubled i times, never more than
  a second.
\<close>

theorem backoff_doubles_and_caps:
  "snd (run_steps backoff_step b (Accept_Ok # replicate n Accept_Failed)) =
     map (\<lambda>i. min (BACKOFF_MIN * 2 ^ i) BACKOFF_MAX) [0..<n]"
  using backoff_streak [of BACKOFF_MIN n]
  by (simp add: run_steps_Cons_snd backoff_reset_def BACKOFF_MIN_def BACKOFF_MAX_def del: run_steps.simps(2))

text \<open>
  The rate gate accepts greedily: a command is accepted exactly when the window has
  passed since the last accepted one, so accepted commands are a window apart and a
  rejected one never delays the next.
\<close>

theorem rate_gate_greedy:
  assumes "\<forall>t\<in>set nows. t < u64_max"
  shows "greedy w None nows (snd (run_steps rate_accept (new_rate_gate w) nows)) \<and>
    spaced_by w None (accepted_at nows (snd (run_steps rate_accept (new_rate_gate w) nows)))"
  using rate_run [OF assms, of "new_rate_gate w"] greedy_spaced by (auto simp: new_rate_gate_def)

theorem rate_gate_greedy_witness:
  "spaced_by 250 None (accepted_at [0, 100, 260, 400, 510]
     (snd (run_steps rate_accept (new_rate_gate 250) [0, 100, 260, 400, 510])))"
  using rate_gate_greedy [of "[0, 100, 260, 400, 510]" 250] by simp

text \<open>
  At most one menu session exists, and it is the current one: after any operations the
  sessions are exactly the current handle, if any.
\<close>

theorem single_menu_session:
  "mo_sessions (fst (run_steps menu_step new_menu ops)) =
     set_option (mo_current (fst (run_steps menu_step new_menu ops)))"
  using mom.reach_inv [of ops] by (simp add: menu_ok_def)

end
