(* ===== verification/Text.thy ===== *)
theory Text
  imports Prelude "HOL-Library.Sublist"
begin

text \<open>
  Rust strings as lists of code points, and the string operations of the standard library
  the URL code uses. Literals are written as HOL strings through \<open>u\<close>. Offsets count code
  points instead of bytes: every slice the code takes is at an offset it found, or guarded
  by a comparison with an ASCII prefix, so both name the same cut.
\<close>

type_synonym ustring = "nat list"

definition u :: "string \<Rightarrow> ustring" where
  "u s = map of_char s"

lemma u_simps [simp]: "u [] = []" "u (c # cs) = of_char c # u cs" "u (s @ t) = u s @ u t"
  by (simp_all add: u_def)

definition ascii_lower :: "nat \<Rightarrow> nat" where
  "ascii_lower c = (if 65 \<le> c \<and> c \<le> 90 then c + 32 else c)"

definition to_ascii_lowercase :: "ustring \<Rightarrow> ustring" where
  "to_ascii_lowercase s = map ascii_lower s"

definition eq_ignore_ascii_case :: "ustring \<Rightarrow> ustring \<Rightarrow> bool" where
  "eq_ignore_ascii_case s t \<longleftrightarrow> to_ascii_lowercase s = to_ascii_lowercase t"

text \<open>\<open>get(..n)\<close> and a caseless comparison, for an ASCII prefix.\<close>

definition has_prefix_ci :: "ustring \<Rightarrow> ustring \<Rightarrow> bool" where
  "has_prefix_ci p s \<longleftrightarrow> length p \<le> length s \<and> eq_ignore_ascii_case (take (length p) s) p"

definition is_control :: "nat \<Rightarrow> bool" where
  "is_control c \<longleftrightarrow> c \<le> 31 \<or> 127 \<le> c \<and> c \<le> 159"

text \<open>Unicode's White_Space.\<close>

definition is_whitespace :: "nat \<Rightarrow> bool" where
  "is_whitespace c \<longleftrightarrow> 9 \<le> c \<and> c \<le> 13 \<or> c = 32 \<or> c = 133 \<or> c = 160 \<or> c = 5760 \<or>
     8192 \<le> c \<and> c \<le> 8202 \<or> c = 8232 \<or> c = 8233 \<or> c = 8239 \<or> c = 8287 \<or> c = 12288"

definition trim :: "ustring \<Rightarrow> ustring" where
  "trim s = rev (dropWhile is_whitespace (rev (dropWhile is_whitespace s)))"

fun find_sub :: "ustring \<Rightarrow> ustring \<Rightarrow> nat option" where
  "find_sub p [] = (if p = [] then Some 0 else None)"
| "find_sub p (c # s) = (if prefix p (c # s) then Some 0 else map_option Suc (find_sub p s))"

fun rfind_sub :: "ustring \<Rightarrow> ustring \<Rightarrow> nat option" where
  "rfind_sub p [] = (if p = [] then Some 0 else None)"
| "rfind_sub p (c # s) =
     (case rfind_sub p s of Some i \<Rightarrow> Some (Suc i)
      | None \<Rightarrow> if prefix p (c # s) then Some 0 else None)"

definition contains :: "ustring \<Rightarrow> ustring \<Rightarrow> bool" where
  "contains s p \<longleftrightarrow> find_sub p s \<noteq> None"

text \<open>The text up to the first character of a set, and what follows the last of one.\<close>

definition up_to :: "nat set \<Rightarrow> ustring \<Rightarrow> ustring" where
  "up_to cs s = takeWhile (\<lambda>c. c \<notin> cs) s"

definition after_last :: "nat \<Rightarrow> ustring \<Rightarrow> ustring" where
  "after_last c s = rev (takeWhile (\<lambda>x. x \<noteq> c) (rev s))"

text \<open>\<open>rsplit_once\<close> at a character.\<close>

definition rsplit_once :: "nat \<Rightarrow> ustring \<Rightarrow> (ustring \<times> ustring) option" where
  "rsplit_once c s =
     (if c \<in> set s
      then Some (take (length s - length (after_last c s) - 1) s, after_last c s) else None)"

text \<open>\<open>u16::from_str\<close>: an optional plus sign, then at least one digit, no overflow.\<close>

definition is_digit :: "nat \<Rightarrow> bool" where
  "is_digit c \<longleftrightarrow> 48 \<le> c \<and> c \<le> 57"

definition digits_value :: "ustring \<Rightarrow> nat" where
  "digits_value ds = fold (\<lambda>d n. 10 * n + (d - 48)) ds 0"

definition parse_u16 :: "ustring \<Rightarrow> nat option" where
  "parse_u16 s =
     (let ds = (case s of c # t \<Rightarrow> if c = 43 then t else s | [] \<Rightarrow> [])
      in if ds \<noteq> [] \<and> list_all is_digit ds \<and> digits_value ds \<le> 65535 then Some (digits_value ds) else None)"

section \<open>Lemmas\<close>

lemma ascii_lower_idem [simp]: "ascii_lower (ascii_lower c) = ascii_lower c"
  by (simp add: ascii_lower_def)

lemma lowercase_idem [simp]: "to_ascii_lowercase (to_ascii_lowercase s) = to_ascii_lowercase s"
  by (simp add: to_ascii_lowercase_def)

lemma lowercase_append [simp]:
  "to_ascii_lowercase (s @ t) = to_ascii_lowercase s @ to_ascii_lowercase t"
  "to_ascii_lowercase [] = []" "length (to_ascii_lowercase s) = length s"
  by (simp_all add: to_ascii_lowercase_def)

lemma has_prefix_ci_append:
  assumes "to_ascii_lowercase q = to_ascii_lowercase p"
  shows "has_prefix_ci p (q @ s)"
proof -
  have "length q = length p" using assms by (metis lowercase_append(3))
  then show ?thesis using assms by (simp add: has_prefix_ci_def eq_ignore_ascii_case_def)
qed

lemma find_sub_at:
  assumes "find_sub p s = Some i"
  shows "i + length p \<le> length s \<and> take (length p) (drop i s) = p"
  using assms
proof (induction s arbitrary: i)
  case Nil
  then show ?case by (auto split: if_splits)
next
  case (Cons c s)
  show ?case
  proof (cases "prefix p (c # s)")
    case True
    then obtain zs where zs: "c # s = p @ zs" by (auto simp: prefix_def)
    have "i = 0" using True Cons.prems by simp
    moreover have "length p \<le> length (c # s)" "take (length p) (c # s) = p"
      unfolding zs by simp_all
    ultimately show ?thesis by simp
  next
    case False
    with Cons.prems obtain j where "i = Suc j" "find_sub p s = Some j" by auto
    with Cons.IH show ?thesis by simp
  qed
qed

text \<open>The first occurrence of a separator whose first character does not occur before it.\<close>

lemma prefix_hd: "prefix p (c # s) \<Longrightarrow> p \<noteq> [] \<Longrightarrow> hd p = c"
  by (cases p) simp_all

lemma find_sub_first:
  assumes "p \<noteq> []" "hd p \<notin> set s"
  shows "find_sub p (s @ p @ t) = Some (length s)"
  using assms(2)
proof (induction s)
  case Nil
  obtain a p' where p: "p = a # p'" using assms(1) by (cases p) auto
  have "prefix p (p @ t)" by simp
  then show ?case by (simp add: p)
next
  case (Cons c s)
  then have "\<not> prefix p (c # s @ p @ t)" using prefix_hd [OF _ assms(1)] by fastforce
  moreover have "find_sub p (s @ p @ t) = Some (length s)" using Cons by simp
  ultimately show ?case by simp
qed

lemma up_to_append:
  assumes "set s \<inter> cs = {}" "t = [] \<or> hd t \<in> cs"
  shows "up_to cs (s @ t) = s"
proof -
  have "takeWhile (\<lambda>c. c \<notin> cs) (s @ t) = s @ takeWhile (\<lambda>c. c \<notin> cs) t"
    using assms(1) by (intro takeWhile_append2) auto
  moreover have "takeWhile (\<lambda>c. c \<notin> cs) t = []"
    using assms(2) by (cases t) simp_all
  ultimately show ?thesis by (simp add: up_to_def)
qed

lemma up_to_set: "c \<in> set (up_to cs s) \<Longrightarrow> c \<in> set s \<and> c \<notin> cs"
  unfolding up_to_def by (drule set_takeWhileD) simp

lemma after_last_none: "c \<notin> set s \<Longrightarrow> after_last c s = s"
proof -
  assume "c \<notin> set s"
  then have tw: "takeWhile (\<lambda>x. x \<noteq> c) (rev s) = rev s" by (intro takeWhile_eq_all_conv [THEN iffD2]) auto
  show "after_last c s = s" unfolding after_last_def tw by simp
qed

lemma after_last_append: "c \<notin> set t \<Longrightarrow> after_last c (s @ c # t) = t"
proof -
  assume "c \<notin> set t"
  then have "takeWhile (\<lambda>x. x \<noteq> c) (rev t @ c # rev s) = rev t @ takeWhile (\<lambda>x. x \<noteq> c) (c # rev s)"
    by (intro takeWhile_append2) auto
  then show "after_last c (s @ c # t) = t" by (simp add: after_last_def)
qed

lemma after_last_subset: "set (after_last c s) \<subseteq> set s"
  unfolding after_last_def by (metis set_rev set_takeWhileD subsetI)

lemma rsplit_once_append: "c \<notin> set t \<Longrightarrow> rsplit_once c (s @ c # t) = Some (s, t)"
  by (simp add: rsplit_once_def after_last_append)

lemma rsplit_once_none: "c \<notin> set s \<Longrightarrow> rsplit_once c s = None"
  by (simp add: rsplit_once_def)

section \<open>Decimal numbers\<close>

lemma digits_value_snoc: "digits_value (ds @ [d]) = 10 * digits_value ds + (d - 48)"
  by (simp add: digits_value_def)

lemma show_nat_digits:
  "u (show_nat n) \<noteq> [] \<and> list_all is_digit (u (show_nat n)) \<and> digits_value (u (show_nat n)) = n"
proof (induction n rule: show_nat.induct)
  case (1 n)
  show ?case
  proof (cases "n < 10")
    case True
    then have "of_char (char_of (48 + n) :: char) = 48 + n" by simp
    with True show ?thesis
      by (simp add: show_nat.simps [of n] is_digit_def digits_value_def)
  next
    case False
    have "of_char (char_of (48 + n mod 10) :: char) = 48 + n mod 10" by simp
    with False 1 show ?thesis
      by (simp add: show_nat.simps [of n] is_digit_def digits_value_snoc)
  qed
qed

lemma parse_show_u16: "n \<le> 65535 \<Longrightarrow> parse_u16 (u (show_nat n)) = Some n"
proof -
  assume n: "n \<le> 65535"
  obtain d ds where d: "u (show_nat n) = d # ds" using show_nat_digits [of n] by (cases "u (show_nat n)") auto
  then have "is_digit d" using show_nat_digits [of n] by simp
  then have "d \<noteq> 43" by (auto simp: is_digit_def)
  with d n show_nat_digits [of n] show ?thesis by (simp add: parse_u16_def)
qed

end
