(* ===== verification/Jellyfin.thy ===== *)
theory Jellyfin
  imports Text
begin

text \<open>
  The Jellyfin crate (\<open>jellyfin/src/lib.rs\<close>): the device profile the server is sent, and
  the URL rules of the connect screen - normalisation, origins, redirects, probe
  candidates - with the native-bridge gate that rests on them (\<open>jfn_cef/src/bridge_gate.rs\<close>).
  The profile is modelled up to the value handed to the JSON serializer.
\<close>

section \<open>Device profile\<close>

datatype media_kind = Kind_Video | Kind_Audio | Kind_Subtitle

record codec =
  codec_name :: ustring
  codec_kind :: media_kind

definition SUBTITLE_RENAMES :: "(ustring \<times> ustring) list" where
  "SUBTITLE_RENAMES =
     [(u ''subrip'', u ''srt''), (u ''ass'', u ''ssa''), (u ''hdmv_pgs_subtitle'', u ''PGSSUB''),
      (u ''dvd_subtitle'', u ''DVDSUB''), (u ''dvb_subtitle'', u ''DVBSUB''),
      (u ''dvb_teletext'', u ''DVBTXT'')]"

definition CONTAINER_RENAMES :: "(ustring \<times> ustring) list" where
  "CONTAINER_RENAMES =
     [(u ''matroska'', u ''mkv''), (u ''mpegts'', u ''ts''), (u ''mpegvideo'', u ''mpeg'')]"

definition MAX_STATIC_BITRATE :: int where "MAX_STATIC_BITRATE = 1000000000"
definition MUSIC_STREAMING_TRANSCODING_BITRATE :: int where "MUSIC_STREAMING_TRANSCODING_BITRATE = 1280000"
definition TIMELINE_OFFSET_SECONDS :: int where "TIMELINE_OFFSET_SECONDS = 5"

definition TRANSCODE_VIDEO_CODEC :: "ustring list" where
  "TRANSCODE_VIDEO_CODEC = [u ''h264'', u ''hevc'', u ''av1'', u ''vp9'']"

definition TRANSCODE_AUDIO_CODEC_MP4 :: "ustring list" where
  "TRANSCODE_AUDIO_CODEC_MP4 =
     [u ''opus'', u ''aac'', u ''eac3'', u ''ac3'', u ''flac'', u ''mp3'', u ''dts'', u ''truehd'']"

definition TRANSCODE_AUDIO_CODEC_TS :: "ustring list" where
  "TRANSCODE_AUDIO_CODEC_TS = [u ''aac'', u ''eac3'', u ''ac3'', u ''mp3'']"

datatype profile_type = Type_Video | Type_Audio | Type_Photo

datatype subtitle_delivery = Deliver_Embed | Deliver_External

record direct_play_profile =
  dp_container :: "ustring option"
  dp_type :: profile_type
  dp_video_codec :: "ustring option"
  dp_audio_codec :: "ustring option"

record transcoding_profile =
  tp_container :: "ustring option"
  tp_type :: profile_type
  tp_protocol :: "ustring option"
  tp_audio_codec :: "ustring option"
  tp_video_codec :: "ustring option"
  tp_max_audio_channels :: "ustring option"

record subtitle_profile =
  sp_format :: ustring
  sp_method :: subtitle_delivery

record device_profile =
  pf_name :: ustring
  pf_max_static_bitrate :: int
  pf_music_bitrate :: int
  pf_timeline_offset :: int
  pf_direct_play :: "direct_play_profile list"
  pf_transcoding :: "transcoding_profile list"
  pf_subtitles :: "subtitle_profile list"

text \<open>\<open>split(',')\<close>: at least one piece.\<close>

fun split_on :: "nat \<Rightarrow> ustring \<Rightarrow> ustring list" where
  "split_on c [] = [[]]"
| "split_on c (x # s) =
     (if x = c then [] # split_on c s else (x # hd (split_on c s)) # tl (split_on c s))"

definition push_new :: "ustring \<Rightarrow> ustring list \<Rightarrow> ustring list" where
  "push_new s out = (if s = [] then out else if s \<in> set out then out else out @ [s])"

definition expand_piece :: "(ustring \<times> ustring) list \<Rightarrow> ustring \<Rightarrow> ustring list \<Rightarrow> ustring list" where
  "expand_piece renames piece out =
     (let out = push_new piece out
      in case find (\<lambda>(from_name, _). from_name = piece) renames of
           Some (_, renamed) \<Rightarrow> push_new renamed out | None \<Rightarrow> out)"

definition expand_with_renames :: "ustring list \<Rightarrow> (ustring \<times> ustring) list \<Rightarrow> ustring list" where
  "expand_with_renames inputs renames =
     fold (expand_piece renames) (concat (map (split_on 44) inputs)) []"

text \<open>\<open>join(",")\<close>.\<close>

fun join :: "ustring list \<Rightarrow> ustring" where
  "join [] = []"
| "join [s] = s"
| "join (s # t # ts) = s @ [44] @ join (t # ts)"

definition preferred_csv :: "ustring list \<Rightarrow> ustring list \<Rightarrow> ustring" where
  "preferred_csv preferred available = join (filter (\<lambda>s. s \<in> set available) preferred)"

definition codecs_of :: "media_kind \<Rightarrow> codec list \<Rightarrow> ustring list" where
  "codecs_of k ds = map codec_name (filter (\<lambda>c. codec_kind c = k) ds)"

definition build_device_profile :: "codec list \<Rightarrow> ustring list \<Rightarrow> ustring \<Rightarrow> bool \<Rightarrow> device_profile" where
  "build_device_profile decoders demuxers device_name force_transcode =
     (let video_codecs = codecs_of Kind_Video decoders;
          audio_codecs = codecs_of Kind_Audio decoders;
          subtitle_codecs = codecs_of Kind_Subtitle decoders;
          video_csv = join video_codecs; audio_csv = join audio_codecs;
          containers = expand_with_renames demuxers CONTAINER_RENAMES;
          subtitle_names = expand_with_renames subtitle_codecs SUBTITLE_RENAMES;
          transcode_video_csv = preferred_csv TRANSCODE_VIDEO_CODEC video_codecs;
          transcode_audio_csv_mp4 = preferred_csv TRANSCODE_AUDIO_CODEC_MP4 audio_codecs;
          transcode_audio_csv_ts = preferred_csv TRANSCODE_AUDIO_CODEC_TS audio_codecs;
          container_csv = join containers;
          direct_play =
            (if force_transcode then []
             else (if video_csv \<noteq> [] then [\<lparr>dp_container = Some container_csv, dp_type = Type_Video,
                     dp_video_codec = Some video_csv, dp_audio_codec = Some audio_csv\<rparr>] else []) @
                  (if audio_csv \<noteq> [] then [\<lparr>dp_container = Some container_csv, dp_type = Type_Audio,
                     dp_video_codec = None, dp_audio_codec = Some audio_csv\<rparr>] else []) @
                  [\<lparr>dp_container = None, dp_type = Type_Photo, dp_video_codec = None,
                    dp_audio_codec = None\<rparr>]);
          sub_profiles = concat (map (\<lambda>f. [\<lparr>sp_format = f, sp_method = Deliver_Embed\<rparr>,
                                           \<lparr>sp_format = f, sp_method = Deliver_External\<rparr>]) subtitle_names);
          transcoding =
            [\<lparr>tp_container = None, tp_type = Type_Audio, tp_protocol = None, tp_audio_codec = None,
              tp_video_codec = None, tp_max_audio_channels = None\<rparr>] @
            (if force_transcode then []
             else [\<lparr>tp_container = Some (u ''mp4''), tp_type = Type_Video, tp_protocol = Some (u ''hls''),
                    tp_audio_codec = Some transcode_audio_csv_mp4,
                    tp_video_codec = Some transcode_video_csv, tp_max_audio_channels = Some (u ''6'')\<rparr>]) @
            [\<lparr>tp_container = Some (u ''ts''), tp_type = Type_Video, tp_protocol = Some (u ''hls''),
              tp_audio_codec = Some transcode_audio_csv_ts, tp_video_codec = Some transcode_video_csv,
              tp_max_audio_channels = Some (u ''6'')\<rparr>,
             \<lparr>tp_container = Some (u ''jpeg''), tp_type = Type_Photo, tp_protocol = None,
              tp_audio_codec = None, tp_video_codec = None, tp_max_audio_channels = None\<rparr>]
      in \<lparr>pf_name = device_name, pf_max_static_bitrate = MAX_STATIC_BITRATE,
          pf_music_bitrate = MUSIC_STREAMING_TRANSCODING_BITRATE,
          pf_timeline_offset = TIMELINE_OFFSET_SECONDS, pf_direct_play = direct_play,
          pf_transcoding = transcoding, pf_subtitles = sub_profiles\<rparr>)"

section \<open>URLs\<close>

abbreviation SCHEME_SEPARATOR :: ustring where "SCHEME_SEPARATOR \<equiv> u ''://''"

text \<open>Slash, question mark, hash: what ends an authority.\<close>

abbreviation authority_ends :: "nat set" where "authority_ends \<equiv> {47, 63, 35}"

definition normalize_input :: "ustring \<Rightarrow> ustring" where
  "normalize_input user_input =
     (let trimmed = trim user_input;
          cased = (if has_prefix_ci (u ''http:'') trimmed then u ''http:'' @ drop 5 trimmed
                   else if has_prefix_ci (u ''https:'') trimmed then u ''https:'' @ drop 6 trimmed
                   else trimmed)
      in if contains cased SCHEME_SEPARATOR then cased else u ''http://'' @ cased)"

definition authority_start :: "ustring \<Rightarrow> nat" where
  "authority_start url = (case find_sub SCHEME_SEPARATOR url of None \<Rightarrow> 0 | Some i \<Rightarrow> i + 3)"

definition extract_base_url :: "ustring \<Rightarrow> ustring" where
  "extract_base_url url =
     (let start = authority_start url; rest = drop start url
      in case rfind_sub (u ''/web'') (to_ascii_lowercase rest) of
           Some rel \<Rightarrow> take (start + rel) url
         | None \<Rightarrow> take start url @ up_to {47} rest)"

definition http_rest :: "ustring \<Rightarrow> ustring option" where
  "http_rest url =
     (if has_prefix_ci (u ''http://'') url then Some (drop 7 url)
      else if has_prefix_ci (u ''https://'') url then Some (drop 8 url) else None)"

definition clean :: "ustring \<Rightarrow> bool" where
  "clean s \<longleftrightarrow> (\<forall>c\<in>set s. \<not> is_control c \<and> \<not> is_whitespace c)"

definition is_http_url :: "ustring \<Rightarrow> bool" where
  "is_http_url url \<longleftrightarrow>
     (case http_rest url of None \<Rightarrow> False
      | Some rest \<Rightarrow> clean url \<and> up_to authority_ends rest \<noteq> [])"

record origin =
  o_scheme :: ustring
  o_host :: ustring
  o_port :: nat

definition default_port :: "ustring \<Rightarrow> nat" where
  "default_port scheme = (if scheme = u ''http'' then 80 else if scheme = u ''https'' then 443 else 0)"

definition origin_to_url :: "origin \<Rightarrow> ustring" where
  "origin_to_url o' =
     o_scheme o' @ SCHEME_SEPARATOR @ o_host o' @
     (if o_port o' = default_port (o_scheme o') then [] else 58 # u (show_nat (o_port o')))"

text \<open>Host and port text of an authority without user information; then the port's value.\<close>

definition split_host :: "ustring \<Rightarrow> (ustring \<times> ustring option) option" where
  "split_host after =
     (if 93 \<in> set after
      then let host = up_to {93} after @ [93]
           in case drop (length host) after of
                [] \<Rightarrow> Some (host, None)
              | c # p \<Rightarrow> if c = 58 then Some (host, Some p) else None
      else case rsplit_once 58 after of
             Some (h, p) \<Rightarrow> Some (h, Some p)
           | None \<Rightarrow> Some (after, None))"

definition port_of :: "ustring \<times> ustring option \<Rightarrow> (ustring \<times> nat option) option" where
  "port_of hp =
     (if fst hp = [] then None
      else case snd hp of
        None \<Rightarrow> Some (to_ascii_lowercase (fst hp), None)
      | Some p \<Rightarrow>
          if p = [] then Some (to_ascii_lowercase (fst hp), None)
          else case parse_u16 p of None \<Rightarrow> None
               | Some n \<Rightarrow> Some (to_ascii_lowercase (fst hp), Some n))"

definition split_authority :: "ustring \<Rightarrow> (ustring \<times> nat option) option" where
  "split_authority authority =
     (let after = (if 64 \<in> set authority then after_last 64 authority else authority)
      in if after = [] then None else Option.bind (split_host after) port_of)"

definition parse_origin :: "ustring \<Rightarrow> origin option" where
  "parse_origin url =
     (if \<not> is_http_url url then None
      else let start = authority_start url;
               scheme = to_ascii_lowercase (take (start - 3) url);
               rest = drop start url
           in case split_authority (up_to authority_ends rest) of None \<Rightarrow> None
              | Some (host, port) \<Rightarrow>
                  Some \<lparr>o_scheme = scheme, o_host = host,
                        o_port = (case port of None \<Rightarrow> default_port scheme | Some p \<Rightarrow> p)\<rparr>)"

definition same_origin :: "ustring \<Rightarrow> ustring \<Rightarrow> bool" where
  "same_origin a b =
     (case (parse_origin a, parse_origin b) of (Some x, Some y) \<Rightarrow> x = y | _ \<Rightarrow> False)"

datatype redirect_decision = Keep | Upgrade ustring | Refuse ustring

definition redirect_target_label :: "ustring \<Rightarrow> ustring" where
  "redirect_target_label url =
     (let cleaned = take 64 (filter (\<lambda>c. \<not> is_control c \<and> \<not> is_whitespace c) url)
      in if cleaned = [] then u ''an unknown address'' else cleaned)"

definition classify_probe_redirect :: "ustring \<Rightarrow> ustring \<Rightarrow> redirect_decision" where
  "classify_probe_redirect requested final_url =
     (case parse_origin requested of None \<Rightarrow> Keep
      | Some req \<Rightarrow>
          if final_url = [] \<or> same_origin requested final_url then Keep
          else case parse_origin final_url of
                 None \<Rightarrow> Refuse (redirect_target_label final_url)
               | Some fin \<Rightarrow>
                   if o_host fin = o_host req \<and> o_scheme req = u ''http'' \<and> o_scheme fin = u ''https''
                   then Upgrade final_url else Refuse (origin_to_url fin))"

definition redirect_refused_message :: "ustring \<Rightarrow> ustring" where
  "redirect_refused_message target =
     u ''server redirected to '' @ target @ u ''; enter that address instead''"

definition scheme_was_typed :: "ustring \<Rightarrow> bool" where
  "scheme_was_typed user_input = contains (trim user_input) SCHEME_SEPARATOR"

definition probe_candidates :: "ustring \<Rightarrow> ustring list" where
  "probe_candidates user_input =
     (let normalized = normalize_input user_input
      in if \<not> is_http_url normalized then []
         else if scheme_was_typed user_input then [normalized]
         else let upgraded = u ''https://'' @ drop 7 normalized
              in if is_http_url upgraded then [upgraded, normalized] else [normalized])"

section \<open>The native bridge\<close>

definition APP_SCHEME :: ustring where "APP_SCHEME = u ''app://''"
definition BLANK_URLS :: "ustring list" where "BLANK_URLS = [u ''about:blank'', u ''about:blank#blocked'']"

definition is_internal_layer_url :: "ustring \<Rightarrow> bool" where
  "is_internal_layer_url url \<longleftrightarrow>
     url = [] \<or> has_prefix_ci APP_SCHEME url \<or> list_ex (eq_ignore_ascii_case url) BLANK_URLS"

definition bridge_allowed :: "ustring \<Rightarrow> ustring \<Rightarrow> bool" where
  "bridge_allowed frame_url saved_server_url =
     (is_internal_layer_url frame_url \<or> same_origin frame_url saved_server_url)"

text \<open>The once-per-origin dedup; the bound is on the number of origins remembered.\<close>

definition refused_origin_is_new :: "ustring set \<Rightarrow> ustring \<Rightarrow> ustring set \<times> bool" where
  "refused_origin_is_new warned ori =
     (if 256 \<le> card warned then (warned, False) else (insert ori warned, ori \<notin> warned))"


section \<open>Origins: printing and parsing\<close>

text \<open>
  The scheme test splits off one of the two schemes, in any case, and the separator found
  first is the one after it.
\<close>

lemma lowercase_eq_set:
  assumes "to_ascii_lowercase q = p" "58 \<notin> set p"
  shows "58 \<notin> set q"
proof
  assume "58 \<in> set q"
  then have "ascii_lower 58 \<in> ascii_lower ` set q" by (rule imageI)
  then have "58 \<in> set p" using assms(1) by (auto simp: to_ascii_lowercase_def ascii_lower_def)
  with assms(2) show False by simp
qed

abbreviation http_schemes :: "ustring set" where "http_schemes \<equiv> {u ''http'', u ''https''}"

lemma has_prefix_ci_split:
  assumes "has_prefix_ci (p @ q) s"
  obtains a b t where "s = a @ b @ t" "to_ascii_lowercase a = to_ascii_lowercase p"
    "to_ascii_lowercase b = to_ascii_lowercase q" "t = drop (length (p @ q)) s"
proof
  let ?a = "take (length p) s" and ?b = "take (length q) (drop (length p) s)"
  have len: "length p + length q \<le> length s" using assms by (simp add: has_prefix_ci_def)
  have tk: "take (length p + length q) s = ?a @ ?b" by (simp add: take_add)
  have eq: "to_ascii_lowercase ?a @ to_ascii_lowercase ?b = to_ascii_lowercase p @ to_ascii_lowercase q"
    using assms by (simp add: has_prefix_ci_def eq_ignore_ascii_case_def tk)
  have la: "length (to_ascii_lowercase ?a) = length (to_ascii_lowercase p)" using len by simp
  show "to_ascii_lowercase ?a = to_ascii_lowercase p" "to_ascii_lowercase ?b = to_ascii_lowercase q"
    using eq la by simp_all
  show "s = ?a @ ?b @ drop (length (p @ q)) s"
    using tk by (metis append.assoc append_take_drop_id length_append)
qed simp

lemma lowercase_separator:
  assumes "to_ascii_lowercase b = to_ascii_lowercase SCHEME_SEPARATOR"
  shows "b = SCHEME_SEPARATOR"
proof -
  have len: "length b = 3" using arg_cong [OF assms, of length] by simp
  then obtain x y z where b: "b = [x, y, z]" by (auto simp: length_Suc_conv numeral_3_eq_3)
  have inv: "c = d" if "ascii_lower c = d" "d = 58 \<or> d = 47" for c d
    using that by (auto simp: ascii_lower_def split: if_splits)
  have "to_ascii_lowercase b = [58, 47, 47]" unfolding assms by (simp add: to_ascii_lowercase_def ascii_lower_def)
  then have "ascii_lower x = 58" "ascii_lower y = 47" "ascii_lower z = 47"
    by (simp_all add: b to_ascii_lowercase_def)
  then have "x = 58" "y = 47" "z = 47" using inv by blast+
  then show ?thesis by (simp add: b)
qed

lemma http_rest_form:
  assumes "http_rest url = Some rest"
  obtains q where "url = q @ SCHEME_SEPARATOR @ rest" "to_ascii_lowercase q \<in> http_schemes"
proof -
  have lower: "to_ascii_lowercase (u ''http'') = u ''http''" "to_ascii_lowercase (u ''https'') = u ''https''"
    by (simp_all add: to_ascii_lowercase_def ascii_lower_def)
  have "has_prefix_ci (u ''http'' @ SCHEME_SEPARATOR) url \<and> rest = drop 7 url \<or>
        has_prefix_ci (u ''https'' @ SCHEME_SEPARATOR) url \<and> rest = drop 8 url"
    using assms by (auto simp: http_rest_def split: if_splits)
  then show ?thesis
  proof
    assume h: "has_prefix_ci (u ''http'' @ SCHEME_SEPARATOR) url \<and> rest = drop 7 url"
    then obtain a b t where abt: "url = a @ b @ t" "to_ascii_lowercase a = to_ascii_lowercase (u ''http'')"
      "to_ascii_lowercase b = to_ascii_lowercase SCHEME_SEPARATOR"
      "t = drop (length (u ''http'' @ SCHEME_SEPARATOR)) url"
      using has_prefix_ci_split by blast
    have "length (u ''http'' @ SCHEME_SEPARATOR) = 7" by simp
    then have "t = rest" using h abt(4) by (simp only:)
    then have "url = a @ SCHEME_SEPARATOR @ rest" using abt(1) lowercase_separator [OF abt(3)] by (simp only:)
    moreover have "to_ascii_lowercase a \<in> http_schemes" using abt(2) lower by (simp del: u_simps)
    ultimately show ?thesis by (rule that)
  next
    assume h: "has_prefix_ci (u ''https'' @ SCHEME_SEPARATOR) url \<and> rest = drop 8 url"
    then obtain a b t where abt: "url = a @ b @ t" "to_ascii_lowercase a = to_ascii_lowercase (u ''https'')"
      "to_ascii_lowercase b = to_ascii_lowercase SCHEME_SEPARATOR"
      "t = drop (length (u ''https'' @ SCHEME_SEPARATOR)) url"
      using has_prefix_ci_split by blast
    have "length (u ''https'' @ SCHEME_SEPARATOR) = 8" by simp
    then have "t = rest" using h abt(4) by (simp only:)
    then have "url = a @ SCHEME_SEPARATOR @ rest" using abt(1) lowercase_separator [OF abt(3)] by (simp only:)
    moreover have "to_ascii_lowercase a \<in> http_schemes" using abt(2) lower by (simp del: u_simps)
    ultimately show ?thesis by (rule that)
  qed
qed

lemma authority_start_scheme:
  assumes "to_ascii_lowercase q \<in> http_schemes"
  shows "authority_start (q @ SCHEME_SEPARATOR @ rest) = length q + 3"
proof -
  have "58 \<notin> set q" using assms by (elim insertE emptyE) (auto dest!: lowercase_eq_set)
  then have "find_sub SCHEME_SEPARATOR (q @ SCHEME_SEPARATOR @ rest) = Some (length q)"
    by (intro find_sub_first) simp_all
  then show ?thesis by (simp add: authority_start_def del: u_simps)
qed

lemma http_rest_scheme:
  assumes "to_ascii_lowercase q \<in> http_schemes"
  shows "http_rest (q @ SCHEME_SEPARATOR @ rest) = Some rest"
proof -
  have lower: "to_ascii_lowercase (u ''http'') = u ''http''" "to_ascii_lowercase (u ''https'') = u ''https''"
    by (simp_all add: to_ascii_lowercase_def ascii_lower_def)
  from assms consider "to_ascii_lowercase q = u ''http''" | "to_ascii_lowercase q = u ''https''" by blast
  then show ?thesis
  proof cases
    case 1
    have len: "length q = 4" using arg_cong [OF 1, of length] by simp
    have "has_prefix_ci (u ''http'' @ SCHEME_SEPARATOR) ((q @ SCHEME_SEPARATOR) @ rest)"
      by (rule has_prefix_ci_append) (use 1 lower in \<open>simp del: u_simps\<close>)
    then show ?thesis using len by (simp add: http_rest_def)
  next
    case 2
    have len: "length q = 5" using arg_cong [OF 2, of length] by simp
    have "has_prefix_ci (u ''https'' @ SCHEME_SEPARATOR) ((q @ SCHEME_SEPARATOR) @ rest)"
      by (rule has_prefix_ci_append) (use 2 lower in \<open>simp del: u_simps\<close>)
    moreover have "\<not> has_prefix_ci (u ''http://'') (q @ SCHEME_SEPARATOR @ rest)"
    proof -
      obtain a b c d e where q: "q = [a, b, c, d, e]"
        using len by (auto simp: length_Suc_conv eval_nat_numeral)
      from 2 have "ascii_lower e = 115" by (simp add: q to_ascii_lowercase_def)
      then show ?thesis by (simp add: q has_prefix_ci_def eq_ignore_ascii_case_def to_ascii_lowercase_def
            ascii_lower_def)
    qed
    ultimately show ?thesis using len by (simp add: http_rest_def)
  qed
qed

subsection \<open>Spellings of an origin\<close>

text \<open>
  What a well-formed origin is, independently of the parser, and the ways a URL may spell
  it: the scheme and the host in any case, any user information, the default port left out
  or left empty, and any path, query or fragment behind.
\<close>

definition host_ok :: "ustring \<Rightarrow> bool" where
  "host_ok h \<longleftrightarrow> h \<noteq> [] \<and> clean h \<and> set h \<inter> {47, 63, 35, 64} = {} \<and> to_ascii_lowercase h = h \<and>
     (if last h = 93 then 93 \<notin> set (butlast h) else 58 \<notin> set h \<and> 93 \<notin> set h)"

definition origin_ok :: "origin \<Rightarrow> bool" where
  "origin_ok a \<longleftrightarrow> o_scheme a \<in> http_schemes \<and> host_ok (o_host a) \<and> o_port a \<le> 65535"

definition port_spellings :: "origin \<Rightarrow> ustring set" where
  "port_spellings a = insert (58 # u (show_nat (o_port a)))
     (if o_port a = default_port (o_scheme a) then {[], [58]} else {})"

definition userinfo_ok :: "ustring \<Rightarrow> bool" where
  "userinfo_ok ui \<longleftrightarrow> clean ui \<and> set ui \<inter> authority_ends = {} \<and> (ui = [] \<or> last ui = 64)"

definition tail_ok :: "ustring \<Rightarrow> bool" where
  "tail_ok t \<longleftrightarrow> clean t \<and> (t = [] \<or> hd t \<in> authority_ends)"

inductive spells :: "ustring \<Rightarrow> origin \<Rightarrow> bool" where
  "origin_ok a \<Longrightarrow> to_ascii_lowercase q = o_scheme a \<Longrightarrow> userinfo_ok ui \<Longrightarrow>
   to_ascii_lowercase h = o_host a \<Longrightarrow> pt \<in> port_spellings a \<Longrightarrow> tail_ok tl' \<Longrightarrow>
   spells (q @ SCHEME_SEPARATOR @ (ui @ h @ pt) @ tl') a"

lemma lowercase_mem: "c \<in> set h \<Longrightarrow> c < 65 \<or> 90 < c \<Longrightarrow> c \<in> set (to_ascii_lowercase h)"
  by (force simp: to_ascii_lowercase_def ascii_lower_def image_iff)

lemma clean_append [simp]: "clean (s @ t) \<longleftrightarrow> clean s \<and> clean t"
  by (auto simp: clean_def)

lemma clean_lowercase: "clean (to_ascii_lowercase h) \<Longrightarrow> clean h"
  unfolding clean_def
proof (intro ballI)
  fix c
  assume l: "\<forall>c\<in>set (to_ascii_lowercase h). \<not> is_control c \<and> \<not> is_whitespace c" and c: "c \<in> set h"
  show "\<not> is_control c \<and> \<not> is_whitespace c"
  proof (cases "c < 65 \<or> 90 < c")
    case True
    with l c lowercase_mem show ?thesis by blast
  qed (simp add: is_control_def is_whitespace_def)
qed

lemma digits_clean: "list_all is_digit p \<Longrightarrow> clean p"
  by (force simp: clean_def list_all_iff is_digit_def is_control_def is_whitespace_def)

text \<open>A spelled host and port: no end of the authority, no user information, splittable.\<close>

lemma spelled_host:
  assumes "host_ok (to_ascii_lowercase h)"
  shows "h \<noteq> []" "clean h" "set h \<inter> {47, 63, 35, 64} = {}"
    "(\<exists>x. h = x @ [93] \<and> 93 \<notin> set x) \<or> 58 \<notin> set h \<and> 93 \<notin> set h"
proof -
  show ne: "h \<noteq> []" using assms by (auto simp: host_ok_def)
  show "clean h" using assms clean_lowercase by (simp add: host_ok_def)
  show "set h \<inter> {47, 63, 35, 64} = {}"
  proof -
    have "x \<notin> set h" if x: "x \<in> {47, 63, 35, 64}" for x
    proof
      assume "x \<in> set h"
      moreover have "x < 65 \<or> 90 < x" using x by auto
      ultimately have "x \<in> set (to_ascii_lowercase h)" by (rule lowercase_mem)
      with x assms show False unfolding host_ok_def by blast
    qed
    then show ?thesis by blast
  qed
  show "(\<exists>x. h = x @ [93] \<and> 93 \<notin> set x) \<or> 58 \<notin> set h \<and> 93 \<notin> set h"
  proof (cases "last (to_ascii_lowercase h) = 93")
    case True
    obtain x c where h: "h = x @ [c]" using ne by (cases h rule: rev_cases) auto
    have "ascii_lower c = 93" using True by (simp add: h to_ascii_lowercase_def)
    then have "c = 93" by (auto simp: ascii_lower_def split: if_splits)
    moreover have "93 \<notin> set (to_ascii_lowercase x)"
      using assms True by (simp add: host_ok_def h to_ascii_lowercase_def map_butlast [symmetric])
    then have "93 \<notin> set x" using lowercase_mem [of 93 x] by auto
    ultimately show ?thesis using h by blast
  next
    case False
    then have "58 \<notin> set (to_ascii_lowercase h)" "93 \<notin> set (to_ascii_lowercase h)"
      using assms by (simp_all add: host_ok_def)
    then show ?thesis using lowercase_mem [of _ h] by auto
  qed
qed

lemma spelled_port:
  assumes "pt \<in> port_spellings a" "o_port a \<le> 65535"
  obtains "pt = []" "o_port a = default_port (o_scheme a)"
  | "pt = [58]" "o_port a = default_port (o_scheme a)"
  | p where "pt = 58 # p" "p \<noteq> []" "list_all is_digit p" "parse_u16 p = Some (o_port a)"
  using assms show_nat_digits [of "o_port a"] parse_show_u16 [of "o_port a"]
  by (auto simp: port_spellings_def split: if_splits)

lemma spelled_port_chars:
  assumes "pt \<in> port_spellings a" "o_port a \<le> 65535" "c \<in> set pt"
  shows "48 \<le> c \<and> c \<le> 58"
  using assms(1,2)
  by (cases rule: spelled_port) (use assms(3) in \<open>auto simp: list_all_iff is_digit_def\<close>)

text \<open>Splitting a spelled authority: with nothing before the host, then with user information.\<close>

lemma split_host_spelled:
  assumes "(\<exists>x. h = x @ [93] \<and> 93 \<notin> set x) \<or> 58 \<notin> set h \<and> 93 \<notin> set h"
    and "h \<noteq> []" "\<forall>c\<in>set p. 48 \<le> c \<and> c \<le> 57"
  shows "split_host h = Some (h, None)" "split_host (h @ 58 # p) = Some (h, Some p)"
proof -
  have p: "58 \<notin> set p" "93 \<notin> set p" using assms(3) by fastforce+
  have "split_host h = Some (h, None) \<and> split_host (h @ 58 # p) = Some (h, Some p)"
    using assms(1)
  proof
    assume "\<exists>x. h = x @ [93] \<and> 93 \<notin> set x"
    then obtain x where x: "h = x @ [93]" "93 \<notin> set x" by blast
    have "up_to {93} (x @ t) = x" if "hd t = 93" for t
      by (rule up_to_append) (use x(2) that in auto)
    then have "up_to {93} (x @ [93]) = x" "up_to {93} (x @ 93 # 58 # p) = x" by simp_all
    then show ?thesis by (simp add: split_host_def x(1) Let_def)
  next
    assume h: "58 \<notin> set h \<and> 93 \<notin> set h"
    then show ?thesis using p by (simp add: split_host_def rsplit_once_none rsplit_once_append)
  qed
  then show "split_host h = Some (h, None)" "split_host (h @ 58 # p) = Some (h, Some p)" by simp_all
qed

lemma split_authority_spelled:
  assumes "origin_ok a" "userinfo_ok ui" "to_ascii_lowercase h = o_host a" "pt \<in> port_spellings a"
  obtains port where "split_authority (ui @ h @ pt) = Some (o_host a, port)"
    "(case port of None \<Rightarrow> default_port (o_scheme a) | Some p \<Rightarrow> p) = o_port a"
proof -
  have host: "host_ok (to_ascii_lowercase h)" and port: "o_port a \<le> 65535"
    using assms(1,3) by (simp_all add: origin_ok_def)
  note h = spelled_host [OF host] and chars = spelled_port_chars [OF assms(4) port]
  have no_at: "64 \<notin> set (h @ pt)" using h(3) chars by fastforce
  have after: "(if 64 \<in> set (ui @ h @ pt) then after_last 64 (ui @ h @ pt) else ui @ h @ pt) = h @ pt"
  proof (cases "ui = []")
    case False
    then have "ui = butlast ui @ [64]" using assms(2) by (metis userinfo_ok_def append_butlast_last_id)
    then have e: "ui @ h @ pt = butlast ui @ 64 # (h @ pt)" by (metis append.assoc append_Cons append_Nil)
    show ?thesis unfolding e using after_last_append [OF no_at] by simp
  qed (use no_at in simp)
  have split: "split_authority (ui @ h @ pt) = Option.bind (split_host (h @ pt)) port_of"
    unfolding split_authority_def after using h(1) by (simp add: Let_def)
  from assms(4) port show thesis
  proof (cases rule: spelled_port)
    case 1
    then show thesis using that [of None] split split_host_spelled(1) [OF h(4) h(1), of "[]"] h(1) assms(3)
      by (simp add: port_of_def)
  next
    case 2
    then show thesis using that [of None] split split_host_spelled(2) [OF h(4) h(1), of "[]"] h(1) assms(3)
      by (simp add: port_of_def)
  next
    case (3 p)
    have "\<forall>c\<in>set p. 48 \<le> c \<and> c \<le> 57" using 3(3) by (auto simp: list_all_iff is_digit_def)
    from split_host_spelled(2) [OF h(4) h(1) this] show thesis
      using that [of "Some (o_port a)"] split 3 h(1) assms(3) by (simp add: port_of_def)
  qed
qed

lemma parse_spelling: "spells url a \<Longrightarrow> parse_origin url = Some a"
proof (induction rule: spells.induct)
  case (1 a q ui h pt tl')
  have host: "host_ok (to_ascii_lowercase h)" and port: "o_port a \<le> 65535"
    and scheme: "to_ascii_lowercase q \<in> http_schemes"
    using 1 by (simp_all add: origin_ok_def)
  note h = spelled_host [OF host] and chars = spelled_port_chars [OF 1(5) port]
  let ?auth = "ui @ h @ pt"
  have ends: "set ?auth \<inter> authority_ends = {}"
    using 1(3) h(3) chars by (fastforce simp: userinfo_ok_def)
  have auth: "up_to authority_ends (?auth @ tl') = ?auth"
    by (rule up_to_append [OF ends]) (use 1(6) in \<open>simp add: tail_ok_def\<close>)
  have "clean (to_ascii_lowercase q)" using scheme
    by (elim insertE emptyE) (simp_all add: clean_def is_control_def is_whitespace_def)
  moreover have "clean SCHEME_SEPARATOR" by (simp add: clean_def is_control_def is_whitespace_def)
  moreover have "clean pt" using chars by (force simp: clean_def is_control_def is_whitespace_def)
  ultimately have cl: "clean (q @ SCHEME_SEPARATOR @ ?auth @ tl')"
    using clean_lowercase [of q] h(2) 1(3,6) by (simp add: userinfo_ok_def tail_ok_def del: u_simps)
  have http: "is_http_url (q @ SCHEME_SEPARATOR @ ?auth @ tl')"
    unfolding is_http_url_def http_rest_scheme [OF scheme] option.case auth using cl h(1) by simp
  obtain p where p: "split_authority ?auth = Some (o_host a, p)"
    "(case p of None \<Rightarrow> default_port (o_scheme a) | Some p \<Rightarrow> p) = o_port a"
    by (rule split_authority_spelled [OF 1(1,3,4,5)])
  have st: "authority_start (q @ SCHEME_SEPARATOR @ ?auth @ tl') = length q + 3"
    by (rule authority_start_scheme [OF scheme])
  have len: "length SCHEME_SEPARATOR = 3" by simp
  have cut: "take (authority_start (q @ SCHEME_SEPARATOR @ ?auth @ tl') - 3) (q @ SCHEME_SEPARATOR @ ?auth @ tl') = q"
    "drop (authority_start (q @ SCHEME_SEPARATOR @ ?auth @ tl')) (q @ SCHEME_SEPARATOR @ ?auth @ tl') = ?auth @ tl'"
    unfolding st using len by (simp_all del: u_simps)
  show ?case
    using http p unfolding parse_origin_def Let_def cut auth 1(2) by (simp del: u_simps append_assoc)
qed

lemma printed_spells:
  assumes "origin_ok a" "tail_ok t"
  shows "spells (origin_to_url a @ t) a"
proof -
  have low: "to_ascii_lowercase (o_scheme a) = o_scheme a" "to_ascii_lowercase (o_host a) = o_host a"
    using assms(1) by (auto simp: origin_ok_def host_ok_def to_ascii_lowercase_def ascii_lower_def)
  let ?pt = "if o_port a = default_port (o_scheme a) then [] else 58 # u (show_nat (o_port a))"
  have e: "origin_to_url a @ t = o_scheme a @ SCHEME_SEPARATOR @ ([] @ o_host a @ ?pt) @ t"
    by (simp add: origin_to_url_def)
  show ?thesis unfolding e
    by (rule spells.intros) (use assms low in \<open>simp_all add: userinfo_ok_def clean_def port_spellings_def\<close>)
qed

text \<open>What the parser accepts: the form of the URL and of the origin.\<close>

lemma parse_u16_bound: "parse_u16 s = Some n \<Longrightarrow> n \<le> 65535"
  by (simp add: parse_u16_def Let_def split: if_splits)

lemma parse_origin_http: "parse_origin url = Some a \<Longrightarrow> is_http_url url"
  by (simp add: parse_origin_def split: if_splits)

lemma same_origin_parsed:
  "same_origin f s \<longleftrightarrow> (\<exists>a. parse_origin f = Some a \<and> parse_origin s = Some a)"
  by (auto simp: same_origin_def split: option.splits)

lemma http_not_internal: "is_http_url url \<Longrightarrow> \<not> is_internal_layer_url url"
proof -
  assume h: "is_http_url url"
  then obtain rest where "http_rest url = Some rest" by (auto simp: is_http_url_def split: option.splits)
  then obtain q where url: "url = q @ SCHEME_SEPARATOR @ rest" "to_ascii_lowercase q \<in> http_schemes"
    by (rule http_rest_form)
  have "q \<noteq> []" using url(2) by auto
  then obtain c q' where q: "q = c # q'" by (cases q) auto
  have c: "ascii_lower c = 104" using url(2) by (auto simp: q to_ascii_lowercase_def)
  then show ?thesis
    by (simp add: url(1) q is_internal_layer_url_def has_prefix_ci_def eq_ignore_ascii_case_def
        to_ascii_lowercase_def APP_SCHEME_def BLANK_URLS_def ascii_lower_def)
qed

lemma bridge_for_internal_only: "\<not> is_http_url frame \<Longrightarrow> bridge_allowed frame saved \<longleftrightarrow> is_internal_layer_url frame"
  by (simp add: bridge_allowed_def same_origin_def parse_origin_def)

text \<open>
  C3: The native bridge is handed to exactly the saved server's origin. For two addresses that
  spell well-formed origins in any of the ways a URL allows (scheme and host in any case, user
  information, the default port left out or empty, any path, query or fragment), the frame
  gets the bridge iff the two origins are the same one.
\<close>

theorem bridge_is_origin_equality:
  "spells frame a \<Longrightarrow> spells saved b \<Longrightarrow> bridge_allowed frame saved \<longleftrightarrow> a = b"
proof -
  assume s: "spells frame a" "spells saved b"
  have "parse_origin frame = Some a" "parse_origin saved = Some b" using s parse_spelling by blast+
  then show "bridge_allowed frame saved \<longleftrightarrow> a = b"
    using http_not_internal [OF parse_origin_http] by (simp add: bridge_allowed_def same_origin_def)
qed

lemmas url_evals = origin_ok_def host_ok_def tail_ok_def userinfo_ok_def clean_def is_control_def
  is_whitespace_def to_ascii_lowercase_def ascii_lower_def default_port_def port_spellings_def

theorem bridge_is_origin_equality_witness:
  "bridge_allowed (u ''HTTP://me@Media.Lan:/web/'') (u ''http://media.lan'') \<and>
   \<not> bridge_allowed (u ''http://media.lan@evil.lan/'') (u ''http://media.lan'')"
proof
  let ?a = "\<lparr>o_scheme = u ''http'', o_host = u ''media.lan'', o_port = 80\<rparr>"
  let ?e = "\<lparr>o_scheme = u ''http'', o_host = u ''evil.lan'', o_port = 80\<rparr>"
  have saved: "spells (u ''http://media.lan'') ?a"
    using spells.intros [of ?a "u ''http''" "[]" "u ''media.lan''" "[]" "[]"] by (simp add: url_evals)
  have "spells (u ''HTTP://me@Media.Lan:/web/'') ?a"
    using spells.intros [of ?a "u ''HTTP''" "u ''me@''" "u ''Media.Lan''" "[58]" "u ''/web/''"]
    by (simp add: url_evals)
  from bridge_is_origin_equality [OF this saved]
  show "bridge_allowed (u ''HTTP://me@Media.Lan:/web/'') (u ''http://media.lan'')" by simp
  have "spells (u ''http://media.lan@evil.lan/'') ?e"
    using spells.intros [of ?e "u ''http''" "u ''media.lan@''" "u ''evil.lan''" "[]" "u ''/''"]
    by (simp add: url_evals)
  from bridge_is_origin_equality [OF this saved]
  show "\<not> bridge_allowed (u ''http://media.lan@evil.lan/'') (u ''http://media.lan'')" by simp
qed

text \<open>
  Printing an origin and parsing it back is the identity, with any path, query or fragment
  behind: the address the refusal message shows can be pasted and names the same server.
\<close>

theorem origin_print_parse:
  "origin_ok a \<Longrightarrow> tail_ok t \<Longrightarrow> parse_origin (origin_to_url a @ t) = Some a"
  by (rule parse_spelling [OF printed_spells])

theorem origin_print_parse_witness:
  "parse_origin (u ''https://[::1]:8096/web?x=1'') =
     Some \<lparr>o_scheme = u ''https'', o_host = u ''[::1]'', o_port = 8096\<rparr>"
  using origin_print_parse [of "\<lparr>o_scheme = u ''https'', o_host = u ''[::1]'', o_port = 8096\<rparr>" "u ''/web?x=1''"]
  by (simp add: origin_ok_def host_ok_def tail_ok_def clean_def is_control_def is_whitespace_def
      to_ascii_lowercase_def ascii_lower_def origin_to_url_def default_port_def show_nat.simps)

section \<open>Server base, redirects and candidates\<close>

lemma up_to_take:
  assumes "n < length s" "s ! n \<in> cs"
  shows "up_to cs (take n s) = up_to cs s"
proof -
  have s: "s = take n s @ s ! n # drop (Suc n) s" by (rule id_take_nth_drop [OF assms(1)])
  have "takeWhile (\<lambda>c. c \<notin> cs) (take n s @ s ! n # drop (Suc n) s) = takeWhile (\<lambda>c. c \<notin> cs) (take n s)"
  proof (cases "\<exists>x\<in>set (take n s). x \<in> cs")
    case True
    then show ?thesis by (auto simp: takeWhile_append1)
  next
    case False
    then have "takeWhile (\<lambda>c. c \<notin> cs) (take n s) = take n s" by (auto simp: takeWhile_eq_all_conv)
    moreover have "takeWhile (\<lambda>c. c \<notin> cs) (take n s @ s ! n # drop (Suc n) s) =
        take n s @ takeWhile (\<lambda>c. c \<notin> cs) (s ! n # drop (Suc n) s)"
      by (rule takeWhile_append2) (use False in auto)
    moreover have "takeWhile (\<lambda>c. c \<notin> cs) (s ! n # drop (Suc n) s) = []" using assms(2) by simp
    ultimately show ?thesis by (simp only: append_Nil2)
  qed
  then show ?thesis using s by (simp add: up_to_def)
qed

lemma up_to_up_to: "ds \<subseteq> cs \<Longrightarrow> up_to cs (up_to ds s) = up_to cs s"
  unfolding up_to_def by (induction s) auto

lemma rfind_sub_at:
  "rfind_sub p s = Some i \<Longrightarrow> prefix p (drop i s)"
proof (induction s arbitrary: i)
  case Nil
  then show ?case by (auto split: if_splits)
next
  case (Cons c s)
  then show ?case by (auto split: option.splits if_splits)
qed

text \<open>The origin depends on nothing behind the authority, except that it is clean.\<close>

lemma parse_origin_cut:
  assumes "to_ascii_lowercase q \<in> http_schemes" "up_to authority_ends r = up_to authority_ends r'"
    "clean r" "clean r'"
  shows "parse_origin (q @ SCHEME_SEPARATOR @ r) = parse_origin (q @ SCHEME_SEPARATOR @ r')"
    "is_http_url (q @ SCHEME_SEPARATOR @ r) \<longleftrightarrow> is_http_url (q @ SCHEME_SEPARATOR @ r')"
proof -
  show http: "is_http_url (q @ SCHEME_SEPARATOR @ r) \<longleftrightarrow> is_http_url (q @ SCHEME_SEPARATOR @ r')"
    unfolding is_http_url_def http_rest_scheme [OF assms(1)] option.case
    using assms(2-4) by (simp del: u_simps)
  have len: "length SCHEME_SEPARATOR = 3" by simp
  have cut: "take (authority_start (q @ SCHEME_SEPARATOR @ x) - 3) (q @ SCHEME_SEPARATOR @ x) = q"
    "drop (authority_start (q @ SCHEME_SEPARATOR @ x)) (q @ SCHEME_SEPARATOR @ x) = x" for x
    unfolding authority_start_scheme [OF assms(1)] using len by (simp_all del: u_simps)
  show "parse_origin (q @ SCHEME_SEPARATOR @ r) = parse_origin (q @ SCHEME_SEPARATOR @ r')"
    unfolding parse_origin_def Let_def cut http assms(2) by (rule refl)
qed

lemma extract_base_form:
  assumes q: "to_ascii_lowercase q \<in> http_schemes"
  obtains r' where "extract_base_url (q @ SCHEME_SEPARATOR @ rest) = q @ SCHEME_SEPARATOR @ r'"
    "up_to authority_ends r' = up_to authority_ends rest" "set r' \<subseteq> set rest"
proof -
  let ?url = "q @ SCHEME_SEPARATOR @ rest"
  have len: "length SCHEME_SEPARATOR = 3" by simp
  note st = authority_start_scheme [OF q, of rest]
  have dr: "drop (length q + 3) ?url = rest" "take (length q + 3) ?url = q @ SCHEME_SEPARATOR"
    "take (length q + 3 + n) ?url = q @ SCHEME_SEPARATOR @ take n rest" for n
    using len by (simp_all del: u_simps)
  show thesis
  proof (cases "rfind_sub (u ''/web'') (to_ascii_lowercase rest)")
    case None
    have "extract_base_url ?url = q @ SCHEME_SEPARATOR @ up_to {47} rest"
      unfolding extract_base_url_def Let_def st dr None by simp
    moreover have "up_to authority_ends (up_to {47} rest) = up_to authority_ends rest" by (rule up_to_up_to) simp
    ultimately show thesis using that up_to_set [of _ "{47}" rest] by blast
  next
    case (Some n)
    have "extract_base_url ?url = q @ SCHEME_SEPARATOR @ take n rest"
      unfolding extract_base_url_def Let_def st dr Some by simp
    moreover have "n < length rest" "rest ! n = 47"
    proof -
      from rfind_sub_at [OF Some] obtain t where t: "drop n (to_ascii_lowercase rest) = u ''/web'' @ t"
        by (auto simp: prefix_def)
      then show l: "n < length rest" by (cases "n < length rest") simp_all
      from t have "to_ascii_lowercase rest ! n = 47" using l by (simp add: Cons_nth_drop_Suc [symmetric])
      then show "rest ! n = 47" using l by (simp add: to_ascii_lowercase_def ascii_lower_def split: if_splits)
    qed
    then have "up_to authority_ends (take n rest) = up_to authority_ends rest" by (intro up_to_take) simp_all
    ultimately show thesis using that set_take_subset [of n rest] by blast
  qed
qed

lemma base_keeps_origin:
  assumes "is_http_url url"
  shows "parse_origin (extract_base_url url) = parse_origin url" "is_http_url (extract_base_url url)"
proof -
  obtain rest where r: "http_rest url = Some rest" and cl: "clean url"
    using assms by (auto simp: is_http_url_def split: option.splits)
  then obtain q where url: "url = q @ SCHEME_SEPARATOR @ rest" and q: "to_ascii_lowercase q \<in> http_schemes"
    using http_rest_form by blast
  have clr: "clean rest" using cl by (simp add: url del: u_simps)
  obtain r' where r': "extract_base_url url = q @ SCHEME_SEPARATOR @ r'"
      "up_to authority_ends r' = up_to authority_ends rest" "set r' \<subseteq> set rest"
    unfolding url by (rule extract_base_form [OF q])
  have clr': "clean r'" using r'(3) clr by (auto simp: clean_def)
  show "parse_origin (extract_base_url url) = parse_origin url" "is_http_url (extract_base_url url)"
    unfolding r'(1) using parse_origin_cut [OF q r'(2) clr' clr] assms unfolding url by simp_all
qed

text \<open>
  Where a probe may end up when it asked for \<open>requested\<close> and the redirect chain ended at
  \<open>resolved\<close>: at what was asked for, or at the same host over TLS.
\<close>

definition may_resolve :: "ustring \<Rightarrow> ustring \<Rightarrow> bool" where
  "may_resolve requested resolved \<longleftrightarrow>
     resolved = requested \<or>
     (case (parse_origin requested, parse_origin resolved) of
        (Some a, Some b) \<Rightarrow> o_host b = o_host a \<and> o_scheme a = u ''http'' \<and> o_scheme b = u ''https''
      | _ \<Rightarrow> False)"

lemma upgrade_may_resolve:
  "classify_probe_redirect requested final = Upgrade v \<Longrightarrow> may_resolve requested v \<and> is_http_url v"
  using parse_origin_http
  by (auto simp: classify_probe_redirect_def may_resolve_def split: option.splits if_splits)

lemma may_resolve_base:
  assumes "may_resolve requested resolved" "is_http_url requested" "is_http_url resolved"
  shows "parse_origin (extract_base_url resolved) = parse_origin requested \<or>
    (\<exists>a b. parse_origin requested = Some a \<and> parse_origin (extract_base_url resolved) = Some b \<and>
       o_host b = o_host a \<and> o_scheme a = u ''http'' \<and> o_scheme b = u ''https'')"
  using assms base_keeps_origin(1) [OF assms(3)]
  by (auto simp: may_resolve_def split: option.splits)

text \<open>The candidates of an address: all of them web addresses, one if the scheme was typed.\<close>

lemma candidates_http: "c \<in> set (probe_candidates x) \<Longrightarrow> is_http_url c"
  by (auto simp: probe_candidates_def Let_def split: if_splits)

lemma http_rest_u:
  "http_rest (u ''http://'' @ t) = Some t" "http_rest (u ''https://'' @ t) = Some t"
proof -
  have q: "to_ascii_lowercase (u ''http'') \<in> http_schemes" "to_ascii_lowercase (u ''https'') \<in> http_schemes"
    by (simp_all add: to_ascii_lowercase_def ascii_lower_def)
  show "http_rest (u ''http://'' @ t) = Some t" "http_rest (u ''https://'' @ t) = Some t"
    using http_rest_scheme [OF q(1), of t] http_rest_scheme [OF q(2), of t] by simp_all
qed

lemma lower_sep: "ascii_lower c = 58 \<longleftrightarrow> c = 58" "ascii_lower c = 47 \<longleftrightarrow> c = 47"
  by (auto simp: ascii_lower_def split: if_splits)

lemma prefix3: "prefix [a, b, c] s \<longleftrightarrow> (case s of x # y # z # t \<Rightarrow> x = a \<and> y = b \<and> z = c | _ \<Rightarrow> False)"
  by (auto simp: prefix_def split: list.splits)

lemma contains_separator_lower: "contains (to_ascii_lowercase s) [58, 47, 47] \<longleftrightarrow> contains s [58, 47, 47]"
proof -
  have "find_sub [58, 47, 47] (to_ascii_lowercase s) = find_sub [58, 47, 47] s"
  proof (induction s)
    case (Cons c s)
    have "prefix [58, 47, 47] (to_ascii_lowercase (c # s)) \<longleftrightarrow> prefix [58, 47, 47] (c # s)"
      unfolding prefix3 to_ascii_lowercase_def list.simps
      by (auto simp: lower_sep split: list.splits)
    with Cons show ?case by (simp add: to_ascii_lowercase_def)
  qed (simp add: to_ascii_lowercase_def)
  then show ?thesis by (simp add: contains_def)
qed

lemma prefix_ci_lower:
  "has_prefix_ci p s \<Longrightarrow> to_ascii_lowercase (p @ drop (length p) s) = to_ascii_lowercase s"
  using lowercase_append(1) [of "take (length p) s" "drop (length p) s"]
  by (simp add: has_prefix_ci_def eq_ignore_ascii_case_def)

lemma bare_candidates:
  assumes "\<not> scheme_was_typed x" "probe_candidates x \<noteq> []"
  obtains t where "probe_candidates x = [u ''https://'' @ t, u ''http://'' @ t]"
proof -
  let ?n = "normalize_input x"
  define c where "c = (if has_prefix_ci (u ''http:'') (trim x) then u ''http:'' @ drop 5 (trim x)
                   else if has_prefix_ci (u ''https:'') (trim x) then u ''https:'' @ drop 6 (trim x)
                   else trim x)"
  have sep: "SCHEME_SEPARATOR = [58, 47, 47]" and len: "length (u ''http:'') = 5" "length (u ''https:'') = 6"
    by simp_all
  have "to_ascii_lowercase c = to_ascii_lowercase (trim x)"
    unfolding c_def using prefix_ci_lower [of "u ''http:''" "trim x"] prefix_ci_lower [of "u ''https:''" "trim x"]
    unfolding len by (simp del: u_simps)
  then have "\<not> contains c SCHEME_SEPARATOR"
    using assms(1) contains_separator_lower unfolding scheme_was_typed_def sep by metis
  then have n: "?n = u ''http://'' @ c"
    unfolding normalize_input_def Let_def c_def [symmetric] by (simp only: if_False)
  have http: "is_http_url ?n" using assms(2) unfolding probe_candidates_def Let_def by presburger
  have up: "is_http_url (u ''https://'' @ c)"
    using http unfolding is_http_url_def n http_rest_u option.case
    by (auto simp: clean_def is_control_def is_whitespace_def)
  have drop7: "drop 7 (u ''http://'' @ c) = c" by simp
  have "probe_candidates x = [u ''https://'' @ c, u ''http://'' @ c]"
    using up http assms(1) unfolding probe_candidates_def Let_def n drop7 by (simp only: if_True if_False not_True_eq_False)
  then show thesis by (rule that)
qed

text \<open>The scheme test on a lower-cased URL, and a path appended to a web address.\<close>

lemma base_scheme:
  assumes "http_rest url = Some rest"
  shows "prefix (u ''https://'') (to_ascii_lowercase (extract_base_url url)) \<longleftrightarrow>
         prefix (u ''https://'') (to_ascii_lowercase url)"
proof -
  obtain q where url: "url = q @ SCHEME_SEPARATOR @ rest" and q: "to_ascii_lowercase q \<in> http_schemes"
    using assms by (rule http_rest_form)
  obtain r' where r': "extract_base_url url = q @ SCHEME_SEPARATOR @ r'"
    unfolding url by (rule extract_base_form [OF q])
  have "prefix (u ''https://'') (to_ascii_lowercase (q @ SCHEME_SEPARATOR @ x)) \<longleftrightarrow>
      to_ascii_lowercase q = u ''https''" for x
  proof -
    have "to_ascii_lowercase (SCHEME_SEPARATOR @ x) = 58 # 47 # 47 # to_ascii_lowercase x"
      by (simp add: to_ascii_lowercase_def ascii_lower_def)
    then show ?thesis using q unfolding lowercase_append(1) by auto
  qed
  then show ?thesis unfolding r' unfolding url by (simp only:)
qed

lemma http_url_append:
  assumes "is_http_url base" "clean t"
  shows "is_http_url (base @ t)"
proof -
  obtain rest where r: "http_rest base = Some rest" "up_to authority_ends rest \<noteq> []" "clean base"
    using assms(1) by (auto simp: is_http_url_def split: option.splits)
  then obtain q where b: "base = q @ SCHEME_SEPARATOR @ rest" and q: "to_ascii_lowercase q \<in> http_schemes"
    using http_rest_form by blast
  have bt: "base @ t = q @ SCHEME_SEPARATOR @ (rest @ t)" by (simp add: b del: u_simps)
  have "up_to authority_ends (rest @ t) \<noteq> []"
    using r(2) by (cases rest) (simp_all add: up_to_def split: if_splits)
  then show ?thesis using r(3) assms(2) unfolding is_http_url_def bt http_rest_scheme [OF q] option.case
    by (simp add: b del: u_simps)
qed

section \<open>What the server is offered\<close>

lemma join_filter_length: "length (join (filter f xs)) \<le> length (join xs)"
proof (induction xs rule: join.induct)
  case (3 s t ts)
  have cons: "length (join (s # ys)) \<le> length s + 1 + length (join ys)" for ys
    by (cases ys) simp_all
  show ?case
  proof (cases "f s")
    case True
    have "length (join (s # filter f (t # ts))) \<le> length s + 1 + length (join (filter f (t # ts)))"
      by (rule cons)
    with 3 True show ?thesis by (simp del: filter.simps(2) add: filter.simps(2) [of f s])
  next
    case False
    with 3 show ?thesis by (simp del: filter.simps(2) add: filter.simps(2) [of f s])
  qed
qed (simp_all)

lemma preferred_length: "length (preferred_csv preferred available) \<le> length (join preferred)"
  by (simp add: preferred_csv_def join_filter_length)

lemma audio_lengths: "length (join TRANSCODE_AUDIO_CODEC_MP4) = 37" "length (join TRANSCODE_AUDIO_CODEC_TS) = 16"
  by (simp_all add: TRANSCODE_AUDIO_CODEC_MP4_def TRANSCODE_AUDIO_CODEC_TS_def)

lemma push_new_props: "distinct out \<Longrightarrow> distinct (push_new s out)"
  "set (push_new s out) = set out \<union> (if s = [] then {} else {s})"
  by (auto simp: push_new_def)

definition pieces :: "ustring list \<Rightarrow> ustring list" where
  "pieces inputs = concat (map (split_on 44) inputs)"

definition renamed_to :: "(ustring \<times> ustring) list \<Rightarrow> ustring \<Rightarrow> ustring set" where
  "renamed_to renames p =
     (case find (\<lambda>(from_name, _). from_name = p) renames of None \<Rightarrow> {} | Some r \<Rightarrow> {snd r})"

lemma expand_piece_props:
  "distinct out \<Longrightarrow> distinct (expand_piece renames p out)"
  "set (expand_piece renames p out) = set out \<union> (insert p (renamed_to renames p) - {[]})"
  by (auto simp: expand_piece_def renamed_to_def Let_def push_new_props split: option.splits)

lemma expand_props:
  "distinct (expand_with_renames inputs renames)"
  "set (expand_with_renames inputs renames) =
     (\<Union>p\<in>set (pieces inputs). insert p (renamed_to renames p)) - {[]}"
proof -
  have "distinct (fold (expand_piece renames) ps out) \<and>
      set (fold (expand_piece renames) ps out) =
        set out \<union> ((\<Union>p\<in>set ps. insert p (renamed_to renames p)) - {[]})" if "distinct out" for ps out
    using that
  proof (induction ps arbitrary: out)
    case (Cons p ps)
    from Cons.IH [OF expand_piece_props(1) [OF Cons.prems]] show ?case
      by (auto simp: expand_piece_props)
  qed simp
  from this [of "[]"] show "distinct (expand_with_renames inputs renames)"
    "set (expand_with_renames inputs renames) =
     (\<Union>p\<in>set (pieces inputs). insert p (renamed_to renames p)) - {[]}"
    by (simp_all add: expand_with_renames_def pieces_def)
qed

text \<open>
  The device profile tells the server what the player can do. Direct play is offered unless
  transcoding is forced, and then only the transport-stream fallback remains as a video target;
  a transcoding target never lists more audio codecs than the server's URL column holds (40
  characters); and the subtitle formats are exactly the decoders' names and their server
  aliases, each once embedded and once external.
\<close>

theorem profile_offers:
  "let p = build_device_profile decoders demuxers nm force;
       names = map sp_format (filter (\<lambda>s. sp_method s = Deliver_Embed) (pf_subtitles p))
   in (pf_direct_play p = [] \<longleftrightarrow> force) \<and>
      filter (\<lambda>t. tp_type t = Type_Video) (pf_transcoding p) =
        drop (if force then 1 else 0)
          (filter (\<lambda>t. tp_type t = Type_Video)
             (pf_transcoding (build_device_profile decoders demuxers nm False))) \<and>
      list_all (\<lambda>t. length (case tp_audio_codec t of None \<Rightarrow> [] | Some s \<Rightarrow> s) \<le> 40) (pf_transcoding p) \<and>
      distinct names \<and>
      map sp_format (filter (\<lambda>s. sp_method s = Deliver_External) (pf_subtitles p)) = names \<and>
      set names = (\<Union>d\<in>set (pieces (codecs_of Kind_Subtitle decoders)).
                     insert d (renamed_to SUBTITLE_RENAMES d)) - {[]}"
proof -
  have flt: "map sp_format (filter (\<lambda>s. sp_method s = m) (concat (map (\<lambda>f.
       [\<lparr>sp_format = f, sp_method = Deliver_Embed\<rparr>, \<lparr>sp_format = f, sp_method = Deliver_External\<rparr>]) fs))) = fs" for m fs
    by (induction fs) (cases m; simp)+
  note len = preferred_length [of TRANSCODE_AUDIO_CODEC_MP4 "codecs_of Kind_Audio decoders"]
    preferred_length [of TRANSCODE_AUDIO_CODEC_TS "codecs_of Kind_Audio decoders"]
  have names: "map sp_format (filter (\<lambda>s. sp_method s = m)
      (pf_subtitles (build_device_profile decoders demuxers nm force))) =
      expand_with_renames (codecs_of Kind_Subtitle decoders) SUBTITLE_RENAMES" for m
    by (simp add: build_device_profile_def Let_def flt)
  show ?thesis
    unfolding Let_def names expand_props
    using len by (simp add: build_device_profile_def Let_def audio_lengths expand_props)
qed

end
