(* ===== verification/Connect.thy ===== *)
theory Connect
  imports Jellyfin
begin

text \<open>
  The connect screen's browser-process half (\<open>jfn_cef/src/business_overlay.rs\<close>): the probe of a
  typed server address - a HEAD to see where it resolves, a GET of the server's public
  information, candidate by candidate - with its generations, its timeout and its
  cancellation, and the other messages of the overlay page. CEF's part is in the events:
  whether a request could be created, where its redirect chain ended, whether it succeeded
  with status 200. The JSON check of the body is the parameter \<open>valid\<close>.
\<close>

section \<open>Input rules\<close>

definition PROBE_BODY_LIMIT :: nat where "PROBE_BODY_LIMIT = 64 * 1024"

definition append_capped :: "nat list \<Rightarrow> nat list \<Rightarrow> nat \<Rightarrow> nat list \<times> bool" where
  "append_capped body data cap =
     (let room = cap - length body
      in if room = 0 then (body, False)
         else let n = min room (length data) in (body @ take n data, n = length data))"

definition HTTPS_ATTEMPT_TIMEOUT_MS :: int where "HTTPS_ATTEMPT_TIMEOUT_MS = 2000"

definition NOTICE_INSECURE :: ustring where "NOTICE_INSECURE = u ''insecure-http''"

definition probe_urls :: "ustring \<Rightarrow> ustring list" where
  "probe_urls user_input = filter is_http_url (probe_candidates user_input)"

definition probe_notice :: "ustring \<Rightarrow> bool \<Rightarrow> ustring" where
  "probe_notice base fell_back_to_http =
     (if fell_back_to_http \<and> \<not> prefix (u ''https://'') (to_ascii_lowercase base) then NOTICE_INSECURE else [])"

definition navigable_url :: "ustring \<Rightarrow> ustring option" where
  "navigable_url candidate = (if is_http_url candidate then Some candidate else None)"

definition storable_server_url :: "ustring \<Rightarrow> ustring option" where
  "storable_server_url candidate = (if candidate = [] \<or> is_http_url candidate then Some candidate else None)"

definition system_info_url :: "ustring \<Rightarrow> ustring" where
  "system_info_url base = base @ u ''/System/Info/Public''"

section \<open>State\<close>

datatype probe_phase = Head_Phase | Get_Phase

text \<open>\<open>ProbeState\<close>, with the address the page asked about from the callback's closure.\<close>

record probe =
  pr_user :: ustring
  pr_candidates :: "ustring list"
  pr_index :: nat
  pr_phase :: probe_phase
  pr_base :: ustring
  pr_body :: "nat list"
  pr_timed_out :: bool
  pr_refusal :: "ustring option"
  pr_callback :: bool

abbreviation NO_PROBE :: nat where "NO_PROBE \<equiv> 0"

text \<open>
  The overlay's slot (\<open>INSTANCE\<close>: present or not, the generation waited on, whether a request
  is in it), the generation counter, and the probes the outstanding requests keep alive.
\<close>

record connect =
  instance_up :: bool
  active_probe_id :: nat
  active_probe :: bool
  next_probe_id :: nat
  probes :: "nat \<Rightarrow> probe option"

definition new_connect :: connect where
  "new_connect = \<lparr>instance_up = True, active_probe_id = NO_PROBE, active_probe = False,
     next_probe_id = 1, probes = (\<lambda>_. None)\<rparr>"

text \<open>
  What a step does outside: requests of a probe's generation, the answer to the page (with
  the generation whose callback sent it, \<open>NO_PROBE\<close> for a direct one), the settings (whose
  saved server and setting values live in \<open>jfn_config\<close>) and the main browser.
\<close>

datatype action =
    Request_Head nat ustring
  | Request_Get nat ustring
  | Cancel_Request
  | Arm_Timeout nat nat int
  | Answer nat ustring bool ustring ustring
  | Set_Server_Url ustring
  | Settings_Save
  | Settings_Save_Async
  | Load_Main ustring
  | Reset_Main
  | Activate_Main
  | Theme_Overlay_Dismissed
  | Send_Saved_Server_Url
  | Apply_Setting ustring ustring "ustring option"

definition new_probe :: "ustring \<Rightarrow> ustring list \<Rightarrow> probe" where
  "new_probe user cands =
     \<lparr>pr_user = user, pr_candidates = cands, pr_index = 0, pr_phase = Head_Phase, pr_base = [], pr_body = [],
      pr_timed_out = False, pr_refusal = None, pr_callback = True\<rparr>"

definition probe_url :: "probe \<Rightarrow> ustring" where
  "probe_url p = (if pr_index p < length (pr_candidates p) then pr_candidates p ! pr_index p else [])"

definition fell_back :: "probe \<Rightarrow> bool" where
  "fell_back p \<longleftrightarrow> 0 < pr_index p"

section \<open>The slot\<close>

definition cancel_active_probe :: "connect \<Rightarrow> connect \<times> action list" where
  "cancel_active_probe s =
     (if instance_up s
      then (s\<lparr>active_probe_id := NO_PROBE, active_probe := False\<rparr>, if active_probe s then [Cancel_Request] else [])
      else (s, []))"

definition probe_is_current :: "nat \<Rightarrow> connect \<Rightarrow> bool" where
  "probe_is_current pid s \<longleftrightarrow> instance_up s \<and> active_probe_id s = pid"

definition store_probe_request :: "nat \<Rightarrow> connect \<Rightarrow> connect" where
  "store_probe_request pid s = (if probe_is_current pid s then s\<lparr>active_probe := True\<rparr> else s)"

definition finish_probe :: "nat \<Rightarrow> connect \<Rightarrow> connect" where
  "finish_probe pid s =
     (if probe_is_current pid s then s\<lparr>active_probe_id := NO_PROBE, active_probe := False\<rparr> else s)"

section \<open>The probe\<close>

text \<open>\<open>made\<close>: whether CEF created the request.\<close>

definition start_candidate :: "nat \<Rightarrow> probe \<Rightarrow> bool \<Rightarrow> connect \<Rightarrow> connect \<times> action list" where
  "start_candidate pid p made s =
     (if probe_url p = [] then (finish_probe pid s, [])
      else if \<not> made then (finish_probe pid s, [])
      else (store_probe_request pid s,
            Request_Head pid (probe_url p) #
            (if 1 < length (pr_candidates p) \<and> pr_index p = 0
             then [Arm_Timeout pid 0 HTTPS_ATTEMPT_TIMEOUT_MS] else [])))"

definition on_probe_timeout :: "nat \<Rightarrow> nat \<Rightarrow> connect \<Rightarrow> connect \<times> action list" where
  "on_probe_timeout pid index s =
     (case probes s pid of None \<Rightarrow> (s, [])
      | Some p \<Rightarrow>
          if pr_index p \<noteq> index \<or> \<not> pr_callback p then (s, [])
          else let s = s\<lparr>probes := (probes s)(pid \<mapsto> p\<lparr>pr_timed_out := True\<rparr>)\<rparr>
               in if \<not> probe_is_current pid s then (s, [])
                  else (s\<lparr>active_probe := False\<rparr>, if active_probe s then [Cancel_Request] else []))"

text \<open>How a request ended: its final URL (empty without a response), success with status 200.\<close>

record completion =
  final_url :: ustring
  success_200 :: bool

text \<open>The HEAD phase: the probe afterwards, and the URL of the GET if it goes on.\<close>

definition head_stage :: "completion \<Rightarrow> probe \<Rightarrow> probe \<times> ustring option" where
  "head_stage c p =
     (if pr_phase p = Head_Phase \<and> \<not> pr_timed_out p
      then let requested = probe_url p;
               (p, resolved) =
                 (case classify_probe_redirect requested (final_url c) of
                    Keep \<Rightarrow> (p, requested)
                  | Upgrade upgraded \<Rightarrow> (p, upgraded)
                  | Refuse target \<Rightarrow> (p\<lparr>pr_refusal := Some (redirect_refused_message target)\<rparr>, []))
           in if resolved = [] then (p, None)
              else let base = extract_base_url resolved
                   in (p\<lparr>pr_base := base, pr_phase := Get_Phase\<rparr>, Some (system_info_url base))
      else (p, None))"

datatype outcome = Next | Done bool ustring ustring bool

definition probe_outcome :: "(nat list \<Rightarrow> bool) \<Rightarrow> completion \<Rightarrow> probe \<Rightarrow> probe \<times> outcome" where
  "probe_outcome valid c p =
     (let ok = pr_phase p = Get_Phase \<and> \<not> pr_timed_out p \<and> pr_refusal p = None \<and>
               success_200 c \<and> valid (pr_body p)
      in if ok then (p\<lparr>pr_callback := False\<rparr>,
                     Done True (pr_base p) (probe_notice (pr_base p) (fell_back p)) (pr_callback p))
         else if pr_refusal p = None \<and> pr_index p + 1 < length (pr_candidates p)
         then (p\<lparr>pr_index := pr_index p + 1, pr_phase := Head_Phase, pr_base := [], pr_body := [],
                 pr_timed_out := False\<rparr>, Next)
         else (p\<lparr>pr_callback := False\<rparr>,
               Done False (pr_base p) (case pr_refusal p of None \<Rightarrow> [] | Some m \<Rightarrow> m) (pr_callback p)))"

definition on_complete ::
    "(nat list \<Rightarrow> bool) \<Rightarrow> nat \<Rightarrow> completion \<Rightarrow> bool \<Rightarrow> bool \<Rightarrow> connect \<Rightarrow> connect \<times> action list" where
  "on_complete valid pid c made_get made_head s =
     (case probes s pid of None \<Rightarrow> (s, [])
      | Some p \<Rightarrow>
          if \<not> probe_is_current pid s then (s, [])
          else
            let (p, next_request) = head_stage c p
            in case (next_request, made_get) of
                 (Some url, True) \<Rightarrow>
                   (store_probe_request pid (s\<lparr>probes := (probes s)(pid \<mapsto> p)\<rparr>), [Request_Get pid url])
               | _ \<Rightarrow>
                   let (p, out) = probe_outcome valid c p;
                       s = s\<lparr>probes := (probes s)(pid \<mapsto> p)\<rparr>
                   in case out of
                        Next \<Rightarrow> start_candidate pid p made_head s
                      | Done success base detail callback \<Rightarrow>
                          (finish_probe pid s,
                           if callback
                           then [Answer pid (pr_user p) success (if success then base else pr_user p) detail]
                           else []))"

definition on_download_data :: "nat \<Rightarrow> nat list \<Rightarrow> connect \<Rightarrow> connect" where
  "on_download_data pid data s =
     (case probes s pid of None \<Rightarrow> s
      | Some p \<Rightarrow>
          if pr_phase p = Get_Phase \<and> data \<noteq> []
          then s\<lparr>probes := (probes s)(pid \<mapsto> p\<lparr>pr_body := fst (append_capped (pr_body p) data PROBE_BODY_LIMIT)\<rparr>)\<rparr>
          else s)"

text \<open>\<open>start_probe\<close> and \<open>ServerProbeClient::start\<close>: the generation is claimed first.\<close>

definition start_probe :: "ustring \<Rightarrow> ustring list \<Rightarrow> bool \<Rightarrow> connect \<Rightarrow> connect \<times> action list" where
  "start_probe user cands made s =
     (let pid = next_probe_id s; p = new_probe user cands;
          s = s\<lparr>next_probe_id := pid + 1, probes := (probes s)(pid \<mapsto> p)\<rparr>;
          s = (if instance_up s then s\<lparr>active_probe_id := pid, active_probe := False\<rparr> else s)
      in start_candidate pid p made s)"

section \<open>The overlay page's messages\<close>

definition check_connectivity :: "ustring \<Rightarrow> bool \<Rightarrow> connect \<Rightarrow> connect \<times> action list" where
  "check_connectivity url made s =
     (let (s, acts) = cancel_active_probe s; cands = probe_urls url
      in if cands = [] then (s, acts @ [Answer NO_PROBE url False url []])
         else let (s, acts') = start_probe url cands made s in (s, acts @ acts'))"

datatype event =
    Get_Saved_Server_Url
  | Set_Setting_Value ustring ustring "ustring option"
  | Navigate_Main ustring
  | Save_Server_Url ustring
  | Dismiss_Overlay bool
  | Check_Connectivity ustring bool
  | Cancel_Connectivity
  | Before_Close
  | Request_Complete nat completion bool bool
  | Download_Data nat "nat list"
  | Probe_Timeout nat nat

definition connect_step :: "(nat list \<Rightarrow> bool) \<Rightarrow> connect \<Rightarrow> event \<Rightarrow> connect \<times> action list" where
  "connect_step valid s e =
     (case e of
        Get_Saved_Server_Url \<Rightarrow> (s, [Send_Saved_Server_Url])
      | Set_Setting_Value section key val \<Rightarrow> (s, [Apply_Setting section key val])
      | Navigate_Main url \<Rightarrow>
          (case navigable_url url of None \<Rightarrow> (s, [])
           | Some url \<Rightarrow> (s, [Set_Server_Url url, Settings_Save] @ (if instance_up s then [Load_Main url] else [])))
      | Save_Server_Url url \<Rightarrow>
          (case storable_server_url url of None \<Rightarrow> (s, [])
           | Some url \<Rightarrow> (s, [Set_Server_Url url, Settings_Save_Async]))
      | Dismiss_Overlay has_layer \<Rightarrow>
          (s, if instance_up s then (if has_layer then [Activate_Main] else []) @ [Theme_Overlay_Dismissed] else [])
      | Check_Connectivity url made \<Rightarrow> check_connectivity url made s
      | Cancel_Connectivity \<Rightarrow>
          (let (s, acts) = cancel_active_probe s in (s, acts @ (if instance_up s then [Reset_Main] else [])))
      | Before_Close \<Rightarrow> (let (s, acts) = cancel_active_probe s in (s\<lparr>instance_up := False\<rparr>, acts))
      | Request_Complete pid c made_get made_head \<Rightarrow> on_complete valid pid c made_get made_head s
      | Download_Data pid data \<Rightarrow> (on_download_data pid data s, [])
      | Probe_Timeout pid index \<Rightarrow> on_probe_timeout pid index s)"


section \<open>What the probe keeps\<close>

text \<open>
  The specification of an answer: a base resolved from one of the candidates of the typed
  address, and the plain-http note exactly when a bare address ended without TLS.
\<close>

definition resolved_base :: "ustring \<Rightarrow> ustring \<Rightarrow> bool" where
  "resolved_base cand base \<longleftrightarrow>
     parse_origin base = parse_origin cand \<or>
     (case (parse_origin cand, parse_origin base) of
        (Some a, Some b) \<Rightarrow> o_host b = o_host a \<and> o_scheme a = u ''http'' \<and> o_scheme b = u ''https''
      | _ \<Rightarrow> False)"

definition over_tls :: "ustring \<Rightarrow> bool" where
  "over_tls url \<longleftrightarrow> prefix (u ''https://'') (to_ascii_lowercase url)"

definition base_ok :: "probe \<Rightarrow> bool" where
  "base_ok p \<longleftrightarrow> is_http_url (pr_base p) \<and> resolved_base (probe_url p) (pr_base p) \<and>
     (over_tls (probe_url p) \<longrightarrow> over_tls (pr_base p))"

definition probe_ok :: "probe \<Rightarrow> bool" where
  "probe_ok p \<longleftrightarrow> pr_candidates p = probe_urls (pr_user p) \<and> pr_index p < length (pr_candidates p) \<and>
     length (pr_body p) \<le> PROBE_BODY_LIMIT \<and> (pr_phase p = Get_Phase \<longrightarrow> base_ok p)"

definition connect_ok :: "connect \<Rightarrow> bool" where
  "connect_ok s \<longleftrightarrow> (\<forall>pid p. probes s pid = Some p \<longrightarrow> probe_ok p) \<and> active_probe_id s < next_probe_id s \<and>
     (\<forall>pid\<ge>next_probe_id s. probes s pid = None)"

definition answer_ok :: "ustring \<Rightarrow> ustring \<Rightarrow> ustring \<Rightarrow> bool" where
  "answer_ok typed base note \<longleftrightarrow>
     is_http_url base \<and> (\<exists>cand\<in>set (probe_candidates typed). resolved_base cand base) \<and>
     note = (if \<not> scheme_was_typed typed \<and> \<not> over_tls base then NOTICE_INSECURE else [])"

definition action_ok :: "action \<Rightarrow> bool" where
  "action_ok a \<longleftrightarrow>
     (case a of
        Request_Head _ url \<Rightarrow> is_http_url url
      | Request_Get _ url \<Rightarrow> is_http_url url
      | Load_Main url \<Rightarrow> is_http_url url
      | Set_Server_Url url \<Rightarrow> url = [] \<or> is_http_url url
      | Answer _ typed True base note \<Rightarrow> answer_ok typed base note
      | _ \<Rightarrow> True)"

lemma probe_urls_candidates: "probe_urls x = probe_candidates x"
  unfolding probe_urls_def using candidates_http by (simp add: filter_id_conv)

lemma probe_url_http: "probe_ok p \<Longrightarrow> is_http_url (probe_url p)"
  unfolding probe_ok_def probe_url_def probe_urls_def using nth_mem by fastforce

lemma http_nonempty: "is_http_url url \<Longrightarrow> url \<noteq> []"
  by (auto simp: is_http_url_def http_rest_def has_prefix_ci_def)

lemma http_has_rest: "is_http_url url \<Longrightarrow> \<exists>rest. http_rest url = Some rest"
  by (auto simp: is_http_url_def split: option.splits)

lemma over_tls_base: "is_http_url url \<Longrightarrow> over_tls (extract_base_url url) \<longleftrightarrow> over_tls url"
  unfolding over_tls_def using http_has_rest base_scheme by blast

lemma parse_origin_scheme:
  assumes "parse_origin url = Some a"
  shows "over_tls url \<longleftrightarrow> o_scheme a = u ''https''"
proof -
  obtain rest where r: "http_rest url = Some rest" using parse_origin_http [OF assms] http_has_rest by blast
  then obtain q where url: "url = q @ SCHEME_SEPARATOR @ rest" and q: "to_ascii_lowercase q \<in> http_schemes"
    by (rule http_rest_form)
  have len: "length SCHEME_SEPARATOR = 3" by simp
  have cut: "take (authority_start url - 3) url = q"
    unfolding url authority_start_scheme [OF q] using len by (simp del: u_simps)
  have "o_scheme a = to_ascii_lowercase q"
    using assms unfolding parse_origin_def Let_def cut by (auto split: if_splits option.splits)
  moreover have "to_ascii_lowercase (SCHEME_SEPARATOR @ rest) = 58 # 47 # 47 # to_ascii_lowercase rest"
    by (simp add: to_ascii_lowercase_def ascii_lower_def)
  ultimately show ?thesis
    using q unfolding over_tls_def url lowercase_append(1) by auto
qed

lemma resolve_ok:
  assumes "may_resolve req r" "is_http_url req" "is_http_url r"
  shows "is_http_url (extract_base_url r)" "resolved_base req (extract_base_url r)"
    "over_tls req \<Longrightarrow> over_tls (extract_base_url r)"
proof -
  show "is_http_url (extract_base_url r)" by (rule base_keeps_origin(2) [OF assms(3)])
  show "resolved_base req (extract_base_url r)"
    using may_resolve_base [OF assms] by (auto simp: resolved_base_def)
  assume tls: "over_tls req"
  have "r = req"
    using assms(1) tls parse_origin_scheme [of req] by (auto simp: may_resolve_def split: option.splits)
  then show "over_tls (extract_base_url r)" using tls over_tls_base [OF assms(3)] by simp
qed

lemma system_info_http: "is_http_url base \<Longrightarrow> is_http_url (system_info_url base)"
  unfolding system_info_url_def
  by (rule http_url_append) (simp_all add: clean_def is_control_def is_whitespace_def)

text \<open>One HEAD phase: either it stops, or it goes on at a resolved base.\<close>

lemma head_stage_cases:
  assumes "probe_ok p"
  obtains (stop) m where "head_stage c p = (p\<lparr>pr_refusal := m\<rparr>, None)" "m = pr_refusal p \<or> m \<noteq> None"
  | (go) r where "pr_phase p = Head_Phase" "may_resolve (probe_url p) r" "is_http_url r"
      "head_stage c p = (p\<lparr>pr_base := extract_base_url r, pr_phase := Get_Phase\<rparr>,
                        Some (system_info_url (extract_base_url r)))"
proof (cases "pr_phase p = Head_Phase \<and> \<not> pr_timed_out p")
  case False
  then have "head_stage c p = (p\<lparr>pr_refusal := pr_refusal p\<rparr>, None)" by (auto simp: head_stage_def)
  then show thesis using stop by blast
next
  case True
  have http: "is_http_url (probe_url p)" by (rule probe_url_http [OF assms])
  note ne = http_nonempty [OF http]
  show thesis
  proof (cases "classify_probe_redirect (probe_url p) (final_url c)")
    case Keep
    then show thesis using True ne http by (intro go [of "probe_url p"]) (simp_all add: head_stage_def may_resolve_def Let_def)
  next
    case (Upgrade v)
    note v = upgrade_may_resolve [OF Upgrade]
    then have "v \<noteq> []" using http_nonempty by blast
    then show thesis using True Upgrade v by (intro go [of v]) (simp_all add: head_stage_def Let_def)
  next
    case (Refuse t)
    then show thesis using True
      by (intro stop [of "Some (redirect_refused_message t)"]) (simp_all add: head_stage_def Let_def)
  qed
qed

lemma probe_url_update [simp]:
  "probe_url (p\<lparr>pr_base := b, pr_phase := f\<rparr>) = probe_url p"
  "probe_url (p\<lparr>pr_refusal := m\<rparr>) = probe_url p"
  "probe_url (p\<lparr>pr_body := d\<rparr>) = probe_url p"
  "probe_url (p\<lparr>pr_timed_out := t\<rparr>) = probe_url p"
  "probe_url (p\<lparr>pr_callback := t\<rparr>) = probe_url p"
  by (simp_all add: probe_url_def)

lemma head_stage_ok:
  assumes "probe_ok p"
  shows "probe_ok (fst (head_stage c p))" "pr_user (fst (head_stage c p)) = pr_user p"
    "snd (head_stage c p) = Some url \<Longrightarrow> is_http_url url"
proof -
  have "probe_ok (fst (head_stage c p)) \<and> pr_user (fst (head_stage c p)) = pr_user p \<and>
    (snd (head_stage c p) = Some url \<longrightarrow> is_http_url url)"
    using assms
  proof (cases rule: head_stage_cases [where c = c])
    case (stop m)
    then show ?thesis using assms by (auto simp: probe_ok_def base_ok_def)
  next
    case (go r)
    note r = resolve_ok [OF go(2) probe_url_http [OF assms] go(3)]
    from go(4) r show ?thesis using assms system_info_http by (auto simp: probe_ok_def base_ok_def)
  qed
  then show "probe_ok (fst (head_stage c p))" "pr_user (fst (head_stage c p)) = pr_user p"
    "snd (head_stage c p) = Some url \<Longrightarrow> is_http_url url" by blast+
qed

lemma nth_pair: "xs = [a, b] \<Longrightarrow> i < length xs \<Longrightarrow> xs ! i = (if i = 0 then a else b) \<and> i \<le> 1"
  by (cases i) (auto simp: less_Suc_eq)

text \<open>The note is right: a bare address that is not over TLS fell back.\<close>

lemma notice_right:
  assumes "probe_ok p" "pr_phase p = Get_Phase"
  shows "probe_notice (pr_base p) (fell_back p) =
    (if \<not> scheme_was_typed (pr_user p) \<and> \<not> over_tls (pr_base p) then NOTICE_INSECURE else [])"
proof (cases "scheme_was_typed (pr_user p)")
  case True
  have "length (pr_candidates p) \<le> 1" using assms(1) True
    by (simp add: probe_ok_def probe_urls_candidates probe_candidates_def Let_def)
  then have "\<not> fell_back p" using assms(1) by (auto simp: probe_ok_def fell_back_def)
  then show ?thesis using True by (simp add: probe_notice_def)
next
  case False
  have c: "pr_candidates p = probe_candidates (pr_user p)" and i: "pr_index p < length (pr_candidates p)"
    using assms(1) unfolding probe_ok_def probe_urls_candidates by blast+
  then have "probe_candidates (pr_user p) \<noteq> []" by auto
  with False obtain t where t: "probe_candidates (pr_user p) = [u ''https://'' @ t, u ''http://'' @ t]"
    by (rule bare_candidates)
  have "fell_back p \<or> over_tls (pr_base p)"
  proof (cases "fell_back p")
    case False
    then have "probe_url p = u ''https://'' @ t" using c t by (simp add: probe_url_def fell_back_def)
    then have "over_tls (probe_url p)" by (simp add: over_tls_def to_ascii_lowercase_def ascii_lower_def)
    then show ?thesis using assms by (simp add: probe_ok_def base_ok_def)
  qed simp
  then show ?thesis using False by (auto simp: probe_notice_def over_tls_def)
qed

lemma probe_outcome_ok:
  assumes "probe_ok p" "probe_outcome valid c p = (p', out)"
  shows "probe_ok p'" "pr_user p' = pr_user p"
    "out = Done True base note cb \<Longrightarrow> answer_ok (pr_user p) base note"
proof -
  show "probe_ok p'" "pr_user p' = pr_user p"
    using assms by (auto simp: probe_outcome_def Let_def probe_ok_def base_ok_def split: if_splits)
  assume out: "out = Done True base note cb"
  then have get: "pr_phase p = Get_Phase" and b: "base = pr_base p" "note = probe_notice (pr_base p) (fell_back p)"
    using assms(2) by (auto simp: probe_outcome_def Let_def split: if_splits)
  have "base_ok p" using assms(1) get by (simp add: probe_ok_def)
  moreover have "probe_url p \<in> set (probe_candidates (pr_user p))"
    using assms(1) nth_mem by (fastforce simp: probe_ok_def probe_url_def probe_urls_candidates)
  ultimately show "answer_ok (pr_user p) base note"
    using notice_right [OF assms(1) get] b by (auto simp: answer_ok_def base_ok_def)
qed

text \<open>The operations keep the invariant and only do admissible things.\<close>

lemma slot_ops_ok:
  assumes "connect_ok s"
  shows "connect_ok (fst (cancel_active_probe s))" "connect_ok (finish_probe pid s)"
    "connect_ok (store_probe_request pid s)"
  using assms by (auto simp: connect_ok_def cancel_active_probe_def finish_probe_def store_probe_request_def
      split: if_splits)

lemma slot_ops_probes [simp]:
  "probes (fst (cancel_active_probe s)) = probes s" "probes (finish_probe pid s) = probes s"
  "probes (store_probe_request pid s) = probes s"
  "next_probe_id (fst (cancel_active_probe s)) = next_probe_id s"
  "next_probe_id (finish_probe pid s) = next_probe_id s"
  "next_probe_id (store_probe_request pid s) = next_probe_id s"
  by (simp_all add: cancel_active_probe_def finish_probe_def store_probe_request_def)

lemma cancel_actions: "x \<in> set (snd (cancel_active_probe s)) \<Longrightarrow> x = Cancel_Request"
  by (simp add: cancel_active_probe_def split: if_splits)

lemma start_candidate_ok:
  assumes "connect_ok s" "probe_ok p"
  shows "connect_ok (fst (start_candidate pid p made s))"
    "x \<in> set (snd (start_candidate pid p made s)) \<Longrightarrow> action_ok x"
  using slot_ops_ok(2,3) [OF assms(1)] probe_url_http [OF assms(2)]
  by (auto simp: start_candidate_def action_ok_def split: if_splits)

lemma connect_ok_set:
  "connect_ok s \<Longrightarrow> probes s pid = Some p0 \<Longrightarrow> probe_ok p \<Longrightarrow> connect_ok (s\<lparr>probes := (probes s)(pid \<mapsto> p)\<rparr>)"
  by (force simp: connect_ok_def)

lemma on_complete_ok:
  assumes "connect_ok s"
  shows "connect_ok (fst (on_complete valid pid c mg mh s))"
    "x \<in> set (snd (on_complete valid pid c mg mh s)) \<Longrightarrow> action_ok x"
proof -
  have "connect_ok (fst (on_complete valid pid c mg mh s)) \<and>
      (\<forall>x\<in>set (snd (on_complete valid pid c mg mh s)). action_ok x)"
  proof (cases "probes s pid")
    case (Some p)
    have p: "probe_ok p" using assms Some by (simp add: connect_ok_def)
    obtain p1 nx where h: "head_stage c p = (p1, nx)" by (cases "head_stage c p")
    have p1: "probe_ok p1" "pr_user p1 = pr_user p" "nx = Some url \<Longrightarrow> is_http_url url" for url
      using head_stage_ok [OF p, of c] h by simp_all
    obtain p2 out where o: "probe_outcome valid c p1 = (p2, out)" by (cases "probe_outcome valid c p1")
    note p2 = probe_outcome_ok [OF p1(1) o]
    note ok1 = slot_ops_ok(3) [OF connect_ok_set [OF assms Some p1(1)], of pid]
    note ok2 = connect_ok_set [OF assms Some p2(1)]
    have fin: "connect_ok (fst (case out of Next \<Rightarrow> start_candidate pid p2 mh (s\<lparr>probes := (probes s)(pid \<mapsto> p2)\<rparr>)
          | Done success base detail callback \<Rightarrow>
              (finish_probe pid (s\<lparr>probes := (probes s)(pid \<mapsto> p2)\<rparr>),
               if callback then [Answer pid (pr_user p2) success (if success then base else pr_user p2) detail] else [])))"
      "\<forall>x\<in>set (snd (case out of Next \<Rightarrow> start_candidate pid p2 mh (s\<lparr>probes := (probes s)(pid \<mapsto> p2)\<rparr>)
          | Done success base detail callback \<Rightarrow>
              (finish_probe pid (s\<lparr>probes := (probes s)(pid \<mapsto> p2)\<rparr>),
               if callback then [Answer pid (pr_user p2) success (if success then base else pr_user p2) detail] else []))).
        action_ok x"
      using start_candidate_ok [OF ok2 p2(1)] slot_ops_ok(2) [OF ok2] p2(2,3)
      by (auto split: outcome.splits simp: action_ok_def split: bool.splits)
    show ?thesis
      unfolding on_complete_def Some option.case h prod.case Let_def o
      using fin ok1 p1(3) assms by (auto simp: action_ok_def split: option.splits bool.splits)
  qed (simp add: on_complete_def assms)
  then show "connect_ok (fst (on_complete valid pid c mg mh s))"
    "x \<in> set (snd (on_complete valid pid c mg mh s)) \<Longrightarrow> action_ok x" by blast+
qed

lemma append_capped_length: "length b \<le> cap \<Longrightarrow> length (fst (append_capped b d cap)) \<le> cap"
  by (auto simp: append_capped_def Let_def min_def)

lemma probe_ok_update [simp]:
  "probe_ok (p\<lparr>pr_timed_out := t\<rparr>) \<longleftrightarrow> probe_ok p"
  "probe_ok p \<Longrightarrow> length d \<le> PROBE_BODY_LIMIT \<Longrightarrow> probe_ok (p\<lparr>pr_body := d\<rparr>)"
  by (auto simp: probe_ok_def base_ok_def)

lemma probe_ok_body: "probe_ok p \<Longrightarrow> length (pr_body p) \<le> PROBE_BODY_LIMIT"
  by (simp add: probe_ok_def)

lemma other_ops_ok:
  assumes "connect_ok s"
  shows "connect_ok (on_download_data pid data s)" "connect_ok (fst (on_probe_timeout pid i s))"
    "x \<in> set (snd (on_probe_timeout pid i s)) \<Longrightarrow> action_ok x"
proof -
  have p: "probe_ok p" if "probes s pid = Some p" for p using assms that by (simp add: connect_ok_def)
  show "connect_ok (on_download_data pid data s)"
    using assms p probe_ok_body [OF p] by (auto simp: on_download_data_def append_capped_length
        intro!: connect_ok_set split: option.splits)
  have t: "connect_ok (s\<lparr>probes := (probes s)(pid \<mapsto> p\<lparr>pr_timed_out := True\<rparr>)\<rparr>)" if "probes s pid = Some p" for p
    using p [OF that] by (intro connect_ok_set [OF assms that]) simp
  have af: "connect_ok s' \<Longrightarrow> connect_ok (s'\<lparr>active_probe := False\<rparr>)" for s' by (simp add: connect_ok_def)
  show "connect_ok (fst (on_probe_timeout pid i s))"
    using assms t af [OF t] by (auto simp: on_probe_timeout_def Let_def split: option.splits)
  show "x \<in> set (snd (on_probe_timeout pid i s)) \<Longrightarrow> action_ok x"
    by (auto simp: on_probe_timeout_def Let_def action_ok_def split: option.splits if_splits)
qed

lemma new_probe_ok: "cands = probe_urls user \<Longrightarrow> cands \<noteq> [] \<Longrightarrow> probe_ok (new_probe user cands)"
  by (simp add: new_probe_def probe_ok_def)

lemma check_connectivity_ok:
  assumes "connect_ok s"
  shows "connect_ok (fst (check_connectivity url made s))"
    "x \<in> set (snd (check_connectivity url made s)) \<Longrightarrow> action_ok x"
proof -
  let ?s = "fst (cancel_active_probe s)" and ?c = "probe_urls url"
  have ok: "connect_ok ?s" by (rule slot_ops_ok(1) [OF assms])
  have start: "connect_ok (fst (start_probe url ?c made ?s)) \<and>
      (\<forall>x\<in>set (snd (start_probe url ?c made ?s)). action_ok x)" if ne: "?c \<noteq> []"
  proof -
    let ?p = "new_probe url ?c"
    have p: "probe_ok ?p" by (rule new_probe_ok [OF refl ne])
    define s1 where "s1 = ?s\<lparr>next_probe_id := next_probe_id ?s + 1, probes := (probes ?s)(next_probe_id ?s \<mapsto> ?p)\<rparr>"
    have "connect_ok s1" "connect_ok (s1\<lparr>active_probe_id := next_probe_id ?s, active_probe := False\<rparr>)"
      using ok p by (auto simp: connect_ok_def s1_def)
    moreover define s2 where
      "s2 = (if instance_up s1 then s1\<lparr>active_probe_id := next_probe_id ?s, active_probe := False\<rparr> else s1)"
    ultimately have s2: "connect_ok s2" by simp
    have "start_probe url ?c made ?s = start_candidate (next_probe_id ?s) ?p made s2"
      unfolding start_probe_def Let_def s2_def s1_def by (rule refl)
    then show ?thesis using start_candidate_ok [OF s2 p] by simp
  qed
  have cancel: "x \<in> set (snd (cancel_active_probe s)) \<Longrightarrow> action_ok x" for x
    using cancel_actions [of x s] by (simp add: action_ok_def)
  have "connect_ok (fst (check_connectivity url made s)) \<and>
      (\<forall>x\<in>set (snd (check_connectivity url made s)). action_ok x)"
    using ok start cancel
    by (cases "?c = []") (auto simp: check_connectivity_def split_beta Let_def action_ok_def)
  then show "connect_ok (fst (check_connectivity url made s))"
    "x \<in> set (snd (check_connectivity url made s)) \<Longrightarrow> action_ok x" by blast+
qed

lemma connect_step_ok:
  assumes "connect_ok s"
  shows "connect_ok (fst (connect_step valid s e))" "x \<in> set (snd (connect_step valid s e)) \<Longrightarrow> action_ok x"
proof -
  have down: "connect_ok (fst (cancel_active_probe s)\<lparr>instance_up := False\<rparr>)"
    using slot_ops_ok(1) [OF assms] by (simp add: connect_ok_def)
  show "connect_ok (fst (connect_step valid s e))"
    using assms slot_ops_ok(1) [OF assms] check_connectivity_ok(1) [OF assms] on_complete_ok(1) [OF assms]
      other_ops_ok(1,2) [OF assms] down
    by (cases e) (simp_all add: connect_step_def split_beta Let_def split: option.splits)
  show "x \<in> set (snd (connect_step valid s e)) \<Longrightarrow> action_ok x"
    using check_connectivity_ok(2) [OF assms] on_complete_ok(2) [OF assms] other_ops_ok(3) [OF assms]
      cancel_actions [of x s]
    by (cases e) (auto simp: connect_step_def split_beta Let_def navigable_url_def storable_server_url_def
        action_ok_def split: option.splits if_splits)
qed

interpretation cns: machine "connect_step valid" new_connect connect_ok action_ok for valid
proof
  show "connect_ok new_connect" by (simp add: connect_ok_def new_connect_def)
qed (rule connect_step_ok, assumption+)+

section \<open>Generations\<close>

text \<open>The generations whose callback answered, in order.\<close>

fun answered :: "action list \<Rightarrow> nat list" where
  "answered [] = []"
| "answered (Answer pid _ _ _ _ # as) = (if pid = NO_PROBE then answered as else pid # answered as)"
| "answered (_ # as) = answered as"

lemma answered_append [simp]: "answered (as @ bs) = answered as @ answered bs"
  by (induction as rule: answered.induct) simp_all

definition retires :: "event \<Rightarrow> bool" where
  "retires e = (case e of Check_Connectivity _ _ \<Rightarrow> True | Cancel_Connectivity \<Rightarrow> True | Before_Close \<Rightarrow> True | _ \<Rightarrow> False)"

text \<open>Nothing below \<open>n\<close> is waited on any more.\<close>

definition quiet :: "nat \<Rightarrow> connect \<Rightarrow> bool" where
  "quiet n s \<longleftrightarrow> 0 < n \<and> (active_probe_id s = NO_PROBE \<or> n \<le> active_probe_id s) \<and> n \<le> next_probe_id s \<and>
     active_probe_id s < next_probe_id s \<and> (instance_up s \<or> active_probe_id s = NO_PROBE)"

text \<open>A step either answers nobody, or the generation waited on, and then waits on nobody.\<close>

definition step_answers :: "connect \<Rightarrow> connect \<times> action list \<Rightarrow> bool" where
  "step_answers s r \<longleftrightarrow>
     (answered (snd r) = [] \<or>
      answered (snd r) = [active_probe_id s] \<and> active_probe_id s \<noteq> NO_PROBE \<and> active_probe_id (fst r) = NO_PROBE) \<and>
     (active_probe_id (fst r) \<in> {NO_PROBE, active_probe_id s} \<or>
      active_probe_id (fst r) = next_probe_id s \<and> next_probe_id (fst r) = next_probe_id s + 1) \<and>
     next_probe_id s \<le> next_probe_id (fst r)"

lemma finish_active:
  "active_probe_id (finish_probe pid s) = (if probe_is_current pid s then NO_PROBE else active_probe_id s)"
  "active_probe_id (store_probe_request pid s) = active_probe_id s"
  "instance_up (finish_probe pid s) = instance_up s" "instance_up (store_probe_request pid s) = instance_up s"
  by (simp_all add: finish_probe_def store_probe_request_def)

lemma current_update [simp]:
  "probe_is_current pid (s\<lparr>probes := f\<rparr>) = probe_is_current pid s"
  "probe_is_current pid (s\<lparr>active_probe := b\<rparr>) = probe_is_current pid s"
  by (simp_all add: probe_is_current_def)

lemma start_candidate_answers [simp]:
  "answered (snd (start_candidate pid p made s)) = []"
  "active_probe_id (fst (start_candidate pid p made s)) =
     (if (probe_url p = [] \<or> \<not> made) \<and> probe_is_current pid s then NO_PROBE else active_probe_id s)"
  "next_probe_id (fst (start_candidate pid p made s)) = next_probe_id s"
  by (simp_all add: start_candidate_def finish_active)

lemma cancel_answers [simp]:
  "answered (snd (cancel_active_probe s)) = []"
  "active_probe_id (fst (cancel_active_probe s)) = (if instance_up s then NO_PROBE else active_probe_id s)"
  "instance_up (fst (cancel_active_probe s)) = instance_up s"
  by (simp_all add: cancel_active_probe_def)

lemma on_complete_answers: "step_answers s (on_complete valid pid c mg mh s)"
proof (cases "probes s pid")
  case (Some p)
  show ?thesis
  proof (cases "probe_is_current pid s")
    case True
    obtain p1 nx where h: "head_stage c p = (p1, nx)" by (cases "head_stage c p")
    obtain p2 out where o: "probe_outcome valid c p1 = (p2, out)" by (cases "probe_outcome valid c p1")
    have a: "active_probe_id s = pid" using True by (simp add: probe_is_current_def)
    show ?thesis
      unfolding on_complete_def Some option.case h prod.case Let_def o
      using True a
      by (cases nx; cases mg; cases out) (auto simp: step_answers_def finish_active)
  qed (simp add: on_complete_def Some step_answers_def)
qed (simp add: on_complete_def step_answers_def)

lemma check_answers:
  assumes "instance_up s \<or> active_probe_id s = NO_PROBE"
  shows "step_answers s (check_connectivity url made s)"
  using assms
  by (auto simp: step_answers_def check_connectivity_def start_probe_def split_beta Let_def probe_is_current_def)

lemma timeout_answers: "step_answers s (on_probe_timeout pid i s)"
  "instance_up (fst (on_probe_timeout pid i s)) = instance_up s"
  by (auto simp: step_answers_def on_probe_timeout_def Let_def split: option.splits)

lemma data_answers: "step_answers s (on_download_data pid d s, [])"
  "instance_up (on_download_data pid d s) = instance_up s"
  by (simp_all add: step_answers_def on_download_data_def split: option.splits)

lemma start_candidate_instance [simp]:
  "instance_up (fst (start_candidate pid p made s)) = instance_up s"
  by (simp add: start_candidate_def finish_active)

lemma complete_instance: "instance_up (fst (on_complete valid pid c mg mh s)) = instance_up s"
  by (auto simp: on_complete_def split_beta Let_def finish_active split: option.splits bool.splits outcome.splits)

lemma connect_step_answers:
  assumes "quiet n s"
  shows "step_answers s (connect_step valid s e)"
    "instance_up (fst (connect_step valid s e)) \<or> active_probe_id (fst (connect_step valid s e)) = NO_PROBE"
proof -
  have up: "instance_up s \<or> active_probe_id s = NO_PROBE" using assms by (simp add: quiet_def)
  show "step_answers s (connect_step valid s e)"
    using on_complete_answers timeout_answers data_answers check_answers [OF up]
    by (cases e) (auto simp: connect_step_def step_answers_def split_beta Let_def split: option.splits)
  show "instance_up (fst (connect_step valid s e)) \<or> active_probe_id (fst (connect_step valid s e)) = NO_PROBE"
  proof (cases e)
    case (Check_Connectivity url made)
    then show ?thesis using up
      by (auto simp: connect_step_def check_connectivity_def start_probe_def split_beta Let_def probe_is_current_def)
  next
    case (Request_Complete pid c mg mh)
    have "on_complete valid pid c mg mh s = (s, [])" if "\<not> instance_up s"
      using that by (simp add: on_complete_def probe_is_current_def split: option.split)
    then show ?thesis using up Request_Complete complete_instance
      by (cases "instance_up s") (simp_all add: connect_step_def)
  next
    case (Download_Data pid d)
    then show ?thesis using up by (auto simp: connect_step_def step_answers_def on_download_data_def split: option.splits)
  next
    case (Probe_Timeout pid i)
    then show ?thesis using up by (auto simp: connect_step_def step_answers_def on_probe_timeout_def Let_def split: option.splits)
  qed (use up in \<open>auto simp: connect_step_def split_beta Let_def split: option.splits\<close>)
qed

lemma connect_step_quiet:
  assumes "quiet n s"
  shows "quiet n (fst (connect_step valid s e))"
    "retires e \<Longrightarrow> quiet (next_probe_id s) (fst (connect_step valid s e))"
    "pid \<in> set (answered (snd (connect_step valid s e))) \<Longrightarrow> n \<le> pid \<and> quiet (Suc pid) (fst (connect_step valid s e))"
    "length (answered (snd (connect_step valid s e))) \<le> 1"
proof -
  note a = connect_step_answers [OF assms, where valid = valid and e = e, unfolded step_answers_def]
  show "quiet n (fst (connect_step valid s e))" using assms a by (auto simp: quiet_def)
  show "pid \<in> set (answered (snd (connect_step valid s e))) \<Longrightarrow>
      n \<le> pid \<and> quiet (Suc pid) (fst (connect_step valid s e))"
    using assms a by (auto simp: quiet_def)
  show "length (answered (snd (connect_step valid s e))) \<le> 1" using a by auto
  assume "retires e"
  then have "active_probe_id (fst (connect_step valid s e)) \<in> {NO_PROBE, next_probe_id s}"
    using assms by (cases e) (auto simp: retires_def quiet_def connect_step_def check_connectivity_def
        start_probe_def split_beta Let_def probe_is_current_def)
  then show "quiet (next_probe_id s) (fst (connect_step valid s e))"
    using assms a by (auto simp: quiet_def)
qed

lemma run_quiet:
  "quiet n s \<Longrightarrow> quiet n (fst (run_steps (connect_step valid) s es)) \<and>
     (\<forall>pid\<in>set (answered (snd (run_steps (connect_step valid) s es))). n \<le> pid) \<and>
     sorted_wrt (<) (answered (snd (run_steps (connect_step valid) s es)))"
proof (induction es arbitrary: n s)
  case (Cons e es)
  let ?r = "connect_step valid s e"
  note q = connect_step_quiet [OF Cons.prems, where valid = valid and e = e]
  note rest = Cons.IH [OF q(1)]
  have split: "snd (run_steps (connect_step valid) s (e # es)) =
      snd ?r @ snd (run_steps (connect_step valid) (fst ?r) es)"
    "fst (run_steps (connect_step valid) s (e # es)) = fst (run_steps (connect_step valid) (fst ?r) es)"
    by (rule run_steps_Cons_snd, rule run_steps_Cons_fst)
  consider "answered (snd ?r) = []" | pid where "answered (snd ?r) = [pid]"
    using q(4) by (cases "answered (snd ?r)") auto
  then show ?case
  proof cases
    case 1
    then show ?thesis using rest unfolding split answered_append by simp
  next
    case (2 pid)
    then have pid: "n \<le> pid" "quiet (Suc pid) (fst ?r)" using q(3) [of pid] by simp_all
    show ?thesis using rest Cons.IH [OF pid(2)] pid(1) 2 unfolding split answered_append
      by (auto simp: Suc_le_eq)
  qed
qed simp

lemma quiet_start: "quiet 1 new_connect"
  by (simp add: quiet_def new_connect_def)

section \<open>Progress\<close>

text \<open>Completions a probe may still need: two for each candidate left, one less in the GET phase.\<close>

definition probe_left :: "probe \<Rightarrow> nat" where
  "probe_left p = 2 * (length (pr_candidates p) - pr_index p) - (if pr_phase p = Get_Phase then 1 else 0)"

definition waits :: "nat \<Rightarrow> nat \<Rightarrow> connect \<Rightarrow> bool" where
  "waits pid k s \<longleftrightarrow> probe_is_current pid s \<and>
     (\<exists>p. probes s pid = Some p \<and> probe_ok p \<and> pr_callback p \<and> probe_left p \<le> k)"

text \<open>An event that lets the probe go on: no new attempt or cancellation, CEF makes the request.\<close>

definition gentle :: "event \<Rightarrow> bool" where
  "gentle e \<longleftrightarrow> \<not> retires e \<and> (case e of Request_Complete _ _ _ made_head \<Rightarrow> made_head | _ \<Rightarrow> True)"

definition completes :: "nat \<Rightarrow> event \<Rightarrow> bool" where
  "completes pid e = (case e of Request_Complete pid' _ _ _ \<Rightarrow> pid' = pid | _ \<Rightarrow> False)"

lemma probe_ok_index: "probe_ok p \<Longrightarrow> pr_index p < length (pr_candidates p)"
  unfolding probe_ok_def by blast

lemma probe_left_pos: "probe_ok p \<Longrightarrow> 0 < probe_left p"
  by (auto simp: probe_ok_def probe_left_def)

lemma head_stage_left:
  assumes "probe_ok p" "head_stage c p = (p1, nx)"
  shows "probe_ok p1" "pr_callback p1 = pr_callback p" "probe_left p1 \<le> probe_left p"
    "nx \<noteq> None \<Longrightarrow> probe_left p1 < probe_left p"
proof -
  show "probe_ok p1" using head_stage_ok(1) [OF assms(1), of c] assms(2) by simp
  have "pr_callback p1 = pr_callback p \<and> probe_left p1 \<le> probe_left p \<and>
      (nx \<noteq> None \<longrightarrow> probe_left p1 < probe_left p)"
    using assms(1)
  proof (cases rule: head_stage_cases [where c = c])
    case (stop m)
    then show ?thesis using assms(2) by (auto simp: probe_left_def)
  next
    case (go r)
    then show ?thesis using assms probe_left_pos [OF assms(1)] by (auto simp: probe_left_def)
  qed
  then show "pr_callback p1 = pr_callback p" "probe_left p1 \<le> probe_left p"
    "nx \<noteq> None \<Longrightarrow> probe_left p1 < probe_left p" by blast+
qed

lemma outcome_left:
  assumes "probe_ok p" "probe_outcome valid c p = (p', out)"
  shows "out = Next \<Longrightarrow> probe_left p' < probe_left p \<and> pr_callback p' = pr_callback p"
    "out = Done ok base note cb \<Longrightarrow> cb = pr_callback p"
proof -
  have "pr_index p < length (pr_candidates p)" by (rule probe_ok_index [OF assms(1)])
  then show "out = Next \<Longrightarrow> probe_left p' < probe_left p \<and> pr_callback p' = pr_callback p"
    using assms(2) by (auto simp: probe_outcome_def Let_def probe_left_def split: if_splits)
  show "out = Done ok base note cb \<Longrightarrow> cb = pr_callback p"
    using assms(2) by (auto simp: probe_outcome_def Let_def split: if_splits)
qed

text \<open>A completion of the waiting probe answers, or leaves fewer to wait for.\<close>

lemma on_complete_progress:
  assumes "waits pid k s" "pid \<noteq> NO_PROBE"
  shows "pid \<in> set (answered (snd (on_complete valid pid c mg True s))) \<or>
    0 < k \<and> waits pid (k - 1) (fst (on_complete valid pid c mg True s))"
proof -
  from assms obtain p where cur: "probe_is_current pid s" and p: "probes s pid = Some p" "probe_ok p"
    "pr_callback p" "probe_left p \<le> k" by (auto simp: waits_def)
  obtain p1 nx where h: "head_stage c p = (p1, nx)" by (cases "head_stage c p")
  note h' = head_stage_left [OF p(2) h]
  obtain p2 out where o: "probe_outcome valid c p1 = (p2, out)" by (cases "probe_outcome valid c p1")
  note o' = outcome_left [OF h'(1) o]
  have p2: "probe_ok p2" by (rule probe_outcome_ok(1) [OF h'(1) o])
  have url: "probe_url p2 \<noteq> []" by (rule http_nonempty [OF probe_url_http [OF p2]])
  have cur': "instance_up s" "active_probe_id s = pid" using cur by (simp_all add: probe_is_current_def)
  show ?thesis
  proof (cases "nx \<noteq> None \<and> mg")
    case True
    then obtain x where "nx = Some x" by blast
    with True have r: "on_complete valid pid c mg True s =
        (store_probe_request pid (s\<lparr>probes := (probes s)(pid \<mapsto> p1)\<rparr>), [Request_Get pid x])"
      unfolding on_complete_def p option.case h Let_def using cur by simp
    have "probe_left p1 \<le> k - 1" using h'(4) p(4) True by simp
    then have "0 < k \<and> waits pid (k - 1) (fst (on_complete valid pid c mg True s))"
      unfolding r using cur' h'(1,2) p(3,4) probe_left_pos [OF p(2)]
      by (auto simp: waits_def probe_is_current_def store_probe_request_def)
    then show ?thesis by blast
  next
    case False
    have r: "on_complete valid pid c mg True s =
        (case out of Next \<Rightarrow> start_candidate pid p2 True (s\<lparr>probes := (probes s)(pid \<mapsto> p2)\<rparr>)
         | Done success base detail callback \<Rightarrow>
             (finish_probe pid (s\<lparr>probes := (probes s)(pid \<mapsto> p2)\<rparr>),
              if callback then [Answer pid (pr_user p2) success (if success then base else pr_user p2) detail] else []))"
      unfolding on_complete_def p option.case h Let_def prod.case o using cur False
      by (auto split: option.splits bool.splits)
    show ?thesis
    proof (cases out)
      case Next
      then have l: "probe_left p2 < k" "pr_callback p2" using o'(1) h'(2,3) p(3,4) by simp_all
      then show ?thesis unfolding r Next using cur' p2 url
        by (auto simp: waits_def start_candidate_def probe_is_current_def store_probe_request_def)
    next
      case (Done ok base nt cb)
      then have "cb" using o'(2) [OF Done] h'(2) p(3) by simp
      then show ?thesis unfolding r Done using assms(2) by simp
    qed
  qed
qed

lemma waits_other:
  assumes "waits pid k s" "gentle e" "\<not> completes pid e"
  shows "waits pid k (fst (connect_step valid s e))"
proof -
  from assms obtain p where cur: "probe_is_current pid s" and p: "probes s pid = Some p" "probe_ok p"
    "pr_callback p" "probe_left p \<le> k" by (auto simp: waits_def)
  have cur': "instance_up s" "active_probe_id s = pid" using cur by (simp_all add: probe_is_current_def)
  have left: "probe_left (p\<lparr>pr_timed_out := t\<rparr>) = probe_left p" "probe_left (p\<lparr>pr_body := d\<rparr>) = probe_left p" for t d
    by (simp_all add: probe_left_def)
  show ?thesis
  proof (cases e)
    case (Request_Complete q c mg mh)
    then have "on_complete valid q c mg mh s = (s, [])"
      using assms(3) cur' by (auto simp: on_complete_def completes_def probe_is_current_def split: option.split)
    then show ?thesis using assms(1) Request_Complete by (simp add: connect_step_def)
  next
    case (Download_Data q d)
    then show ?thesis using assms(1) p left probe_ok_body [OF p(2)]
      by (auto simp: connect_step_def on_download_data_def waits_def append_capped_length split: option.split)
  next
    case (Probe_Timeout q i)
    then show ?thesis using assms(1) cur p left
      by (auto simp: connect_step_def on_probe_timeout_def waits_def Let_def probe_is_current_def split: option.split)
  qed (use assms in \<open>auto simp: connect_step_def gentle_def retires_def split: option.splits\<close>)
qed

lemma waits_run:
  assumes "waits pid k s" "pid \<noteq> NO_PROBE" "\<forall>e\<in>set es. gentle e" "k \<le> length (filter (completes pid) es)"
  shows "pid \<in> set (answered (snd (run_steps (connect_step valid) s es)))"
  using assms
proof (induction es arbitrary: k s)
  case Nil
  then show ?case using probe_left_pos by (fastforce simp: waits_def)
next
  case (Cons e es)
  have parts: "snd (run_steps (connect_step valid) s (e # es)) =
      snd (connect_step valid s e) @ snd (run_steps (connect_step valid) (fst (connect_step valid s e)) es)"
    by (rule run_steps_Cons_snd)
  show ?case
  proof (cases "completes pid e")
    case True
    then obtain c mg where e: "e = Request_Complete pid c mg True"
      using Cons.prems(3) by (cases e) (auto simp: completes_def gentle_def)
    have "connect_step valid s e = on_complete valid pid c mg True s" by (simp add: e connect_step_def)
    then consider "pid \<in> set (answered (snd (connect_step valid s e)))"
      | "waits pid (k - 1) (fst (connect_step valid s e))"
      using on_complete_progress [OF Cons.prems(1,2), of valid c mg] by auto
    then show ?thesis
    proof cases
      case 2
      from Cons.IH [OF this Cons.prems(2)] Cons.prems(3,4) True show ?thesis unfolding parts by simp
    qed (simp add: parts del: run_steps.simps)
  next
    case False
    have "waits pid k (fst (connect_step valid s e))"
      using Cons.prems(3) by (intro waits_other [OF Cons.prems(1) _ False]) simp
    from Cons.IH [OF this Cons.prems(2)] Cons.prems(3,4) False show ?thesis unfolding parts by simp
  qed
qed

lemma check_waits:
  assumes "connect_ok s" "instance_up s" "probe_urls url \<noteq> []"
  shows "waits (next_probe_id s) (2 * length (probe_urls url)) (fst (connect_step valid s (Check_Connectivity url True)))"
proof -
  let ?p = "new_probe url (probe_urls url)"
  have p: "probe_ok ?p" by (rule new_probe_ok [OF refl assms(3)])
  have url: "probe_url ?p \<noteq> []" by (rule http_nonempty [OF probe_url_http [OF p]])
  have "pr_callback ?p" "probe_left ?p = 2 * length (probe_urls url)" by (simp_all add: new_probe_def probe_left_def)
  then show ?thesis using p url assms
    by (simp add: connect_step_def check_connectivity_def start_probe_def start_candidate_def split_beta Let_def
        waits_def probe_is_current_def store_probe_request_def)
qed

section \<open>A concrete attempt\<close>

text \<open>A bare address: the https attempt fails, the http one answers.\<close>

lemma lan_candidates: "probe_candidates (u ''a.b'') = [u ''https://a.b'', u ''http://a.b'']"
  by (simp add: probe_candidates_def normalize_input_def trim_def has_prefix_ci_def eq_ignore_ascii_case_def
      contains_def is_http_url_def http_rest_def up_to_def scheme_was_typed_def url_evals)

lemma lan_urls:
  "extract_base_url (u ''http://a.b'') = u ''http://a.b''" "extract_base_url (u ''https://a.b'') = u ''https://a.b''"
  "is_http_url (u ''http://a.b'')" "is_http_url (u ''https://a.b'')"
  "to_ascii_lowercase (u ''http://a.b'') = u ''http://a.b''" "\<not> prefix (u ''https://'') (u ''http://a.b'')"
  "u ''http://a.b'' \<noteq> []" "u ''https://a.b'' \<noteq> []"
  by (simp_all add: extract_base_url_def authority_start_def up_to_def has_prefix_ci_def is_http_url_def
      http_rest_def eq_ignore_ascii_case_def url_evals)

lemma no_final_url: "classify_probe_redirect url [] = Keep"
  by (simp add: classify_probe_redirect_def split: option.split)

definition json_braces :: "nat list \<Rightarrow> bool" where
  "json_braces body \<longleftrightarrow> body = [123, 125]"

definition lan_run :: "event list" where
  "lan_run = [Check_Connectivity (u ''a.b'') True,
     Request_Complete 1 \<lparr>final_url = [], success_200 = False\<rparr> True True,
     Request_Complete 1 \<lparr>final_url = [], success_200 = False\<rparr> True True,
     Request_Complete 1 \<lparr>final_url = [], success_200 = True\<rparr> True True,
     Download_Data 1 [123, 125],
     Request_Complete 1 \<lparr>final_url = [], success_200 = True\<rparr> True True]"

lemma lan_answer:
  "Answer 1 (u ''a.b'') True (u ''http://a.b'') NOTICE_INSECURE
     \<in> set (snd (run_steps (connect_step json_braces) new_connect lan_run))"
  by (simp add: lan_run_def json_braces_def connect_step_def check_connectivity_def start_probe_def
      start_candidate_def new_probe_def new_connect_def cancel_active_probe_def probe_urls_candidates
      lan_candidates lan_urls no_final_url on_complete_def head_stage_def probe_outcome_def probe_url_def
      store_probe_request_def finish_probe_def probe_is_current_def on_download_data_def append_capped_def
      PROBE_BODY_LIMIT_def probe_notice_def fell_back_def Let_def del: u_simps)

lemma resolved_base_iff:
  "resolved_base cand base \<longleftrightarrow> parse_origin base = parse_origin cand \<or>
     (\<exists>a b. parse_origin cand = Some a \<and> parse_origin base = Some b \<and>
        o_host b = o_host a \<and> o_scheme a = u ''http'' \<and> o_scheme b = u ''https'')"
  unfolding resolved_base_def by (cases "parse_origin cand"; cases "parse_origin base") simp_all

section \<open>Properties\<close>

text \<open>
  C2: The probe never answers for a host the user did not type. In every run, an attempt that
  answers with success names a base address that is a web address, whose origin is that of one
  of the candidates of the typed address, or the same host reached over TLS instead of plain
  http; and the plain-http note goes with it exactly when no scheme was typed and the base is
  not over TLS.
\<close>

theorem connect_stays_on_typed_host:
  assumes "Answer pid typed True base note \<in> set (snd (run_steps (connect_step valid) new_connect es))"
  shows "is_http_url base \<and>
    (\<exists>cand\<in>set (probe_candidates typed).
       parse_origin base = parse_origin cand \<or>
       (\<exists>a b. parse_origin cand = Some a \<and> parse_origin base = Some b \<and>
          o_host b = o_host a \<and> o_scheme a = u ''http'' \<and> o_scheme b = u ''https'')) \<and>
    note = (if \<not> scheme_was_typed typed \<and> \<not> over_tls base then NOTICE_INSECURE else [])"
proof -
  have "answer_ok typed base note" using cns.reach_out [OF assms] by (simp add: action_ok_def)
  then show ?thesis unfolding answer_ok_def resolved_base_iff .
qed

theorem connect_stays_on_typed_host_witness:
  "is_http_url (u ''http://a.b'') \<and> NOTICE_INSECURE =
     (if \<not> scheme_was_typed (u ''a.b'') \<and> \<not> over_tls (u ''http://a.b'') then NOTICE_INSECURE else [])"
  using connect_stays_on_typed_host [OF lan_answer] by blast

text \<open>
  C12: Only web addresses leave the connect screen: in every run, each URL a request is made
  for, the main browser is told to load or the settings store as the server is an http or
  https address (the stored one may be empty).
\<close>

theorem only_web_addresses:
  "list_all (\<lambda>a. case a of Request_Head _ url \<Rightarrow> is_http_url url | Request_Get _ url \<Rightarrow> is_http_url url
       | Load_Main url \<Rightarrow> is_http_url url | Set_Server_Url url \<Rightarrow> url = [] \<or> is_http_url url | _ \<Rightarrow> True)
     (snd (run_steps (connect_step valid) new_connect es))"
proof -
  have "case a of Request_Head _ url \<Rightarrow> is_http_url url | Request_Get _ url \<Rightarrow> is_http_url url
       | Load_Main url \<Rightarrow> is_http_url url | Set_Server_Url url \<Rightarrow> url = [] \<or> is_http_url url | _ \<Rightarrow> True"
    if "action_ok a" for a
    using that by (cases a) (simp_all add: action_ok_def)
  then show ?thesis unfolding list_all_iff using cns.reach_out by blast
qed

text \<open>
  C11: Answers are never late. In every run each attempt is answered at most once and in the
  order the attempts were made, and after a new attempt, a cancellation or the closing of the
  overlay no earlier attempt is answered any more.
\<close>

theorem answers_current:
  assumes "retires e"
  shows "sorted_wrt (<) (answered (snd (run_steps (connect_step valid) new_connect (es @ e # es')))) \<and>
    (\<forall>pid\<in>set (answered (snd (run_steps (connect_step valid)
         (fst (run_steps (connect_step valid) new_connect (es @ [e]))) es'))).
       next_probe_id (fst (run_steps (connect_step valid) new_connect es)) \<le> pid)"
proof -
  let ?s = "fst (run_steps (connect_step valid) new_connect es)"
  have s: "quiet 1 ?s" using run_quiet [OF quiet_start] by blast
  have e: "fst (run_steps (connect_step valid) new_connect (es @ [e])) = fst (connect_step valid ?s e)"
    unfolding run_steps_append by (simp add: split_beta Let_def)
  show ?thesis unfolding e
    using run_quiet [OF quiet_start] run_quiet [OF connect_step_quiet(2) [OF s assms]] by blast
qed

theorem answers_current_witness:
  "sorted_wrt (<) (answered (snd (run_steps (connect_step json_braces) new_connect
     ([Check_Connectivity (u ''a.b'') True] @ Cancel_Connectivity # lan_run))))"
proof -
  have "retires Cancel_Connectivity" by (simp add: retires_def)
  from answers_current [OF this] show ?thesis by blast
qed

text \<open>
  C8: Every attempt is answered. An attempt made with the overlay up, for an address with
  candidates, is answered after at most two completions for each candidate, whatever the
  server did, however the timeout and the data fall in between, as long as no newer attempt or
  cancellation comes and CEF creates the requests.
\<close>

theorem attempts_settle:
  fixes valid :: "nat list \<Rightarrow> bool" and before :: "event list"
  defines "s \<equiv> fst (run_steps (connect_step valid) new_connect before)"
  assumes "instance_up s" "probe_candidates typed \<noteq> []" "\<forall>e\<in>set es. gentle e"
    "2 * length (probe_candidates typed) \<le> length (filter (completes (next_probe_id s)) es)"
  shows "next_probe_id s \<in> set (answered (snd (run_steps (connect_step valid) s (Check_Connectivity typed True # es))))"
proof -
  have ok: "connect_ok s" unfolding s_def by (rule cns.reach_inv)
  have "quiet 1 s" unfolding s_def using run_quiet [OF quiet_start] by blast
  then have "next_probe_id s \<noteq> NO_PROBE" by (simp add: quiet_def)
  with waits_run [OF check_waits [OF ok assms(2)], of typed es valid] assms(3-5)
  have "next_probe_id s \<in> set (answered (snd (run_steps (connect_step valid)
      (fst (connect_step valid s (Check_Connectivity typed True))) es)))"
    by (simp add: probe_urls_candidates)
  then show ?thesis unfolding run_steps_Cons_snd by simp
qed

theorem attempts_settle_witness:
  "1 \<in> set (answered (snd (run_steps (connect_step json_braces) new_connect lan_run)))"
proof -
  have run: "lan_run = Check_Connectivity (u ''a.b'') True # tl lan_run" by (simp add: lan_run_def)
  have "\<forall>e\<in>set (tl lan_run). gentle e" "length (filter (completes 1) (tl lan_run)) = 4"
    by (simp_all add: lan_run_def gentle_def retires_def completes_def)
  then show ?thesis
    using attempts_settle [of json_braces "[]" "u ''a.b''" "tl lan_run"] unfolding run [symmetric]
    by (simp add: lan_candidates new_connect_def del: u_simps run_steps.simps(2))
qed

text \<open>
  When CEF cannot create the HEAD request, the attempt is retired without an answer, and
  the page that waits for it is never answered until it asks again.
\<close>

theorem uncreated_request_never_answers:
  assumes "probe_candidates typed \<noteq> []" "\<forall>e\<in>set es. \<not> retires e"
  shows "\<forall>a\<in>set (snd (run_steps (connect_step valid) new_connect (Check_Connectivity typed False # es))).
    (case a of Answer _ _ _ _ _ \<Rightarrow> False | _ \<Rightarrow> True)"
proof -
  have step: "active_probe_id (fst (connect_step valid s e)) = NO_PROBE \<and>
      (\<forall>a\<in>set (snd (connect_step valid s e)). case a of Answer _ _ _ _ _ \<Rightarrow> False | _ \<Rightarrow> True) \<and>
      (\<forall>pid p. probes (fst (connect_step valid s e)) pid = Some p \<longrightarrow> pid \<noteq> NO_PROBE)"
    if "active_probe_id s = NO_PROBE" "\<not> retires e" "\<forall>pid p. probes s pid = Some p \<longrightarrow> pid \<noteq> NO_PROBE" for s e
    using that
    by (cases e) (auto simp: connect_step_def retires_def on_complete_def on_download_data_def on_probe_timeout_def
        probe_is_current_def Let_def split: option.splits if_splits)
  have run: "\<forall>a\<in>set (snd (run_steps (connect_step valid) s es)).
      (case a of Answer _ _ _ _ _ \<Rightarrow> False | _ \<Rightarrow> True)"
    if "active_probe_id s = NO_PROBE" "\<forall>pid p. probes s pid = Some p \<longrightarrow> pid \<noteq> NO_PROBE" for s
    using assms(2) that
  proof (induction es arbitrary: s)
    case (Cons e es)
    from step [of s e] Cons show ?case unfolding run_steps_Cons_snd by auto
  qed simp
  have "active_probe_id (fst (connect_step valid new_connect (Check_Connectivity typed False))) = NO_PROBE"
    "snd (connect_step valid new_connect (Check_Connectivity typed False)) = []"
    "\<forall>pid p. probes (fst (connect_step valid new_connect (Check_Connectivity typed False))) pid = Some p \<longrightarrow> pid \<noteq> NO_PROBE"
    using assms(1) by (auto simp: connect_step_def check_connectivity_def probe_urls_candidates start_probe_def
        start_candidate_def cancel_active_probe_def new_connect_def finish_probe_def probe_is_current_def
        Let_def split: if_splits)
  then show ?thesis unfolding run_steps_Cons_snd using run by simp
qed

theorem uncreated_request_never_answers_witness:
  "list_all (\<lambda>a. case a of Answer _ _ _ _ _ \<Rightarrow> False | _ \<Rightarrow> True)
     (snd (run_steps (connect_step json_braces) new_connect (Check_Connectivity (u ''a.b'') False # tl lan_run)))"
  unfolding list_all_iff
proof (rule uncreated_request_never_answers)
  show "probe_candidates (u ''a.b'') \<noteq> []" unfolding lan_candidates by simp
  show "\<forall>e\<in>set (tl lan_run). \<not> retires e" by (simp add: lan_run_def retires_def)
qed

end
