(* ===== verification/Migrate.thy ===== *)
theory Migrate
  imports Text "HOL-Library.AList"
begin

text \<open>
  The first-run import of a legacy profile (\<open>paths/src/migrate.rs\<close>): the size check, the copy
  of a directory tree into a staging directory that is renamed into place, and the repair of
  the paths in \<open>mpv.conf\<close>. A directory is the list of its entries in listing order; what the
  file system answers (which call fails, and how) is a parameter indexed by the path below the
  legacy root. Permission bits are not part of an entry.
\<close>

section \<open>File trees\<close>

datatype entry =
    File "nat list"
  | Dir "(ustring \<times> entry) list"
  | Link ustring
  | Special nat

type_synonym entries = "(ustring \<times> entry) list"
type_synonym path = "ustring list"

text \<open>
  What \<open>fs::copy\<close> answers. It creates or empties the destination and writes it from the start, so
  a call that failed may have left the first bytes of the file; \<open>None\<close> when it left nothing.
\<close>

datatype copy_result = Copy_Ok | Copy_Denied "nat option" | Copy_Failed "nat option"

text \<open>
  The calls the import makes, by path: listing a directory, reading one listed entry, its
  metadata, creating a directory, copying a file, reading and recreating a link, whether a
  link's target is a regular file and its bytes, and whether a directory contains the staging
  directory.
\<close>

record io =
  io_read_dir :: "path \<Rightarrow> bool"
  io_entry :: "path \<Rightarrow> bool"
  io_stat :: "path \<Rightarrow> bool"
  io_mkdir :: "path \<Rightarrow> bool"
  io_copy :: "path \<Rightarrow> copy_result"
  io_read_link :: "path \<Rightarrow> bool"
  io_symlink :: "path \<Rightarrow> bool"
  io_target_is_file :: "path \<Rightarrow> bool"
  io_target :: "path \<Rightarrow> nat list"
  io_contains_staging :: "path \<Rightarrow> bool"

definition DENYLIST :: "ustring list" where
  "DENYLIST = [u ''SingletonLock'', u ''SingletonSocket'', u ''SingletonCookie'', u ''LOCK'']"

definition MAX_DEPTH :: nat where "MAX_DEPTH = 32"
definition MAX_WARNINGS :: nat where "MAX_WARNINGS = 20"
definition MAX_IMPORT_BYTES :: nat where "MAX_IMPORT_BYTES = 2 * 1024 * 1024 * 1024"

section \<open>The size check\<close>

datatype too_big = Too_Big_Source nat | Too_Big_Destination nat nat

definition check_import_size :: "nat \<Rightarrow> nat option \<Rightarrow> too_big option" where
  "check_import_size source_bytes free_bytes =
     (if MAX_IMPORT_BYTES < source_bytes then Some (Too_Big_Source source_bytes)
      else case free_bytes of
             Some free \<Rightarrow> if free < source_bytes then Some (Too_Big_Destination source_bytes free) else None
           | None \<Rightarrow> None)"

text \<open>The length a file's metadata reports; a directory's is never asked for.\<close>

fun meta_len :: "entry \<Rightarrow> nat" where
  "meta_len (File c) = length c"
| "meta_len (Link target) = length target"
| "meta_len (Special n) = n"
| "meta_len (Dir es) = 0"

definition sat_add :: "nat \<Rightarrow> nat \<Rightarrow> nat" where
  "sat_add a b = min (2 ^ 64 - 1) (a + b)"

fun measure_tree :: "io \<Rightarrow> path \<Rightarrow> nat \<Rightarrow> nat \<Rightarrow> entry \<Rightarrow> nat"
  and measure_entries :: "io \<Rightarrow> path \<Rightarrow> nat \<Rightarrow> nat \<Rightarrow> nat \<Rightarrow> entries \<Rightarrow> nat" where
  "measure_tree io p depth limit (Dir es) =
     (if MAX_DEPTH < depth then 0
      else if \<not> io_read_dir io p then 0
      else measure_entries io p depth limit 0 es)"
| "measure_tree io p depth limit e = meta_len e"
| "measure_entries io p depth limit n [] = n"
| "measure_entries io p depth limit n ((name, e) # es) =
     (if \<not> io_entry io (p @ [name]) \<or> \<not> io_stat io (p @ [name])
      then measure_entries io p depth limit n es
      else let n = sat_add n (measure_tree io (p @ [name]) (depth + 1) (limit - n) e)
           in if limit < n then n else measure_entries io p depth limit n es)"

section \<open>The report\<close>

datatype warning =
    Depth_Limit path | Reading path | Listing path | Stat path | Contains_Destination path
  | Creating path | Locked path | Copying path | Reading_Link path | Copying_Link_Target path
  | Link_Skipped path | Stale_Staging ustring | Rewriting_Conf
  | Not_Importing bool too_big | Could_Not_Import bool | Further_Warnings nat

datatype info = Imported "(bool \<times> nat \<times> nat \<times> nat) list" | How_To_Retry bool | Rewrote nat

record report =
  rp_info :: "info list"
  rp_warnings :: "warning list"
  rp_suppressed :: nat
  rp_migrated :: bool

definition new_report :: report where
  "new_report = \<lparr>rp_info = [], rp_warnings = [], rp_suppressed = 0, rp_migrated = False\<rparr>"

definition warn :: "warning \<Rightarrow> report \<Rightarrow> report" where
  "warn w r =
     (if length (rp_warnings r) < MAX_WARNINGS then r\<lparr>rp_warnings := rp_warnings r @ [w]\<rparr>
      else r\<lparr>rp_suppressed := rp_suppressed r + 1\<rparr>)"

record counts =
  copied :: nat
  skipped :: nat
  failed :: nat

definition no_counts :: counts where
  "no_counts = \<lparr>copied = 0, skipped = 0, failed = 0\<rparr>"

type_synonym log = "counts \<times> report"

abbreviation copy1 :: "log \<Rightarrow> log" where
  "copy1 l \<equiv> ((fst l)\<lparr>copied := copied (fst l) + 1\<rparr>, snd l)"

abbreviation skip1 :: "log \<Rightarrow> log" where
  "skip1 l \<equiv> ((fst l)\<lparr>skipped := skipped (fst l) + 1\<rparr>, snd l)"

abbreviation fail1 :: "warning \<Rightarrow> log \<Rightarrow> log" where
  "fail1 w l \<equiv> ((fst l)\<lparr>failed := failed (fst l) + 1\<rparr>, warn w (snd l))"

abbreviation skip_warn :: "warning \<Rightarrow> log \<Rightarrow> log" where
  "skip_warn w l \<equiv> ((fst l)\<lparr>skipped := skipped (fst l) + 1\<rparr>, warn w (snd l))"

section \<open>Copying\<close>

datatype link_action = Copy_Target | Skip_Link

definition link_fallback :: "bool \<Rightarrow> bool \<Rightarrow> link_action" where
  "link_fallback windows target_is_file = (if windows \<or> \<not> target_is_file then Skip_Link else Copy_Target)"

text \<open>The bytes at the destination of a copy after it, if there are any that it put there.\<close>

definition copied_bytes :: "copy_result \<Rightarrow> nat list \<Rightarrow> nat list option" where
  "copied_bytes r c =
     (case r of
        Copy_Ok \<Rightarrow> Some c
      | Copy_Denied left \<Rightarrow> map_option (\<lambda>n. take n c) left
      | Copy_Failed left \<Rightarrow> map_option (\<lambda>n. take n c) left)"

definition fs_copy :: "copy_result \<Rightarrow> ustring \<Rightarrow> nat list \<Rightarrow> entries \<Rightarrow> entries" where
  "fs_copy r name c dst =
     (case copied_bytes r c of None \<Rightarrow> dst | Some c' \<Rightarrow> AList.update name (File c') dst)"

text \<open>Every operation takes what is already in the destination directory and adds to it.\<close>

definition copy_symlink :: "bool \<Rightarrow> io \<Rightarrow> path \<Rightarrow> ustring \<Rightarrow> ustring \<Rightarrow> entries \<Rightarrow> log \<Rightarrow> entries \<times> log" where
  "copy_symlink windows io p name target dst l =
     (if \<not> io_read_link io p then (dst, fail1 (Reading_Link p) l)
      else if io_symlink io p then (AList.update name (Link target) dst, copy1 l)
      else case link_fallback windows (io_target_is_file io p) of
             Copy_Target \<Rightarrow>
               (fs_copy (io_copy io p) name (io_target io p) dst,
                if io_copy io p = Copy_Ok then copy1 l else fail1 (Copying_Link_Target p) l)
           | Skip_Link \<Rightarrow> (dst, skip_warn (Link_Skipped p) l))"

definition subdir :: "ustring \<Rightarrow> entries \<Rightarrow> entries" where
  "subdir name dst = (case map_of dst name of Some (Dir es) \<Rightarrow> es | _ \<Rightarrow> [])"

text \<open>Why a directory is not read: the depth cap, or the listing fails.\<close>

definition refuse_dir :: "io \<Rightarrow> path \<Rightarrow> nat \<Rightarrow> log \<Rightarrow> log option" where
  "refuse_dir io p depth l =
     (if MAX_DEPTH < depth then Some (skip_warn (Depth_Limit p) l)
      else if \<not> io_read_dir io p then Some (fail1 (Reading p) l)
      else None)"

text \<open>Why a listed entry is not looked at: the listing, the deny list, its metadata.\<close>

definition refuse_entry :: "io \<Rightarrow> path \<Rightarrow> ustring \<Rightarrow> log \<Rightarrow> log option" where
  "refuse_entry io p name l =
     (if \<not> io_entry io (p @ [name]) then Some (fail1 (Listing p) l)
      else if name \<in> set DENYLIST then Some (skip1 l)
      else if \<not> io_stat io (p @ [name]) then Some (fail1 (Stat (p @ [name])) l)
      else None)"

definition copy_file :: "io \<Rightarrow> path \<Rightarrow> ustring \<Rightarrow> nat list \<Rightarrow> entries \<Rightarrow> log \<Rightarrow> entries \<times> log" where
  "copy_file io p name c dst l =
     (fs_copy (io_copy io p) name c dst,
      case io_copy io p of
        Copy_Ok \<Rightarrow> copy1 l
      | Copy_Denied left \<Rightarrow> skip_warn (Locked p) l
      | Copy_Failed left \<Rightarrow> fail1 (Copying p) l)"

fun copy_entries :: "bool \<Rightarrow> io \<Rightarrow> path \<Rightarrow> nat \<Rightarrow> entries \<Rightarrow> entries \<Rightarrow> log \<Rightarrow> entries \<times> log"
  and copy_entry :: "bool \<Rightarrow> io \<Rightarrow> path \<Rightarrow> nat \<Rightarrow> ustring \<Rightarrow> entry \<Rightarrow> entries \<Rightarrow> log \<Rightarrow> entries \<times> log" where
  "copy_entries windows io p depth [] dst l = (dst, l)"
| "copy_entries windows io p depth ((name, e) # es) dst l =
     (case refuse_entry io p name l of
        Some l' \<Rightarrow> copy_entries windows io p depth es dst l'
      | None \<Rightarrow>
          (case copy_entry windows io (p @ [name]) depth name e dst l of
             (dst', l') \<Rightarrow> copy_entries windows io p depth es dst' l'))"
| "copy_entry windows io q depth name (Link target) dst l = copy_symlink windows io q name target dst l"
| "copy_entry windows io q depth name (File c) dst l = copy_file io q name c dst l"
| "copy_entry windows io q depth name (Special n) dst l = (dst, skip1 l)"
| "copy_entry windows io q depth name (Dir es) dst l =
     (if io_contains_staging io q then (dst, skip_warn (Contains_Destination q) l)
      else if \<not> io_mkdir io q then (dst, fail1 (Creating q) l)
      else case refuse_dir io q (depth + 1) l of
             Some l' \<Rightarrow> (AList.update name (Dir (subdir name dst)) dst, l')
           | None \<Rightarrow>
               (case copy_entries windows io q (depth + 1) es (subdir name dst) l of
                  (sub, l') \<Rightarrow> (AList.update name (Dir sub) dst, l')))"

definition copy_dir :: "bool \<Rightarrow> io \<Rightarrow> path \<Rightarrow> nat \<Rightarrow> entries \<Rightarrow> entries \<Rightarrow> log \<Rightarrow> entries \<times> log" where
  "copy_dir windows io p depth es dst l =
     (case refuse_dir io p depth l of
        Some l' \<Rightarrow> (dst, l')
      | None \<Rightarrow> copy_entries windows io p depth es dst l)"

section \<open>Paths in mpv.conf\<close>

definition find_path :: "bool \<Rightarrow> ustring \<Rightarrow> ustring \<Rightarrow> nat option" where
  "find_path windows haystack needle =
     (if windows then find_sub (to_ascii_lowercase needle) (to_ascii_lowercase haystack)
      else find_sub needle haystack)"

lemma find_path_at: "find_path windows h n = Some i \<Longrightarrow> i + length n \<le> length h"
  by (auto simp: find_path_def dest!: find_sub_at split: if_splits)

text \<open>The text with every match replaced, and the offset of each replacement in it.\<close>

function replace_all :: "bool \<Rightarrow> ustring \<Rightarrow> ustring \<Rightarrow> ustring \<Rightarrow> ustring \<times> nat list" where
  "replace_all windows haystack needle replacement =
     (case (if needle = [] then None else find_path windows haystack needle) of
        None \<Rightarrow> (haystack, [])
      | Some i \<Rightarrow>
          let (out, sites) = replace_all windows (drop (i + length needle) haystack) needle replacement
          in (take i haystack @ replacement @ out, i # map (\<lambda>s. i + length replacement + s) sites))"
  by pat_completeness auto
termination
proof (relation "measure (\<lambda>(windows, haystack, needle, replacement). length haystack)")
  show "((windows, drop (i + length needle) haystack, needle, replacement), windows, haystack, needle, replacement)
      \<in> measure (\<lambda>(windows, haystack, needle, replacement). length haystack)"
    if "(if needle = [] then None else find_path windows haystack needle) = Some i"
    for windows haystack needle replacement i
  proof -
    have "needle \<noteq> []" "find_path windows haystack needle = Some i" using that by (simp_all split: if_splits)
    then have "0 < length needle" "i + length needle \<le> length haystack" using find_path_at by simp_all
    then show ?thesis by (cases needle) auto
  qed
qed simp

declare replace_all.simps [simp del]

text \<open>Double quote, quote, semicolon, comma, newline, carriage return.\<close>

definition PATH_TERMINATORS :: "nat set" where "PATH_TERMINATORS = {34, 39, 59, 44, 10, 13}"

abbreviation slashes :: "ustring \<Rightarrow> ustring" where "slashes s \<equiv> map (\<lambda>c. if c = 92 then 47 else c) s"
abbreviation backslashes :: "ustring \<Rightarrow> ustring" where "backslashes s \<equiv> map (\<lambda>c. if c = 47 then 92 else c) s"

definition rewrite_style :: "bool \<Rightarrow> ustring \<times> ustring \<Rightarrow> ustring \<times> ustring list \<Rightarrow> ustring \<times> ustring list" where
  "rewrite_style windows ft acc =
     (if fst ft = [] \<or> fst ft = snd ft then acc
      else let (out, sites) = replace_all windows (fst acc) (fst ft) (snd ft)
           in (out, snd acc @ map (\<lambda>site. up_to PATH_TERMINATORS (drop site out)) sites))"

definition rewrite_legacy_paths ::
    "bool \<Rightarrow> ustring \<Rightarrow> ustring \<Rightarrow> ustring \<Rightarrow> (ustring \<times> ustring list) option" where
  "rewrite_legacy_paths windows text legacy new_dir =
     (let (out, rewritten) =
            fold (rewrite_style windows)
              [(slashes legacy, slashes new_dir), (backslashes legacy, backslashes new_dir)] (text, [])
      in if out \<noteq> text then Some (out, rewritten) else None)"

text \<open>
  The two callers. A file that cannot be read as text is \<open>None\<close> to the first; the result is the
  file's new text and what is reported. The second keeps the bytes of the file and of its backup,
  and may fail to copy the one to the other half-way. Text is read and written by the UTF-8 of
  the standard library, a \<open>text_codec\<close>.
\<close>

record text_codec =
  tc_decode :: "nat list \<Rightarrow> ustring option"
  tc_encode :: "ustring \<Rightarrow> nat list"

datatype conf_outcome =
    Conf_Silent | Conf_Read_Error | Conf_None_Resolves nat | Conf_Backup_Error | Conf_Write_Error
  | Conf_Repaired nat nat

record conf_io =
  ci_is_file :: bool
  ci_readable :: bool
  ci_backup :: copy_result
  ci_write_ok :: bool
  ci_path_is_file :: "ustring \<Rightarrow> bool"

definition rewrite_conf_in_place ::
    "bool \<Rightarrow> conf_io \<Rightarrow> ustring option \<Rightarrow> ustring \<Rightarrow> ustring \<Rightarrow> ustring option \<times> (warning + nat option)" where
  "rewrite_conf_in_place windows ci conf legacy new_dir =
     (if \<not> ci_is_file ci then (conf, Inr None)
      else case conf of None \<Rightarrow> (conf, Inl Rewriting_Conf)
      | Some text \<Rightarrow>
          (case rewrite_legacy_paths windows text legacy new_dir of
             None \<Rightarrow> (conf, Inr None)
           | Some (rewritten, sites) \<Rightarrow>
               if ci_write_ok ci then (Some rewritten, Inr (Some (length sites)))
               else (conf, Inl Rewriting_Conf)))"

definition repair_conf_at ::
    "bool \<Rightarrow> text_codec \<Rightarrow> ustring \<Rightarrow> ustring \<Rightarrow> conf_io \<Rightarrow> nat list \<times> nat list option \<Rightarrow>
       (nat list \<times> nat list option) \<times> conf_outcome" where
  "repair_conf_at windows tc legacy new_dir ci files =
     (let (conf, backup) = files
      in if \<not> ci_is_file ci then (files, Conf_Silent)
         else case (if ci_readable ci then tc_decode tc conf else None) of None \<Rightarrow> (files, Conf_Read_Error)
         | Some text \<Rightarrow>
             (case rewrite_legacy_paths windows text legacy new_dir of
                None \<Rightarrow> (files, Conf_Silent)
              | Some (rewritten, sites) \<Rightarrow>
                  let resolved = length (filter (ci_path_is_file ci) sites)
                  in if resolved = 0 then (files, Conf_None_Resolves (length sites))
                     else if backup = None \<and> ci_backup ci \<noteq> Copy_Ok
                     then ((conf, copied_bytes (ci_backup ci) conf), Conf_Backup_Error)
                     else let backup = (if backup = None then Some conf else backup)
                          in if \<not> ci_write_ok ci then ((conf, backup), Conf_Write_Error)
                             else ((tc_encode tc rewritten, backup), Conf_Repaired (length sites) resolved)))"

section \<open>One leg\<close>

record leg_io =
  li_read_parent :: bool
  li_remove :: "ustring \<Rightarrow> bool"
  li_left :: "entry \<Rightarrow> entry"
  li_create :: bool
  li_rename :: bool
  li_remove_staging :: bool
  li_tree :: io
  li_windows :: bool

abbreviation migrating :: ustring where "migrating \<equiv> u ''.migrating-''"

definition staging_name :: "ustring \<Rightarrow> nat \<Rightarrow> ustring" where
  "staging_name stem pid = stem @ migrating @ u (show_nat pid)"

text \<open>A removal that failed may have removed part of the tree: \<open>li_left\<close> is what it leaves.\<close>

definition remove_stale_staging :: "leg_io \<Rightarrow> ustring \<Rightarrow> entries \<Rightarrow> report \<Rightarrow> entries \<times> report" where
  "remove_stale_staging li stem parent r =
     (if \<not> li_read_parent li then (parent, r)
      else fold (\<lambda>name (parent, r).
               if \<not> prefix (stem @ migrating) name then (parent, r)
               else if li_remove li name then (AList.delete name parent, r)
               else (map (\<lambda>(n, e). (n, if n = name then li_left li e else e)) parent, warn (Stale_Staging name) r))
             (map fst parent) (parent, r))"

text \<open>
  \<open>copy_leg\<close> up to the rename, with the states of the parent directory it goes through:
  after the stale directories, with the staging directory complete, and renamed.
\<close>

definition copy_leg ::
    "leg_io \<Rightarrow> ustring \<Rightarrow> nat \<Rightarrow> entries \<Rightarrow> entries \<Rightarrow> report \<Rightarrow> entries \<times> report \<times> counts option" where
  "copy_leg li stem pid legacy parent r =
     (let (parent, r) = remove_stale_staging li stem parent r;
          staging = staging_name stem pid
      in if \<not> li_create li then (parent, r, None)
         else
           let (sub, c, r) = copy_dir (li_windows li) (li_tree li) [] 0 legacy (subdir staging parent) (no_counts, r)
           in if \<not> li_rename li
              then ((if li_remove_staging li then AList.delete staging parent
                     else AList.update staging (li_left li (Dir sub)) parent), r, None)
              else (AList.update stem (Dir sub) (AList.delete staging parent), r, Some c))"

section \<open>The import\<close>

text \<open>
  A leg: which directory it is, whether the user chose it, its name, the legacy entry, the
  free space, and for the configuration what the import of \<open>mpv.conf\<close> sees - the bytes behind
  the path if it is a link, whether the rewrite can be written, and the two locations as text.
\<close>

record leg =
  lg_config :: bool
  lg_overridden :: bool
  lg_stem :: ustring
  lg_legacy :: "entry option"
  lg_free :: "nat option"
  lg_io :: leg_io
  lg_linked_conf :: "nat list option"
  lg_write_ok :: bool
  lg_legacy_text :: ustring
  lg_new_text :: ustring

definition imported_conf :: "leg \<Rightarrow> entries \<Rightarrow> nat list option" where
  "imported_conf g sub =
     (case map_of (subdir (u ''mpv'') sub) (u ''mpv.conf'') of
        Some (File c) \<Rightarrow> Some c
      | Some (Link t) \<Rightarrow> lg_linked_conf g
      | _ \<Rightarrow> None)"

definition write_conf :: "nat list \<Rightarrow> entries \<Rightarrow> entries" where
  "write_conf c sub =
     AList.update (u ''mpv'') (Dir (AList.update (u ''mpv.conf'') (File c) (subdir (u ''mpv'') sub))) sub"

definition finish_conf :: "text_codec \<Rightarrow> leg \<Rightarrow> entries \<Rightarrow> report \<Rightarrow> entries \<times> report" where
  "finish_conf tc g parent r =
     (let sub = subdir (lg_stem g) parent; bytes = imported_conf g sub;
          ci = \<lparr>ci_is_file = bytes \<noteq> None, ci_readable = True, ci_backup = Copy_Ok, ci_write_ok = lg_write_ok g,
                ci_path_is_file = (\<lambda>_. True)\<rparr>
      in case rewrite_conf_in_place (li_windows (lg_io g)) ci (Option.bind bytes (tc_decode tc))
                (lg_legacy_text g) (lg_new_text g) of
           (_, Inl w) \<Rightarrow> (parent, warn w r)
         | (_, Inr None) \<Rightarrow> (parent, r)
         | (None, Inr (Some n)) \<Rightarrow> (parent, r)
         | (Some text, Inr (Some n)) \<Rightarrow>
             (AList.update (lg_stem g) (Dir (write_conf (tc_encode tc text) sub)) parent,
              r\<lparr>rp_info := rp_info r @ [Rewrote n]\<rparr>))"

definition retry_hint :: "bool \<Rightarrow> counts \<Rightarrow> report \<Rightarrow> report" where
  "retry_hint config c r =
     (if 0 < skipped c \<or> 0 < failed c then r\<lparr>rp_info := rp_info r @ [How_To_Retry config]\<rparr> else r)"

type_synonym summary = "bool \<times> nat \<times> nat \<times> nat"

text \<open>Whether the import of a leg is attempted, and what it would copy.\<close>

definition leg_due :: "leg \<Rightarrow> entries \<Rightarrow> entries option" where
  "leg_due g parent =
     (if lg_overridden g then None
      else if map_of parent (lg_stem g) \<noteq> None then None
      else case lg_legacy g of Some (Dir legacy) \<Rightarrow> Some legacy | _ \<Rightarrow> None)"

text \<open>One turn of \<open>migrate_legacy\<close>'s loop.\<close>

definition migrate_leg ::
    "nat \<Rightarrow> text_codec \<Rightarrow> leg \<Rightarrow> entries \<Rightarrow> report \<times> summary list \<Rightarrow> entries \<times> report \<times> summary list" where
  "migrate_leg pid tc g parent rs =
     (case leg_due g parent of
        None \<Rightarrow> (parent, rs)
      | Some legacy \<Rightarrow>
          (case check_import_size (measure_tree (li_tree (lg_io g)) [] 0 MAX_IMPORT_BYTES (Dir legacy)) (lg_free g) of
             Some tb \<Rightarrow> (parent, warn (Not_Importing (lg_config g) tb) (fst rs), snd rs)
           | None \<Rightarrow>
               (case copy_leg (lg_io g) (lg_stem g) pid legacy parent (fst rs) of
                  (parent, r, None) \<Rightarrow> (parent, warn (Could_Not_Import (lg_config g)) r, snd rs)
                | (parent, r, Some c) \<Rightarrow>
                    let (parent, r) = (if lg_config g then finish_conf tc g parent (retry_hint True c r)
                                       else (parent, retry_hint False c r))
                    in (parent, r\<lparr>rp_migrated := True\<rparr>,
                        snd rs @ [(lg_config g, copied c, skipped c, failed c)]))))"

definition close_report :: "report \<times> summary list \<Rightarrow> report" where
  "close_report rs =
     (let r = (if snd rs \<noteq> [] then (fst rs)\<lparr>rp_info := Imported (snd rs) # rp_info (fst rs)\<rparr> else fst rs)
      in if 0 < rp_suppressed r
         then r\<lparr>rp_warnings := rp_warnings r @ [Further_Warnings (rp_suppressed r)]\<rparr> else r)"

definition migrate_legacy ::
    "nat \<Rightarrow> text_codec \<Rightarrow> leg \<Rightarrow> entries \<Rightarrow> leg \<Rightarrow> entries \<Rightarrow> entries \<times> entries \<times> report" where
  "migrate_legacy pid tc config config_parent cache cache_parent =
     (let (p1, rs) = migrate_leg pid tc config config_parent (new_report, []);
          (p2, rs) = migrate_leg pid tc cache cache_parent rs
      in (p1, p2, close_report rs))"


section \<open>The size check measures what it needs\<close>

text \<open>The bytes the walk would sum without its early stop.\<close>

fun tree_bytes :: "io \<Rightarrow> path \<Rightarrow> nat \<Rightarrow> entry \<Rightarrow> nat"
  and entries_bytes :: "io \<Rightarrow> path \<Rightarrow> nat \<Rightarrow> entries \<Rightarrow> nat" where
  "tree_bytes io p depth (Dir es) =
     (if MAX_DEPTH < depth \<or> \<not> io_read_dir io p then 0 else entries_bytes io p depth es)"
| "tree_bytes io p depth e = meta_len e"
| "entries_bytes io p depth [] = 0"
| "entries_bytes io p depth ((name, e) # es) =
     (if io_entry io (p @ [name]) \<and> io_stat io (p @ [name])
      then tree_bytes io (p @ [name]) (depth + 1) e else 0) + entries_bytes io p depth es"

text \<open>Exact up to the limit, past the limit exactly when the whole is.\<close>

definition measures :: "nat \<Rightarrow> nat \<Rightarrow> nat \<Rightarrow> bool" where
  "measures limit m s \<longleftrightarrow> (s \<le> limit \<longrightarrow> m = s) \<and> (limit < s \<longrightarrow> limit < m)"

lemma sat_add_small: "a + b < 2 ^ 64 \<Longrightarrow> sat_add a b = a + b"
  by (simp add: sat_add_def)

lemma sat_add_past: "l < 2 ^ 64 - 1 \<Longrightarrow> l < a + b \<Longrightarrow> l < sat_add a b"
  by (simp add: sat_add_def)

lemma measure_exact:
  "limit < 2 ^ 64 - 1 \<Longrightarrow> measures limit (measure_tree io p depth limit e) (tree_bytes io p depth e)"
  "limit < 2 ^ 64 - 1 \<Longrightarrow> n \<le> limit \<Longrightarrow>
     measures limit (measure_entries io p depth limit n es) (n + entries_bytes io p depth es)"
proof (induction io p depth limit e and io p depth limit n es rule: measure_tree_measure_entries.induct)
  case (4 io p depth limit n name e es)
  let ?m = "measure_tree io (p @ [name]) (depth + 1) (limit - n) e"
  let ?s = "tree_bytes io (p @ [name]) (depth + 1) e"
  show ?case
  proof (cases "io_entry io (p @ [name]) \<and> io_stat io (p @ [name])")
    case False
    then show ?thesis using 4 by auto
  next
    case True
    have m: "measures (limit - n) ?m ?s" using 4(2) True 4(4) by simp
    show ?thesis
    proof (cases "n + ?s \<le> limit")
      case fits: True
      then have "?m = ?s" using m by (simp add: measures_def)
      then have n': "sat_add n ?m = n + ?s" using fits 4(4) by (simp add: sat_add_small)
      have "measures limit (measure_entries io p depth limit (n + ?s) es) (n + ?s + entries_bytes io p depth es)"
        using 4(3) [OF _ refl] True fits 4(4) n' by simp
      then show ?thesis using True fits n' by (simp add: Let_def add.assoc)
    next
      case over: False
      then have "limit - n < ?m" using m 4(5) by (auto simp: measures_def)
      then have "limit < n + ?m" by simp
      then have "limit < sat_add n ?m" using 4(4) sat_add_past by blast
      then show ?thesis using True over by (simp add: Let_def measures_def)
    qed
  qed
qed (auto simp: measures_def)

text \<open>
  C15: Stopping the walk early never changes the decision: for every tree, with whatever
  directories and entries unreadable, the import is refused on the measured size exactly when
  it would be refused on the sum of all bytes, and a size that passes is exact.
\<close>

theorem size_check_exact:
  "let m = measure_tree io [] 0 MAX_IMPORT_BYTES t; s = tree_bytes io [] 0 t
   in (check_import_size m free = None \<longleftrightarrow> check_import_size s free = None) \<and>
      (if check_import_size m free = None
       then m = s \<and> s \<le> MAX_IMPORT_BYTES \<and> (case free of None \<Rightarrow> True | Some f \<Rightarrow> s \<le> f)
       else (case check_import_size s free of Some (Too_Big_Destination needed f) \<Rightarrow> needed = s \<and> f < s
             | _ \<Rightarrow> MAX_IMPORT_BYTES < s))"
proof -
  have "measures MAX_IMPORT_BYTES (measure_tree io [] 0 MAX_IMPORT_BYTES t) (tree_bytes io [] 0 t)"
    by (rule measure_exact(1)) (simp add: MAX_IMPORT_BYTES_def)
  then show ?thesis
    by (auto simp: Let_def measures_def check_import_size_def not_le split: option.split)
qed

section \<open>What is copied\<close>

text \<open>Names are distinct in every directory, as on a file system.\<close>

fun tree_ok :: "entry \<Rightarrow> bool" and entries_ok :: "entries \<Rightarrow> bool" where
  "tree_ok (Dir es) = (distinct (map fst es) \<and> entries_ok es)"
| "tree_ok e = True"
| "entries_ok [] = True"
| "entries_ok ((name, e) # es) = (tree_ok e \<and> entries_ok es)"

text \<open>
  The specification: one copied entry comes from an entry of the source of that name, at that
  place - a file with its content, a link with its target or the content behind it, a
  directory with entries that again come from it - and no denied name is ever created. Where
  copying a file failed, the file may be cut short.
\<close>

definition copy_of :: "copy_result \<Rightarrow> nat list \<Rightarrow> nat list \<Rightarrow> bool" where
  "copy_of r c c' \<longleftrightarrow> (if r = Copy_Ok then c' = c else prefix c' c)"

lemma copied_bytes_copy_of: "copied_bytes r c = Some c' \<Longrightarrow> copy_of r c c'"
  by (auto simp: copied_bytes_def copy_of_def take_is_prefix split: copy_result.splits)

fun comes_from :: "io \<Rightarrow> path \<Rightarrow> nat \<Rightarrow> entry \<Rightarrow> entry \<Rightarrow> bool"
  and all_from :: "io \<Rightarrow> path \<Rightarrow> nat \<Rightarrow> entries \<Rightarrow> entries \<Rightarrow> bool" where
  "comes_from io q depth e (File c) =
     (case e of File c' \<Rightarrow> copy_of (io_copy io q) c' c | Link t \<Rightarrow> copy_of (io_copy io q) (io_target io q) c
      | _ \<Rightarrow> False)"
| "comes_from io q depth e (Link t) = (e = Link t)"
| "comes_from io q depth e (Special n) = False"
| "comes_from io q depth e (Dir sub) =
     (case e of Dir es \<Rightarrow> (sub = [] \<or> depth + 1 \<le> MAX_DEPTH) \<and> all_from io q (depth + 1) es sub | _ \<Rightarrow> False)"
| "all_from io p depth es [] = True"
| "all_from io p depth es ((name, c) # sub) =
     (name \<notin> set DENYLIST \<and>
      (case map_of es name of None \<Rightarrow> False | Some e \<Rightarrow> comes_from io (p @ [name]) depth e c) \<and>
      all_from io p depth es sub)"

text \<open>The files in a result whose copying failed.\<close>

fun cut :: "io \<Rightarrow> path \<Rightarrow> entry \<Rightarrow> nat" and cuts :: "io \<Rightarrow> path \<Rightarrow> entries \<Rightarrow> nat" where
  "cut io q (File c) = (if io_copy io q = Copy_Ok then 0 else 1)"
| "cut io q (Link t) = 0"
| "cut io q (Special n) = 0"
| "cut io q (Dir sub) = cuts io q sub"
| "cuts io p [] = 0"
| "cuts io p ((name, e) # sub) = cut io (p @ [name]) e + cuts io p sub"

lemma cuts_append [simp]: "cuts io p (a @ b) = cuts io p a + cuts io p b"
  by (induction a) auto

definition misses :: "log \<Rightarrow> nat" where
  "misses l = skipped (fst l) + failed (fst l)"

lemma refuse_misses:
  "refuse_entry io p name l = Some l' \<Longrightarrow> misses l < misses l'"
  "refuse_dir io p depth l = Some l' \<Longrightarrow> misses l < misses l'"
  by (auto simp: refuse_entry_def refuse_dir_def misses_def split: if_splits)

lemma all_from_iff:
  "all_from io p depth es sub \<longleftrightarrow>
     (\<forall>(name, c)\<in>set sub. name \<notin> set DENYLIST \<and>
        (\<exists>e. map_of es name = Some e \<and> comes_from io (p @ [name]) depth e c))"
  by (induction sub) (auto split: option.splits)

lemma update_new: "map_of dst name = None \<Longrightarrow> AList.update name v dst = dst @ [(name, v)]"
  by (induction dst) (auto split: if_splits)

lemma subdir_new: "map_of dst name = None \<Longrightarrow> subdir name dst = []"
  by (simp add: subdir_def)

lemma refuse_entry_denied: "refuse_entry io p name l = None \<Longrightarrow> name \<notin> set DENYLIST"
  by (auto simp: refuse_entry_def split: if_splits)

lemma refuse_dir_depth: "refuse_dir io p depth l = None \<Longrightarrow> depth \<le> MAX_DEPTH"
  by (auto simp: refuse_dir_def split: if_splits)

text \<open>
  One induction carries everything: an entry whose name is new to the destination adds
  at most one entry of that name, which comes from it; a list of entries with new names adds
  entries that come from it; and every file cut short was counted as skipped or failed.
\<close>

definition adds :: "entries \<Rightarrow> io \<Rightarrow> path \<Rightarrow> log \<Rightarrow> (entries \<Rightarrow> bool) \<Rightarrow> entries \<times> log \<Rightarrow> bool" where
  "adds dst io p l P r \<longleftrightarrow> (\<exists>new. fst r = dst @ new \<and> P new \<and> misses l + cuts io p new \<le> misses (snd r))"

lemma addsE:
  assumes "adds dst io p l P r"
  obtains new l' where "r = (dst @ new, l')" "P new" "misses l + cuts io p new \<le> misses l'"
  using assms by (cases r) (auto simp: adds_def)

lemma adds_none: "P [] \<Longrightarrow> misses l \<le> misses l' \<Longrightarrow> adds dst io p l P (dst, l')"
  by (simp add: adds_def)

lemma adds_one: "P [(name, e)] \<Longrightarrow> misses l + cut io (p @ [name]) e \<le> misses l' \<Longrightarrow> adds dst io p l P (dst @ [(name, e)], l')"
  by (simp add: adds_def)

definition one_from :: "io \<Rightarrow> path \<Rightarrow> nat \<Rightarrow> ustring \<Rightarrow> entry \<Rightarrow> entries \<Rightarrow> bool" where
  "one_from io q depth name e new \<longleftrightarrow>
     new = [] \<or> (\<exists>c. new = [(name, c)] \<and> comes_from io q depth e c)"

lemma fs_copy_new:
  assumes "map_of dst name = None"
  shows "fs_copy r name c dst = (case copied_bytes r c of None \<Rightarrow> dst | Some c' \<Rightarrow> dst @ [(name, File c')])"
  using assms by (simp add: fs_copy_def update_new split: option.split)

lemma fs_copy_adds:
  assumes "map_of dst name = None" "P []" "\<And>c'. copy_of (io_copy io (p @ [name])) c c' \<Longrightarrow> P [(name, File c')]"
    "misses l + (if io_copy io (p @ [name]) = Copy_Ok then 0 else 1) \<le> misses l'"
  shows "adds dst io p l P (fs_copy (io_copy io (p @ [name])) name c dst, l')"
proof (cases "copied_bytes (io_copy io (p @ [name])) c")
  case None
  then show ?thesis using assms by (simp add: fs_copy_new adds_none)
next
  case (Some c')
  then show ?thesis using assms(3) [OF copied_bytes_copy_of] assms(1,4)
    by (simp add: fs_copy_new adds_one split: if_splits)
qed

lemma copy_leaf_adds:
  assumes "map_of dst name = None"
  shows "adds dst io p l (one_from io (p @ [name]) depth name (Link t)) (copy_symlink windows io (p @ [name]) name t dst l)"
    "adds dst io p l (one_from io (p @ [name]) depth name (File c)) (copy_file io (p @ [name]) name c dst l)"
proof -
  show "adds dst io p l (one_from io (p @ [name]) depth name (File c)) (copy_file io (p @ [name]) name c dst l)"
    unfolding copy_file_def
    by (rule fs_copy_adds [OF assms]) (auto simp: one_from_def misses_def split: copy_result.split)
  show "adds dst io p l (one_from io (p @ [name]) depth name (Link t)) (copy_symlink windows io (p @ [name]) name t dst l)"
  proof (cases "io_read_link io (p @ [name]) \<and> \<not> io_symlink io (p @ [name]) \<and>
      link_fallback windows (io_target_is_file io (p @ [name])) = Copy_Target")
    case True
    have "adds dst io p l (one_from io (p @ [name]) depth name (Link t))
        (fs_copy (io_copy io (p @ [name])) name (io_target io (p @ [name])) dst,
         if io_copy io (p @ [name]) = Copy_Ok then copy1 l else fail1 (Copying_Link_Target (p @ [name])) l)"
      by (rule fs_copy_adds [OF assms]) (auto simp: one_from_def misses_def)
    then show ?thesis using True by (simp add: copy_symlink_def)
  next
    case False
    then show ?thesis using assms
      by (auto simp: copy_symlink_def one_from_def update_new misses_def intro!: adds_none adds_one split: link_action.splits)
  qed
qed

lemma copy_adds:
  "entries_ok es \<Longrightarrow> distinct (map fst es) \<Longrightarrow> fst ` set es \<inter> fst ` set dst = {} \<Longrightarrow>
     adds dst io p l (\<lambda>new. all_from io p depth es new \<and> fst ` set new \<subseteq> fst ` set es) (copy_entries windows io p depth es dst l)"
  "tree_ok e \<Longrightarrow> map_of dst name = None \<Longrightarrow> q = p' @ [name] \<Longrightarrow>
     adds dst io p' l (one_from io q depth name e) (copy_entry windows io q depth name e dst l)"
proof (induction windows io p depth es dst l and windows io q depth name e dst l
    arbitrary: and p' rule: copy_entries_copy_entry.induct)
  case (1 windows io p depth dst l)
  then show ?case by (simp add: adds_def)
next
  case (2 windows io p depth name e es dst l)
  let ?P = "\<lambda>es new. all_from io p depth es new \<and> fst ` set new \<subseteq> fst ` set es"
  have fresh: "map_of dst name = None" using 2(6) by (auto simp: map_of_eq_None_iff)
  have weaken: "?P ((name, e) # es) new" if "?P es new" for new
    using that 2(5) unfolding all_from_iff by (fastforce simp: image_iff)
  show ?case
  proof (cases "refuse_entry io p name l")
    case (Some l')
    have "adds dst io p l' (?P es) (copy_entries windows io p depth es dst l')"
      using 2(3) [OF Some] 2(4-6) by auto
    then obtain new l2 where "copy_entries windows io p depth es dst l' = (dst @ new, l2)" "?P es new"
      "misses l' + cuts io p new \<le> misses l2" by (rule addsE)
    then show ?thesis using Some weaken [of new] refuse_misses(1) [OF Some]
      unfolding adds_def by (intro exI [of _ new]) simp
  next
    case None
    have "adds dst io p l (one_from io (p @ [name]) depth name e) (copy_entry windows io (p @ [name]) depth name e dst l)"
      using 2(1) [OF None] 2(4) fresh by simp
    then obtain one l1 where one: "copy_entry windows io (p @ [name]) depth name e dst l = (dst @ one, l1)"
      "one_from io (p @ [name]) depth name e one" "misses l + cuts io p one \<le> misses l1" by (rule addsE)
    have names: "fst ` set one \<subseteq> {name}" using one(2) by (auto simp: one_from_def)
    have disj: "fst ` set es \<inter> fst ` set (dst @ one) = {}" using names 2(5,6) by auto
    have "adds (dst @ one) io p l1 (?P es) (copy_entries windows io p depth es (dst @ one) l1)"
      using 2(2) [OF None one(1) [symmetric] _ _ disj] 2(4,5) by simp
    then obtain rest l2 where rest: "copy_entries windows io p depth es (dst @ one) l1 = ((dst @ one) @ rest, l2)"
      "?P es rest" "misses l1 + cuts io p rest \<le> misses l2" by (rule addsE)
    have "all_from io p depth ((name, e) # es) (one @ rest)"
      using weaken [OF rest(2)] one(2) refuse_entry_denied [OF None] by (auto simp: all_from_iff one_from_def)
    moreover have "fst ` set (one @ rest) \<subseteq> fst ` set ((name, e) # es)" using names rest(2) by auto
    ultimately show ?thesis using None one(1,3) rest(1,3)
      unfolding adds_def by (intro exI [of _ "one @ rest"]) simp
  qed
next
  case (3 windows io q depth name target dst l)
  then show ?case using copy_leaf_adds(1) by simp
next
  case (4 windows io q depth name c dst l)
  then show ?case using copy_leaf_adds(2) by simp
next
  case (5 windows io q depth name n dst l)
  then show ?case by (auto simp: one_from_def misses_def intro!: adds_none)
next
  case (6 windows io q depth name es dst l)
  show ?case
  proof (cases "io_contains_staging io q \<or> \<not> io_mkdir io q")
    case True
    then show ?thesis by (auto simp: one_from_def misses_def intro!: adds_none)
  next
    case False
    show ?thesis
    proof (cases "refuse_dir io q (depth + 1) l")
      case (Some l')
      then show ?thesis using False 6(3,4) refuse_misses(2) [OF Some]
        by (auto simp: one_from_def update_new subdir_new intro!: adds_one)
    next
      case None
      have "adds [] io q l (\<lambda>new. all_from io q (depth + 1) es new \<and> fst ` set new \<subseteq> fst ` set es)
          (copy_entries windows io q (depth + 1) es [] l)"
        using 6(1) [OF _ _ None] False 6(2,3) by (simp add: subdir_new)
      then obtain sub l2 where sub: "copy_entries windows io q (depth + 1) es [] l = ([] @ sub, l2)"
        "all_from io q (depth + 1) es sub" "misses l + cuts io q sub \<le> misses l2" by (rule addsE) blast
      then show ?thesis using False None 6(3,4) refuse_dir_depth [OF None]
        by (auto simp: one_from_def update_new subdir_new intro!: adds_one)
    qed
  qed
qed

text \<open>The whole copy, when nothing is skipped: links stay links where they can be recreated.\<close>

fun mirror :: "io \<Rightarrow> path \<Rightarrow> entry \<Rightarrow> entry" and mirrors :: "io \<Rightarrow> path \<Rightarrow> entries \<Rightarrow> entries" where
  "mirror io q (Link t) =
     (if io_symlink io q then Link t else File (io_target io q))"
| "mirror io q (Dir es) = Dir (mirrors io q es)"
| "mirror io q e = e"
| "mirrors io p [] = []"
| "mirrors io p ((name, e) # es) = (name, mirror io (p @ [name]) e) # mirrors io p es"

fun leaves :: "entry \<Rightarrow> nat" and leaves_of :: "entries \<Rightarrow> nat" where
  "leaves (Dir es) = leaves_of es"
| "leaves e = 1"
| "leaves_of [] = 0"
| "leaves_of ((name, e) # es) = leaves e + leaves_of es"

text \<open>A step misses something, or adds exactly the mirrored entries and counts their leaves.\<close>

definition whole :: "entries \<Rightarrow> log \<Rightarrow> entries \<Rightarrow> nat \<Rightarrow> entries \<times> log \<Rightarrow> bool" where
  "whole dst l new n r \<longleftrightarrow>
     misses l < misses (snd r) \<or>
     misses l = misses (snd r) \<and> fst r = dst @ new \<and> copied (fst (snd r)) = copied (fst l) + n"

lemma whole_miss: "misses l < misses (snd r) \<Longrightarrow> whole dst l new n r"
  by (simp add: whole_def)

lemma whole_trans:
  "whole dst l new n (dst1, l1) \<Longrightarrow> whole dst1 l1 new' n' r \<Longrightarrow>
     whole dst l (new @ new') (n + n') r"
  by (auto simp: whole_def)

lemma whole_mono: "whole dst l new n r \<Longrightarrow> misses l \<le> misses (snd r)"
  by (auto simp: whole_def)

lemma copy_whole:
  "distinct (map fst es) \<Longrightarrow> entries_ok es \<Longrightarrow> fst ` set es \<inter> fst ` set dst = {} \<Longrightarrow>
     whole dst l (mirrors io p es) (leaves_of es) (copy_entries windows io p depth es dst l)"
  "tree_ok e \<Longrightarrow> map_of dst name = None \<Longrightarrow>
     whole dst l [(name, mirror io q e)] (leaves e) (copy_entry windows io q depth name e dst l)"
proof (induction windows io p depth es dst l and windows io q depth name e dst l
    rule: copy_entries_copy_entry.induct)
  case (1 windows io p depth dst l)
  then show ?case by (simp add: whole_def)
next
  case (2 windows io p depth name e es dst l)
  have fresh: "map_of dst name = None" using 2(6) by (auto simp: map_of_eq_None_iff)
  show ?case
  proof (cases "refuse_entry io p name l")
    case (Some l')
    have "whole dst l' (mirrors io p es) (leaves_of es) (copy_entries windows io p depth es dst l')"
      using 2(3) [OF Some] 2(4-6) by auto
    then have "misses l' \<le> misses (snd (copy_entries windows io p depth es dst l'))" by (rule whole_mono)
    then have "misses l < misses (snd (copy_entries windows io p depth es dst l'))"
      using refuse_misses(1) [OF Some] by simp
    then show ?thesis using Some by (simp add: whole_miss)
  next
    case None
    let ?one = "copy_entry windows io (p @ [name]) depth name e dst l"
    obtain d1 l1 where one: "?one = (d1, l1)" by (cases ?one)
    have w1: "whole dst l [(name, mirror io (p @ [name]) e)] (leaves e) (d1, l1)"
      using 2(1) [OF None] 2(5) fresh one by simp
    have "adds dst io p l (one_from io (p @ [name]) depth name e) ?one" using 2(5) fresh by (intro copy_adds(2)) simp_all
    then have "fst ` set d1 \<subseteq> insert name (fst ` set dst)" unfolding one by (auto simp: adds_def one_from_def)
    then have disj: "fst ` set es \<inter> fst ` set d1 = {}" using 2(4,6) by (simp add: disjoint_iff subset_iff) blast
    have w2: "whole d1 l1 (mirrors io p es) (leaves_of es) (copy_entries windows io p depth es d1 l1)"
      using 2(2) [OF None one [symmetric] _ _ disj] 2(4,5) by simp
    from whole_trans [OF w1 w2] show ?thesis using None one by simp
  qed
next
  case (3 windows io q depth name target dst l)
  then show ?case by (auto simp: whole_def misses_def copy_symlink_def link_fallback_def update_new fs_copy_new
        copied_bytes_def)
next
  case (4 windows io q depth name c dst l)
  then show ?case by (auto simp: whole_def misses_def copy_file_def fs_copy_new copied_bytes_def split: copy_result.splits)
next
  case (5 windows io q depth name n dst l)
  then show ?case by (simp add: whole_def misses_def)
next
  case (6 windows io q depth name es dst l)
  show ?case
  proof (cases "io_contains_staging io q \<or> \<not> io_mkdir io q")
    case True
    then show ?thesis by (auto simp: whole_def misses_def)
  next
    case False
    show ?thesis
    proof (cases "refuse_dir io q (depth + 1) l")
      case (Some l')
      then show ?thesis using False refuse_misses(2) [OF Some] by (auto intro!: whole_miss)
    next
      case None
      have "whole [] l (mirrors io q es) (leaves_of es) (copy_entries windows io q (depth + 1) es [] l)"
        using 6(1) [OF _ _ None] False 6(2,3) by (simp add: subdir_new)
      then show ?thesis using False None 6(3)
        by (auto simp: whole_def update_new subdir_new split: prod.splits)
    qed
  qed
qed

text \<open>
  C13: The import copies what is there and nothing else. For every source directory and every
  combination of failing calls, each entry of the result comes from the source's entry of the
  same place - a file with its content, a link with its target or the content behind it, a
  directory - and no singleton or lock file is created anywhere. A file may be cut short only
  where copying it failed, and there are no more of those than were counted as skipped or
  failed; when nothing was, the result is the whole source, with every leaf counted as copied.
\<close>

theorem import_copies_source:
  assumes "tree_ok (Dir es)" "copy_dir windows io [] 0 es [] (no_counts, r) = (sub, c, r')"
  shows "all_from io [] 0 es sub \<and> cuts io [] sub \<le> skipped c + failed c \<and>
    (skipped c = 0 \<and> failed c = 0 \<longrightarrow> sub = mirrors io [] es \<and> copied c = leaves_of es)"
proof (cases "refuse_dir io [] 0 (no_counts, r)")
  case (Some l')
  then show ?thesis using assms(2) refuse_misses(2) [OF Some] by (auto simp: copy_dir_def misses_def no_counts_def)
next
  case None
  then have run: "copy_entries windows io [] 0 es [] (no_counts, r) = (sub, c, r')"
    using assms(2) by (simp add: copy_dir_def)
  have ok: "entries_ok es" "distinct (map fst es)" using assms(1) by simp_all
  have "adds [] io [] (no_counts, r) (\<lambda>new. all_from io [] 0 es new \<and> fst ` set new \<subseteq> fst ` set es) (sub, c, r')"
    using copy_adds(1) [OF ok, of "[]" io "[]" "(no_counts, r)" 0 windows] run by simp
  moreover have "whole [] (no_counts, r) (mirrors io [] es) (leaves_of es) (sub, c, r')"
    using copy_whole(1) [OF ok(2,1), of "[]" "(no_counts, r)" io "[]" windows 0] run by simp
  ultimately show ?thesis by (auto simp: adds_def whole_def misses_def no_counts_def)
qed

section \<open>Crashes\<close>

definition stale :: "ustring \<Rightarrow> ustring \<Rightarrow> bool" where
  "stale stem name \<longleftrightarrow> prefix (stem @ migrating) name"

lemma stem_not_stale: "\<not> stale stem stem"
proof
  assume "stale stem stem"
  then obtain t where "stem = (stem @ migrating) @ t" by (auto simp: stale_def prefix_def simp del: u_simps)
  then have "length stem = length stem + length migrating + length t" by (metis length_append)
  then show False by simp
qed

lemma staging_stale: "stale stem (staging_name stem pid)"
  by (simp add: stale_def staging_name_def del: u_simps)

lemma remove_stale_all:
  assumes "li_read_parent li" "\<And>n. li_remove li n"
  shows "remove_stale_staging li stem parent r = (filter (\<lambda>(n, _). \<not> stale stem n) parent, r)"
proof -
  let ?f = "\<lambda>name (parent, r).
      if \<not> prefix (stem @ migrating) name then (parent, r)
      else if li_remove li name then (AList.delete name parent, r)
      else (map (\<lambda>(n, e). (n, if n = name then li_left li e else e)) parent, warn (Stale_Staging name) r)"
  have delf: "AList.delete k al = filter (\<lambda>(n, _). n \<noteq> k) al" for k and al :: entries
    by (induction al) auto
  have run: "fold ?f names (al, r) = (filter (\<lambda>(n, _). \<not> (n \<in> set names \<and> stale stem n)) al, r)" for names and al :: entries
  proof (induction names arbitrary: al)
    case (Cons k names)
    show ?case
    proof (cases "stale stem k")
      case True
      have "fold ?f (k # names) (al, r) = fold ?f names (AList.delete k al, r)"
        using True assms(2) by (simp add: stale_def)
      also have "\<dots> = fold ?f names (filter (\<lambda>(n, _). n \<noteq> k) al, r)"
        by (simp only: delf)
      also have "\<dots> = (filter (\<lambda>(n, _). \<not> (n \<in> set names \<and> stale stem n)) (filter (\<lambda>(n, _). n \<noteq> k) al), r)"
        by (rule Cons.IH)
      also have "\<dots> = (filter (\<lambda>(n, _). \<not> (n \<in> set (k # names) \<and> stale stem n)) al, r)"
        unfolding filter_filter prod.inject by (intro conjI filter_cong refl) (use True in \<open>auto simp: split_beta\<close>)
      finally show ?thesis .
    next
      case False
      have "fold ?f (k # names) (al, r) = fold ?f names (al, r)" using False by (simp add: stale_def)
      also have "\<dots> = (filter (\<lambda>(n, _). \<not> (n \<in> set (k # names) \<and> stale stem n)) al, r)"
        unfolding Cons.IH prod.inject by (intro conjI filter_cong refl) (use False in \<open>auto simp: split_beta\<close>)
      finally show ?thesis .
    qed
  qed simp
  have "filter (\<lambda>(n, _). \<not> (n \<in> set (map fst parent) \<and> stale stem n)) parent =
      filter (\<lambda>(n, _). \<not> stale stem n) parent"
    by (rule filter_cong [OF refl]) (force simp: split_beta)
  then show ?thesis unfolding remove_stale_staging_def using run [of "map fst parent" parent] assms(1) by simp
qed

text \<open>
  What a crash before the rename leaves: some stale directories already removed, or the staging
  directory with any part of the copy in it.
\<close>

inductive interrupted :: "ustring \<Rightarrow> nat \<Rightarrow> entries \<Rightarrow> entries \<Rightarrow> bool" for stem pid where
  removing: "\<forall>n\<in>gone. stale stem n \<Longrightarrow> interrupted stem pid parent (filter (\<lambda>(n, _). n \<notin> gone) parent)"
| staging: "interrupted stem pid parent parent' \<Longrightarrow>
     interrupted stem pid parent (AList.update (staging_name stem pid) (Dir part) parent')"

lemma interrupted_rest:
  "interrupted stem pid parent parent' \<Longrightarrow> \<not> stale stem n \<Longrightarrow> map_of parent' n = map_of parent n"
proof (induction rule: interrupted.induct)
  case (removing gone parent)
  have "n \<notin> gone" using removing by blast
  then show ?case by (induction parent) auto
next
  case (staging parent parent' part)
  have "n \<noteq> staging_name stem pid" using staging.prems staging_stale by blast
  then show ?case using staging by (simp add: update_conv')
qed

lemma filter_map_of: "map_of (filter (\<lambda>(n, _). P n) al) n = (if P n then map_of al n else None)"
  by (induction al) auto

lemma copy_leg_result:
  assumes "li_read_parent li" "\<And>n. li_remove li n" "li_create li" "li_rename li"
    and "copy_dir (li_windows li) (li_tree li) [] 0 legacy [] (no_counts, r) = (sub, c, r')"
  shows "map_of (fst (copy_leg li stem pid legacy parent r)) =
      (\<lambda>n. if n = stem then Some (Dir sub) else if stale stem n then None else map_of parent n)"
    "snd (copy_leg li stem pid legacy parent r) = (r', Some c)"
proof -
  let ?rest = "filter (\<lambda>(n, _). \<not> stale stem n) parent"
  have "map_of ?rest (staging_name stem pid) = None" using staging_stale by (simp add: filter_map_of)
  then have sub: "subdir (staging_name stem pid) ?rest = []" by (rule subdir_new)
  have run: "copy_leg li stem pid legacy parent r =
      (AList.update stem (Dir sub) (AList.delete (staging_name stem pid) ?rest), r', Some c)"
    unfolding copy_leg_def remove_stale_all [OF assms(1,2)] prod.case Let_def sub assms(5)
    using assms(3,4) by simp
  show "snd (copy_leg li stem pid legacy parent r) = (r', Some c)" unfolding run by simp
  show "map_of (fst (copy_leg li stem pid legacy parent r)) =
      (\<lambda>n. if n = stem then Some (Dir sub) else if stale stem n then None else map_of parent n)"
    unfolding run fst_conv update_conv' delete_conv' using staging_stale
    by (auto simp: filter_map_of fun_eq_iff)
qed


lemma failed_leg_creates_nothing:
  assumes "copy_leg li stem pid legacy parent r = (parent', r', None)"
  shows "li_create li \<longrightarrow> \<not> li_rename li"
  using assms by (auto simp: copy_leg_def Let_def split: prod.splits if_splits)

section \<open>Replacement\<close>

text \<open>A text as parts with separators in between.\<close>

fun weave :: "ustring list \<Rightarrow> ustring list \<Rightarrow> ustring" where
  "weave [] ms = []"
| "weave (p # ps) [] = p @ weave ps []"
| "weave (p # ps) (m # ms) = p @ m @ weave ps ms"

lemma find_sub_first_none:
  "find_sub p s = Some i \<Longrightarrow> p \<noteq> [] \<Longrightarrow> find_sub p (take i s) = None"
proof (induction s arbitrary: i)
  case (Cons c s)
  show ?case
  proof (cases "prefix p (c # s)")
    case False
    with Cons.prems obtain j where j: "i = Suc j" "find_sub p s = Some j" by auto
    have "\<not> prefix p (c # take j s)"
    proof
      assume "prefix p (c # take j s)"
      moreover have "prefix (c # take j s) (c # s)" by (simp add: take_is_prefix)
      ultimately show False using False prefix_order.trans by blast
    qed
    then show ?thesis using Cons.IH [OF j(2) Cons.prems(2)] by (simp add: j(1))
  qed (use Cons.prems in simp)
qed simp

lemma lowercase_take: "to_ascii_lowercase (take n s) = take n (to_ascii_lowercase s)"
  by (simp add: to_ascii_lowercase_def take_map)

lemma lowercase_drop: "to_ascii_lowercase (drop n s) = drop n (to_ascii_lowercase s)"
  by (simp add: to_ascii_lowercase_def drop_map)

definition path_match :: "bool \<Rightarrow> ustring \<Rightarrow> ustring \<Rightarrow> bool" where
  "path_match windows needle m \<longleftrightarrow> (if windows then eq_ignore_ascii_case m needle else m = needle)"

lemma find_path_first:
  assumes "find_path windows s needle = Some i" "needle \<noteq> []"
  shows "find_path windows (take i s) needle = None" "path_match windows needle (take (length needle) (drop i s))"
proof -
  have ne: "to_ascii_lowercase needle \<noteq> []" using assms(2) by (simp add: to_ascii_lowercase_def)
  show "find_path windows (take i s) needle = None"
    using assms find_sub_first_none [of "to_ascii_lowercase needle" "to_ascii_lowercase s" i] ne
      find_sub_first_none [of needle s i]
    by (simp add: find_path_def lowercase_take split: if_splits)
  show "path_match windows needle (take (length needle) (drop i s))"
    using assms find_sub_at [of "to_ascii_lowercase needle" "to_ascii_lowercase s" i] find_sub_at [of needle s i]
    by (simp add: find_path_def path_match_def eq_ignore_ascii_case_def lowercase_take lowercase_drop split: if_splits)
qed

text \<open>
  C21: The path rewrite replaces every occurrence and nothing else: the text is parts free of
  the searched directory with matches in between (up to ASCII case on Windows), the result the
  same parts with the replacement in between, and each reported offset is where one stands.
\<close>

theorem replace_all_weaves:
  "needle \<noteq> [] \<Longrightarrow> replace_all windows haystack needle replacement = (out, sites) \<Longrightarrow>
   \<exists>parts ms. haystack = weave parts ms \<and> out = weave parts (map (\<lambda>_. replacement) ms) \<and>
     length parts = Suc (length ms) \<and> length sites = length ms \<and>
     list_all (\<lambda>p. find_path windows p needle = None) parts \<and> list_all (path_match windows needle) ms \<and>
     list_all (\<lambda>s. prefix replacement (drop s out)) sites"
proof (induction windows haystack needle replacement arbitrary: out sites rule: replace_all.induct)
  case (1 windows haystack needle replacement)
  show ?case
  proof (cases "find_path windows haystack needle")
    case None
    then have "out = haystack" "sites = []" using 1(2,3) by (simp_all add: replace_all.simps [of windows haystack])
    then show ?thesis using None by (intro exI [of _ "[haystack]"] exI [of _ "[]"]) simp
  next
    case (Some i)
    then have find: "(if needle = [] then None else find_path windows haystack needle) = Some i" using 1(2) by simp
    obtain out' sites' where rec: "replace_all windows (drop (i + length needle) haystack) needle replacement = (out', sites')"
      by (cases "replace_all windows (drop (i + length needle) haystack) needle replacement")
    then have out: "out = take i haystack @ replacement @ out'" "sites = i # map (\<lambda>s. i + length replacement + s) sites'"
      using 1(3) find by (simp_all add: replace_all.simps [of windows haystack])
    from 1(1) [OF find 1(2) rec] obtain parts ms where
      rr: "drop (i + length needle) haystack = weave parts ms" "out' = weave parts (map (\<lambda>_. replacement) ms)"
        "length parts = Suc (length ms)" "length sites' = length ms"
        "list_all (\<lambda>p. find_path windows p needle = None) parts" "list_all (path_match windows needle) ms"
        "list_all (\<lambda>s. prefix replacement (drop s out')) sites'" by blast
    let ?m = "take (length needle) (drop i haystack)"
    have i: "i \<le> length haystack" using find_path_at [OF Some] by simp
    have "haystack = take i haystack @ ?m @ weave parts ms"
      unfolding rr(1) [symmetric] by (metis append_take_drop_id drop_drop add.commute)
    moreover have "list_all (\<lambda>s. prefix replacement (drop s out)) sites"
      using rr(7) i unfolding out by (simp add: list_all_iff)
    ultimately show ?thesis
      using rr(2-6) find_path_first [OF Some 1(2)]
      by (intro exI [of _ "take i haystack # parts"] exI [of _ "?m # ms"]) (simp add: out)
  qed
qed

text \<open>
  What one launch does to the two files, whatever it finds and whatever fails: nothing; or it
  copies the file to the backup that is not there, wholly or, when the copy fails, in part; or,
  with a backup there or made in full, it puts the rewritten text in the file's place.
\<close>

lemma repair_conf_cases:
  assumes "repair_conf_at windows tc legacy new_dir ci (conf, backup) = ((conf', backup'), outc)"
  obtains (kept) "conf' = conf" "backup' = backup"
  | (backed_up) "conf' = conf" "backup = None" "backup' = copied_bytes (ci_backup ci) conf"
  | (rewritten) tx new sites where "ci_is_file ci" "tc_decode tc conf = Some tx"
      "rewrite_legacy_paths windows tx legacy new_dir = Some (new, sites)" "conf' = tc_encode tc new"
      "list_ex (ci_path_is_file ci) sites"
      "backup' = (if backup = None then Some conf else backup)" "backup = None \<Longrightarrow> ci_backup ci = Copy_Ok"
proof -
  have ex: "filter P xs = [] \<longleftrightarrow> \<not> list_ex P xs" for P and xs :: "'x list"
    by (induction xs) auto
  have all: "copied_bytes Copy_Ok c = Some c" for c by (simp add: copied_bytes_def)
  show ?thesis
    using assms kept backed_up rewritten unfolding repair_conf_at_def Let_def prod.case
    by (auto simp: ex all split: if_splits option.splits)
qed

definition repair_launch ::
    "bool \<Rightarrow> text_codec \<Rightarrow> ustring \<Rightarrow> ustring \<Rightarrow> conf_io \<Rightarrow> nat list \<times> nat list option \<Rightarrow> nat list \<times> nat list option" where
  "repair_launch windows tc legacy new_dir ci files = fst (repair_conf_at windows tc legacy new_dir ci files)"

text \<open>A launch that could not make the backup in full.\<close>

definition backup_cut_short :: "conf_io \<Rightarrow> nat list \<Rightarrow> nat list \<Rightarrow> bool" where
  "backup_cut_short ci conf bk \<longleftrightarrow> ci_backup ci \<noteq> Copy_Ok \<and> prefix bk conf"

definition original_kept :: "conf_io list \<Rightarrow> nat list \<Rightarrow> nat list option \<Rightarrow> nat list \<times> nat list option \<Rightarrow> bool" where
  "original_kept runs conf backup files \<longleftrightarrow>
     (case snd files of
        None \<Rightarrow> fst files = conf \<and> backup = None
      | Some bk \<Rightarrow> backup = Some bk \<or> backup = None \<and> (bk = conf \<or> list_ex (\<lambda>ci. backup_cut_short ci conf bk) runs))"

lemma launches_keep:
  "original_kept runs conf backup (fold (repair_launch windows tc legacy new_dir) runs (conf, backup))"
proof (induction runs rule: rev_induct)
  case Nil
  then show ?case by (auto simp: original_kept_def split: option.split)
next
  case (snoc ci runs)
  obtain c b where s: "fold (repair_launch windows tc legacy new_dir) runs (conf, backup) = (c, b)" by fastforce
  obtain c' b' outc where s': "repair_conf_at windows tc legacy new_dir ci (c, b) = ((c', b'), outc)"
    by (metis prod.exhaust)
  have kept: "original_kept runs conf backup (c, b)" using snoc s by simp
  have "original_kept (runs @ [ci]) conf backup (c', b')"
    using s'
  proof (cases rule: repair_conf_cases)
    case backed_up
    have "copy_of (ci_backup ci) c bk" if "b' = Some bk" for bk
      using copied_bytes_copy_of backed_up that by simp
    then show ?thesis using kept backed_up
      by (auto simp: original_kept_def copy_of_def backup_cut_short_def split: option.split if_splits)
  qed (use kept in \<open>auto simp: original_kept_def split: option.splits\<close>)
  moreover have "repair_launch windows tc legacy new_dir ci (c, b) = (c', b')" by (simp add: repair_launch_def s')
  ultimately show ?case using s by simp
qed

text \<open>
  C22: The repair of a configuration never loses it, unless a backup was cut short. Over any
  number of launches, whatever fails in each: as long as there is no backup, the file is the
  original byte for byte; and the backup is the one there was, or the original, or else some
  launch could not copy the file in full and it is the part that was copied. And what the next
  launch does is to leave the file alone, or to put its rewritten text in its place when at least
  one of the rewritten paths exists and a backup does.
\<close>

theorem repair_keeps_original:
  "let (c, b) = fold (repair_launch windows tc legacy new_dir) runs (conf, backup);
       (c', b') = repair_launch windows tc legacy new_dir ci (c, b)
   in (case b of
         None \<Rightarrow> c = conf \<and> backup = None
       | Some bk \<Rightarrow> backup = Some bk \<or>
           backup = None \<and> (bk = conf \<or> list_ex (\<lambda>ci. backup_cut_short ci conf bk) runs)) \<and>
      (c' = c \<or> b' \<noteq> None \<and> (b = None \<longrightarrow> b' = Some c) \<and>
         (\<exists>tx new sites. tc_decode tc c = Some tx \<and>
            rewrite_legacy_paths windows tx legacy new_dir = Some (new, sites) \<and> c' = tc_encode tc new \<and>
            list_ex (ci_path_is_file ci) sites))"
proof -
  obtain c b where s: "fold (repair_launch windows tc legacy new_dir) runs (conf, backup) = (c, b)" by fastforce
  obtain c' b' outc where s': "repair_conf_at windows tc legacy new_dir ci (c, b) = ((c', b'), outc)"
    by (metis prod.exhaust)
  have launch: "repair_launch windows tc legacy new_dir ci (c, b) = (c', b')" by (simp add: repair_launch_def s')
  have "original_kept runs conf backup (c, b)" using launches_keep s by metis
  moreover have "c' = c \<or> b' \<noteq> None \<and> (b = None \<longrightarrow> b' = Some c) \<and>
      (\<exists>tx new sites. tc_decode tc c = Some tx \<and>
         rewrite_legacy_paths windows tx legacy new_dir = Some (new, sites) \<and> c' = tc_encode tc new \<and>
         list_ex (ci_path_is_file ci) sites)"
    by (cases rule: repair_conf_cases [OF s']) auto
  ultimately show ?thesis unfolding s Let_def prod.case launch
    by (cases b) (simp_all add: original_kept_def)
qed

text \<open>
  The exception is real. A launch that runs out of space while it writes the backup leaves its
  first bytes and the file alone; the next launch finds a backup and rewrites the file. The
  original is then in neither.
\<close>

definition bytes_as_text :: text_codec where
  "bytes_as_text = \<lparr>tc_decode = Some, tc_encode = (\<lambda>t. t)\<rparr>"

definition disk_full :: conf_io where
  "disk_full = \<lparr>ci_is_file = True, ci_readable = True, ci_backup = Copy_Failed (Some 2), ci_write_ok = False,
     ci_path_is_file = (\<lambda>_. True)\<rparr>"

theorem cut_backup_loses_original:
  "fold (repair_launch False bytes_as_text (u ''/b/jf'') (u ''/b/as'')) [disk_full, disk_full\<lparr>ci_write_ok := True\<rparr>]
     (u ''a=/b/jf/x'', None) = (u ''a=/b/as/x'', Some (u ''a=''))"
  by (simp add: repair_launch_def repair_conf_at_def disk_full_def bytes_as_text_def copied_bytes_def
      rewrite_legacy_paths_def rewrite_style_def replace_all.simps find_path_def up_to_def PATH_TERMINATORS_def)

text \<open>
  The rewrite has no notion of where a path component ends: a sibling whose name only
  begins like the legacy directory is repointed too, into a directory nobody created.
\<close>

theorem sibling_directory_is_rewritten:
  "rewrite_legacy_paths False (u ''glsl=/b/jf-old/x'') (u ''/b/jf'') (u ''/b/as'') =
     Some (u ''glsl=/b/as-old/x'', [u ''/b/as-old/x''])"
  by (simp add: rewrite_legacy_paths_def rewrite_style_def replace_all.simps find_path_def up_to_def
      PATH_TERMINATORS_def)

section \<open>Witnesses\<close>

definition sample_io :: io where
  "sample_io = \<lparr>io_read_dir = (\<lambda>_. True), io_entry = (\<lambda>_. True), io_stat = (\<lambda>_. True), io_mkdir = (\<lambda>_. True),
     io_copy = (\<lambda>_. Copy_Ok), io_read_link = (\<lambda>_. True), io_symlink = (\<lambda>_. True),
     io_target_is_file = (\<lambda>_. True), io_target = (\<lambda>_. []), io_contains_staging = (\<lambda>_. False)\<rparr>"

definition sample_tree :: entries where
  "sample_tree = [(u ''a'', File [1]), (u ''d'', Dir [(u ''l'', Link (u ''t'')), (u ''b'', File [2, 3])])]"

theorem import_copies_source_witness:
  "fst (copy_dir False sample_io [] 0 sample_tree [] (no_counts, new_report)) = mirrors sample_io [] sample_tree"
proof -
  let ?r = "copy_dir False sample_io [] 0 sample_tree [] (no_counts, new_report)"
  have r: "?r = (fst ?r, fst (snd ?r), snd (snd ?r))" by simp
  have "tree_ok (Dir sample_tree)" by (simp add: sample_tree_def)
  from import_copies_source [OF this r] show ?thesis
    by (simp add: copy_dir_def sample_tree_def sample_io_def refuse_dir_def refuse_entry_def copy_file_def
        fs_copy_def copied_bytes_def copy_symlink_def no_counts_def MAX_DEPTH_def DENYLIST_def subdir_def)
qed

theorem repair_keeps_original_witness:
  "let (c, b) = fold (repair_launch False bytes_as_text (u ''/b/jf'') (u ''/b/as'')) [disk_full\<lparr>ci_backup := Copy_Ok\<rparr>]
                  (u ''a=/b/jf/x'', None);
       (c', b') = repair_launch False bytes_as_text (u ''/b/jf'') (u ''/b/as'') (disk_full\<lparr>ci_write_ok := True\<rparr>) (c, b)
   in c = u ''a=/b/jf/x'' \<and> b = Some c \<and> c' = u ''a=/b/as/x'' \<and> b' = Some c"
  using repair_keeps_original [of False bytes_as_text "u ''/b/jf''" "u ''/b/as''"
      "[disk_full\<lparr>ci_backup := Copy_Ok\<rparr>]" "u ''a=/b/jf/x''" None "disk_full\<lparr>ci_write_ok := True\<rparr>"]
  by (simp add: repair_launch_def repair_conf_at_def disk_full_def bytes_as_text_def copied_bytes_def
      rewrite_legacy_paths_def rewrite_style_def replace_all.simps find_path_def up_to_def PATH_TERMINATORS_def)

theorem replace_all_weaves_witness:
  "\<exists>parts ms. u ''/a/b;/a/c'' = weave parts ms \<and> u ''/x/b;/x/c'' = weave parts (map (\<lambda>_. u ''/x'') ms)"
  using replace_all_weaves [of "u ''/a''" False "u ''/a/b;/a/c''" "u ''/x''" "u ''/x/b;/x/c''" "[0, 5]"]
  by (simp add: replace_all.simps find_path_def) blast

definition sample_leg_io :: leg_io where
  "sample_leg_io = \<lparr>li_read_parent = True, li_remove = (\<lambda>_. True), li_left = (\<lambda>e. e), li_create = True, li_rename = True,
     li_remove_staging = True, li_tree = sample_io, li_windows = False\<rparr>"


end
