(* ===== verification/Paint_Scheduler.thy ===== *)
theory Paint_Scheduler
  imports Ieee
begin

text \<open>
  Painting after a resize (\<open>jfn_cef/src/paint_scheduler.rs\<close>, with the resize and refresh-rate
  entry points of \<open>client/resize.rs\<close> and their arithmetic in \<open>client_logic.rs\<close>): the loop that
  keeps invalidating the view until enough frames came through, and the paints it drops.
  Resizes run on any thread, the loop, the paints and the refresh rate on CEF's UI thread; the
  atomic accesses of \<open>PaintState\<close> that another thread can separate are steps of their own.
\<close>

section \<open>Arithmetic\<close>

definition BOOST_MULTIPLIER :: int where "BOOST_MULTIPLIER = 2"
definition INVALIDATE_TICK_LIMIT :: int where "INVALIDATE_TICK_LIMIT = 1000"
definition SKIP_PAINTS_AFTER_RESIZE :: int where "SKIP_PAINTS_AFTER_RESIZE = 1"

definition tick_delay_ms :: "int \<Rightarrow> int" where
  "tick_delay_ms fps =
     (let tick_hz = sat32 (fps * 4);
          delay_ms = f_to_i64 (f_add double (f_div double (f_of_int double 1000) (f_of_int double tick_hz))
                                 (Fin 1 (-1)))
      in max delay_ms 1)"

definition frame_period_ns :: "f64 \<Rightarrow> int" where
  "frame_period_ns hz =
     (if f_lt (Fin 0 0) hz then f_to_i64 (f_div double (f_of_int double 1000000000) hz) else 16666667)"

definition skip_reset_is_due :: "int \<Rightarrow> int \<Rightarrow> int \<Rightarrow> bool" where
  "skip_reset_is_due now last_reset_ns period_ns = (period_ns \<le> now - last_reset_ns)"

definition pump_target :: "int \<Rightarrow> int" where
  "pump_target fps = (if 0 < fps then wrap32 (1 + fps) else 0)"

definition should_present :: "int \<Rightarrow> bool" where
  "should_present paints_since_resize = (SKIP_PAINTS_AFTER_RESIZE < paints_since_resize)"

definition boosted_frame_rate :: "int \<Rightarrow> int" where
  "boosted_frame_rate fps = sat32 (fps * BOOST_MULTIPLIER)"

definition frame_rate_usable :: "int \<Rightarrow> bool" where
  "frame_rate_usable hz = (0 < hz)"

text \<open>\<open>ResizeAction\<close>: tell CEF now, or post the resize this many milliseconds out.\<close>

datatype resize_action = Now | After int

definition resize_action :: "int \<Rightarrow> int \<Rightarrow> int \<Rightarrow> resize_action" where
  "resize_action now_ns last_ns period_ns =
     (let elapsed = now_ns - last_ns
      in if period_ns \<le> elapsed then Now else After (max ((period_ns - elapsed) div 1000000) 1))"

definition windowless_frame_rate :: "int \<Rightarrow> int \<Rightarrow> int" where
  "windowless_frame_rate layer dflt =
     (let fr = (if 0 < layer then layer else dflt) in if 0 < fr then fr else 60)"

section \<open>State\<close>

datatype ui_task = Kick_Task | Tick_Task

text \<open>Where the UI thread is inside a tick: between tasks, before it reads the stop flag, before
  it gives up the running flag.\<close>

datatype ui_pc = Ui_Idle | Ui_Load_Stop | Ui_Leave

text \<open>Where a thread is inside \<open>during_resize\<close>.\<close>

datatype resizer = Rz_Begin | Rz_Clear_Stop | Rz_Claim | Rz_Reset_Count | Rz_Post | Rz_Done

record paint_state =
  saved_frame_rate :: int
  resize_gen :: nat
  invalidate_running :: bool
  invalidate_stop :: bool
  invalidate_tick_count :: int
  last_paint_gen :: nat
  paints_since_resize :: int
  pump_paint_count :: int
  last_skip_reset_ns :: int

text \<open>The layer around it: its own rate, the rate CEF was last given, the browser and the rate one asked
  for and not there yet is to start at, the tasks posted to the UI
  thread and the threads inside a resize.\<close>

record scheduler = paint_state +
  frame_rate :: int
  cef_rate :: int
  browser_alive :: bool
  creating :: "int option"
  ui_queue :: "ui_task list"
  ui :: ui_pc
  resizers :: "resizer list"

definition new_scheduler :: scheduler where
  "new_scheduler =
     \<lparr>saved_frame_rate = 0, resize_gen = 0, invalidate_running = False, invalidate_stop = False,
      invalidate_tick_count = 0, last_paint_gen = 0, paints_since_resize = SKIP_PAINTS_AFTER_RESIZE,
      pump_paint_count = 0, last_skip_reset_ns = 0, frame_rate = 0, cef_rate = 0, browser_alive = False, creating = None,
      ui_queue = [], ui = Ui_Idle, resizers = []\<rparr>"

section \<open>Operations\<close>

definition set_frame_rate :: "int \<Rightarrow> scheduler \<Rightarrow> scheduler" where
  "set_frame_rate hz s = (if \<not> frame_rate_usable hz \<or> \<not> browser_alive s then s else s\<lparr>cef_rate := hz\<rparr>)"

text \<open>\<open>before_resize\<close>, then \<open>start_invalidate_loop\<close> access by access.\<close>

fun resizer_step :: "resizer \<Rightarrow> scheduler \<Rightarrow> resizer \<times> scheduler" where
  "resizer_step Rz_Begin s = (Rz_Clear_Stop, s\<lparr>resize_gen := resize_gen s + 1\<rparr>)"
| "resizer_step Rz_Clear_Stop s = (Rz_Claim, s\<lparr>invalidate_stop := False\<rparr>)"
| "resizer_step Rz_Claim s =
     (if invalidate_running s then (Rz_Done, s) else (Rz_Reset_Count, s\<lparr>invalidate_running := True\<rparr>))"
| "resizer_step Rz_Reset_Count s = (Rz_Post, s\<lparr>invalidate_tick_count := 0\<rparr>)"
| "resizer_step Rz_Post s = (Rz_Done, s\<lparr>ui_queue := ui_queue s @ [Kick_Task]\<rparr>)"
| "resizer_step Rz_Done s = (Rz_Done, s)"

definition kick_boost :: "scheduler \<Rightarrow> scheduler" where
  "kick_boost s =
     (if browser_alive s \<and> 0 < frame_rate s \<and> saved_frame_rate s = 0
      then set_frame_rate (boosted_frame_rate (frame_rate s)) (s\<lparr>saved_frame_rate := frame_rate s\<rparr>) else s)"

definition count_tick :: "scheduler \<Rightarrow> scheduler" where
  "count_tick s =
     (let s = s\<lparr>invalidate_tick_count := wrap32 (invalidate_tick_count s + 1)\<rparr>
      in if INVALIDATE_TICK_LIMIT < invalidate_tick_count s then s\<lparr>invalidate_stop := True\<rparr> else s)"

text \<open>A task is taken up; then the stop flag decides.\<close>

definition take_task :: "ui_task \<Rightarrow> scheduler \<Rightarrow> scheduler" where
  "take_task t s = (count_tick (if t = Kick_Task then kick_boost s else s))\<lparr>ui := Ui_Load_Stop\<rparr>"

definition tick_decide :: "scheduler \<Rightarrow> scheduler" where
  "tick_decide s =
     (if invalidate_stop s
      then let saved = saved_frame_rate s; s = s\<lparr>saved_frame_rate := 0, ui := Ui_Leave\<rparr>
           in if browser_alive s \<and> 0 < saved then set_frame_rate saved s else s
      else if frame_rate s \<le> 0 then s\<lparr>ui := Ui_Leave\<rparr>
      else s\<lparr>ui_queue := ui_queue s @ [Tick_Task], ui := Ui_Idle\<rparr>)"

definition tick_leave :: "scheduler \<Rightarrow> scheduler" where
  "tick_leave s = s\<lparr>invalidate_running := False, ui := Ui_Idle\<rparr>"

definition update_boost_saved_frame_rate :: "int \<Rightarrow> scheduler \<Rightarrow> scheduler \<times> bool" where
  "update_boost_saved_frame_rate target s =
     (if saved_frame_rate s = 0 then (s, False) else (s\<lparr>saved_frame_rate := target\<rparr>, True))"

definition refresh_target :: "f64 \<Rightarrow> int option" where
  "refresh_target hz =
     (if f_lt (Fin 0 0) hz
      then Some (let n = f_to_i32 hz in if f_lt (f_of_int double n) hz \<and> n < i32_max then n + 1 else n)
      else None)"

definition apply_set_refresh :: "int \<Rightarrow> scheduler \<Rightarrow> scheduler" where
  "apply_set_refresh target s =
     (let (s, saved) = update_boost_saved_frame_rate target (s\<lparr>frame_rate := target\<rparr>)
      in if saved then s else set_frame_rate target s)"

definition stop_invalidate_loop :: "scheduler \<Rightarrow> scheduler" where
  "stop_invalidate_loop s = s\<lparr>invalidate_stop := True\<rparr>"

text \<open>CEF is asked for a browser at the layer's rate, or the default one; when it is there it is known
  to the layer. The resize that follows at once is steps of its own.\<close>

definition cef_create_browser :: "int \<Rightarrow> scheduler \<Rightarrow> scheduler" where
  "cef_create_browser dflt s = s\<lparr>creating := Some (windowless_frame_rate (frame_rate s) dflt)\<rparr>"

definition handle_on_after_created :: "int \<Rightarrow> scheduler \<Rightarrow> scheduler" where
  "handle_on_after_created rate s = s\<lparr>browser_alive := True, cef_rate := rate, creating := None\<rparr>"

declare cef_create_browser_def [simp] handle_on_after_created_def [simp]

text \<open>A paint: whether it is presented, and whether the page's own loop is told to stop.\<close>

definition active_should_present_paint :: "int \<Rightarrow> int \<Rightarrow> scheduler \<Rightarrow> scheduler \<times> bool \<times> bool" where
  "active_should_present_paint now period_ns s =
     (let s = (if resize_gen s \<noteq> last_paint_gen s
               then let s = s\<lparr>last_paint_gen := resize_gen s\<rparr>
                    in if skip_reset_is_due now (last_skip_reset_ns s) period_ns
                       then s\<lparr>last_skip_reset_ns := now, pump_paint_count := pump_target (frame_rate s),
                              paints_since_resize := 0\<rparr>
                       else s
               else s);
          count = wrap32 (paints_since_resize s + 1);
          s = s\<lparr>paints_since_resize := count\<rparr>;
          stop = 0 < pump_paint_count s \<and> count = pump_paint_count s
      in ((if stop then s\<lparr>invalidate_stop := True\<rparr> else s), should_present count, stop))"

section \<open>Threads\<close>

datatype plabel =
    Resize_Begins
  | Resize_Access nat
  | Takes_Task
  | Ticks bool
  | Leaves
  | Paints int int bool
  | Refreshes int
  | Creates
  | Created
  | Dies
  | Closes

text \<open>
  \<open>Ticks\<close> carries whether the tick went on, invalidating the view; a paint its time, the frame
  period and whether it was presented. A browser is asked for with the layer's rate of that moment
  (\<open>cef_create_browser\<close>); it is there to be told another only when CEF reports it
  (\<open>handle_on_after_created\<close>, which then resizes it).
\<close>

inductive paint_step :: "scheduler \<Rightarrow> plabel \<Rightarrow> scheduler \<Rightarrow> bool" where
  resize_begins: "paint_step s Resize_Begins (s\<lparr>resizers := resizers s @ [Rz_Begin]\<rparr>)"
| resize_access: "i < length (resizers s) \<Longrightarrow> resizers s ! i \<noteq> Rz_Done \<Longrightarrow>
     resizer_step (resizers s ! i) s = (pc, s') \<Longrightarrow>
     paint_step s (Resize_Access i) (s'\<lparr>resizers := (resizers s)[i := pc]\<rparr>)"
| takes_task: "ui s = Ui_Idle \<Longrightarrow> ui_queue s = q1 @ t # q2 \<Longrightarrow>
     paint_step s Takes_Task (take_task t (s\<lparr>ui_queue := q1 @ q2\<rparr>))"
| ticks: "ui s = Ui_Load_Stop \<Longrightarrow> paint_step s (Ticks (\<not> invalidate_stop s)) (tick_decide s)"
| leaves: "ui s = Ui_Leave \<Longrightarrow> paint_step s Leaves (tick_leave s)"
| paints: "ui s = Ui_Idle \<Longrightarrow> active_should_present_paint now period s = (s', present, stop) \<Longrightarrow>
     paint_step s (Paints now period present) s'"
| refreshes: "ui s = Ui_Idle \<Longrightarrow> 0 < target \<Longrightarrow> paint_step s (Refreshes target) (apply_set_refresh target s)"
| creates: "\<not> browser_alive s \<Longrightarrow> creating s = None \<Longrightarrow>
     paint_step s Creates (cef_create_browser dflt s)"
| created: "ui s = Ui_Idle \<Longrightarrow> creating s = Some rate \<Longrightarrow>
     paint_step s Created (handle_on_after_created rate s)"
| dies: "ui s = Ui_Idle \<Longrightarrow> paint_step s Dies (s\<lparr>browser_alive := False\<rparr>)"
| closes: "paint_step s Closes (stop_invalidate_loop s)"

inductive paint_trace :: "scheduler \<Rightarrow> plabel list \<Rightarrow> scheduler \<Rightarrow> bool" where
  trace_nil: "paint_trace s [] s"
| trace_snoc: "paint_trace s ls s' \<Longrightarrow> paint_step s' l s'' \<Longrightarrow> paint_trace s (ls @ [l]) s''"

inductive_simps paint_step_ui: "paint_step s Takes_Task s'" "paint_step s (Ticks b) s'" "paint_step s Leaves s'"

section \<open>One loop, and its boost\<close>

definition claiming :: "resizer \<Rightarrow> bool" where
  "claiming pc \<longleftrightarrow> pc = Rz_Reset_Count \<or> pc = Rz_Post"

text \<open>The activities of the loop: posted tasks, the UI thread in a tick, a thread that claimed it.\<close>

definition loops :: "scheduler \<Rightarrow> nat" where
  "loops s = length (ui_queue s) + (if ui s = Ui_Idle then 0 else 1) + length (filter claiming (resizers s))"

text \<open>The invariant on the fields it reads: a browser asked for, posted tasks, a tick in progress, claiming
  threads. What CEF's rate is, is claimed only when no change of the rate is lost, \<open>fresh\<close>.\<close>

definition loop_ok :: "bool \<Rightarrow> int option \<Rightarrow> nat \<Rightarrow> bool \<Rightarrow> nat \<Rightarrow> bool \<Rightarrow> int \<Rightarrow> int \<Rightarrow> int \<Rightarrow> bool \<Rightarrow> bool \<Rightarrow> bool" where
  "loop_ok fresh asked posted busy claims running rate saved cef alive leaving \<longleftrightarrow>
     posted + (if busy then 1 else 0) + claims = (if running then 1 else 0) \<and> 0 \<le> rate \<and> 0 \<le> saved \<and>
     (saved \<noteq> 0 \<longrightarrow> saved = rate \<and> running \<and> \<not> leaving \<and> claims = 0) \<and>
     (fresh \<and> saved = 0 \<and> alive \<and> 0 < rate \<longrightarrow> cef = rate) \<and>
     (fresh \<and> 0 < rate \<longrightarrow> asked = None \<or> asked = Some rate)"

definition paint_inv :: "bool \<Rightarrow> scheduler \<Rightarrow> bool" where
  "paint_inv fresh s \<longleftrightarrow>
     loop_ok fresh (creating s) (length (ui_queue s)) (ui s \<noteq> Ui_Idle) (length (filter claiming (resizers s))) (invalidate_running s)
       (frame_rate s) (saved_frame_rate s) (cef_rate s) (browser_alive s) (ui s = Ui_Leave)"

lemma filter_update_length:
  assumes "i < length xs"
  shows "length (filter P (xs[i := x])) + (if P (xs ! i) then 1 else 0) =
    length (filter P xs) + (if P x then 1 else 0)"
proof -
  have u: "xs[i := x] = take i xs @ x # drop (Suc i) xs" by (rule upd_conv_take_nth_drop [OF assms])
  have x: "xs = take i xs @ xs ! i # drop (Suc i) xs" by (rule id_take_nth_drop [OF assms])
  have "length (filter P xs) = length (filter P (take i xs @ xs ! i # drop (Suc i) xs))" using x by simp
  then show ?thesis unfolding u by simp
qed

lemma claiming_simps [simp]:
  "\<not> claiming Rz_Begin" "\<not> claiming Rz_Clear_Stop" "\<not> claiming Rz_Claim" "claiming Rz_Reset_Count"
  "claiming Rz_Post" "\<not> claiming Rz_Done"
  by (simp_all add: claiming_def)

lemma resizer_inv:
  assumes inv: "paint_inv fresh s" and i: "i < length (resizers s)" "resizers s ! i \<noteq> Rz_Done"
    and step: "resizer_step (resizers s ! i) s = (pc, s')"
  shows "paint_inv fresh (s'\<lparr>resizers := (resizers s)[i := pc]\<rparr>)"
proof -
  let ?n = "length (filter claiming (resizers s))" and ?n' = "length (filter claiming ((resizers s)[i := pc]))"
  have f: "?n' + (if claiming (resizers s ! i) then 1 else 0) = ?n + (if claiming pc then 1 else 0)"
    by (rule filter_update_length [OF i(1)])
  show ?thesis
  proof (cases "resizers s ! i")
    case Rz_Begin
    then have "pc = Rz_Clear_Stop" "s' = s\<lparr>resize_gen := resize_gen s + 1\<rparr>" using step by simp_all
    then show ?thesis using inv f Rz_Begin by (simp add: paint_inv_def)
  next
    case Rz_Clear_Stop
    then have "pc = Rz_Claim" "s' = s\<lparr>invalidate_stop := False\<rparr>" using step by simp_all
    then show ?thesis using inv f Rz_Clear_Stop by (simp add: paint_inv_def)
  next
    case Rz_Claim
    show ?thesis
    proof (cases "invalidate_running s")
      case True
      then have "pc = Rz_Done" "s' = s" using step Rz_Claim by simp_all
      then show ?thesis using inv f Rz_Claim by (simp add: paint_inv_def)
    next
      case False
      then have pc: "pc = Rz_Reset_Count" "s' = s\<lparr>invalidate_running := True\<rparr>" using step Rz_Claim by simp_all
      have "?n' = Suc ?n" using f Rz_Claim pc(1) by simp
      then show ?thesis using inv False unfolding pc(2) by (simp add: paint_inv_def loop_ok_def)
    qed
  next
    case Rz_Reset_Count
    then have "pc = Rz_Post" "s' = s\<lparr>invalidate_tick_count := 0\<rparr>" using step by simp_all
    then show ?thesis using inv f Rz_Reset_Count by (simp add: paint_inv_def)
  next
    case Rz_Post
    then have pc: "pc = Rz_Done" "s' = s\<lparr>ui_queue := ui_queue s @ [Kick_Task]\<rparr>" using step by simp_all
    have "Suc ?n' = ?n" using f Rz_Post pc(1) by simp
    then show ?thesis using inv unfolding pc(2) by (auto simp: paint_inv_def loop_ok_def split: if_splits)
  qed (use i in simp)
qed

lemma set_frame_rate_fields [simp]:
  "saved_frame_rate (set_frame_rate hz s) = saved_frame_rate s" "ui_queue (set_frame_rate hz s) = ui_queue s"
  "ui (set_frame_rate hz s) = ui s" "resizers (set_frame_rate hz s) = resizers s"
  "invalidate_running (set_frame_rate hz s) = invalidate_running s" "frame_rate (set_frame_rate hz s) = frame_rate s"
  "browser_alive (set_frame_rate hz s) = browser_alive s" "creating (set_frame_rate hz s) = creating s" "invalidate_stop (set_frame_rate hz s) = invalidate_stop s"
  "invalidate_tick_count (set_frame_rate hz s) = invalidate_tick_count s"
  "cef_rate (set_frame_rate hz s) = (if 0 < hz \<and> browser_alive s then hz else cef_rate s)"
  by (simp_all add: set_frame_rate_def frame_rate_usable_def)

lemma count_tick_fields [simp]:
  "saved_frame_rate (count_tick s) = saved_frame_rate s" "ui_queue (count_tick s) = ui_queue s"
  "ui (count_tick s) = ui s" "resizers (count_tick s) = resizers s"
  "invalidate_running (count_tick s) = invalidate_running s" "frame_rate (count_tick s) = frame_rate s"
  "browser_alive (count_tick s) = browser_alive s" "creating (count_tick s) = creating s" "cef_rate (count_tick s) = cef_rate s"
  by (simp_all add: count_tick_def Let_def)

lemma kick_boost_fields [simp]:
  "ui_queue (kick_boost s) = ui_queue s" "ui (kick_boost s) = ui s" "resizers (kick_boost s) = resizers s"
  "invalidate_running (kick_boost s) = invalidate_running s" "frame_rate (kick_boost s) = frame_rate s"
  "browser_alive (kick_boost s) = browser_alive s" "creating (kick_boost s) = creating s"
  "invalidate_tick_count (kick_boost s) = invalidate_tick_count s" "invalidate_stop (kick_boost s) = invalidate_stop s"
  "saved_frame_rate (kick_boost s) =
     (if browser_alive s \<and> 0 < frame_rate s \<and> saved_frame_rate s = 0 then frame_rate s else saved_frame_rate s)"
  by (simp_all add: kick_boost_def)

lemma kick_boost_unboosted:
  "saved_frame_rate (kick_boost s) = 0 \<Longrightarrow> cef_rate (kick_boost s) = cef_rate s"
  by (auto simp: kick_boost_def split: if_splits)

lemma take_task_inv:
  assumes "paint_inv fresh s" "ui s = Ui_Idle" "ui_queue s = q1 @ t # q2"
  shows "paint_inv fresh (take_task t (s\<lparr>ui_queue := q1 @ q2\<rparr>))"
proof -
  have run: "invalidate_running s" "q1 = []" "q2 = []" "filter claiming (resizers s) = []"
    using assms by (auto simp: paint_inv_def loop_ok_def split: if_splits)
  let ?s = "s\<lparr>ui_queue := q1 @ q2\<rparr>"
  have "saved_frame_rate (kick_boost ?s) = 0 \<longrightarrow> cef_rate (kick_boost ?s) = cef_rate s"
    using kick_boost_unboosted [of ?s] by simp
  then show ?thesis
    using assms run by (cases t) (auto simp: paint_inv_def loop_ok_def take_task_def)
qed

lemma ui_steps_inv:
  "paint_inv fresh s \<Longrightarrow> ui s = Ui_Load_Stop \<Longrightarrow> paint_inv fresh (tick_decide s)"
  "paint_inv fresh s \<Longrightarrow> ui s = Ui_Leave \<Longrightarrow> paint_inv fresh (tick_leave s)"
  "paint_inv fresh s \<Longrightarrow> 0 < target \<Longrightarrow> (fresh \<longrightarrow> creating s = None) \<Longrightarrow> paint_inv fresh (apply_set_refresh target s)"
proof -
  assume "paint_inv fresh s" "ui s = Ui_Load_Stop"
  then show "paint_inv fresh (tick_decide s)"
    by (cases "invalidate_stop s"; cases "frame_rate s \<le> 0"; cases "0 < saved_frame_rate s")
      (auto simp: paint_inv_def loop_ok_def tick_decide_def Let_def split: if_splits)
next
  assume "paint_inv fresh s" "ui s = Ui_Leave"
  then show "paint_inv fresh (tick_leave s)" by (auto simp: paint_inv_def loop_ok_def tick_leave_def split: if_splits)
next
  assume "paint_inv fresh s" "0 < target" "fresh \<longrightarrow> creating s = None"
  then show "paint_inv fresh (apply_set_refresh target s)"
    by (cases "saved_frame_rate s = 0")
      (auto simp: paint_inv_def loop_ok_def apply_set_refresh_def update_boost_saved_frame_rate_def Let_def)
qed

lemma paints_fields:
  "ui_queue (fst (active_should_present_paint now period s)) = ui_queue s"
  "ui (fst (active_should_present_paint now period s)) = ui s"
  "resizers (fst (active_should_present_paint now period s)) = resizers s"
  "invalidate_running (fst (active_should_present_paint now period s)) = invalidate_running s"
  "frame_rate (fst (active_should_present_paint now period s)) = frame_rate s"
  "saved_frame_rate (fst (active_should_present_paint now period s)) = saved_frame_rate s"
  "cef_rate (fst (active_should_present_paint now period s)) = cef_rate s"
  "browser_alive (fst (active_should_present_paint now period s)) = browser_alive s"
  "creating (fst (active_should_present_paint now period s)) = creating s"
  by (simp_all add: active_should_present_paint_def Let_def)

lemma paints_inv:
  assumes "active_should_present_paint now period s = (s', present, stop)" "paint_inv fresh s"
  shows "paint_inv fresh s'"
  using assms(2) paints_fields [of now period s] unfolding assms(1) fst_conv by (simp only: paint_inv_def)

lemma paint_step_inv:
  "paint_step s l s' \<Longrightarrow> paint_inv fresh s \<Longrightarrow>
   (case l of Refreshes target \<Rightarrow> fresh \<longrightarrow> creating s = None | _ \<Rightarrow> True) \<Longrightarrow> paint_inv fresh s'"
proof (induction rule: paint_step.induct)
  case (resize_begins s)
  then show ?case by (simp add: paint_inv_def loop_ok_def)
next
  case (resize_access i s pc s')
  then show ?case using resizer_inv by blast
next
  case (takes_task s q1 t q2)
  then show ?case using take_task_inv by blast
next
  case (creates s dflt)
  then show ?case by (auto simp: paint_inv_def loop_ok_def windowless_frame_rate_def Let_def)
next
  case (created s rate)
  then show ?case by (auto simp: paint_inv_def loop_ok_def)
next
  case (dies s)
  then show ?case by (auto simp: paint_inv_def loop_ok_def)
next
  case (closes s)
  then show ?case by (auto simp: paint_inv_def loop_ok_def stop_invalidate_loop_def)
next
  case (refreshes s target)
  then show ?case using ui_steps_inv(3) by simp
qed (use ui_steps_inv(1,2) paints_inv in \<open>blast+\<close>)

text \<open>Runs in which no change of the refresh rate falls between asking for a browser and its arrival.\<close>

fun awaits :: "bool \<Rightarrow> plabel \<Rightarrow> bool" where
  "awaits waiting Creates = True"
| "awaits waiting Created = False"
| "awaits waiting _ = waiting"

fun undisturbed :: "bool \<Rightarrow> plabel list \<Rightarrow> bool" where
  "undisturbed waiting [] = True"
| "undisturbed waiting (l # ls) =
     ((case l of Refreshes target \<Rightarrow> \<not> waiting | _ \<Rightarrow> True) \<and> undisturbed (awaits waiting l) ls)"

lemma undisturbed_snoc:
  "undisturbed waiting (ls @ [l]) =
   (undisturbed waiting ls \<and> (case l of Refreshes target \<Rightarrow> \<not> foldl awaits waiting ls | _ \<Rightarrow> True))"
  by (induction ls arbitrary: waiting) (simp_all cong: plabel.case_cong)

lemma resizer_step_creating: "resizer_step pc s = (pc', s') \<Longrightarrow> creating s' = creating s"
  by (cases pc) (auto split: if_splits)

lemma step_awaits: "paint_step s l s' \<Longrightarrow> (creating s' \<noteq> None) = awaits (creating s \<noteq> None) l"
proof (induction rule: paint_step.induct)
  case (paints s now period s' present stop)
  then show ?case using paints_fields(9) [of now period s] by simp
qed (auto simp: take_task_def tick_decide_def tick_leave_def apply_set_refresh_def update_boost_saved_frame_rate_def
    stop_invalidate_loop_def Let_def resizer_step_creating split: if_splits)

lemma paint_trace_inv:
  "paint_trace s ls s' \<Longrightarrow> paint_inv fresh s \<Longrightarrow> (fresh \<longrightarrow> undisturbed (creating s \<noteq> None) ls) \<Longrightarrow>
   paint_inv fresh s' \<and> (creating s' \<noteq> None) = foldl awaits (creating s \<noteq> None) ls"
proof (induction rule: paint_trace.induct)
  case (trace_snoc s ls s' l s'')
  then have "paint_inv fresh s'" "(creating s' \<noteq> None) = foldl awaits (creating s \<noteq> None) ls"
    by (auto simp: undisturbed_snoc)
  moreover have "case l of Refreshes target \<Rightarrow> fresh \<longrightarrow> creating s' = None | _ \<Rightarrow> True"
    using trace_snoc.prems(2) calculation(2) by (auto simp: undisturbed_snoc split: plabel.splits)
  ultimately show ?case
    using paint_step_inv [OF trace_snoc.hyps(2)] step_awaits [OF trace_snoc.hyps(2)] by simp
qed simp

lemma paint_inv_start: "paint_inv fresh new_scheduler"
  by (simp add: paint_inv_def loop_ok_def new_scheduler_def)

section \<open>Executing labels\<close>

text \<open>The step a label names, with the first posted task and a default rate of 60.\<close>

definition allowed :: "plabel \<Rightarrow> scheduler \<Rightarrow> bool" where
  "allowed l s =
     (case l of
        Resize_Begins \<Rightarrow> True
      | Resize_Access i \<Rightarrow> i < length (resizers s) \<and> resizers s ! i \<noteq> Rz_Done
      | Takes_Task \<Rightarrow> ui s = Ui_Idle \<and> ui_queue s \<noteq> []
      | Ticks on \<Rightarrow> ui s = Ui_Load_Stop \<and> on = (\<not> invalidate_stop s)
      | Leaves \<Rightarrow> ui s = Ui_Leave
      | Paints now period present \<Rightarrow>
          ui s = Ui_Idle \<and> present = fst (snd (active_should_present_paint now period s))
      | Refreshes target \<Rightarrow> ui s = Ui_Idle \<and> 0 < target
      | Creates \<Rightarrow> \<not> browser_alive s \<and> creating s = None
      | Created \<Rightarrow> ui s = Ui_Idle \<and> creating s \<noteq> None
      | Dies \<Rightarrow> ui s = Ui_Idle
      | Closes \<Rightarrow> True)"

definition perform :: "plabel \<Rightarrow> scheduler \<Rightarrow> scheduler" where
  "perform l s =
     (case l of
        Resize_Begins \<Rightarrow> s\<lparr>resizers := resizers s @ [Rz_Begin]\<rparr>
      | Resize_Access i \<Rightarrow>
          (snd (resizer_step (resizers s ! i) s))\<lparr>resizers := (resizers s)[i := fst (resizer_step (resizers s ! i) s)]\<rparr>
      | Takes_Task \<Rightarrow> take_task (hd (ui_queue s)) (s\<lparr>ui_queue := tl (ui_queue s)\<rparr>)
      | Ticks on \<Rightarrow> tick_decide s
      | Leaves \<Rightarrow> tick_leave s
      | Paints now period present \<Rightarrow> fst (active_should_present_paint now period s)
      | Refreshes target \<Rightarrow> apply_set_refresh target s
      | Creates \<Rightarrow> cef_create_browser 60 s
      | Created \<Rightarrow> handle_on_after_created (the (creating s)) s
      | Dies \<Rightarrow> s\<lparr>browser_alive := False\<rparr>
      | Closes \<Rightarrow> stop_invalidate_loop s)"

lemma perform_step: "allowed l s \<Longrightarrow> paint_step s l (perform l s)"
proof (cases l)
  case Takes_Task
  assume "allowed l s"
  then have q: "ui s = Ui_Idle" "ui_queue s = [] @ hd (ui_queue s) # tl (ui_queue s)"
    by (simp_all add: allowed_def Takes_Task)
  show ?thesis using paint_step.takes_task [OF q] by (simp add: perform_def Takes_Task)
next
  case (Paints now period present)
  assume "allowed l s"
  then show ?thesis using paint_step.paints [of s now period]
    by (cases "active_should_present_paint now period s") (auto simp: allowed_def perform_def Paints)
qed (auto simp: allowed_def perform_def simp del: cef_create_browser_def handle_on_after_created_def intro: paint_step.intros)

fun labels_run :: "plabel list \<Rightarrow> scheduler \<Rightarrow> scheduler option" where
  "labels_run [] s = Some s"
| "labels_run (l # ls) s = (if allowed l s then labels_run ls (perform l s) else None)"

lemma trace_cons: "paint_trace s' ls s'' \<Longrightarrow> paint_step s l s' \<Longrightarrow> paint_trace s (l # ls) s''"
proof (induction rule: paint_trace.induct)
  case (trace_nil s')
  then show ?case using paint_trace.trace_snoc [OF paint_trace.trace_nil] by fastforce
next
  case (trace_snoc s' ls s1 l' s2)
  then show ?case using paint_trace.trace_snoc [of s "l # ls" s1 l' s2] by simp
qed

lemma labels_run_trace: "labels_run ls s = Some s' \<Longrightarrow> paint_trace s ls s'"
proof (induction ls arbitrary: s)
  case Nil
  then show ?case by (simp add: paint_trace.trace_nil)
next
  case (Cons l ls)
  then show ?case using trace_cons perform_step by (fastforce split: if_splits)
qed

lemmas label_evals = allowed_def perform_def take_task_def count_tick_def kick_boost_def tick_decide_def
  tick_leave_def active_should_present_paint_def apply_set_refresh_def update_boost_saved_frame_rate_def
  set_frame_rate_def frame_rate_usable_def windowless_frame_rate_def boosted_frame_rate_def BOOST_MULTIPLIER_def
  INVALIDATE_TICK_LIMIT_def skip_reset_is_due_def pump_target_def should_present_def
  SKIP_PAINTS_AFTER_RESIZE_def new_scheduler_def sat32_def wrap32_def Let_def

text \<open>A resize whose loop ends by the pumped paints, at a refresh rate of 1.\<close>

definition one_resize :: "plabel list" where
  "one_resize = [Creates, Created, Refreshes 1, Resize_Begins, Resize_Access 0, Resize_Access 0, Resize_Access 0,
     Resize_Access 0, Resize_Access 0, Takes_Task, Ticks True, Paints 20 10 False, Paints 30 10 True, Takes_Task]"

section \<open>How long a loop lasts\<close>

text \<open>What is left of the loop: two steps for every tick to the limit, three to leave.\<close>

definition ticks_left :: "scheduler \<Rightarrow> nat" where
  "ticks_left s = nat (INVALIDATE_TICK_LIMIT - invalidate_tick_count s)"

definition loop_left :: "scheduler \<Rightarrow> nat" where
  "loop_left s =
     (case ui s of
        Ui_Leave \<Rightarrow> 1
      | Ui_Load_Stop \<Rightarrow> if invalidate_stop s then 2 else 2 * ticks_left s + 4
      | Ui_Idle \<Rightarrow> if ui_queue s = [] then 0 else 2 * ticks_left s + 3)"

definition loop_label :: "plabel \<Rightarrow> bool" where
  "loop_label l \<longleftrightarrow> l = Takes_Task \<or> l = Leaves \<or> l = Ticks True \<or> l = Ticks False"

text \<open>No resize is in progress, and the tick count has not wrapped.\<close>

definition quiet :: "scheduler \<Rightarrow> bool" where
  "quiet s \<longleftrightarrow> paint_inv False s \<and> list_all (\<lambda>pc. pc = Rz_Done) (resizers s) \<and> 0 \<le> invalidate_tick_count s \<and>
     (ui s = Ui_Idle \<and> ui_queue s \<noteq> [] \<or> ui s = Ui_Load_Stop \<and> \<not> invalidate_stop s \<longrightarrow>
       invalidate_tick_count s < i32_max)"

lemma count_tick_bounds:
  assumes "0 \<le> invalidate_tick_count s" "invalidate_tick_count s < i32_max"
  shows "invalidate_tick_count (count_tick s) = invalidate_tick_count s + 1"
    "invalidate_stop (count_tick s) = (invalidate_stop s \<or> INVALIDATE_TICK_LIMIT \<le> invalidate_tick_count s)"
  using assms by (auto simp: count_tick_def INVALIDATE_TICK_LIMIT_def Let_def wrap32_def)

lemma paints_count:
  "invalidate_tick_count (fst (active_should_present_paint now period s)) = invalidate_tick_count s"
  by (simp add: active_should_present_paint_def Let_def)

lemma apply_set_refresh_fields:
  "ui_queue (apply_set_refresh target s) = ui_queue s" "ui (apply_set_refresh target s) = ui s"
  "resizers (apply_set_refresh target s) = resizers s"
  "invalidate_tick_count (apply_set_refresh target s) = invalidate_tick_count s"
  by (simp_all add: apply_set_refresh_def update_boost_saved_frame_rate_def Let_def)


lemma paints_count_stop:
  assumes "active_should_present_paint now period s = (s', present, stop)"
  shows "invalidate_tick_count s' = invalidate_tick_count s" "resizers s' = resizers s"
    "ui_queue s' = ui_queue s" "ui s' = ui s"
  using paints_count [of now period s] paints_fields [of now period s] unfolding assms by simp_all

lemma quiet_claims: "list_all (\<lambda>pc. pc = Rz_Done) xs \<Longrightarrow> filter claiming xs = []"
  by (induction xs) auto

lemma quiet_task:
  assumes "quiet s" "ui s = Ui_Idle" "ui_queue s = q1 @ t # q2"
  shows "q1 = []" "q2 = []"
  using assms by (auto simp: quiet_def paint_inv_def loop_ok_def split: if_splits)

lemma take_task_left:
  assumes q: "quiet s" and s: "ui s = Ui_Idle" "ui_queue s = q1 @ t # q2"
  shows "quiet (take_task t (s\<lparr>ui_queue := q1 @ q2\<rparr>)) \<and>
    loop_left (take_task t (s\<lparr>ui_queue := q1 @ q2\<rparr>)) < loop_left s"
proof -
  let ?u = "if t = Kick_Task then kick_boost (s\<lparr>ui_queue := q1 @ q2\<rparr>) else s\<lparr>ui_queue := q1 @ q2\<rparr>"
  have c: "0 \<le> invalidate_tick_count ?u" "invalidate_tick_count ?u < i32_max"
    "invalidate_tick_count ?u = invalidate_tick_count s"
    using q s by (auto simp: quiet_def)
  have r: "resizers (take_task t (s\<lparr>ui_queue := q1 @ q2\<rparr>)) = resizers s" by (simp add: take_task_def)
  have inv: "paint_inv False (take_task t (s\<lparr>ui_queue := q1 @ q2\<rparr>))"
    using q take_task_inv [OF _ s] by (simp add: quiet_def)
  show ?thesis
    using q s inv r count_tick_bounds [OF c(1,2)] c(3)
    by (auto simp: quiet_def loop_left_def ticks_left_def take_task_def INVALIDATE_TICK_LIMIT_def)
qed

lemma tick_decide_left:
  assumes q: "quiet s" and s: "ui s = Ui_Load_Stop"
  shows "quiet (tick_decide s) \<and> loop_left (tick_decide s) < loop_left s"
proof -
  have inv: "paint_inv False (tick_decide s)" using q ui_steps_inv(1) [OF _ s] by (simp add: quiet_def)
  have "ui_queue s = []" using q s by (auto simp: quiet_def paint_inv_def loop_ok_def split: if_splits)
  then show ?thesis
    using q s inv
    by (cases "invalidate_stop s"; cases "frame_rate s \<le> 0"; cases "browser_alive s \<and> 0 < saved_frame_rate s")
      (auto simp: quiet_def loop_left_def ticks_left_def tick_decide_def Let_def)
qed

lemma tick_leave_left:
  assumes q: "quiet s" and s: "ui s = Ui_Leave"
  shows "quiet (tick_leave s) \<and> loop_left (tick_leave s) < loop_left s"
proof -
  have inv: "paint_inv False (tick_leave s)" using q ui_steps_inv(2) [OF _ s] by (simp add: quiet_def)
  have "ui_queue s = []" using q s by (auto simp: quiet_def paint_inv_def loop_ok_def split: if_splits)
  then show ?thesis using q s inv by (auto simp: quiet_def loop_left_def tick_leave_def)
qed

lemma quiet_step:
  assumes "paint_step s l s'" "quiet s" "l \<noteq> Resize_Begins"
  shows "quiet s' \<and> (if loop_label l then loop_left s' < loop_left s else loop_left s' \<le> loop_left s)"
proof -
  have inv: "paint_inv False s'"
    using paint_step_inv [OF assms(1), of False] assms(2) by (simp add: quiet_def split: plabel.split)
  show ?thesis
    using assms
  proof (cases rule: paint_step.cases)
    case (resize_access i pc s1)
    then show ?thesis using assms(2) by (simp add: quiet_def list_all_length)
  next
    case (takes_task q1 t q2)
    then show ?thesis using take_task_left assms(2) by (simp add: loop_label_def)
  next
    case ticks
    then show ?thesis using tick_decide_left assms(2) by (cases "invalidate_stop s") (simp_all add: loop_label_def)
  next
    case leaves
    then show ?thesis using tick_leave_left assms(2) by (simp add: loop_label_def)
  next
    case (paints now period present stop)
    note f = paints_count_stop [OF paints(3)]
    show ?thesis using f assms(2) inv paints by (auto simp: quiet_def loop_left_def ticks_left_def loop_label_def)
  next
    case (refreshes target)
    then show ?thesis using assms(2) inv
      by (auto simp: quiet_def loop_left_def ticks_left_def loop_label_def apply_set_refresh_fields)
  next
    case closes
    then show ?thesis using assms(2) inv
      by (cases "ui s") (auto simp: quiet_def loop_left_def ticks_left_def loop_label_def stop_invalidate_loop_def)
  next
    case (creates dflt)
    then show ?thesis using assms(2) inv
      by (cases "ui s") (auto simp: quiet_def loop_left_def ticks_left_def loop_label_def)
  next
    case (created rate)
    then show ?thesis using assms(2) inv
      by (cases "ui s") (auto simp: quiet_def loop_left_def ticks_left_def loop_label_def)
  next
    case dies
    then show ?thesis using assms(2) inv
      by (cases "ui s") (auto simp: quiet_def loop_left_def ticks_left_def loop_label_def)
  qed simp
qed

lemma quiet_trace:
  "paint_trace s ls s' \<Longrightarrow> quiet s \<Longrightarrow> Resize_Begins \<notin> set ls \<Longrightarrow>
   quiet s' \<and> length (filter loop_label ls) + loop_left s' \<le> loop_left s"
proof (induction rule: paint_trace.induct)
  case (trace_snoc s ls s' l s'')
  then show ?case using quiet_step [OF trace_snoc.hyps(2)] by (auto split: if_splits)
qed simp

lemma loop_left_bound: "0 \<le> invalidate_tick_count s \<Longrightarrow> loop_left s \<le> 2004"
  by (auto simp: loop_left_def ticks_left_def INVALIDATE_TICK_LIMIT_def split: ui_pc.split)

lemma running_can_go_on:
  assumes "quiet s" "invalidate_running s"
  shows "list_ex (\<lambda>l. allowed l s) [Takes_Task, Ticks True, Ticks False, Leaves]"
proof -
  have "ui_queue s \<noteq> [] \<or> ui s \<noteq> Ui_Idle"
    using assms quiet_claims [of "resizers s"] by (auto simp: quiet_def paint_inv_def loop_ok_def split: if_splits)
  then show ?thesis using assms(1)
    by (cases "ui s"; cases "invalidate_stop s") (auto simp: allowed_def)
qed

section \<open>Properties\<close>

text \<open>
  C16: There is at most one invalidate loop, and its frame-rate boost ends with it: however
  resizes on any threads, ticks, paints, refresh-rate changes and the creation and death of the
  browser interleave, the running flag says whether the loop's one activity exists. And if no
  change of the refresh rate fell between asking CEF for a browser and its arrival, then a living
  browser runs at the layer's own rate whenever the loop does not exist.
\<close>

theorem boost_ends_with_loop:
  assumes "paint_trace new_scheduler ls s"
  shows "loops s = (if invalidate_running s then 1 else 0) \<and>
    (undisturbed False ls \<and> \<not> invalidate_running s \<and> browser_alive s \<and> 0 < frame_rate s \<longrightarrow>
      cef_rate s = frame_rate s)"
proof -
  have start: "creating new_scheduler = None" by (simp add: new_scheduler_def)
  have "paint_inv False s" using paint_trace_inv [OF assms paint_inv_start, of False] by simp
  moreover have "undisturbed False ls \<Longrightarrow> paint_inv True s"
    using paint_trace_inv [OF assms paint_inv_start, of True] start by simp
  ultimately show ?thesis by (auto simp: paint_inv_def loop_ok_def loops_def split: if_splits)
qed

lemma one_resize_run:
  "paint_trace new_scheduler (one_resize @ [Ticks False, Leaves]) (the (labels_run (one_resize @ [Ticks False, Leaves]) new_scheduler))"
  by (rule labels_run_trace) (simp add: one_resize_def label_evals)

theorem boost_ends_with_loop_witness:
  "cef_rate (the (labels_run (one_resize @ [Ticks False, Leaves]) new_scheduler)) = 1"
  using boost_ends_with_loop [OF one_resize_run] by (simp add: one_resize_def label_evals)

text \<open>
  The condition is needed: a change of the refresh rate between \<open>cef_create_browser\<close>, which
  reads the layer's rate, and \<open>handle_on_after_created\<close> reaches no browser. The resize that
  follows the arrival would repair it by its boost, but a loop a resize started before the arrival
  is still running then and boosts nothing: when it ends, the browser keeps the old rate.
\<close>

definition lost_refresh :: "plabel list" where
  "lost_refresh = [Refreshes 1, Creates, Refreshes 2, Resize_Begins, Resize_Access 0, Resize_Access 0,
     Resize_Access 0, Resize_Access 0, Resize_Access 0, Takes_Task, Ticks True, Created, Resize_Begins,
     Resize_Access 1, Resize_Access 1, Resize_Access 1, Paints 20 10 False, Paints 30 10 True,
     Paints 40 10 True, Takes_Task, Ticks False, Leaves]"

theorem refresh_during_creation_is_lost:
  "\<exists>s. paint_trace new_scheduler lost_refresh s \<and> browser_alive s \<and> \<not> invalidate_running s \<and>
     list_all (\<lambda>pc. pc = Rz_Done) (resizers s) \<and> frame_rate s = 2 \<and> cef_rate s = 1"
proof -
  obtain s where s: "labels_run lost_refresh new_scheduler = Some s"
    "browser_alive s" "\<not> invalidate_running s" "list_all (\<lambda>pc. pc = Rz_Done) (resizers s)"
    "frame_rate s = 2" "cef_rate s = 1"
    by (simp add: lost_refresh_def label_evals)
  show ?thesis by (rule exI [of _ s]) (use s labels_run_trace [OF s(1)] in simp)
qed

text \<open>
  A resize can be left without its loop. While the UI thread has read the stop flag but not
  yet given up the running flag, a resize clears the stop flag, finds the loop running and
  leaves; the UI thread then ends the loop, and nothing is posted: after that resize no tick
  ever invalidates the view for it.
\<close>

theorem resize_can_lose_its_loop:
  "\<exists>ls s. paint_trace new_scheduler (one_resize @ Ticks False # Resize_Begins # ls) s \<and>
     Ticks True \<notin> set ls \<and> resizers s = [Rz_Done, Rz_Done] \<and> resize_gen s = 2 \<and>
     ui_queue s = [] \<and> ui s = Ui_Idle \<and> \<not> invalidate_running s"
proof -
  let ?ls = "[Resize_Access 1, Resize_Access 1, Resize_Access 1, Leaves]"
  obtain s where s: "labels_run (one_resize @ Ticks False # Resize_Begins # ?ls) new_scheduler = Some s"
    "resizers s = [Rz_Done, Rz_Done]" "resize_gen s = 2" "ui_queue s = []" "ui s = Ui_Idle" "\<not> invalidate_running s"
    by (simp add: one_resize_def label_evals)
  show ?thesis
    by (rule exI [of _ ?ls], rule exI [of _ s]) (use s labels_run_trace [OF s(1)] in simp)
qed

text \<open>
  C17: The loop ends. Once no thread is inside a resize, and until another begins, the UI thread
  takes at most 2004 steps of the loop - two for each of the thousand ticks the limit allows,
  four more to leave - however paints, refresh-rate changes, the browser's life and its closing
  come between, and while the loop runs one of its steps is always possible.
\<close>

theorem invalidate_loop_ends:
  assumes "paint_trace new_scheduler pre s" "list_all (\<lambda>pc. pc = Rz_Done) (resizers s)"
    "0 \<le> invalidate_tick_count s" "invalidate_tick_count s < i32_max"
    "paint_trace s ls s'" "Resize_Begins \<notin> set ls"
  shows "length (filter loop_label ls) \<le> 2004 \<and>
    (if invalidate_running s' then list_ex (\<lambda>l. allowed l s') [Takes_Task, Ticks True, Ticks False, Leaves]
     else \<not> list_ex (\<lambda>l. allowed l s') [Takes_Task, Ticks True, Ticks False, Leaves])"
proof -
  have "paint_inv False s" using paint_trace_inv [OF assms(1) paint_inv_start, of False] by simp
  then have "quiet s" using assms(2-4) by (simp add: quiet_def)
  then have q: "quiet s'" "length (filter loop_label ls) + loop_left s' \<le> loop_left s"
    using quiet_trace [OF assms(5)] assms(6) by blast+
  have "\<not> invalidate_running s' \<Longrightarrow> ui_queue s' = [] \<and> ui s' = Ui_Idle"
    using q(1) by (auto simp: quiet_def paint_inv_def loop_ok_def split: if_splits)
  then show ?thesis using q(2) loop_left_bound [OF assms(3)] running_can_go_on [OF q(1)] by (auto simp: allowed_def)
qed

lemma resize_posted:
  "paint_trace new_scheduler (take 9 one_resize) (the (labels_run (take 9 one_resize) new_scheduler))"
  "paint_trace (the (labels_run (take 9 one_resize) new_scheduler)) [Takes_Task, Ticks True, Dies]
     (the (labels_run (take 9 one_resize @ [Takes_Task, Ticks True, Dies]) new_scheduler))"
  by (rule labels_run_trace, simp add: one_resize_def label_evals)+

theorem invalidate_loop_ends_witness:
  "list_ex (\<lambda>l. allowed l (the (labels_run (take 9 one_resize @ [Takes_Task, Ticks True, Dies]) new_scheduler)))
     [Takes_Task, Ticks True, Ticks False, Leaves]"
  using invalidate_loop_ends [OF resize_posted(1) _ _ _ resize_posted(2)]
  by (simp add: one_resize_def label_evals)

end
