(* ===== verification/Menu_Logic.thy ===== *)
theory Menu_Logic
  imports Ieee Text
begin

text \<open>
  The software menu's pure half (\<open>linux_util/src/menu/interaction_fsm.rs\<close>, the layout of
  \<open>render.rs\<close>, the item rules of \<open>platform_abi/src/menu.rs\<close>): which rows there are, which of
  them can be chosen, and what a pointer, a key or a dismissal does. Shaping a label is the
  parameter \<open>text_width\<close>; a row number fits \<open>i32\<close>.
\<close>

section \<open>Items\<close>

definition MENU_DISMISSED :: int where "MENU_DISMISSED = -1"

record menu_item =
  mi_id :: int
  mi_label :: ustring
  mi_enabled :: bool
  mi_separator :: bool

definition choosable :: "menu_item \<Rightarrow> bool" where
  "choosable it \<longleftrightarrow> mi_enabled it \<and> \<not> mi_separator it"

definition menu_has_selectable :: "menu_item list \<Rightarrow> bool" where
  "menu_has_selectable items = list_ex choosable items"

definition get_item :: "menu_item list \<Rightarrow> int \<Rightarrow> menu_item option" where
  "get_item items i = (if 0 \<le> i \<and> nat i < length items then Some (items ! nat i) else None)"

definition menu_initial_row :: "menu_item list \<Rightarrow> int \<Rightarrow> int" where
  "menu_initial_row items initial =
     (case get_item items initial of
        Some it \<Rightarrow> if choosable it then initial else MENU_DISMISSED
      | None \<Rightarrow> MENU_DISMISSED)"

section \<open>Layout\<close>

record row =
  r_item :: nat
  r_y :: int
  r_h :: int
  r_separator :: bool
  r_enabled :: bool

record layout =
  l_width :: int
  l_height :: int
  l_rows :: "row list"
  l_selectable :: "nat list"
  l_scale :: f32

definition FONT_PX :: f32 where "FONT_PX = Fin 13 0"
definition ROW_H :: f32 where "ROW_H = Fin 28 0"
definition SEP_H :: f32 where "SEP_H = Fin 9 0"
definition PAD_X :: f32 where "PAD_X = Fin 12 0"
definition PAD_RIGHT :: f32 where "PAD_RIGHT = Fin 24 0"
definition PAD_Y :: f32 where "PAD_Y = Fin 4 0"
definition MIN_W :: f32 where "MIN_W = Fin 160 0"

text \<open>\<open>f32::max\<close>, \<open>ceil() as i32\<close> and \<open>round() as i32\<close>.\<close>

definition f_max :: "f32 \<Rightarrow> f32 \<Rightarrow> f32" where
  "f_max a b = (if a = NaN then b else if b = NaN then a else if f_lt a b then b else a)"

definition ceil_i32 :: "f32 \<Rightarrow> int" where
  "ceil_i32 x = (let n = f_to_i32 x in if f_lt (f_of_int single n) x \<and> n < i32_max then n + 1 else n)"

definition round_i32 :: "f32 \<Rightarrow> int" where
  "round_i32 x = f_to_i32 (f_round x)"

text \<open>The rows from number \<open>i\<close> at height \<open>y\<close>, and where they end.\<close>

fun layout_rows :: "int \<Rightarrow> int \<Rightarrow> nat \<Rightarrow> int \<Rightarrow> menu_item list \<Rightarrow> row list \<times> int" where
  "layout_rows row_h sep_h i y [] = ([], y)"
| "layout_rows row_h sep_h i y (it # items) =
     (let h = (if mi_separator it then sep_h else row_h);
          (rows, y') = layout_rows row_h sep_h (Suc i) (y + h) items
      in (\<lparr>r_item = i, r_y = y, r_h = h, r_separator = mi_separator it, r_enabled = mi_enabled it\<rparr> # rows, y'))"

definition layout_of :: "(ustring \<Rightarrow> f32 \<Rightarrow> f32) \<Rightarrow> menu_item list \<Rightarrow> f32 \<Rightarrow> layout" where
  "layout_of text_width items scale =
     (let s = (if f_lt (Fin 0 0) scale then scale else Fin 1 0);
          font_px = f_mul single FONT_PX s;
          row_h = round_i32 (f_mul single ROW_H s);
          sep_h = round_i32 (f_mul single SEP_H s);
          pad_y = round_i32 (f_mul single PAD_Y s);
          text_w_budget = f_mul single (f_add single PAD_X PAD_RIGHT) s;
          max_text = fold (\<lambda>it m. if mi_separator it then m else f_max m (text_width (mi_label it) font_px)) items
                       (f_sub single (f_mul single MIN_W s) text_w_budget);
          (rows, y) = layout_rows row_h sep_h 0 pad_y items
      in \<lparr>l_width = ceil_i32 (f_add single max_text text_w_budget), l_height = y + pad_y, l_rows = rows,
          l_selectable = filter (\<lambda>i. choosable (items ! i)) [0..<length items], l_scale = s\<rparr>)"

definition layout_contains :: "layout \<Rightarrow> int \<Rightarrow> int \<Rightarrow> bool" where
  "layout_contains l x y \<longleftrightarrow> 0 \<le> x \<and> x < l_width l \<and> 0 \<le> y \<and> y < l_height l"

definition row_at :: "layout \<Rightarrow> int \<Rightarrow> int \<Rightarrow> nat option" where
  "row_at l x y =
     (if x < 0 \<or> l_width l \<le> x \<or> y < 0 \<or> l_height l \<le> y then None
      else map_option r_item
        (find (\<lambda>r. \<not> r_separator r \<and> r_enabled r \<and> r_y r \<le> y \<and> y < r_y r + r_h r) (l_rows l)))"

fun position :: "('a \<Rightarrow> bool) \<Rightarrow> 'a list \<Rightarrow> nat option" where
  "position P [] = None"
| "position P (x # xs) = (if P x then Some 0 else map_option Suc (position P xs))"

definition layout_step :: "layout \<Rightarrow> int \<Rightarrow> bool \<Rightarrow> int" where
  "layout_step l active forward =
     (if l_selectable l = [] then -1
      else
        let n = length (l_selectable l);
            next = (case position (\<lambda>i. int i = active) (l_selectable l) of
                      Some p \<Rightarrow> if forward then (p + 1) mod n else (p + n - 1) mod n
                    | None \<Rightarrow> if forward then 0 else n - 1)
        in int (l_selectable l ! next))"

section \<open>Interaction\<close>

definition XK_ESCAPE :: int where "XK_ESCAPE = 0xff1b"
definition XK_RETURN :: int where "XK_RETURN = 0xff0d"
definition XK_KP_ENTER :: int where "XK_KP_ENTER = 0xff8d"
definition XK_TAB :: int where "XK_TAB = 0xff09"
definition XK_UP :: int where "XK_UP = 0xff52"
definition XK_DOWN :: int where "XK_DOWN = 0xff54"
definition XK_SPACE :: int where "XK_SPACE = 0x0020"

lemmas keysym_defs = XK_ESCAPE_def XK_RETURN_def XK_KP_ENTER_def XK_TAB_def XK_UP_def XK_DOWN_def XK_SPACE_def

datatype menu_event = Motion int int | Press int int | Key int | Dismiss

datatype menu_effect = Redraw | Close int

text \<open>The machine's state is the active row, \<open>-1\<close> for none.\<close>

definition selectable_id :: "menu_item list \<Rightarrow> int \<Rightarrow> int option" where
  "selectable_id items active =
     (case get_item items active of
        Some it \<Rightarrow> if choosable it then Some (mi_id it) else None
      | None \<Rightarrow> None)"

definition activate :: "int \<Rightarrow> int \<Rightarrow> int \<times> menu_effect list" where
  "activate active next = (if next \<noteq> active then (next, [Redraw]) else (active, []))"

fun fsm_step :: "menu_event \<Rightarrow> layout option \<Rightarrow> menu_item list \<Rightarrow> int \<Rightarrow> int \<times> menu_effect list" where
  "fsm_step Dismiss layout items active = (active, [Close MENU_DISMISSED])"
| "fsm_step (Motion x y) layout items active =
     (case layout of
        None \<Rightarrow> (active, [])
      | Some l \<Rightarrow> activate active (case row_at l x y of None \<Rightarrow> -1 | Some i \<Rightarrow> int i))"
| "fsm_step (Press x y) layout items active =
     (case layout of
        None \<Rightarrow> (active, [])
      | Some l \<Rightarrow>
          if \<not> layout_contains l x y then (active, [Close MENU_DISMISSED])
          else case row_at l x y of
                 None \<Rightarrow> (active, [])
               | Some i \<Rightarrow> if i < length items then (active, [Close (mi_id (items ! i))]) else (active, []))"
| "fsm_step (Key keysym) layout items active =
     (if keysym = XK_ESCAPE \<or> keysym = XK_TAB then (active, [Close MENU_DISMISSED])
      else if keysym = XK_RETURN \<or> keysym = XK_KP_ENTER \<or> keysym = XK_SPACE then
        case selectable_id items active of
          Some i \<Rightarrow> (active, [Close i])
        | None \<Rightarrow> (active, [])
      else if keysym = XK_DOWN \<or> keysym = XK_UP then
        case layout of
          None \<Rightarrow> (active, [])
        | Some l \<Rightarrow> activate active (layout_step l active (keysym = XK_DOWN))
      else (active, []))"

section \<open>Rows and items\<close>

text \<open>The rows of a layout are the items', in order, one below the other.\<close>

lemma layout_rows_nth:
  assumes "layout_rows row_h sep_h i y items = (rows, y')" "k < length items"
  shows "length rows = length items" "r_item (rows ! k) = i + k" "r_separator (rows ! k) = mi_separator (items ! k)"
    "r_enabled (rows ! k) = mi_enabled (items ! k)"
  using assms
proof (induction items arbitrary: i y rows k)
  case (Cons it items)
  {
    case (1 i y rows)
    then show ?case using Cons(1) [where k = "0"] by (cases items) (fastforce simp: Let_def split: prod.splits)+
  next
    case (2 i y rows k)
    then show ?case using Cons(2) by (cases k) (fastforce simp: Let_def split: prod.splits)+
  next
    case (3 i y rows k)
    then show ?case using Cons(3) by (cases k) (fastforce simp: Let_def split: prod.splits)+
  next
    case (4 i y rows k)
    then show ?case using Cons(4) by (cases k) (fastforce simp: Let_def split: prod.splits)+
  }
qed auto

text \<open>What makes a layout one of these items; a change of width keeps it.\<close>

definition fits_items :: "layout \<Rightarrow> menu_item list \<Rightarrow> bool" where
  "fits_items l items \<longleftrightarrow>
     list_all (\<lambda>r. \<not> r_separator r \<and> r_enabled r \<longrightarrow> r_item r < length items \<and> choosable (items ! r_item r)) (l_rows l) \<and>
     list_all (\<lambda>i. i < length items \<and> choosable (items ! i)) (l_selectable l)"

lemma layout_rows_length: "layout_rows row_h sep_h i y items = (rows, y') \<Longrightarrow> length rows = length items"
  by (induction items arbitrary: i y rows) (auto simp: Let_def split: prod.splits)

lemma layout_of_fields:
  "\<exists>row_h sep_h y. l_rows (layout_of text_width items scale) = fst (layout_rows row_h sep_h 0 y items)"
  "l_selectable (layout_of text_width items scale) = filter (\<lambda>i. choosable (items ! i)) [0..<length items]"
  by (simp_all add: layout_of_def Let_def split_beta) blast

lemma layout_fits: "fits_items (layout_of text_width items scale) items"
proof -
  obtain row_h sep_h y where f: "l_rows (layout_of text_width items scale) = fst (layout_rows row_h sep_h 0 y items)"
    using layout_of_fields(1) by blast
  obtain rows y' where l: "layout_rows row_h sep_h 0 y items = (rows, y')" by (cases "layout_rows row_h sep_h 0 y items")
  have "k < length rows \<Longrightarrow> \<not> r_separator (rows ! k) \<and> r_enabled (rows ! k) \<longrightarrow>
      r_item (rows ! k) < length items \<and> choosable (items ! r_item (rows ! k))" for k
    using layout_rows_nth [OF l] layout_rows_length [OF l] by (simp add: choosable_def)
  then show ?thesis by (simp add: fits_items_def f l layout_of_fields(2) list_all_length [of _ rows]) (simp add: list_all_iff)
qed

lemma layout_width_fits [simp]: "fits_items (l\<lparr>l_width := w\<rparr>) items = fits_items l items"
  by (simp add: fits_items_def)

section \<open>What can be chosen\<close>

lemma find_hit: "find P xs = Some x \<Longrightarrow> x \<in> set xs \<and> P x"
  by (induction xs) (auto split: if_splits)

lemma row_at_choosable: "fits_items l items \<Longrightarrow> row_at l x y = Some i \<Longrightarrow> i < length items \<and> choosable (items ! i)"
  by (auto simp: row_at_def fits_items_def list_all_iff split: if_splits dest!: find_hit)

lemma selectable_id_item: "selectable_id items active = Some ident \<Longrightarrow> \<exists>it\<in>set items. choosable it \<and> mi_id it = ident"
  by (auto simp: selectable_id_def get_item_def split: option.splits if_splits intro: bexI [OF _ nth_mem])

text \<open>Every step closes with a dismissal or an item's id, redraws, or does nothing.\<close>

lemma fsm_effects:
  assumes "fsm_step ev layout items active = (active', effects)"
  shows "effects = [] \<or> effects = [Redraw] \<or>
    (\<exists>ident. effects = [Close ident] \<and> (ident = MENU_DISMISSED \<or> (\<exists>it\<in>set items. mi_id it = ident)))"
proof (cases ev)
  case (Motion x y)
  then show ?thesis using assms by (auto simp: activate_def split: option.splits if_splits)
next
  case (Press x y)
  then show ?thesis using assms by (auto split: option.splits if_splits) (blast dest: bspec [OF _ nth_mem])
next
  case (Key k)
  then show ?thesis using assms
    by (auto simp: activate_def split: option.splits if_splits dest!: selectable_id_item)
next
  case Dismiss
  then show ?thesis using assms by auto
qed

lemma fsm_close_choosable:
  assumes "fsm_step ev layout items active = (active', effects)" "Close ident \<in> set effects" "ident \<noteq> MENU_DISMISSED"
    "case layout of None \<Rightarrow> True | Some l \<Rightarrow> fits_items l items"
  shows "\<exists>it\<in>set items. choosable it \<and> mi_id it = ident"
proof (cases ev)
  case (Motion x y)
  then show ?thesis using assms by (auto simp: activate_def split: option.splits if_splits)
next
  case (Press x y)
  then show ?thesis using assms row_at_choosable by (fastforce split: option.splits if_splits)
next
  case (Key k)
  then show ?thesis using assms
    by (auto simp: activate_def split: option.splits if_splits dest!: selectable_id_item)
next
  case Dismiss
  then show ?thesis using assms by auto
qed

text \<open>The active row is none or a row that can be chosen, and stays so.\<close>

definition active_ok :: "menu_item list \<Rightarrow> int \<Rightarrow> bool" where
  "active_ok items active \<longleftrightarrow> active = -1 \<or> (\<exists>i < length items. active = int i \<and> choosable (items ! i))"

lemma position_hit: "position P xs = Some i \<Longrightarrow> i < length xs \<and> P (xs ! i)"
  by (induction xs arbitrary: i) (auto split: if_splits)

lemma layout_step_member:
  "l_selectable l \<noteq> [] \<Longrightarrow> \<exists>k < length (l_selectable l). layout_step l active forward = int (l_selectable l ! k)"
  by (auto simp: layout_step_def Let_def split: option.splits intro: exI [of _ 0]
      dest!: position_hit)
    (metis diff_Suc_less length_greater_0_conv mod_less_divisor)+


lemma active_ok_step:
  assumes "fits_items l items" "active_ok items active"
  shows "active_ok items (layout_step l active forward)"
proof (cases "l_selectable l = []")
  case True
  then show ?thesis by (simp add: layout_step_def active_ok_def)
next
  case False
  then obtain k where "k < length (l_selectable l)" "layout_step l active forward = int (l_selectable l ! k)"
    using layout_step_member by blast
  then show ?thesis using assms(1) by (auto simp: active_ok_def fits_items_def list_all_length)
qed

lemma active_ok_initial: "active_ok items (menu_initial_row items initial)"
  by (auto simp: menu_initial_row_def active_ok_def get_item_def MENU_DISMISSED_def split: option.splits if_splits)

lemma position_nth: "distinct xs \<Longrightarrow> p < length xs \<Longrightarrow> position (\<lambda>i. int i = int (xs ! p)) xs = Some p"
proof (induction xs arbitrary: p)
  case (Cons x xs)
  then show ?case by (cases p) (auto simp: nth_mem)
qed simp

lemma round_trip_mod:
  fixes p n :: nat
  assumes "p < n"
  shows "((p + 1) mod n + n - 1) mod n = p" "((p + n - 1) mod n + 1) mod n = p"
proof -
  show "((p + 1) mod n + n - 1) mod n = p"
  proof (cases "p + 1 = n")
    case True
    then show ?thesis using assms by simp
  next
    case False
    then have "(p + 1) mod n + n - 1 = p + n" using assms by simp
    then show ?thesis using assms by simp
  qed
  show "((p + n - 1) mod n + 1) mod n = p"
  proof (cases p)
    case 0
    then show ?thesis using assms by simp
  next
    case (Suc q)
    then have "(p + n - 1) mod n = q" using assms by simp
    then show ?thesis using assms Suc by simp
  qed
qed

text \<open>
  The arrow keys walk the rows that can be chosen. From the \<open>p\<close>-th such row \<open>k\<close> presses of
  Down reach the row \<open>k\<close> further, round the end; a Down and an Up undo each other, in either
  order; and from no row Down starts at the first and Up at the last.
\<close>

theorem arrow_keys_cycle:
  fixes text_width :: "ustring \<Rightarrow> f32 \<Rightarrow> f32" and scale :: f32
  assumes "rows = filter (\<lambda>i. choosable (items ! i)) [0..<length items]" "p < length rows"
  defines "press \<equiv> \<lambda>k a. fst (fsm_step (Key k) (Some (layout_of text_width items scale)) items a)"
  shows "(press XK_DOWN ^^ k) (int (rows ! p)) = int (rows ! ((p + k) mod length rows)) \<and>
    press XK_UP (press XK_DOWN (int (rows ! p))) = int (rows ! p) \<and>
    press XK_DOWN (press XK_UP (int (rows ! p))) = int (rows ! p) \<and>
    press XK_DOWN (-1) = int (hd rows) \<and> press XK_UP (-1) = int (last rows)"
proof -
  let ?l = "layout_of text_width items scale" and ?n = "length rows"
  have sel: "l_selectable ?l = rows" by (simp add: assms(1) layout_of_fields(2))
  have n: "0 < ?n" "rows \<noteq> []" using assms(2) by auto
  have pos: "q < ?n \<Longrightarrow> position (\<lambda>i. int i = int (rows ! q)) rows = Some q" for q
    by (rule position_nth) (simp_all add: assms(1))
  have down: "press XK_DOWN a = layout_step ?l a True" and up: "press XK_UP a = layout_step ?l a False" for a
    by (simp_all add: press_def activate_def keysym_defs)
  have fwd: "press XK_DOWN (int (rows ! q)) = int (rows ! ((q + 1) mod ?n))" if "q < ?n" for q
    unfolding down using pos [OF that] n by (simp add: layout_step_def sel Let_def)
  have upward: "press XK_UP (int (rows ! q)) = int (rows ! ((q + ?n - 1) mod ?n))" if "q < ?n" for q
    unfolding up using pos [OF that] n by (simp add: layout_step_def sel Let_def)
  have none: "position (\<lambda>i. int i = - 1) xs = None" for xs by (induction xs) auto
  have walk: "(press XK_DOWN ^^ k) (int (rows ! p)) = int (rows ! ((p + k) mod ?n))"
  proof (induction k)
    case (Suc k)
    have "(press XK_DOWN ^^ Suc k) (int (rows ! p)) = press XK_DOWN (int (rows ! ((p + k) mod ?n)))"
      using Suc by simp
    then show ?case using fwd [of "(p + k) mod ?n"] n by (simp add: mod_Suc_eq)
  qed (use assms(2) in simp)
  have wrap: "((p + 1) mod ?n + ?n - 1) mod ?n = p" "((p + ?n - 1) mod ?n + 1) mod ?n = p"
    using assms(2) by (rule round_trip_mod)+
  show ?thesis
    using walk fwd [OF assms(2)] upward [OF assms(2)] fwd [of "(p + ?n - 1) mod ?n"] upward [of "(p + 1) mod ?n"] n wrap
      none [of rows]
    by (simp add: down up layout_step_def sel Let_def hd_conv_nth last_conv_nth)
qed

theorem arrow_keys_cycle_witness:
  "fst (fsm_step (Key XK_UP) (Some (layout_of (\<lambda>_ _. Fin 1 0)
      [\<lparr>mi_id = 7, mi_label = [], mi_enabled = True, mi_separator = False\<rparr>] (Fin 1 0)))
    [\<lparr>mi_id = 7, mi_label = [], mi_enabled = True, mi_separator = False\<rparr>] (-1)) = 0"
  using arrow_keys_cycle [OF refl, where items = "[\<lparr>mi_id = 7, mi_label = [], mi_enabled = True, mi_separator = False\<rparr>]"
      and p = 0 and text_width = "\<lambda>_ _. Fin 1 0" and scale = "Fin 1 0" and k = 0]
  by (simp add: choosable_def)

end
