(* ===== verification/Menu_Engine.thy ===== *)
theory Menu_Engine
  imports Menu_Logic "HOL-Library.Multiset"
begin

text \<open>
  The software menu (\<open>linux_util/src/menu/engine.rs\<close>): one session at a time, from the armed
  popup to its answer, driven by the pointer, the keyboard, the surface and the render thread.
  Every operation is a function of the state under its lock, returning the selection to settle
  once the lock is released; the flush that hands the queued surface operations on, and the
  render thread, are threads of a step relation. Selections are numbered in the order the
  requests come in. Pixels are a parameter of the step that delivers them; sums of row heights
  and scroll offsets stay inside \<open>i32\<close>.
\<close>

section \<open>State\<close>

datatype menu_phase = Idle | Await_Placeholder | Placeholder | Await_Menu | Shown

datatype render_job = Render_Paint | Render_Shape

datatype menu_close = Finished | Speculative | External

record placement =
  pl_x :: int
  pl_y :: int
  pl_lw :: int
  pl_lh :: int
  pl_pw :: int
  pl_ph :: int

record menu_paint =
  mp_generation :: int
  mp_pixels :: "nat list"
  mp_pw :: int
  mp_ph :: int
  mp_scroll :: int
  mp_view_ph :: int
  mp_lw :: int
  mp_lh :: int

datatype surface_op =
    Op_Create int placement int
  | Op_Reposition int placement
  | Op_Present menu_paint
  | Op_Destroy int menu_close

record menu_metrics =
  mm_scale :: f32
  mm_clamp_ph :: "int option"

record menu =
  m_items :: "menu_item list"
  m_layout :: "layout option"
  m_active :: int
  m_pw :: int
  m_ph :: int
  m_view_ph :: int
  m_scroll :: int
  m_metrics :: menu_metrics
  m_width :: int
  m_on_selected :: "nat option"
  m_anchor :: "int \<times> int"

record menu_state =
  s_phase :: menu_phase
  s_generation :: "int option"
  s_next_generation :: int
  s_active :: bool
  s_engaged :: bool
  s_menu :: "menu option"
  s_job :: "render_job option"
  s_pending :: "surface_op list"
  s_draining :: bool
  s_shutdown :: bool

definition new_menu_state :: menu_state where
  "new_menu_state =
     \<lparr>s_phase = Idle, s_generation = None, s_next_generation = 0, s_active = False, s_engaged = False,
      s_menu = None, s_job = None, s_pending = [], s_draining = False, s_shutdown = False\<rparr>"

text \<open>A selection and the id it is settled with.\<close>

type_synonym resolve = "nat \<times> int"

datatype menu_job = Shape_Job int "menu_item list" int | Paint_Job int "menu_item list" layout int

datatype menu_point = Physical f32 f32 | Logical f32 f32

record menu_request =
  rq_items :: "menu_item list"
  rq_x :: int
  rq_y :: int
  rq_width :: int
  rq_initial :: int

section \<open>Geometry\<close>

definition WHEEL_DETENT :: f32 where "WHEEL_DETENT = Fin 120 0"

definition logical_dim :: "int \<Rightarrow> f32 \<Rightarrow> int" where
  "logical_dim physical scale =
     (if f_lt (Fin 0 0) scale then max (round_i32 (f_div single (f_of_int single physical) scale)) 1
      else max physical 1)"

definition view_ph :: "int \<Rightarrow> int \<Rightarrow> int \<Rightarrow> int option \<Rightarrow> int \<Rightarrow> int" where
  "view_ph ph row_h width clamp_ph anchor_ph_y =
     (case clamp_ph of
        None \<Rightarrow> ph
      | Some c \<Rightarrow> if 0 < width then min ph (max (c - anchor_ph_y) row_h) else ph)"

definition scroll_step :: "int \<Rightarrow> int \<Rightarrow> int" where
  "scroll_step dy row_h =
     round_i32 (f_mul single (f_div single (f_of_int single dy) WHEEL_DETENT) (f_of_int single row_h))"

definition ratio :: "int \<Rightarrow> int \<Rightarrow> f32" where
  "ratio physical logical =
     (if 0 < logical then f_div single (f_of_int single physical) (f_of_int single logical) else Fin 1 0)"

definition placement_of :: "menu \<Rightarrow> placement" where
  "placement_of m =
     \<lparr>pl_x = fst (m_anchor m), pl_y = snd (m_anchor m), pl_lw = logical_dim (m_pw m) (mm_scale (m_metrics m)),
      pl_lh = logical_dim (m_view_ph m) (mm_scale (m_metrics m)), pl_pw = m_pw m, pl_ph = m_view_ph m\<rparr>"

definition buffer_point :: "menu \<Rightarrow> menu_point \<Rightarrow> (int \<times> int) option" where
  "buffer_point m pt =
     (if m_layout m = None then None
      else
        let (x, y) = (case pt of
              Physical x y \<Rightarrow> (x, y)
            | Logical x y \<Rightarrow>
                (f_mul single x (ratio (m_pw m) (logical_dim (m_pw m) (mm_scale (m_metrics m)))),
                 f_mul single y (ratio (m_view_ph m) (logical_dim (m_view_ph m) (mm_scale (m_metrics m))))))
        in Some (f_to_i32 x, f_to_i32 y + m_scroll m))"

definition row_height :: "menu \<Rightarrow> int" where
  "row_height m =
     (case m_layout m of
        None \<Rightarrow> 1
      | Some l \<Rightarrow> (case find (\<lambda>r. \<not> r_separator r) (l_rows l) of None \<Rightarrow> 1 | Some r \<Rightarrow> max (r_h r) 1))"

definition clamp_scroll :: "menu \<Rightarrow> int \<Rightarrow> int" where
  "clamp_scroll m y = max 0 (min (max (m_ph m - m_view_ph m) 0) y)"

definition scroll_active_into_view :: "menu \<Rightarrow> menu" where
  "scroll_active_into_view m =
     (if m_ph m \<le> m_view_ph m then m
      else case m_layout m of
             None \<Rightarrow> m
           | Some l \<Rightarrow>
               (case find (\<lambda>r. int (r_item r) = m_active m) (l_rows l) of
                  None \<Rightarrow> m
                | Some r \<Rightarrow>
                    let y = (if r_y r < m_scroll m then r_y r
                             else if m_scroll m + m_view_ph m < r_y r + r_h r then r_y r + r_h r - m_view_ph m
                             else m_scroll m)
                    in m\<lparr>m_scroll := clamp_scroll m y\<rparr>))"

section \<open>Session\<close>

definition queue :: "surface_op \<Rightarrow> menu_state \<Rightarrow> menu_state" where
  "queue op s = s\<lparr>s_pending := s_pending s @ [op]\<rparr>"

definition request_paint :: "menu_state \<Rightarrow> menu_state" where
  "request_paint s = s\<lparr>s_job := Some (if s_job s = Some Render_Shape then Render_Shape else Render_Paint)\<rparr>"

text \<open>The state without a session, and the selection the session held.\<close>

definition clear_menu :: "menu_state \<Rightarrow> menu_state \<times> nat option" where
  "clear_menu s =
     (s\<lparr>s_active := False, s_engaged := False, s_phase := Idle, s_generation := None, s_job := None, s_menu := None\<rparr>,
      Option.bind (s_menu s) m_on_selected)"

definition dismissed :: "nat option \<Rightarrow> resolve option" where
  "dismissed sel = map_option (\<lambda>t. (t, MENU_DISMISSED)) sel"

definition destroy_of :: "int option \<Rightarrow> menu_close \<Rightarrow> menu_state \<Rightarrow> menu_state" where
  "destroy_of g reason s = (case g of None \<Rightarrow> s | Some g \<Rightarrow> queue (Op_Destroy g reason) s)"

definition close_current :: "menu_close \<Rightarrow> menu_state \<Rightarrow> menu_state \<times> resolve option" where
  "close_current reason s =
     (let (s', sel) = clear_menu s in (destroy_of (s_generation s) reason s', dismissed sel))"

text \<open>The next generation; \<open>u64\<close> wraps, and zero is not a generation.\<close>

definition next_generation :: "menu_state \<Rightarrow> menu_state \<times> int" where
  "next_generation s =
     (let v = (s_next_generation s + 1) mod 2 ^ 64
      in (s\<lparr>s_next_generation := v\<rparr>, if v = 0 then 1 else v))"

definition first_paint :: "int \<Rightarrow> menu_paint" where
  "first_paint g =
     \<lparr>mp_generation = g, mp_pixels = [0, 0, 0, 0], mp_pw = 1, mp_ph = 1, mp_scroll = 0, mp_view_ph = 1,
      mp_lw = 1, mp_lh = 1\<rparr>"

definition begin_menu :: "menu_state \<Rightarrow> menu_state" where
  "begin_menu s =
     (case s_generation s of
        None \<Rightarrow> s
      | Some g \<Rightarrow>
          (case s_menu s of
             None \<Rightarrow> s
           | Some m \<Rightarrow>
               queue (Op_Reposition g (placement_of m))
                 (queue (Op_Present (first_paint g)) (s\<lparr>s_active := True, s_engaged := True, s_phase := Await_Menu\<rparr>))))"

definition take_job :: "menu_state \<Rightarrow> menu_state \<times> menu_job option" where
  "take_job s =
     (s\<lparr>s_job := None\<rparr>,
      case (s_job s, s_generation s, s_menu s) of
        (Some Render_Shape, Some g, Some m) \<Rightarrow> Some (Shape_Job g (m_items m) (m_width m))
      | (Some Render_Paint, Some g, Some m) \<Rightarrow>
          map_option (\<lambda>l. Paint_Job g (m_items m) l (m_active m)) (m_layout m)
      | _ \<Rightarrow> None)"

definition measured :: "layout \<Rightarrow> menu_metrics \<Rightarrow> menu \<Rightarrow> menu" where
  "measured l metrics m =
     (let m = m\<lparr>m_metrics := metrics, m_pw := l_width l, m_ph := l_height l, m_layout := Some l\<rparr>;
          anchor_ph_y = round_i32 (f_mul single (f_of_int single (snd (m_anchor m))) (mm_scale metrics));
          m = m\<lparr>m_view_ph := view_ph (m_ph m) (row_height m) (m_width m) (mm_clamp_ph metrics) anchor_ph_y,
                m_scroll := 0\<rparr>
      in scroll_active_into_view m)"

definition on_layout :: "int \<Rightarrow> layout \<Rightarrow> menu_metrics \<Rightarrow> menu_state \<Rightarrow> menu_state" where
  "on_layout g l metrics s =
     (if s_generation s \<noteq> Some g then s
      else case s_menu s of
             None \<Rightarrow> s
           | Some m \<Rightarrow>
               let m = measured l metrics m; s = s\<lparr>s_menu := Some m\<rparr>
               in (case s_phase s of
                     Placeholder \<Rightarrow> begin_menu s
                   | Idle \<Rightarrow>
                       queue (Op_Create g (placement_of m) 0)
                         (s\<lparr>s_active := True, s_engaged := True, s_phase := Await_Menu\<rparr>)
                   | Shown \<Rightarrow> request_paint (queue (Op_Reposition g (placement_of m)) s)
                   | Await_Placeholder \<Rightarrow> s
                   | Await_Menu \<Rightarrow> s))"

definition on_pixels :: "int \<Rightarrow> nat list \<Rightarrow> menu_state \<Rightarrow> menu_state" where
  "on_pixels g pixels s =
     (if s_generation s \<noteq> Some g then s
      else case s_menu s of
             None \<Rightarrow> s
           | Some m \<Rightarrow>
               queue (Op_Present
                   \<lparr>mp_generation = g, mp_pixels = pixels, mp_pw = m_pw m, mp_ph = m_ph m, mp_scroll = m_scroll m,
                    mp_view_ph = m_view_ph m, mp_lw = logical_dim (m_pw m) (mm_scale (m_metrics m)),
                    mp_lh = logical_dim (m_view_ph m) (mm_scale (m_metrics m))\<rparr>) s)"

section \<open>Operations\<close>

text \<open>The interaction machine's step on the open menu, and what its effects do.\<close>

fun run_effects :: "menu_effect list \<Rightarrow> menu_state \<Rightarrow> menu_state \<times> resolve option" where
  "run_effects [] s = (s, None)"
| "run_effects (Redraw # effects) s = run_effects effects (request_paint s)"
| "run_effects (Close ident # effects) s =
     (let (s', sel) = clear_menu s
      in (destroy_of (s_generation s) Finished s', map_option (\<lambda>t. (t, ident)) sel))"

definition menu_step :: "menu_event \<Rightarrow> menu_state \<Rightarrow> menu_state \<times> resolve option" where
  "menu_step ev s =
     (case s_menu s of
        None \<Rightarrow> (s, None)
      | Some m \<Rightarrow>
          let (active, effects) = fsm_step ev (m_layout m) (m_items m) (m_active m);
              m = m\<lparr>m_active := active\<rparr>;
              m = (case ev of Key _ \<Rightarrow> scroll_active_into_view m | _ \<Rightarrow> m)
          in run_effects effects (s\<lparr>s_menu := Some m\<rparr>))"

definition arm :: "int \<Rightarrow> int \<Rightarrow> int \<Rightarrow> menu_state \<Rightarrow> menu_state \<times> resolve option" where
  "arm x y serial s =
     (let (s, sel) = clear_menu s;
          (s, g) = next_generation s;
          place = \<lparr>pl_x = x, pl_y = y, pl_lw = 1, pl_lh = 1, pl_pw = 1, pl_ph = 1\<rparr>
      in (queue (Op_Create g place serial)
            (s\<lparr>s_generation := Some g, s_engaged := True, s_phase := Await_Placeholder\<rparr>), dismissed sel))"

definition dismiss_if_speculative :: "menu_state \<Rightarrow> menu_state \<times> resolve option" where
  "dismiss_if_speculative s =
     (if s_menu s \<noteq> None \<or> s_phase s = Idle then (s, None) else close_current Speculative s)"

definition has_layout :: "menu_state \<Rightarrow> bool" where
  "has_layout s = (case s_menu s of None \<Rightarrow> False | Some m \<Rightarrow> m_layout m \<noteq> None)"

definition on_ready :: "int \<Rightarrow> menu_state \<Rightarrow> menu_state \<times> resolve option" where
  "on_ready g s =
     (if s_generation s \<noteq> Some g then (s, None)
      else case s_phase s of
             Await_Placeholder \<Rightarrow> (if has_layout s then begin_menu s else s\<lparr>s_phase := Placeholder\<rparr>, None)
           | Await_Menu \<Rightarrow> (request_paint (s\<lparr>s_phase := Shown\<rparr>), None)
           | _ \<Rightarrow> (s, None))"

definition on_done :: "int \<Rightarrow> menu_state \<Rightarrow> menu_state \<times> resolve option" where
  "on_done g s = (if s_generation s \<noteq> Some g then (s, None) else close_current External s)"

definition pointer :: "menu_point \<Rightarrow> bool \<Rightarrow> menu_state \<Rightarrow> menu_state \<times> resolve option" where
  "pointer pt press s =
     (case Option.bind (s_menu s) (\<lambda>m. buffer_point m pt) of
        None \<Rightarrow> (s, None)
      | Some (x, y) \<Rightarrow> menu_step (if press then Press x y else Motion x y) s)"

definition key :: "int \<Rightarrow> menu_state \<Rightarrow> menu_state \<times> resolve option" where
  "key keysym s = (if s_active s then menu_step (Key keysym) s else (s, None))"

definition dismiss :: "menu_state \<Rightarrow> menu_state \<times> resolve option" where
  "dismiss s = (if s_active s then menu_step Dismiss s else (s, None))"

definition expose :: "menu_state \<Rightarrow> menu_state \<times> resolve option" where
  "expose s = (if has_layout s then request_paint s else s, None)"

definition scroll :: "int \<Rightarrow> menu_state \<Rightarrow> menu_state \<times> resolve option" where
  "scroll dy s =
     (case s_menu s of
        None \<Rightarrow> (s, None)
      | Some m \<Rightarrow>
          if m_layout m = None \<or> m_ph m \<le> m_view_ph m then (s, None)
          else
            let y = clamp_scroll m (m_scroll m - scroll_step dy (row_height m))
            in if y = m_scroll m then (s, None)
               else (request_paint (s\<lparr>s_menu := Some (m\<lparr>m_scroll := y\<rparr>)\<rparr>), None))"

text \<open>\<open>open\<close> with a render thread and something to choose; \<open>t\<close> is the request's selection.\<close>

definition open_menu :: "menu_request \<Rightarrow> nat \<Rightarrow> menu_state \<Rightarrow> menu_state \<times> resolve option" where
  "open_menu rq t s =
     (let sel = Option.bind (s_menu s) m_on_selected;
          m = \<lparr>m_items = rq_items rq, m_layout = None, m_active = menu_initial_row (rq_items rq) (rq_initial rq),
               m_pw = 0, m_ph = 0, m_view_ph = 0, m_scroll = 0,
               m_metrics = \<lparr>mm_scale = Fin 1 0, mm_clamp_ph = None\<rparr>, m_width = rq_width rq,
               m_on_selected = Some t, m_anchor = (rq_x rq, rq_y rq)\<rparr>;
          s = s\<lparr>s_menu := Some m\<rparr>;
          s = (if s_phase s = Idle
               then let (s, g) = next_generation s in s\<lparr>s_generation := Some g, s_engaged := True\<rparr>
               else s)
      in (s\<lparr>s_job := Some Render_Shape\<rparr>, dismissed sel))"

definition hide :: "menu_state \<Rightarrow> menu_state \<times> resolve option" where
  "hide s = (if s_menu s = None then (s, None) else close_current Finished s)"

definition shutdown :: "menu_state \<Rightarrow> menu_state \<times> resolve option" where
  "shutdown s = close_current Finished (s\<lparr>s_shutdown := True\<rparr>)"

datatype menu_call =
    Arm int int int
  | Dismiss_If_Speculative
  | On_Ready int
  | On_Done int
  | Pointer menu_point bool
  | Press_Key int
  | Dismiss_Menu
  | Expose
  | Scroll int
  | Open menu_request
  | Hide
  | Shutdown

text \<open>
  What a call does under the lock, when it saw the render thread (\<open>alive\<close>) or not, and the
  selections it settles afterwards, in this order; \<open>t\<close> is the selection a request brings.
\<close>

definition refused :: "bool \<Rightarrow> menu_request \<Rightarrow> bool" where
  "refused alive rq \<longleftrightarrow> \<not> alive \<or> \<not> menu_has_selectable (rq_items rq)"

fun call_update :: "bool \<Rightarrow> nat \<Rightarrow> menu_call \<Rightarrow> menu_state \<Rightarrow> menu_state \<times> resolve option" where
  "call_update alive t (Arm x y serial) s = (if alive then arm x y serial s else (s, None))"
| "call_update alive t Dismiss_If_Speculative s = dismiss_if_speculative s"
| "call_update alive t (On_Ready g) s = on_ready g s"
| "call_update alive t (On_Done g) s = on_done g s"
| "call_update alive t (Pointer pt press) s = pointer pt press s"
| "call_update alive t (Press_Key k) s = key k s"
| "call_update alive t Dismiss_Menu s = dismiss s"
| "call_update alive t Expose s = expose s"
| "call_update alive t (Scroll dy) s = scroll dy s"
| "call_update alive t (Open rq) s =
     (if refused alive rq then close_current Speculative s else open_menu rq t s)"
| "call_update alive t Hide s = hide s"
| "call_update alive t Shutdown s = shutdown s"

fun refusal :: "bool \<Rightarrow> nat \<Rightarrow> menu_call \<Rightarrow> resolve list" where
  "refusal alive t (Open rq) = (if refused alive rq then [(t, MENU_DISMISSED)] else [])"
| "refusal alive t _ = []"

section \<open>Threads\<close>

text \<open>
  A thread in \<open>flush\<close>: about to ask for the lead, draining as the leader - holding an operation
  it took off the queue - or past it, about to fire the selections; then done.
\<close>

datatype flush_pc = Fl_Ask | Fl_Drain | Fl_Emit surface_op | Fl_Fire

record flusher =
  fl_pc :: flush_pc
  fl_resolves :: "resolve list"

text \<open>The render thread: waiting, at work, or gone.\<close>

datatype render_pc = Rd_Wait | Rd_Work menu_job | Rd_Exit

text \<open>
  The world: the state under the lock, the threads in a flush, the render thread, whether it
  was started and its handle is gone, the operations the surface got and the selections settled, in order;
  and, for the record, the operations queued and the items of every request so far.
\<close>

record menu_world =
  w_state :: menu_state
  w_flushers :: "flusher list"
  w_render :: render_pc
  w_spawned :: bool
  w_handle_taken :: bool
  w_emitted :: "surface_op list"
  w_answers :: "resolve list"
  w_queued :: "surface_op list"
  w_requests :: "menu_item list list"

text \<open>
  A call looks for the handle before it takes the lock, so it may still see the render thread
  when the shutdown has taken it (\<open>alive\<close> of \<open>Calls\<close>).
  Started with or without a render thread.
\<close>

definition new_menu_world :: "bool \<Rightarrow> menu_world" where
  "new_menu_world spawned =
     \<lparr>w_state = new_menu_state, w_flushers = [], w_render = (if spawned then Rd_Wait else Rd_Exit),
      w_spawned = spawned, w_handle_taken = \<not> spawned, w_emitted = [], w_answers = [], w_queued = [], w_requests = []\<rparr>"

text \<open>An update under the lock: the new state, what it queued, and the thread that goes on to flush.\<close>

definition updated :: "menu_state \<Rightarrow> resolve list \<Rightarrow> menu_world \<Rightarrow> menu_world" where
  "updated s' resolves w =
     w\<lparr>w_state := s', w_queued := w_queued w @ drop (length (s_pending (w_state w))) (s_pending s'),
       w_flushers := w_flushers w @ [\<lparr>fl_pc = Fl_Ask, fl_resolves = resolves\<rparr>]\<rparr>"

definition requests_after :: "menu_call \<Rightarrow> menu_item list list \<Rightarrow> menu_item list list" where
  "requests_after c rs = (case c of Open rq \<Rightarrow> rs @ [rq_items rq] | _ \<Rightarrow> rs)"

definition perform_call :: "bool \<Rightarrow> menu_call \<Rightarrow> menu_world \<Rightarrow> menu_world" where
  "perform_call alive c w =
     (let t = length (w_requests w); (s', r) = call_update alive t c (w_state w)
      in (updated s' ((case r of None \<Rightarrow> [] | Some r \<Rightarrow> [r]) @ refusal alive t c) w)
           \<lparr>w_requests := requests_after c (w_requests w)\<rparr>)"

text \<open>One access of a flushing thread.\<close>

fun flush_step :: "flusher \<Rightarrow> menu_world \<Rightarrow> flusher option \<times> menu_world" where
  "flush_step \<lparr>fl_pc = Fl_Ask, fl_resolves = rs\<rparr> w =
     (Some \<lparr>fl_pc = (if s_draining (w_state w) then Fl_Fire else Fl_Drain), fl_resolves = rs\<rparr>,
      w\<lparr>w_state := (w_state w)\<lparr>s_draining := True\<rparr>\<rparr>)"
| "flush_step \<lparr>fl_pc = Fl_Drain, fl_resolves = rs\<rparr> w =
     (case s_pending (w_state w) of
        [] \<Rightarrow> (Some \<lparr>fl_pc = Fl_Fire, fl_resolves = rs\<rparr>, w\<lparr>w_state := (w_state w)\<lparr>s_draining := False\<rparr>\<rparr>)
      | op # ops \<Rightarrow>
          (Some \<lparr>fl_pc = Fl_Emit op, fl_resolves = rs\<rparr>,
           w\<lparr>w_state := (w_state w)\<lparr>s_pending := ops, s_draining := True\<rparr>\<rparr>))"
| "flush_step \<lparr>fl_pc = Fl_Emit op, fl_resolves = rs\<rparr> w =
     (Some \<lparr>fl_pc = Fl_Drain, fl_resolves = rs\<rparr>, w\<lparr>w_emitted := w_emitted w @ [op]\<rparr>)"
| "flush_step \<lparr>fl_pc = Fl_Fire, fl_resolves = []\<rparr> w = (None, w)"
| "flush_step \<lparr>fl_pc = Fl_Fire, fl_resolves = r # rs\<rparr> w =
     (Some \<lparr>fl_pc = Fl_Fire, fl_resolves = rs\<rparr>, w\<lparr>w_answers := w_answers w @ [r]\<rparr>)"

definition put_flusher :: "nat \<Rightarrow> flusher option \<Rightarrow> menu_world \<Rightarrow> menu_world" where
  "put_flusher i f w =
     w\<lparr>w_flushers := (case f of None \<Rightarrow> take i (w_flushers w) @ drop (Suc i) (w_flushers w)
                      | Some f \<Rightarrow> (w_flushers w)[i := f])\<rparr>"

text \<open>The render thread takes what there is, or sees the shutdown.\<close>

definition render_take :: "menu_world \<Rightarrow> menu_world" where
  "render_take w =
     (let (s', job) = take_job (w_state w)
      in w\<lparr>w_state := s',
           w_render := (if s_shutdown s' then Rd_Exit else case job of None \<Rightarrow> Rd_Wait | Some j \<Rightarrow> Rd_Work j)\<rparr>)"

text \<open>The layout a shaping delivers: the items', widened to the wanted width.\<close>

definition shape :: "(ustring \<Rightarrow> f32 \<Rightarrow> f32) \<Rightarrow> menu_item list \<Rightarrow> int \<Rightarrow> f32 \<Rightarrow> layout" where
  "shape text_width items width scale =
     (let l = layout_of text_width items scale
      in if 0 < width then l\<lparr>l_width := max (round_i32 (f_mul single (f_of_int single width) scale)) 1\<rparr> else l)"

datatype menu_label =
    Calls bool menu_call
  | Flushes nat
  | Render_Takes
  | Shapes "ustring \<Rightarrow> f32 \<Rightarrow> f32" menu_metrics
  | Paints "nat list option"
  | Takes_Handle

inductive world_step :: "menu_world \<Rightarrow> menu_label \<Rightarrow> menu_world \<Rightarrow> bool" where
  calls: "(if alive then w_spawned w else w_handle_taken w) \<Longrightarrow> world_step w (Calls alive c) (perform_call alive c w)"
| flushes: "i < length (w_flushers w) \<Longrightarrow> flush_step (w_flushers w ! i) w = (f, w') \<Longrightarrow>
     world_step w (Flushes i) (put_flusher i f w')"
| takes: "w_render w = Rd_Wait \<Longrightarrow> s_job (w_state w) \<noteq> None \<or> s_shutdown (w_state w) \<Longrightarrow>
     world_step w Render_Takes (render_take w)"
| shapes: "w_render w = Rd_Work (Shape_Job g items width) \<Longrightarrow>
     world_step w (Shapes text_width metrics)
       (updated (on_layout g (shape text_width items width (mm_scale metrics)) metrics (w_state w)) []
          (w\<lparr>w_render := Rd_Wait\<rparr>))"
| paints: "w_render w = Rd_Work (Paint_Job g items l active) \<Longrightarrow>
     world_step w (Paints (Some pixels)) (updated (on_pixels g pixels (w_state w)) [] (w\<lparr>w_render := Rd_Wait\<rparr>))"
| paint_fails: "w_render w = Rd_Work (Paint_Job g items l active) \<Longrightarrow>
     world_step w (Paints None) (w\<lparr>w_render := Rd_Wait\<rparr>)"
| takes_handle: "s_shutdown (w_state w) \<Longrightarrow> world_step w Takes_Handle (w\<lparr>w_handle_taken := True\<rparr>)"

inductive world_trace :: "menu_world \<Rightarrow> menu_label list \<Rightarrow> menu_world \<Rightarrow> bool" where
  world_nil: "world_trace w [] w"
| world_snoc: "world_trace w ls w' \<Longrightarrow> world_step w' l w'' \<Longrightarrow> world_trace w (ls @ [l]) w''"

end
