(* ===== verification/Menu_Runs.thy ===== *)
theory Menu_Runs
  imports Menu_Engine
begin

text \<open>
  What the software menu keeps in every interleaving of its callers, its flushes and its render
  thread: the session's invariant, the selections it owes, the order the surface sees, and the
  layout the pointer is tested against; and two runs in which a replaced menu goes wrong.
\<close>

section \<open>What the surface is told\<close>

text \<open>
  The surface's side: the last generation it was told about, and whether it has that popup. A
  popup is created under a new generation, moved and painted while it is there, and destroyed
  once, or before it was ever created.
\<close>

fun surface_accepts :: "int \<times> bool \<Rightarrow> surface_op \<Rightarrow> (int \<times> bool) option" where
  "surface_accepts (cur, live) (Op_Create g place serial) = (if cur < g then Some (g, True) else None)"
| "surface_accepts (cur, live) (Op_Reposition g place) = (if live \<and> cur = g then Some (cur, live) else None)"
| "surface_accepts (cur, live) (Op_Present p) =
     (if live \<and> cur = mp_generation p then Some (cur, live) else None)"
| "surface_accepts (cur, live) (Op_Destroy g reason) =
     (if cur < g \<or> live \<and> cur = g then Some (g, False) else None)"

fun surface_run :: "int \<times> bool \<Rightarrow> surface_op list \<Rightarrow> (int \<times> bool) option" where
  "surface_run st [] = Some st"
| "surface_run st (op # ops) = Option.bind (surface_accepts st op) (\<lambda>st. surface_run st ops)"

lemma surface_run_append: "surface_run st (ops @ ops') = Option.bind (surface_run st ops) (\<lambda>st. surface_run st ops')"
  by (induction ops arbitrary: st) (auto split: Option.bind_split)

section \<open>The session's invariant\<close>

definition up :: "menu_phase \<Rightarrow> bool" where
  "up p \<longleftrightarrow> p = Await_Menu \<or> p = Shown"

definition menu_ok :: "menu_item list list \<Rightarrow> menu \<Rightarrow> bool" where
  "menu_ok reqs m \<longleftrightarrow> 0 \<le> m_scroll m \<and> m_scroll m \<le> max (m_ph m - m_view_ph m) 0 \<and>
     (\<exists>t < length reqs. m_on_selected m = Some t \<and> m_items m = reqs ! t)"

definition session_ok :: "menu_item list list \<Rightarrow> menu_state \<Rightarrow> bool" where
  "session_ok reqs s \<longleftrightarrow>
     (s_engaged s \<longleftrightarrow> s_generation s \<noteq> None) \<and> (s_active s \<longleftrightarrow> up (s_phase s)) \<and>
     (s_generation s = None \<longrightarrow> s_phase s = Idle) \<and> (s_job s \<noteq> None \<longrightarrow> s_menu s \<noteq> None) \<and>
     (up (s_phase s) \<or> s_phase s = Idle \<and> s_generation s \<noteq> None \<longrightarrow> s_menu s \<noteq> None) \<and>
     (case s_menu s of
        None \<Rightarrow> True
      | Some m \<Rightarrow> s_generation s \<noteq> None \<and> menu_ok reqs m \<and> (s_phase s = Idle \<longrightarrow> m_layout m = None))"

definition coupled :: "int \<times> bool \<Rightarrow> menu_state \<Rightarrow> bool" where
  "coupled st s \<longleftrightarrow> 0 \<le> fst st \<and> fst st \<le> s_next_generation s \<and>
     (case s_generation s of
        None \<Rightarrow> True
      | Some g \<Rightarrow> g = s_next_generation s \<and> (if s_phase s = Idle then fst st < g else fst st = g \<and> snd st))"

definition held :: "menu_state \<Rightarrow> nat multiset" where
  "held s = (case Option.bind (s_menu s) m_on_selected of None \<Rightarrow> {#} | Some t \<Rightarrow> {#t#})"

definition given :: "resolve option \<Rightarrow> nat multiset" where
  "given r = (case r of None \<Rightarrow> {#} | Some (t, ident) \<Rightarrow> {#t#})"

definition answer_ok :: "menu_item list list \<Rightarrow> resolve \<Rightarrow> bool" where
  "answer_ok reqs r \<longleftrightarrow> fst r < length reqs \<and>
     (snd r = MENU_DISMISSED \<or> (\<exists>it\<in>set (reqs ! fst r). mi_id it = snd r))"

text \<open>
  What an operation keeps: the session's invariant, an answer from the request's own items,
  the selections (\<open>new\<close> of them brought in), and a queue the surface accepts.
\<close>

definition keeps :: "menu_item list list \<Rightarrow> int \<times> bool \<Rightarrow> nat multiset \<Rightarrow> menu_state \<Rightarrow> menu_state \<times> resolve option \<Rightarrow> bool" where
  "keeps reqs st new s res \<longleftrightarrow>
     (case res of (s', r) \<Rightarrow>
        session_ok reqs s' \<and> held s' + given r = held s + new \<and>
        (case r of None \<Rightarrow> True | Some r \<Rightarrow> answer_ok reqs r) \<and> s_draining s' = s_draining s \<and>
        s_next_generation s' \<le> s_next_generation s + 1 \<and>
        (\<exists>ops st'. s_pending s' = s_pending s @ ops \<and> surface_run st ops = Some st' \<and> coupled st' s'))"

lemma keepsI:
  assumes "session_ok reqs s'" "held s' + given r = held s + new" "case r of None \<Rightarrow> True | Some r \<Rightarrow> answer_ok reqs r"
    "s_draining s' = s_draining s" "s_next_generation s' \<le> s_next_generation s + 1"
    "s_pending s' = s_pending s @ ops" "surface_run st ops = Some st'" "coupled st' s'"
  shows "keeps reqs st new s (s', r)"
  unfolding keeps_def prod.case using assms by blast

lemma keeps_quiet:
  assumes "session_ok reqs s'" "held s' = held s" "s_draining s' = s_draining s"
    "s_next_generation s' = s_next_generation s" "s_pending s' = s_pending s" "coupled st s'"
  shows "keeps reqs st {#} s (s', None)"
  by (rule keepsI [of _ _ _ _ _ "[]" _ st]) (use assms in \<open>simp_all add: given_def\<close>)

lemma keeps_same: "session_ok reqs s \<Longrightarrow> coupled st s \<Longrightarrow> keeps reqs st {#} s (s, None)"
  by (rule keeps_quiet) simp_all

lemma held_simps [simp]:
  "held (s\<lparr>s_pending := p\<rparr>) = held s" "held (s\<lparr>s_job := j\<rparr>) = held s" "held (s\<lparr>s_phase := ph\<rparr>) = held s"
  "held (s\<lparr>s_active := b\<rparr>) = held s" "held (s\<lparr>s_engaged := b\<rparr>) = held s" "held (s\<lparr>s_generation := g\<rparr>) = held s"
  "held (s\<lparr>s_next_generation := n\<rparr>) = held s" "held (s\<lparr>s_draining := b\<rparr>) = held s" "held (s\<lparr>s_shutdown := b\<rparr>) = held s"
  by (simp_all add: held_def)

lemma clear_settles: "held s = given (dismissed (snd (clear_menu s)))" "held (fst (clear_menu s)) = {#}"
  "held s = given (map_option (\<lambda>t. (t, ident)) (snd (clear_menu s)))"
  by (auto simp: clear_menu_def held_def given_def dismissed_def split: option.splits)

text \<open>Ending the session, with any answer for its selection.\<close>

lemma keeps_end:
  assumes inv: "session_ok reqs s" "coupled st s"
    and answer: "\<And>m t. s_menu s = Some m \<Longrightarrow> m_on_selected m = Some t \<Longrightarrow> answer_ok reqs (t, ident)"
  shows "keeps reqs st {#} s
    (destroy_of (s_generation s) reason (fst (clear_menu s)), map_option (\<lambda>t. (t, ident)) (snd (clear_menu s)))"
proof (cases "s_generation s")
  case None
  show ?thesis
  proof (rule keepsI [of _ _ _ _ _ "[]" _ st])
    show "held (destroy_of (s_generation s) reason (fst (clear_menu s))) +
        given (map_option (\<lambda>t. (t, ident)) (snd (clear_menu s))) = held s + {#}"
      by (simp add: None destroy_of_def clear_settles(2) clear_settles(3) [symmetric])
  qed (use None inv answer in \<open>auto simp: session_ok_def coupled_def destroy_of_def clear_menu_def up_def split: option.splits\<close>)
next
  case (Some g)
  show ?thesis
  proof (rule keepsI [of _ _ _ _ _ "[Op_Destroy g reason]" _ "(g, False)"])
    show "held (destroy_of (s_generation s) reason (fst (clear_menu s))) +
        given (map_option (\<lambda>t. (t, ident)) (snd (clear_menu s))) = held s + {#}"
      by (simp add: Some destroy_of_def queue_def clear_settles(2) clear_settles(3) [symmetric])
    show "surface_run st [Op_Destroy g reason] = Some (g, False)"
      using inv(2) Some by (cases st) (auto simp: coupled_def split: if_splits)
  qed (use Some inv answer in
      \<open>auto simp: session_ok_def coupled_def destroy_of_def queue_def clear_menu_def up_def split: option.splits\<close>)
qed

lemma selected_known: "menu_ok reqs m \<Longrightarrow> m_on_selected m = Some t \<Longrightarrow> t < length reqs"
  by (auto simp: menu_ok_def)

lemma keeps_close:
  assumes "session_ok reqs s" "coupled st s"
  shows "keeps reqs st {#} s (close_current reason s)"
proof -
  have "answer_ok reqs (t, MENU_DISMISSED)" if "s_menu s = Some m" "m_on_selected m = Some t" for m t
    using assms(1) that selected_known by (auto simp: answer_ok_def session_ok_def)
  from keeps_end [OF assms this, where reason = reason] show ?thesis
    by (simp add: close_current_def split_beta Let_def dismissed_def)
qed

lemma close_fields: "s_shutdown (fst (close_current reason s)) = s_shutdown s"
  by (simp add: close_current_def clear_menu_def destroy_of_def queue_def Let_def split: option.splits)


lemma coupled_simps [simp]:
  "coupled st (s\<lparr>s_pending := p\<rparr>) = coupled st s" "coupled st (s\<lparr>s_job := j\<rparr>) = coupled st s"
  "coupled st (s\<lparr>s_menu := m\<rparr>) = coupled st s" "coupled st (s\<lparr>s_active := b\<rparr>) = coupled st s"
  "coupled st (s\<lparr>s_engaged := b\<rparr>) = coupled st s" "coupled st (s\<lparr>s_draining := b\<rparr>) = coupled st s"
  "coupled st (s\<lparr>s_shutdown := b\<rparr>) = coupled st s"
  by (simp_all add: coupled_def cong: option.case_cong)

lemma request_paint_keeps:
  "session_ok reqs s \<Longrightarrow> s_menu s \<noteq> None \<Longrightarrow> session_ok reqs (request_paint s)"
  "coupled st (request_paint s) = coupled st s" "held (request_paint s) = held s"
  "s_draining (request_paint s) = s_draining s" "s_next_generation (request_paint s) = s_next_generation s"
  "s_pending (request_paint s) = s_pending s"
  by (simp_all add: request_paint_def session_ok_def cong: option.case_cong)

lemma next_generation_small:
  "0 \<le> s_next_generation s \<Longrightarrow> s_next_generation s + 1 < 2 ^ 64 \<Longrightarrow>
   next_generation s = (s\<lparr>s_next_generation := s_next_generation s + 1\<rparr>, s_next_generation s + 1)"
  by (simp add: next_generation_def Let_def)

lemma keeps_arm:
  assumes "session_ok reqs s" "coupled st s" "s_next_generation s + 1 < 2 ^ 64"
  shows "keeps reqs st {#} s (arm x y serial s)"
proof -
  let ?g = "s_next_generation s + 1"
  let ?place = "\<lparr>pl_x = x, pl_y = y, pl_lw = 1, pl_lh = 1, pl_pw = 1, pl_ph = 1\<rparr>"
  have gen: "next_generation (fst (clear_menu s)) = ((fst (clear_menu s))\<lparr>s_next_generation := ?g\<rparr>, ?g)"
    using next_generation_small [of "fst (clear_menu s)"] assms(2,3) by (simp add: clear_menu_def coupled_def)
  have arm: "arm x y serial s =
      (queue (Op_Create ?g ?place serial) ((fst (clear_menu s))\<lparr>s_next_generation := ?g, s_generation := Some ?g,
          s_engaged := True, s_phase := Await_Placeholder\<rparr>), dismissed (snd (clear_menu s)))"
    by (simp add: arm_def split_beta Let_def gen)
  show ?thesis
    unfolding arm
  proof (rule keepsI [of _ _ _ _ _ "[Op_Create ?g ?place serial]" _ "(?g, True)"])
    show "surface_run st [Op_Create ?g ?place serial] = Some (?g, True)"
      using assms(2) by (cases st) (auto simp: coupled_def)
  qed (use assms in \<open>auto simp: session_ok_def coupled_def queue_def clear_menu_def up_def answer_ok_def dismissed_def
        clear_settles [simplified dismissed_def] given_def held_def selected_known split: option.splits\<close>)
qed

lemma keeps_begin:
  assumes "session_ok reqs s" "coupled st s" "s_phase s \<noteq> Idle"
  shows "keeps reqs st {#} s (begin_menu s, None)"
proof (cases "s_menu s")
  case None
  then show ?thesis using assms by (simp add: begin_menu_def keeps_same split: option.splits)
next
  case (Some m)
  then obtain g where g: "s_generation s = Some g" using assms(1) by (auto simp: session_ok_def)
  have cur: "fst st = g" "snd st" "g = s_next_generation s" "0 \<le> g" using assms(2,3) g by (auto simp: coupled_def)
  let ?ops = "[Op_Present (first_paint g), Op_Reposition g (placement_of m)]"
  show ?thesis
  proof (rule keepsI [of _ _ _ _ _ ?ops _ st])
    show "surface_run st ?ops = Some st" using cur by (cases st) (simp add: first_paint_def)
    show "session_ok reqs (begin_menu s)"
      using assms(1) g Some by (auto simp: begin_menu_def session_ok_def queue_def up_def)
    show "coupled st (begin_menu s)" using cur g Some by (simp add: begin_menu_def queue_def coupled_def)
  qed (use g Some in \<open>simp_all add: begin_menu_def queue_def given_def\<close>)
qed

lemma keeps_open:
  assumes "session_ok reqs s" "coupled st s" "s_next_generation s + 1 < 2 ^ 64"
  shows "keeps (reqs @ [rq_items rq]) st {#length reqs#} s (open_menu rq (length reqs) s)"
proof -
  have gen: "s_next_generation s' = s_next_generation s \<Longrightarrow>
      next_generation s' = (s'\<lparr>s_next_generation := s_next_generation s + 1\<rparr>, s_next_generation s + 1)" for s'
    using next_generation_small [of s'] assms(2,3) by (simp add: coupled_def)
  show ?thesis
    unfolding open_menu_def Let_def
    by (rule keepsI [of _ _ _ _ _ "[]" _ st])
      (use assms in \<open>auto simp: gen session_ok_def coupled_def up_def menu_ok_def held_def given_def
        dismissed_def answer_ok_def nth_append Let_def split: option.splits\<close>)
qed


lemma clamp_scroll_bounds: "0 \<le> clamp_scroll m y" "clamp_scroll m y \<le> max (m_ph m - m_view_ph m) 0"
  by (auto simp: clamp_scroll_def)

lemma scroll_active_fields [simp]:
  "m_items (scroll_active_into_view m) = m_items m" "m_layout (scroll_active_into_view m) = m_layout m"
  "m_on_selected (scroll_active_into_view m) = m_on_selected m" "m_ph (scroll_active_into_view m) = m_ph m"
  "m_view_ph (scroll_active_into_view m) = m_view_ph m" "m_width (scroll_active_into_view m) = m_width m"
  by (simp_all add: scroll_active_into_view_def Let_def split: option.split)

lemma scroll_active_bounds:
  "0 \<le> m_scroll m \<Longrightarrow> m_scroll m \<le> max (m_ph m - m_view_ph m) 0 \<Longrightarrow>
   0 \<le> m_scroll (scroll_active_into_view m) \<and>
   m_scroll (scroll_active_into_view m) \<le> max (m_ph m - m_view_ph m) 0"
  using clamp_scroll_bounds [of m] by (auto simp: scroll_active_into_view_def Let_def split: option.split)

lemma scroll_active_ok: "menu_ok reqs m \<Longrightarrow> menu_ok reqs (scroll_active_into_view m)"
  using scroll_active_bounds [of m] by (simp add: menu_ok_def)

lemma measured_fields [simp]:
  "m_items (measured l metrics m) = m_items m" "m_layout (measured l metrics m) = Some l"
  "m_on_selected (measured l metrics m) = m_on_selected m" "m_width (measured l metrics m) = m_width m"
  by (simp_all add: measured_def Let_def)

lemma measured_ok: "menu_ok reqs m \<Longrightarrow> menu_ok reqs (measured l metrics m)"
  unfolding measured_def Let_def by (rule scroll_active_ok) (simp add: menu_ok_def)

text \<open>The open menu is replaced by one of the same request.\<close>

lemma session_replace:
  assumes "session_ok reqs s" "s_menu s = Some m" "menu_ok reqs m'" "m_on_selected m' = m_on_selected m"
    "s_phase s = Idle \<Longrightarrow> m_layout m' = None"
  shows "session_ok reqs (s\<lparr>s_menu := Some m'\<rparr>)" "held (s\<lparr>s_menu := Some m'\<rparr>) = held s"
  using assms by (auto simp: session_ok_def held_def)

lemma keeps_trans:
  assumes "keeps reqs st {#} s' res" "held s' = held s" "s_draining s' = s_draining s"
    "s_next_generation s' = s_next_generation s" "s_pending s' = s_pending s"
  shows "keeps reqs st {#} s res"
  using assms by (simp add: keeps_def split: prod.splits)

lemma keeps_paint:
  assumes "session_ok reqs s" "coupled st s" "s_menu s \<noteq> None"
  shows "keeps reqs st {#} s (request_paint s, None)"
  by (rule keeps_quiet) (use assms in \<open>simp_all add: request_paint_keeps\<close>)

lemma keeps_menu_step:
  assumes "session_ok reqs s" "coupled st s"
  shows "keeps reqs st {#} s (menu_step ev s)"
proof (cases "s_menu s")
  case None
  then show ?thesis using assms by (simp add: menu_step_def keeps_same)
next
  case (Some m)
  obtain active effects where fsm: "fsm_step ev (m_layout m) (m_items m) (m_active m) = (active, effects)"
    by (cases "fsm_step ev (m_layout m) (m_items m) (m_active m)")
  let ?m = "case ev of Key _ \<Rightarrow> scroll_active_into_view (m\<lparr>m_active := active\<rparr>) | _ \<Rightarrow> m\<lparr>m_active := active\<rparr>"
  let ?s = "s\<lparr>s_menu := Some ?m\<rparr>"
  have m: "menu_ok reqs ?m" "m_on_selected ?m = m_on_selected m" "m_layout ?m = m_layout m" "m_items ?m = m_items m"
    using assms(1) Some scroll_active_ok [of reqs "m\<lparr>m_active := active\<rparr>"]
    by (auto simp: session_ok_def menu_ok_def split: menu_event.split)
  have lay: "s_phase s = Idle \<Longrightarrow> m_layout ?m = None" using assms(1) Some m(3) by (auto simp: session_ok_def)
  note s = session_replace [OF assms(1) Some m(1,2) lay]
  have c: "coupled st ?s" using assms(2) by simp
  have answer: "answer_ok reqs (t, ident)"
    if "m_on_selected ?m = Some t" "ident = MENU_DISMISSED \<or> (\<exists>it\<in>set (m_items m). mi_id it = ident)" for t ident
    using that m(1,4) by (auto simp: answer_ok_def menu_ok_def)
  have "keeps reqs st {#} ?s (run_effects effects ?s)"
  proof -
    consider "effects = []" | "effects = [Redraw]" |
      ident where "effects = [Close ident]" "ident = MENU_DISMISSED \<or> (\<exists>it\<in>set (m_items m). mi_id it = ident)"
      using fsm_effects [OF fsm] by blast
    then show ?thesis
    proof cases
      case 1
      then show ?thesis using keeps_same [OF s(1) c] by simp
    next
      case 2
      then show ?thesis using keeps_paint [OF s(1) c] by simp
    next
      case 3
      show ?thesis using keeps_end [OF s(1) c, of ident Finished] answer [OF _ 3(2)]
        by (simp add: 3(1) split_beta Let_def)
    qed
  qed
  then have "keeps reqs st {#} s (run_effects effects ?s)" by (rule keeps_trans) (use s(2) in simp_all)
  then show ?thesis by (simp add: menu_step_def Some fsm Let_def)
qed

lemma keeps_calls:
  assumes "session_ok reqs s" "coupled st s"
  shows "keeps reqs st {#} s (dismiss_if_speculative s)" "keeps reqs st {#} s (on_done g s)"
    "keeps reqs st {#} s (pointer pt press s)" "keeps reqs st {#} s (key k s)" "keeps reqs st {#} s (dismiss s)"
    "keeps reqs st {#} s (hide s)" "keeps reqs st {#} s (expose s)"
proof -
  show "keeps reqs st {#} s (expose s)"
    using keeps_paint [OF assms] keeps_same [OF assms]
    by (auto simp: expose_def has_layout_def split: option.splits)
qed (use keeps_close [OF assms] keeps_same [OF assms] keeps_menu_step [OF assms] in
    \<open>simp_all add: dismiss_if_speculative_def on_done_def pointer_def key_def dismiss_def hide_def split: option.split prod.split\<close>)

lemma keeps_shutdown:
  assumes "session_ok reqs s" "coupled st s"
  shows "keeps reqs st {#} s (shutdown s)"
proof -
  have "session_ok reqs (s\<lparr>s_shutdown := True\<rparr>)" using assms(1) by (simp add: session_ok_def cong: option.case_cong)
  then have "keeps reqs st {#} (s\<lparr>s_shutdown := True\<rparr>) (shutdown s)"
    unfolding shutdown_def using assms(2) by (intro keeps_close) simp_all
  then show ?thesis by (rule keeps_trans) simp_all
qed

lemma keeps_scroll:
  assumes "session_ok reqs s" "coupled st s"
  shows "keeps reqs st {#} s (scroll dy s)"
proof (cases "s_menu s")
  case None
  then show ?thesis using keeps_same [OF assms] by (simp add: scroll_def)
next
  case (Some m)
  let ?y = "clamp_scroll m (m_scroll m - scroll_step dy (row_height m))" and ?m = "m\<lparr>m_scroll := clamp_scroll m (m_scroll m - scroll_step dy (row_height m))\<rparr>"
  have m: "menu_ok reqs ?m"
    using assms(1) Some clamp_scroll_bounds [of m] by (auto simp: session_ok_def menu_ok_def)
  have lay: "s_phase s = Idle \<Longrightarrow> m_layout ?m = None" using assms(1) Some by (auto simp: session_ok_def)
  note s = session_replace [OF assms(1) Some m _ lay]
  have "keeps reqs st {#} (s\<lparr>s_menu := Some ?m\<rparr>) (request_paint (s\<lparr>s_menu := Some ?m\<rparr>), None)"
    by (rule keeps_paint) (use s assms(2) in simp_all)
  then have "keeps reqs st {#} s (request_paint (s\<lparr>s_menu := Some ?m\<rparr>), None)"
    by (rule keeps_trans) (use s in simp_all)
  then show ?thesis using keeps_same [OF assms] by (simp add: scroll_def Some Let_def)
qed


lemma keeps_on_ready:
  assumes "session_ok reqs s" "coupled st s"
  shows "keeps reqs st {#} s (on_ready g s)"
proof (cases "s_generation s = Some g")
  case False
  then show ?thesis using keeps_same [OF assms] by (simp add: on_ready_def)
next
  case gen: True
  show ?thesis
  proof (cases "s_phase s")
    case Await_Placeholder
    have "keeps reqs st {#} s (s\<lparr>s_phase := Placeholder\<rparr>, None)"
      by (rule keeps_quiet)
        (use assms Await_Placeholder gen in \<open>auto simp: session_ok_def coupled_def up_def split: option.splits\<close>)
    then show ?thesis using keeps_begin [OF assms] by (simp add: on_ready_def gen Await_Placeholder)
  next
    case Await_Menu
    let ?s = "s\<lparr>s_phase := Shown\<rparr>"
    have s: "session_ok reqs ?s" "coupled st ?s" "s_menu ?s \<noteq> None"
      using assms Await_Menu gen by (auto simp: session_ok_def coupled_def up_def split: option.splits)
    have "keeps reqs st {#} s (request_paint ?s, None)"
      by (rule keeps_trans [OF keeps_paint [OF s]]) simp_all
    then show ?thesis by (simp add: on_ready_def gen Await_Menu)
  qed (use keeps_same [OF assms] in \<open>simp_all add: on_ready_def gen\<close>)
qed

lemma keeps_queue:
  assumes "session_ok reqs s" "coupled st s" "surface_accepts st op = Some st" "s_draining s = s_draining s0"
    "s_next_generation s = s_next_generation s0" "s_pending s = s_pending s0" "held s = held s0"
  shows "keeps reqs st {#} s0 (queue op s, None)"
  by (rule keepsI [of _ _ _ _ _ "[op]" _ st])
    (use assms in \<open>simp_all add: queue_def given_def session_ok_def cong: option.case_cong\<close>)

lemma keeps_on_layout:
  assumes "session_ok reqs s" "coupled st s"
  shows "keeps reqs st {#} s (on_layout g l metrics s, None)"
proof (cases "s_generation s = Some g \<and> s_menu s \<noteq> None")
  case False
  then show ?thesis using keeps_same [OF assms] by (auto simp: on_layout_def)
next
  case True
  then obtain m where gen: "s_generation s = Some g" and m: "s_menu s = Some m" by blast
  let ?m = "measured l metrics m"
  let ?s = "s\<lparr>s_menu := Some ?m\<rparr>"
  have ok: "menu_ok reqs ?m" using assms(1) m by (auto simp: session_ok_def intro: measured_ok)
  have held: "held ?s = held s" using m by (simp add: held_def)
  have c: "coupled st ?s" using assms(2) by simp
  have lay: "on_layout g l metrics s =
      (case s_phase s of
         Placeholder \<Rightarrow> begin_menu ?s
       | Idle \<Rightarrow> queue (Op_Create g (placement_of ?m) 0) (?s\<lparr>s_active := True, s_engaged := True, s_phase := Await_Menu\<rparr>)
       | Shown \<Rightarrow> request_paint (queue (Op_Reposition g (placement_of ?m)) ?s)
       | Await_Placeholder \<Rightarrow> ?s | Await_Menu \<Rightarrow> ?s)"
    by (simp add: on_layout_def gen m Let_def)
  show ?thesis
  proof (cases "s_phase s = Idle")
    case True
    have st: "fst st < g" "g = s_next_generation s" using assms(2) gen True by (auto simp: coupled_def)
    show ?thesis
      unfolding lay
    proof (rule keepsI [of _ _ _ _ _ "[Op_Create g (placement_of ?m) 0]" _ "(g, True)"])
      show "surface_run st [Op_Create g (placement_of ?m) 0] = Some (g, True)" using st by (cases st) simp
    qed (use True assms gen m ok st held in
        \<open>auto simp: queue_def session_ok_def coupled_def up_def given_def held_def\<close>)
  next
    case False
    have s: "session_ok reqs ?s" using session_replace [OF assms(1) m ok] False by simp
    have same: "keeps reqs st {#} s (?s, None)" by (rule keeps_quiet) (use s c held in simp_all)
    have live: "surface_accepts st (Op_Reposition g (placement_of ?m)) = Some st"
      using assms(2) gen False by (cases st) (auto simp: coupled_def)
    show ?thesis
    proof (cases "s_phase s")
      case Placeholder
      have "keeps reqs st {#} s (begin_menu ?s, None)"
        by (rule keeps_trans [OF keeps_begin [OF s c]]) (use False held in simp_all)
      then show ?thesis by (simp add: lay Placeholder)
    next
      case Shown
      let ?q = "queue (Op_Reposition g (placement_of ?m)) ?s"
      have q: "keeps reqs st {#} s (?q, None)" by (rule keeps_queue [OF s c live]) (use held in simp_all)
      then obtain st' where q': "session_ok reqs ?q" "surface_run st [Op_Reposition g (placement_of ?m)] = Some st'"
        "coupled st' ?q" "st' = st"
        using live c by (auto simp: keeps_def queue_def)
      have "keeps reqs st {#} s (request_paint ?q, None)"
        by (rule keepsI [of _ _ _ _ _ "[Op_Reposition g (placement_of ?m)]" _ st])
          (use q' held in \<open>simp_all add: request_paint_keeps queue_def given_def\<close>)
      then show ?thesis by (simp add: lay Shown)
    qed (use same False in \<open>simp_all add: lay\<close>)
  qed
qed

lemma keeps_on_pixels:
  assumes "session_ok reqs s" "coupled st s" "s_generation s = Some g \<Longrightarrow> s_phase s \<noteq> Idle"
  shows "keeps reqs st {#} s (on_pixels g pixels s, None)"
proof (cases "s_generation s = Some g \<and> s_menu s \<noteq> None")
  case False
  then show ?thesis using keeps_same [OF assms(1,2)] by (auto simp: on_pixels_def)
next
  case True
  then obtain m where gen: "s_generation s = Some g" and m: "s_menu s = Some m" by blast
  show ?thesis
    unfolding on_pixels_def using gen m
    by simp (rule keeps_queue [OF assms(1,2)], use assms(2,3) gen in \<open>cases st; auto simp: coupled_def\<close>, simp_all)
qed


section \<open>Calls\<close>

lemma menu_ok_more: "menu_ok reqs m \<Longrightarrow> menu_ok (reqs @ rs) m"
  by (fastforce simp: menu_ok_def nth_append)

lemma session_more: "session_ok reqs s \<Longrightarrow> session_ok (reqs @ rs) s"
  by (auto simp: session_ok_def menu_ok_more split: option.splits)

definition brought :: "nat \<Rightarrow> menu_call \<Rightarrow> nat multiset" where
  "brought t c = (case c of Open rq \<Rightarrow> {#t#} | _ \<Rightarrow> {#})"

lemma keeps_call:
  assumes "session_ok reqs s" "coupled st s" "s_next_generation s + 1 < 2 ^ 64"
  shows "\<exists>new. keeps (requests_after c reqs) st new s (call_update alive (length reqs) c s) \<and>
    new + mset (map fst (refusal alive (length reqs) c)) = brought (length reqs) c \<and>
    list_all (answer_ok (requests_after c reqs)) (refusal alive (length reqs) c)"
proof (cases c)
  case (Arm x y serial)
  then show ?thesis using keeps_arm [OF assms] keeps_same [OF assms(1,2)]
    by (intro exI [of _ "{#}"]) (simp add: requests_after_def brought_def)
next
  case (Open rq)
  show ?thesis
  proof (cases "refused alive rq")
    case True
    have "keeps (reqs @ [rq_items rq]) st {#} s (close_current Speculative s)"
      by (rule keeps_close [OF session_more [OF assms(1)] assms(2)])
    then show ?thesis using True Open
      by (intro exI [of _ "{#}"]) (simp add: requests_after_def brought_def answer_ok_def)
  next
    case False
    then show ?thesis using keeps_open [OF assms] Open
      by (intro exI [of _ "{#length reqs#}"]) (simp add: requests_after_def brought_def)
  qed
qed (intro exI [of _ "{#}"], use assms keeps_calls [OF assms(1,2)] keeps_on_ready [OF assms(1,2)]
    keeps_shutdown [OF assms(1,2)] keeps_scroll [OF assms(1,2)] in \<open>simp add: requests_after_def brought_def\<close>)+

section \<open>The flush\<close>

fun op_in_hand :: "flusher \<Rightarrow> surface_op list" where
  "op_in_hand \<lparr>fl_pc = Fl_Emit op, fl_resolves = rs\<rparr> = [op]"
| "op_in_hand f = []"

definition leads :: "flusher \<Rightarrow> bool" where
  "leads f \<longleftrightarrow> (case fl_pc f of Fl_Drain \<Rightarrow> True | Fl_Emit op \<Rightarrow> True | _ \<Rightarrow> False)"

text \<open>
  One leader while the queue is being drained; what was queued reached the surface, is in the
  leader's hand or waits, in order; and a queue without a leader has a thread about to ask.
\<close>

definition flush_ok :: "surface_op list \<Rightarrow> surface_op list \<Rightarrow> surface_op list \<Rightarrow> bool \<Rightarrow> flusher list \<Rightarrow> bool" where
  "flush_ok queued emitted waiting draining fs \<longleftrightarrow>
     queued = emitted @ concat (map op_in_hand fs) @ waiting \<and>
     length (filter leads fs) = (if draining then 1 else 0) \<and>
     (waiting \<noteq> [] \<and> \<not> draining \<longrightarrow> list_ex (\<lambda>f. fl_pc f = Fl_Ask) fs)"

lemma not_leading: "\<not> leads f \<Longrightarrow> op_in_hand f = []"
  by (cases f rule: op_in_hand.cases) (auto simp: leads_def)

lemma none_leading: "filter leads fs = [] \<Longrightarrow> concat (map op_in_hand fs) = []"
  by (induction fs) (auto simp: not_leading split: if_splits)

lemma leader_alone:
  assumes "length (filter leads (pre @ f # post)) = 1" "leads f"
  shows "concat (map op_in_hand pre) = []" "concat (map op_in_hand post) = []" "filter leads pre = []" "filter leads post = []"
proof -
  show n: "filter leads pre = []" "filter leads post = []" using assms by auto
  show "concat (map op_in_hand pre) = []" "concat (map op_in_hand post) = []"
    using none_leading [OF n(1)] none_leading [OF n(2)] by simp_all
qed

lemma flush_ok_queue:
  assumes "flush_ok queued emitted waiting draining fs"
  shows "flush_ok (queued @ ops) emitted (waiting @ ops) draining (fs @ [\<lparr>fl_pc = Fl_Ask, fl_resolves = rs\<rparr>])"
  using assms by (auto simp: flush_ok_def leads_def)

lemma flush_ok_step:
  assumes ok: "flush_ok (w_queued w) (w_emitted w) (s_pending (w_state w)) (s_draining (w_state w)) (pre @ f # post)"
    and step: "flush_step f w = (f', w')"
  shows "flush_ok (w_queued w') (w_emitted w') (s_pending (w_state w')) (s_draining (w_state w'))
    (pre @ (case f' of None \<Rightarrow> [] | Some f' \<Rightarrow> [f']) @ post)"
proof -
  obtain rs where f: "f = \<lparr>fl_pc = fl_pc f, fl_resolves = rs\<rparr>" by (cases f) simp
  have lead: "leads f \<Longrightarrow> s_draining (w_state w)" using ok by (auto simp: flush_ok_def split: if_splits)
  show ?thesis
  proof (cases "fl_pc f")
    case Fl_Ask
    then have f: "f = \<lparr>fl_pc = Fl_Ask, fl_resolves = rs\<rparr>" using f by simp
    show ?thesis
    proof (cases "s_draining (w_state w)")
      case True
      then show ?thesis using ok step unfolding f by (auto simp: flush_ok_def leads_def)
    next
      case False
      have n: "filter leads pre = []" "filter leads post = []" using ok False by (simp_all add: flush_ok_def split: if_splits)
      have r: "f' = Some \<lparr>fl_pc = Fl_Drain, fl_resolves = rs\<rparr>" "w' = w\<lparr>w_state := (w_state w)\<lparr>s_draining := True\<rparr>\<rparr>"
        using step False unfolding f by simp_all
      show ?thesis using ok n none_leading [OF n(1)] none_leading [OF n(2)]
        unfolding f r by (simp add: flush_ok_def leads_def del: concat_eq_Nil_conv)
    qed
  next
    case Fl_Drain
    then have f: "f = \<lparr>fl_pc = Fl_Drain, fl_resolves = rs\<rparr>" "leads f" using f by (simp_all add: leads_def)
    have one: "length (filter leads (pre @ f # post)) = 1" using ok lead [OF f(2)] by (simp add: flush_ok_def)
    note alone = leader_alone [OF one f(2)]
    show ?thesis
    proof (cases "s_pending (w_state w)")
      case Nil
      have r: "f' = Some \<lparr>fl_pc = Fl_Fire, fl_resolves = rs\<rparr>" "w' = w\<lparr>w_state := (w_state w)\<lparr>s_draining := False\<rparr>\<rparr>"
        using step Nil unfolding f by simp_all
      show ?thesis using ok alone Nil unfolding f(1) r by (simp add: flush_ok_def leads_def del: concat_eq_Nil_conv)
    next
      case (Cons op ops)
      have r: "f' = Some \<lparr>fl_pc = Fl_Emit op, fl_resolves = rs\<rparr>"
        "w' = w\<lparr>w_state := (w_state w)\<lparr>s_pending := ops, s_draining := True\<rparr>\<rparr>"
        using step Cons unfolding f by simp_all
      show ?thesis using ok alone Cons unfolding f(1) r by (simp add: flush_ok_def leads_def del: concat_eq_Nil_conv)
    qed
  next
    case (Fl_Emit op)
    then have f: "f = \<lparr>fl_pc = Fl_Emit op, fl_resolves = rs\<rparr>" "leads f" using f by (simp_all add: leads_def)
    have one: "length (filter leads (pre @ f # post)) = 1" using ok lead [OF f(2)] by (simp add: flush_ok_def)
    have r: "f' = Some \<lparr>fl_pc = Fl_Drain, fl_resolves = rs\<rparr>" "w' = w\<lparr>w_emitted := w_emitted w @ [op]\<rparr>"
      using step unfolding f by simp_all
    show ?thesis using ok leader_alone [OF one f(2)] lead [OF f(2)] unfolding f(1) r by (simp add: flush_ok_def leads_def del: concat_eq_Nil_conv)
  next
    case Fl_Fire
    then have f: "f = \<lparr>fl_pc = Fl_Fire, fl_resolves = rs\<rparr>" using f by simp
    show ?thesis using ok step unfolding f by (cases rs) (auto simp: flush_ok_def leads_def)
  qed
qed


section \<open>The world's invariant\<close>

definition on_the_way :: "menu_world \<Rightarrow> resolve list" where
  "on_the_way w = w_answers w @ concat (map fl_resolves (w_flushers w))"

definition render_ok :: "int \<times> bool \<Rightarrow> render_pc \<Rightarrow> bool" where
  "render_ok st rd = (case rd of Rd_Work (Paint_Job g items l active) \<Rightarrow> g \<le> fst st | _ \<Rightarrow> True)"

definition world_ok :: "menu_world \<Rightarrow> bool" where
  "world_ok w \<longleftrightarrow> session_ok (w_requests w) (w_state w) \<and>
     (\<exists>st. surface_run (0, False) (w_queued w) = Some st \<and> coupled st (w_state w) \<and> render_ok st (w_render w)) \<and>
     flush_ok (w_queued w) (w_emitted w) (s_pending (w_state w)) (s_draining (w_state w)) (w_flushers w) \<and>
     mset (map fst (on_the_way w)) + held (w_state w) = mset [0..<length (w_requests w)] \<and>
     list_all (answer_ok (w_requests w)) (on_the_way w)"

lemma surface_accepts_mono: "surface_accepts st op = Some st' \<Longrightarrow> fst st \<le> fst st'"
  by (cases st; cases op) (auto split: if_splits)

lemma surface_run_mono: "surface_run st ops = Some st' \<Longrightarrow> fst st \<le> fst st'"
proof (induction ops arbitrary: st)
  case (Cons op ops)
  then obtain st1 where "surface_accepts st op = Some st1" "surface_run st1 ops = Some st'"
    by (auto split: Option.bind_splits)
  then show ?case using Cons.IH surface_accepts_mono order_trans by blast
qed simp

lemma answer_more: "answer_ok reqs r \<Longrightarrow> answer_ok (reqs @ rs) r"
  by (auto simp: answer_ok_def nth_append)

lemma world_updated:
  assumes ok: "world_ok w" and st: "surface_run (0, False) (w_queued w) = Some st"
    and k: "keeps reqs' st new (w_state w) (s', r)"
    and reqs: "reqs' = w_requests w @ later" "list_all (answer_ok reqs') extra"
      "new + mset (map fst extra) = mset [length (w_requests w)..<length reqs']"
    and render: "\<And>st'. fst st \<le> fst st' \<Longrightarrow> render_ok st' rd"
  shows "world_ok ((updated s' ((case r of None \<Rightarrow> [] | Some r \<Rightarrow> [r]) @ extra) w)\<lparr>w_requests := reqs', w_render := rd\<rparr>)"
proof -
  let ?rs = "(case r of None \<Rightarrow> [] | Some r \<Rightarrow> [r]) @ extra"
  let ?w = "(updated s' ?rs w)\<lparr>w_requests := reqs', w_render := rd\<rparr>"
  obtain ops st' where ops: "s_pending s' = s_pending (w_state w) @ ops" "surface_run st ops = Some st'" "coupled st' s'"
    using k by (auto simp: keeps_def)
  have f: "w_queued ?w = w_queued w @ ops" "w_state ?w = s'" "w_emitted ?w = w_emitted w"
    "w_flushers ?w = w_flushers w @ [\<lparr>fl_pc = Fl_Ask, fl_resolves = ?rs\<rparr>]" "w_answers ?w = w_answers w"
    by (simp_all add: updated_def ops(1))
  have way: "on_the_way ?w = on_the_way w @ ?rs" by (simp add: on_the_way_def f)
  have given: "image_mset fst (mset (case r of None \<Rightarrow> [] | Some r \<Rightarrow> [r])) = given r"
    by (cases r) (auto simp: given_def split: prod.split)
  have upt: "mset [0..<length reqs'] = mset [0..<length (w_requests w)] + mset [length (w_requests w)..<length reqs']"
    unfolding mset_append [symmetric] using reqs(1) by (simp only: upt_add_eq_append [of 0] length_append le0 add_0)
  have k': "held s' + given r = held (w_state w) + new" "s_draining s' = s_draining (w_state w)"
    "session_ok reqs' s'" "case r of None \<Rightarrow> True | Some r \<Rightarrow> answer_ok reqs' r"
    using k by (auto simp: keeps_def)
  have total: "mset (map fst (on_the_way w)) + held (w_state w) = mset [0..<length (w_requests w)]"
    using ok by (simp add: world_ok_def)
  have "mset (map fst (on_the_way ?w)) + held s' =
      mset (map fst (on_the_way w)) + (held s' + given r) + mset (map fst extra)"
    by (simp add: way given)
  also have "\<dots> = mset [0..<length reqs']" unfolding k'(1) upt total [symmetric] reqs(3) [symmetric] by (simp add: ac_simps)
  finally have settled: "mset (map fst (on_the_way ?w)) + held s' = mset [0..<length reqs']" .
  have answers: "list_all (answer_ok reqs') (on_the_way ?w)"
  proof -
    have "list_all (answer_ok (w_requests w)) (on_the_way w)" using ok by (simp add: world_ok_def)
    then have "list_all (answer_ok reqs') (on_the_way w)" unfolding reqs(1) list_all_iff using answer_more by blast
    then show ?thesis unfolding way using k'(4) reqs(2) by (cases r) simp_all
  qed
  have flush: "flush_ok (w_queued ?w) (w_emitted ?w) (s_pending s') (s_draining s') (w_flushers ?w)"
    using ok flush_ok_queue unfolding f world_ok_def ops(1) k'(2) by blast
  have "surface_run (0, False) (w_queued ?w) = Some st'" using st ops(2) unfolding f by (simp add: surface_run_append)
  then show ?thesis
    using settled answers flush k'(3) ops(3) render [OF surface_run_mono [OF ops(2)]]
    unfolding world_ok_def f by auto
qed


lemma world_ok_init: "world_ok (new_menu_world spawned)"
  by (auto simp: world_ok_def new_menu_world_def new_menu_state_def session_ok_def up_def coupled_def render_ok_def
      flush_ok_def on_the_way_def held_def)

lemma world_queue: "world_ok w \<Longrightarrow> \<exists>st. surface_run (0, False) (w_queued w) = Some st \<and> coupled st (w_state w) \<and>
    render_ok st (w_render w) \<and> session_ok (w_requests w) (w_state w)"
  by (auto simp: world_ok_def)

lemma keeps_generation: "keeps reqs st new s (s', r) \<Longrightarrow> s_next_generation s' \<le> s_next_generation s + 1"
  by (simp add: keeps_def)

lemma updated_render: "(updated s' rs w)\<lparr>w_requests := reqs, w_render := rd\<rparr> = (updated s' rs (w\<lparr>w_render := rd\<rparr>))\<lparr>w_requests := reqs\<rparr>"
  by (simp add: updated_def)

lemma world_call:
  assumes "world_ok w" "s_next_generation (w_state w) + 1 < 2 ^ 64"
  shows "world_ok (perform_call alive c w)"
    "s_next_generation (w_state (perform_call alive c w)) \<le> s_next_generation (w_state w) + 1"
proof -
  obtain st where st: "surface_run (0, False) (w_queued w) = Some st" "coupled st (w_state w)"
    "render_ok st (w_render w)" "session_ok (w_requests w) (w_state w)"
    using world_queue [OF assms(1)] by blast
  let ?t = "length (w_requests w)"
  obtain s' r where r: "call_update alive ?t c (w_state w) = (s', r)" by (cases "call_update alive ?t c (w_state w)")
  obtain new where k: "keeps (requests_after c (w_requests w)) st new (w_state w) (s', r)"
    "new + mset (map fst (refusal alive ?t c)) = brought ?t c"
    "list_all (answer_ok (requests_after c (w_requests w))) (refusal alive ?t c)"
    using keeps_call [OF st(4,2) assms(2), of c alive] unfolding r by blast
  obtain later where later: "requests_after c (w_requests w) = w_requests w @ later"
    "brought ?t c = mset [?t..<length (requests_after c (w_requests w))]"
    by (cases c) (auto simp: requests_after_def brought_def)
  have "render_ok st' (w_render w)" if "fst st \<le> fst st'" for st'
    using st(3) that by (auto simp: render_ok_def split: render_pc.splits menu_job.splits)
  from world_updated [OF assms(1) st(1) k(1) later(1) k(3) _ this] k(2) later(2)
  show "world_ok (perform_call alive c w)" by (simp add: perform_call_def r Let_def updated_render)
  show "s_next_generation (w_state (perform_call alive c w)) \<le> s_next_generation (w_state w) + 1"
    using keeps_generation [OF k(1)] by (simp add: perform_call_def r updated_def Let_def)
qed

lemma world_render:
  assumes ok: "world_ok w" and st: "surface_run (0, False) (w_queued w) = Some st"
    and k: "keeps (w_requests w) st {#} (w_state w) (s', None)"
  shows "world_ok (updated s' [] (w\<lparr>w_render := Rd_Wait\<rparr>))"
proof -
  have "updated s' [] (w\<lparr>w_render := Rd_Wait\<rparr>) = (updated s' [] w)\<lparr>w_requests := w_requests w, w_render := Rd_Wait\<rparr>"
    by (cases w) (simp add: updated_def)
  then show ?thesis using world_updated [OF ok st k, of "[]" "[]" Rd_Wait] by (simp add: render_ok_def)
qed

lemma flush_step_fields:
  "w_flushers (snd (flush_step f w)) = w_flushers w" "w_requests (snd (flush_step f w)) = w_requests w"
  "w_queued (snd (flush_step f w)) = w_queued w" "w_render (snd (flush_step f w)) = w_render w"
  "s_next_generation (w_state (snd (flush_step f w))) = s_next_generation (w_state w)"
  "s_generation (w_state (snd (flush_step f w))) = s_generation (w_state w)"
  "s_phase (w_state (snd (flush_step f w))) = s_phase (w_state w)"
  "s_menu (w_state (snd (flush_step f w))) = s_menu (w_state w)"
  "s_job (w_state (snd (flush_step f w))) = s_job (w_state w)"
  "s_active (w_state (snd (flush_step f w))) = s_active (w_state w)"
  "s_engaged (w_state (snd (flush_step f w))) = s_engaged (w_state w)"
  "s_shutdown (w_state (snd (flush_step f w))) = s_shutdown (w_state w)"
  by (induction f w rule: flush_step.induct) (simp_all split: list.split)

lemma flush_step_answers:
  "w_answers (snd (flush_step f w)) @ (case fst (flush_step f w) of None \<Rightarrow> [] | Some f \<Rightarrow> fl_resolves f) =
    w_answers w @ fl_resolves f"
  by (induction f w rule: flush_step.induct) (simp_all split: list.split)

lemma world_flush:
  assumes ok: "world_ok w" and i: "i < length (w_flushers w)" and step: "flush_step (w_flushers w ! i) w = (f, w')"
  shows "world_ok (put_flusher i f w')" "s_next_generation (w_state (put_flusher i f w')) = s_next_generation (w_state w)"
proof -
  let ?pre = "take i (w_flushers w)" and ?post = "drop (Suc i) (w_flushers w)" and ?f = "w_flushers w ! i"
  let ?fs = "?pre @ (case f of None \<Rightarrow> [] | Some f \<Rightarrow> [f]) @ ?post"
  have split: "w_flushers w = ?pre @ ?f # ?post" by (rule id_take_nth_drop [OF i])
  note same = flush_step_fields [of ?f w, unfolded step snd_conv]
  note answers = flush_step_answers [of ?f w, unfolded step fst_conv snd_conv]
  have put: "put_flusher i f w' = w'\<lparr>w_flushers := ?fs\<rparr>"
    using i by (simp add: put_flusher_def same(1) upd_conv_take_nth_drop split: option.split)
  have flush: "flush_ok (w_queued w') (w_emitted w') (s_pending (w_state w')) (s_draining (w_state w')) ?fs"
    by (rule flush_ok_step [OF _ step]) (use ok split in \<open>simp add: world_ok_def\<close>)
  have "mset (on_the_way (w'\<lparr>w_flushers := ?fs\<rparr>)) =
      mset (w_answers w' @ (case f of None \<Rightarrow> [] | Some f \<Rightarrow> fl_resolves f)) + mset (concat (map fl_resolves (?pre @ ?post)))"
    by (cases f) (simp_all add: on_the_way_def)
  also have "\<dots> = mset (w_answers w @ concat (map fl_resolves (?pre @ ?f # ?post)))" unfolding answers by simp
  finally have way: "mset (on_the_way (w'\<lparr>w_flushers := ?fs\<rparr>)) = mset (on_the_way w)"
    using split by (simp add: on_the_way_def)
  have "set (on_the_way (w'\<lparr>w_flushers := ?fs\<rparr>)) = set (on_the_way w)" using way by (metis set_mset_mset)
  then have "list_all (answer_ok (w_requests w)) (on_the_way (w'\<lparr>w_flushers := ?fs\<rparr>))"
    using ok by (simp add: world_ok_def list_all_iff)
  then show "world_ok (put_flusher i f w')"
    using ok flush way unfolding put
    by (simp add: world_ok_def same session_ok_def coupled_def held_def cong: option.case_cong)
  show "s_next_generation (w_state (put_flusher i f w')) = s_next_generation (w_state w)"
    unfolding put using same by simp
qed

lemma world_take:
  assumes "world_ok w"
  shows "world_ok (render_take w)" "s_next_generation (w_state (render_take w)) = s_next_generation (w_state w)"
proof -
  obtain st where st: "surface_run (0, False) (w_queued w) = Some st" "coupled st (w_state w)"
    "session_ok (w_requests w) (w_state w)"
    using world_queue [OF assms] by blast
  let ?s = "(w_state w)\<lparr>s_job := None\<rparr>" and ?j = "snd (take_job (w_state w))"
  have s: "fst (take_job (w_state w)) = ?s" by (simp add: take_job_def)
  have "render_ok st (case ?j of None \<Rightarrow> Rd_Wait | Some j \<Rightarrow> Rd_Work j)"
    using st(2,3) by (auto simp: take_job_def render_ok_def session_ok_def coupled_def
        split: option.splits render_job.splits if_splits)
  then have "render_ok st (w_render (render_take w))"
    by (simp add: render_take_def split_beta s Let_def render_ok_def)
  moreover have "session_ok (w_requests w) ?s" using st(3) by (auto simp: session_ok_def split: option.splits)
  moreover have "w_state (render_take w) = ?s" "w_requests (render_take w) = w_requests w"
    "w_queued (render_take w) = w_queued w" "w_emitted (render_take w) = w_emitted w"
    "w_flushers (render_take w) = w_flushers w" "on_the_way (render_take w) = on_the_way w"
    by (simp_all add: render_take_def split_beta s Let_def on_the_way_def)
  ultimately show "world_ok (render_take w)" "s_next_generation (w_state (render_take w)) = s_next_generation (w_state w)"
    using assms st(1,2) by (auto simp: world_ok_def)
qed


lemma world_ok_cong:
  "world_ok w \<Longrightarrow> world_ok (w\<lparr>w_handle_taken := b\<rparr>)" "world_ok w \<Longrightarrow> world_ok (w\<lparr>w_render := Rd_Wait\<rparr>)"
  by (auto simp: world_ok_def on_the_way_def render_ok_def)

lemma world_step_ok:
  assumes "world_step w l w'" "world_ok w" "s_next_generation (w_state w) + 1 < 2 ^ 64"
  shows "world_ok w' \<and> s_next_generation (w_state w') \<le> s_next_generation (w_state w) + 1"
  using assms(1)
proof (cases rule: world_step.cases)
  case (calls alive c)
  then show ?thesis using world_call [OF assms(2,3)] by simp
next
  case (flushes i f w1)
  then show ?thesis using world_flush [OF assms(2) flushes(3,4)] by simp
next
  case takes
  then show ?thesis using world_take [OF assms(2)] by simp
next
  case (shapes g items width text_width metrics)
  obtain st where st: "surface_run (0, False) (w_queued w) = Some st" "coupled st (w_state w)"
    "session_ok (w_requests w) (w_state w)"
    using world_queue [OF assms(2)] by blast
  note k = keeps_on_layout [OF st(3,2), of g "shape text_width items width (mm_scale metrics)" metrics]
  show ?thesis unfolding shapes(2)
    using world_render [OF assms(2) st(1) k] keeps_generation [OF k] by (simp add: updated_def)
next
  case (paints g items lay active pixels)
  obtain st where st: "surface_run (0, False) (w_queued w) = Some st" "coupled st (w_state w)"
    "session_ok (w_requests w) (w_state w)" "render_ok st (w_render w)"
    using world_queue [OF assms(2)] by blast
  have "s_generation (w_state w) = Some g \<Longrightarrow> s_phase (w_state w) \<noteq> Idle"
    using st(2,4) paints(3) by (auto simp: render_ok_def coupled_def)
  note k = keeps_on_pixels [OF st(3,2) this, where pixels = pixels]
  show ?thesis unfolding paints(2)
    using world_render [OF assms(2) st(1) k] keeps_generation [OF k] by (simp add: updated_def)
next
  case (paint_fails g items lay active)
  then show ?thesis using world_ok_cong [OF assms(2)] by simp
next
  case takes_handle
  then show ?thesis using world_ok_cong [OF assms(2)] by simp
qed

lemma world_trace_ok:
  "world_trace w ls w' \<Longrightarrow> world_ok w \<Longrightarrow> s_next_generation (w_state w) = 0 \<Longrightarrow> length ls < 2 ^ 64 - 1 \<Longrightarrow>
   world_ok w' \<and> s_next_generation (w_state w') \<le> int (length ls)"
proof (induction rule: world_trace.induct)
  case (world_snoc w ls w' l w'')
  then have ih: "world_ok w'" "s_next_generation (w_state w') \<le> int (length ls)" by simp_all
  then have "s_next_generation (w_state w') + 1 < 2 ^ 64" using world_snoc.prems(3) by simp
  then show ?case using world_step_ok [OF world_snoc.hyps(2) ih(1)] ih(2) by simp
qed simp

lemma reached_ok:
  assumes "world_trace (new_menu_world spawned) ls w" "length ls < 2 ^ 64 - 1"
  shows "world_ok w"
proof -
  have "s_next_generation (w_state (new_menu_world spawned)) = 0" by (simp add: new_menu_world_def new_menu_state_def)
  from world_trace_ok [OF assms(1) world_ok_init this assms(2)] show ?thesis by blast
qed

section \<open>A layout for the items it is hit-tested against\<close>

text \<open>The open menu's layout is its items', or a shaping that will replace it is due or at work.\<close>

definition settled :: "menu \<Rightarrow> bool" where
  "settled m = (case m_layout m of None \<Rightarrow> False | Some l \<Rightarrow> fits_items l (m_items m))"

definition shape_ok :: "menu_state \<Rightarrow> render_pc \<Rightarrow> bool" where
  "shape_ok s rd =
     (case s_menu s of
        None \<Rightarrow> True
      | Some m \<Rightarrow> s_shutdown s \<or> s_job s = Some Render_Shape \<or>
          (case rd of
             Rd_Work (Shape_Job g items width) \<Rightarrow> if s_generation s = Some g then items = m_items m else settled m
           | _ \<Rightarrow> settled m))"

text \<open>What an operation other than a new request does to the open menu: drop it, or keep its layout and items.\<close>

definition same_menu :: "menu_state \<Rightarrow> menu_state \<Rightarrow> bool" where
  "same_menu s s' \<longleftrightarrow> s_shutdown s' = s_shutdown s \<and>
     (case s_menu s' of
        None \<Rightarrow> True
      | Some m' \<Rightarrow> s_generation s' = s_generation s \<and> (s_job s = Some Render_Shape \<longrightarrow> s_job s' = Some Render_Shape) \<and>
          (\<exists>m. s_menu s = Some m \<and> m_layout m' = m_layout m \<and> m_items m' = m_items m \<and> m_width m' = m_width m))"

lemma same_menu_shape: "same_menu s s' \<Longrightarrow> shape_ok s rd \<Longrightarrow> shape_ok s' rd"
  by (auto simp: same_menu_def shape_ok_def settled_def split: option.splits render_pc.splits menu_job.splits if_splits)

lemma same_menu_refl: "same_menu s s"
  by (simp add: same_menu_def split: option.split)

lemma same_menu_paint: "same_menu s s' \<Longrightarrow> same_menu s (request_paint s')"
  by (auto simp: same_menu_def request_paint_def split: option.splits)

lemma same_menu_close: "same_menu s (fst (close_current reason s))"
  by (simp add: same_menu_def close_current_def clear_menu_def destroy_of_def queue_def Let_def split: option.split)

lemma same_menu_begin: "same_menu s (begin_menu s)"
  by (simp add: same_menu_def begin_menu_def queue_def split: option.split)

lemma same_menu_effects: "same_menu s s' \<Longrightarrow> same_menu s (fst (run_effects effects s'))"
  by (induction effects s' rule: run_effects.induct)
    (simp_all add: same_menu_paint,
     simp add: same_menu_def clear_menu_def destroy_of_def queue_def Let_def split: option.split)

lemma same_menu_step: "same_menu s (fst (menu_step ev s))"
proof (cases "s_menu s")
  case None
  then show ?thesis by (simp add: menu_step_def same_menu_refl)
next
  case (Some m)
  then show ?thesis unfolding menu_step_def
    by (auto simp: split_beta Let_def intro!: same_menu_effects)
      (auto simp: same_menu_def split: menu_event.split option.split)
qed

lemma same_menu_calls:
  "same_menu s (fst (dismiss_if_speculative s))" "same_menu s (fst (on_done g s))" "same_menu s (fst (on_ready g s))"
  "same_menu s (fst (pointer pt press s))" "same_menu s (fst (key k s))" "same_menu s (fst (dismiss s))"
  "same_menu s (fst (hide s))" "same_menu s (fst (expose s))"
  using same_menu_refl [of s] same_menu_close [of s] same_menu_step [of s] same_menu_begin [of s]
    same_menu_paint [OF same_menu_refl, of s]
  by (auto simp: dismiss_if_speculative_def on_done_def on_ready_def pointer_def key_def dismiss_def hide_def expose_def
      intro!: same_menu_paint split: option.split prod.split menu_phase.split)
    (simp_all add: same_menu_def split: option.splits)


lemma same_menu_scroll: "same_menu s (fst (scroll dy s))"
proof (cases "s_menu s")
  case None
  then show ?thesis by (simp add: scroll_def same_menu_refl)
next
  case (Some m)
  have "same_menu s (s\<lparr>s_menu := Some (m\<lparr>m_scroll := y\<rparr>)\<rparr>)" for y using Some by (simp add: same_menu_def)
  from same_menu_paint [OF this] show ?thesis by (simp add: scroll_def Some Let_def same_menu_refl)
qed

lemma same_menu_arm: "same_menu s (fst (arm x y serial s))"
  by (simp add: arm_def same_menu_def clear_menu_def next_generation_def queue_def Let_def)

lemma shape_ok_shutdown: "shape_ok (fst (shutdown s)) rd"
  by (simp add: shape_ok_def shutdown_def close_current_def clear_menu_def destroy_of_def queue_def Let_def
      split: option.split)

lemma shape_ok_open: "shape_ok (fst (open_menu rq t s)) rd"
  by (simp add: shape_ok_def open_menu_def Let_def split: option.split)

lemmas same_shape = same_menu_calls [THEN same_menu_shape] same_menu_scroll [THEN same_menu_shape]
  same_menu_arm [THEN same_menu_shape] same_menu_close [THEN same_menu_shape]

lemma shape_ok_call: "shape_ok s rd \<Longrightarrow> shape_ok (fst (call_update alive t c s)) rd"
  by (cases c) (simp_all add: same_shape shape_ok_open shape_ok_shutdown)

lemma shape_ok_layout:
  assumes "shape_ok s (Rd_Work (Shape_Job g items width))"
  shows "shape_ok (on_layout g (shape text_width items width scale) metrics s) Rd_Wait"
proof (cases "s_generation s = Some g \<and> s_menu s \<noteq> None")
  case False
  then show ?thesis using assms by (auto simp: on_layout_def shape_ok_def split: option.splits)
next
  case True
  then obtain m where gen: "s_generation s = Some g" and m: "s_menu s = Some m" by blast
  let ?l = "shape text_width items width scale" and ?s = "on_layout g (shape text_width items width scale) metrics s"
  have fit: "fits_items ?l items" using layout_fits by (simp add: shape_def Let_def)
  have "s_shutdown ?s = s_shutdown s" "s_menu ?s = Some (measured ?l metrics m)"
    "s_job s = Some Render_Shape \<Longrightarrow> s_job ?s = Some Render_Shape"
    by (simp_all add: on_layout_def gen m Let_def begin_menu_def queue_def request_paint_def split: menu_phase.split)
  then show ?thesis using assms fit by (auto simp: shape_ok_def gen m settled_def)
qed

lemma shape_ok_pixels: "shape_ok s (Rd_Work (Paint_Job g items l a)) \<Longrightarrow> shape_ok (on_pixels g pixels s) Rd_Wait"
  by (simp add: shape_ok_def on_pixels_def queue_def split: option.splits)

lemma shape_ok_take:
  assumes "shape_ok (w_state w) (w_render w)" "w_render w = Rd_Wait" "session_ok reqs (w_state w)"
  shows "shape_ok (w_state (render_take w)) (w_render (render_take w))"
  using assms
  by (cases "s_menu (w_state w)"; cases "s_job (w_state w)")
    (auto simp: shape_ok_def render_take_def take_job_def session_ok_def Let_def
      split: option.splits render_job.splits)

lemma shape_ok_step:
  assumes "world_step w l w'" "world_ok w" "shape_ok (w_state w) (w_render w)"
  shows "shape_ok (w_state w') (w_render w')"
  using assms(1)
proof (cases rule: world_step.cases)
  case (calls alive c)
  then show ?thesis using shape_ok_call [OF assms(3)] by (simp add: perform_call_def split_beta Let_def updated_def)
next
  case (flushes i f w1)
  note same = flush_step_fields [of "w_flushers w ! i" w, unfolded flushes(4) snd_conv]
  have "w_state (put_flusher i f w1) = w_state w1" "w_render (put_flusher i f w1) = w_render w1"
    by (simp_all add: put_flusher_def)
  then show ?thesis using assms(3) unfolding flushes(2) by (simp only: shape_ok_def same)
next
  case takes
  have "session_ok (w_requests w) (w_state w)" using assms(2) by (simp add: world_ok_def)
  from shape_ok_take [OF assms(3) takes(3) this] show ?thesis by (simp add: takes(2))
next
  case (shapes g items width text_width metrics)
  then show ?thesis using shape_ok_layout assms(3) by (simp add: updated_def)
next
  case (paints g items lay active pixels)
  then show ?thesis using shape_ok_pixels assms(3) by (simp add: updated_def)
next
  case (paint_fails g items lay active)
  then show ?thesis using assms(3) by (simp add: shape_ok_def split: option.splits)
next
  case takes_handle
  then show ?thesis using assms(3) by simp
qed

lemma reached_shape_ok:
  assumes "world_trace (new_menu_world spawned) ls w" "length ls < 2 ^ 64 - 1"
  shows "shape_ok (w_state w) (w_render w)"
  using assms
proof (induction "new_menu_world spawned" ls w rule: world_trace.induct)
  case world_nil
  then show ?case by (simp add: new_menu_world_def new_menu_state_def shape_ok_def)
next
  case (world_snoc ls w l w')
  then have "world_ok w" using reached_ok by auto
  then show ?case using shape_ok_step world_snoc by auto
qed


section \<open>What a call answers\<close>

lemma run_effects_answer:
  "run_effects effects s = (s', Some (sel, ident)) \<Longrightarrow>
   Close ident \<in> set effects \<and> Option.bind (s_menu s) m_on_selected = Some sel"
  by (induction effects s rule: run_effects.induct) (auto simp: request_paint_def clear_menu_def Let_def)

lemma menu_step_answer:
  assumes "menu_step ev s = (s', Some (sel, ident))"
  obtains m where "s_menu s = Some m" "m_on_selected m = Some sel"
    "settled m \<Longrightarrow> ident \<noteq> MENU_DISMISSED \<Longrightarrow> \<exists>it\<in>set (m_items m). choosable it \<and> mi_id it = ident"
proof (cases "s_menu s")
  case None
  then show thesis using assms by (simp add: menu_step_def)
next
  case (Some m)
  obtain active effects where fsm: "fsm_step ev (m_layout m) (m_items m) (m_active m) = (active, effects)"
    by (cases "fsm_step ev (m_layout m) (m_items m) (m_active m)")
  have r: "Close ident \<in> set effects" "m_on_selected m = Some sel"
    using assms run_effects_answer by (fastforce simp: menu_step_def Some fsm Let_def split: menu_event.splits)+
  show thesis
    by (rule that [OF Some r(2)]) (use fsm_close_choosable [OF fsm r(1)] in \<open>auto simp: settled_def split: option.splits\<close>)
qed

lemma close_answer: "close_current reason s = (s', Some (sel, ident)) \<Longrightarrow> ident = MENU_DISMISSED"
  by (auto simp: close_current_def dismissed_def Let_def split_beta)

lemma call_answer:
  assumes "call_update alive t c s = (s', Some (sel, ident))" "ident \<noteq> MENU_DISMISSED"
  shows "\<exists>ev. menu_step ev s = (s', Some (sel, ident))"
proof (cases c)
  case (On_Ready g)
  then show ?thesis using assms by (auto simp: on_ready_def split: if_splits menu_phase.splits)
next
  case (Pointer pt press)
  then show ?thesis using assms by (auto simp: pointer_def split: option.splits)
next
  case (Scroll dy)
  then show ?thesis using assms by (auto simp: scroll_def Let_def split: option.splits if_splits)
qed (use assms close_answer in \<open>auto simp: arm_def open_menu_def dismissed_def dismiss_if_speculative_def on_done_def
    key_def dismiss_def hide_def expose_def shutdown_def Let_def split_beta split: if_splits\<close>)

section \<open>Executing labels\<close>

definition do_label :: "menu_label \<Rightarrow> menu_world \<Rightarrow> menu_world option" where
  "do_label l w =
     (case l of
        Calls alive c \<Rightarrow>
          if (if alive then w_spawned w else w_handle_taken w) then Some (perform_call alive c w) else None
      | Flushes i \<Rightarrow>
          if i < length (w_flushers w)
          then case flush_step (w_flushers w ! i) w of (f, w') \<Rightarrow> Some (put_flusher i f w') else None
      | Render_Takes \<Rightarrow>
          (case w_render w of
             Rd_Wait \<Rightarrow> if s_job (w_state w) \<noteq> None \<or> s_shutdown (w_state w) then Some (render_take w) else None
           | _ \<Rightarrow> None)
      | Shapes text_width metrics \<Rightarrow>
          (case w_render w of
             Rd_Work (Shape_Job g items width) \<Rightarrow>
               Some (updated (on_layout g (shape text_width items width (mm_scale metrics)) metrics (w_state w)) []
                 (w\<lparr>w_render := Rd_Wait\<rparr>))
           | _ \<Rightarrow> None)
      | Paints pixels \<Rightarrow>
          (case w_render w of
             Rd_Work (Paint_Job g items l active) \<Rightarrow>
               (case pixels of
                  None \<Rightarrow> Some (w\<lparr>w_render := Rd_Wait\<rparr>)
                | Some pixels \<Rightarrow> Some (updated (on_pixels g pixels (w_state w)) [] (w\<lparr>w_render := Rd_Wait\<rparr>)))
           | _ \<Rightarrow> None)
      | Takes_Handle \<Rightarrow> if s_shutdown (w_state w) then Some (w\<lparr>w_handle_taken := True\<rparr>) else None)"

fun world_run :: "menu_label list \<Rightarrow> menu_world \<Rightarrow> menu_world option" where
  "world_run [] w = Some w"
| "world_run (l # ls) w = Option.bind (do_label l w) (world_run ls)"

lemma do_label_step: "do_label l w = Some w' \<Longrightarrow> world_step w l w'"
  by (cases l) (auto simp: do_label_def intro: world_step.intros
      split: if_splits render_pc.splits menu_job.splits option.splits prod.splits)

lemma world_cons: "world_trace w' ls w'' \<Longrightarrow> world_step w l w' \<Longrightarrow> world_trace w (l # ls) w''"
proof (induction rule: world_trace.induct)
  case (world_nil w')
  then show ?case using world_trace.world_snoc [OF world_trace.world_nil] by fastforce
next
  case (world_snoc w' ls w1 l' w2)
  then show ?case using world_trace.world_snoc [of w "l # ls" w1 l' w2] by simp
qed

lemma world_run_trace: "world_run ls w = Some w' \<Longrightarrow> world_trace w ls w'"
proof (induction ls arbitrary: w)
  case Nil
  then show ?case by (simp add: world_trace.world_nil)
next
  case (Cons l ls)
  then show ?case using world_cons do_label_step by (fastforce split: Option.bind_splits)
qed

lemma world_run_reaches:
  "world_run ls w \<noteq> None \<Longrightarrow> world_trace w ls (the (world_run ls w))"
  by (auto intro: world_run_trace)

section \<open>Samples\<close>

definition row_item :: "int \<Rightarrow> bool \<Rightarrow> menu_item" where
  "row_item i enabled = \<lparr>mi_id = i, mi_label = [], mi_enabled = enabled, mi_separator = False\<rparr>"

definition open_at :: "int \<Rightarrow> int \<Rightarrow> menu_item list \<Rightarrow> menu_label" where
  "open_at x y items =
     Calls True (Open \<lparr>rq_items = items, rq_x = x, rq_y = y, rq_width = 0, rq_initial = -1\<rparr>)"

definition shapes :: menu_label where
  "shapes = Shapes (\<lambda>_ _. Fin 1 0) \<lparr>mm_scale = Fin 1 0, mm_clamp_ph = None\<rparr>"

definition two_rows :: "menu_item list" where
  "two_rows = [row_item 7 True, row_item 8 False]"

text \<open>A menu from its request to the answer of a pressed row.\<close>

definition one_menu :: "menu_label list" where
  "one_menu = [open_at 10 10 two_rows, Render_Takes, shapes, Calls True (On_Ready 1)]"

definition pressed :: "menu_label list" where
  "pressed = Calls True (Pointer (Physical (Fin 5 0) (Fin 10 0)) True) # replicate 7 (Flushes 3)"

lemma shape_two_rows:
  "shape (\<lambda>_ _. Fin 1 0) [row_item i a, row_item j b] 0 (Fin 1 0) =
     \<lparr>l_width = 160, l_height = 64,
      l_rows = [\<lparr>r_item = 0, r_y = 4, r_h = 28, r_separator = False, r_enabled = a\<rparr>,
                \<lparr>r_item = 1, r_y = 32, r_h = 28, r_separator = False, r_enabled = b\<rparr>],
      l_selectable = (if a then [0] else []) @ (if b then [1] else []), l_scale = Fin 1 0\<rparr>"
proof -
  have f: "round_i32 (f_mul single ROW_H (Fin 1 0)) = 28" "round_i32 (f_mul single PAD_Y (Fin 1 0)) = 4"
    "ceil_i32 (f_add single (f_max (f_max (f_sub single (f_mul single MIN_W (Fin 1 0))
        (f_mul single (f_add single PAD_X PAD_RIGHT) (Fin 1 0))) (Fin 1 0)) (Fin 1 0))
        (f_mul single (f_add single PAD_X PAD_RIGHT) (Fin 1 0))) = 160" "f_lt (Fin 0 0) (Fin 1 0)"
    by code_simp+
  show ?thesis by (simp add: shape_def layout_of_def row_item_def f Let_def choosable_def upt_rec)
qed

lemmas world_evals = do_label_def perform_call_def updated_def requests_after_def refused_def put_flusher_def
  render_take_def take_job_def open_menu_def next_generation_def on_layout_def measured_def
  scroll_active_into_view_def view_ph_def on_ready_def request_paint_def queue_def pointer_def buffer_point_def
  menu_step_def row_at_def layout_contains_def clear_menu_def destroy_of_def dismissed_def arm_def
  close_current_def hide_def activate_def f_to_int_def f_trunc_def new_menu_world_def new_menu_state_def
  menu_has_selectable_def choosable_def menu_initial_row_def get_item_def MENU_DISMISSED_def
  open_at_def shapes_def two_rows_def shape_two_rows one_menu_def pressed_def Let_def

lemma row_item_simps [simp]:
  "mi_id (row_item i b) = i" "mi_enabled (row_item i b) = b" "mi_separator (row_item i b) = False"
  by (simp_all add: row_item_def)

lemma one_menu_runs:
  "\<exists>w. world_run (one_menu @ pressed) (new_menu_world True) = Some w \<and> w_answers w = [(0, 7)]"
  by (simp add: world_evals numeral_eq_Suc)

section \<open>Properties\<close>

text \<open>
  C23: Every request is answered exactly once. However calls of any threads, the flushes and the
  render thread interleave, the requests so far are, one for one, the answers given, the
  answers some thread is on its way to give, and the open menu's; and every answer is a
  dismissal or the id of one of that request's own items.
\<close>

theorem menu_answers_once:
  assumes "world_trace (new_menu_world spawned) ls w" "length ls < 2 ^ 64 - 1"
  shows "mset (map fst (w_answers w)) + mset (map fst (concat (map fl_resolves (w_flushers w)))) + held (w_state w) =
      mset [0..<length (w_requests w)] \<and> list_all (answer_ok (w_requests w)) (w_answers w)"
  using reached_ok [OF assms] by (simp add: world_ok_def on_the_way_def)

theorem menu_answers_once_witness:
  "\<exists>w. world_run (one_menu @ pressed) (new_menu_world True) = Some w \<and> w_answers w = [(0, 7)] \<and>
     list_all (answer_ok (w_requests w)) (w_answers w)"
proof -
  obtain w where w: "world_run (one_menu @ pressed) (new_menu_world True) = Some w" "w_answers w = [(0, 7)]"
    using one_menu_runs by blast
  show ?thesis using w menu_answers_once [OF world_run_trace [OF w(1)]] by (simp add: one_menu_def pressed_def)
qed

text \<open>
  C24: The surface sees one popup at a time, in the order of its life. What reached it, the one
  operation a leading thread holds and the queue are all that was ever queued, in that order;
  every generation is created once, greater than those before, moved and painted only
  between its creation and its destruction, and never named after it; and when no thread is
  in a flush nothing is left behind.
\<close>

theorem surface_follows_menu:
  assumes "world_trace (new_menu_world spawned) ls w" "length ls < 2 ^ 64 - 1"
  shows "w_queued w = w_emitted w @ concat (map op_in_hand (w_flushers w)) @ s_pending (w_state w) \<and>
    surface_run (0, False) (w_queued w) \<noteq> None \<and> length (concat (map op_in_hand (w_flushers w))) \<le> 1 \<and>
    (w_flushers w = [] \<longrightarrow> w_emitted w = w_queued w)"
proof -
  let ?fs = "w_flushers w"
  have f: "flush_ok (w_queued w) (w_emitted w) (s_pending (w_state w)) (s_draining (w_state w)) ?fs"
    "surface_run (0, False) (w_queued w) \<noteq> None"
    using reached_ok [OF assms] by (auto simp: world_ok_def)
  have "length (concat (map op_in_hand fs)) \<le> length (filter leads fs)" for fs
  proof (induction fs)
    case (Cons f fs)
    have "length (op_in_hand f) \<le> (if leads f then 1 else 0)"
      by (cases f rule: op_in_hand.cases) (auto simp: leads_def)
    then show ?case using Cons by (cases "leads f") auto
  qed simp
  moreover have "length (filter leads ?fs) \<le> 1" using f(1) by (simp add: flush_ok_def)
  ultimately have "length (concat (map op_in_hand ?fs)) \<le> 1" by (rule le_trans)
  then show ?thesis using f by (simp add: flush_ok_def del: One_nat_def) (auto split: if_splits)
qed

theorem surface_follows_menu_witness:
  "\<exists>w. world_run (one_menu @ pressed) (new_menu_world True) = Some w \<and> surface_run (0, False) (w_queued w) \<noteq> None"
proof -
  obtain w where w: "world_run (one_menu @ pressed) (new_menu_world True) = Some w"
    using one_menu_runs by blast
  have "length (one_menu @ pressed) < 2 ^ 64 - 1" by (simp add: one_menu_def pressed_def)
  from surface_follows_menu [OF world_run_trace [OF w] this] show ?thesis using w by blast
qed

text \<open>
  C26: The session's flags agree at all times: the menu is engaged exactly while it has a
  generation, active exactly from its first frame on, and then has a menu; paint and shape
  jobs exist only for an open menu; and the scroll offset stays inside the buffer.
\<close>

theorem menu_session_consistent:
  assumes "world_trace (new_menu_world spawned) ls w" "length ls < 2 ^ 64 - 1"
  defines "s \<equiv> w_state w"
  shows "(s_engaged s \<longleftrightarrow> s_generation s \<noteq> None) \<and> (s_active s \<longleftrightarrow> s_phase s = Await_Menu \<or> s_phase s = Shown) \<and>
    (if s_active s \<or> s_job s \<noteq> None then s_menu s \<noteq> None else True) \<and>
    (case s_menu s of
       None \<Rightarrow> True
     | Some m \<Rightarrow> s_engaged s \<and> 0 \<le> m_scroll m \<and> m_scroll m \<le> max (m_ph m - m_view_ph m) 0)"
  using reached_ok [OF assms(1,2)]
  by (auto simp: world_ok_def session_ok_def up_def menu_ok_def s_def split: option.splits)

theorem menu_session_consistent_witness:
  "\<exists>w. world_run (one_menu @ pressed) (new_menu_world True) = Some w \<and>
     s_engaged (w_state w) = (s_generation (w_state w) \<noteq> None)"
proof -
  obtain w where w: "world_run (one_menu @ pressed) (new_menu_world True) = Some w"
    using one_menu_runs by blast
  show ?thesis using w menu_session_consistent [OF world_run_trace [OF w]] by (simp add: one_menu_def pressed_def)
qed

text \<open>
  C25: Only rows that can be chosen are chosen, once the menu is shaped: in every state the menu
  reaches with no shaping due or at work, whatever call comes next, its answer is a dismissal
  or the id of an enabled item that is no separator.
\<close>

theorem shaped_menu_answers_choosable:
  assumes "world_trace (new_menu_world spawned) ls w" "length ls < 2 ^ 64 - 1"
    "s_job (w_state w) \<noteq> Some Render_Shape" "\<not> s_shutdown (w_state w)"
    "case w_render w of Rd_Work (Shape_Job g items width) \<Rightarrow> False | _ \<Rightarrow> True"
    "call_update alive t c (w_state w) = (s', Some (sel, ident))"
  shows "ident = MENU_DISMISSED \<or> (\<exists>it\<in>set (w_requests w ! sel). choosable it \<and> mi_id it = ident)"
proof (cases "ident = MENU_DISMISSED")
  case ident: False
  have ok: "session_ok (w_requests w) (w_state w)" using reached_ok [OF assms(1,2)] by (simp add: world_ok_def)
  obtain ev where "menu_step ev (w_state w) = (s', Some (sel, ident))" using call_answer [OF assms(6) ident] by blast
  then obtain m where m: "s_menu (w_state w) = Some m" "m_on_selected m = Some sel"
    "settled m \<Longrightarrow> ident \<noteq> MENU_DISMISSED \<Longrightarrow> \<exists>it\<in>set (m_items m). choosable it \<and> mi_id it = ident"
    by (rule menu_step_answer) blast
  have "settled m"
    using reached_shape_ok [OF assms(1,2)] assms(3-5) m(1)
    by (auto simp: shape_ok_def split: render_pc.splits menu_job.splits)
  then show ?thesis
    using m ident ok by (auto simp: session_ok_def menu_ok_def)
qed simp



lemma one_menu_shown:
  "\<exists>w. world_run one_menu (new_menu_world True) = Some w \<and> s_job (w_state w) = Some Render_Paint \<and>
     \<not> s_shutdown (w_state w) \<and> w_render w = Rd_Wait \<and> w_requests w = [two_rows] \<and>
     snd (call_update True 1 (Pointer (Physical (Fin 5 0) (Fin 10 0)) True) (w_state w)) = Some (0, 7)"
  by (simp add: world_evals numeral_eq_Suc)

theorem shaped_menu_answers_choosable_witness: "list_ex (\<lambda>it. choosable it \<and> mi_id it = 7) two_rows"
proof -
  obtain w where w: "world_run one_menu (new_menu_world True) = Some w" "s_job (w_state w) = Some Render_Paint"
    "\<not> s_shutdown (w_state w)" "w_render w = Rd_Wait" "w_requests w = [two_rows]"
    "snd (call_update True 1 (Pointer (Physical (Fin 5 0) (Fin 10 0)) True) (w_state w)) = Some (0, 7)"
    using one_menu_shown by blast
  obtain s' where "call_update True 1 (Pointer (Physical (Fin 5 0) (Fin 10 0)) True) (w_state w) = (s', Some (0, 7))"
    using w(6) by (metis prod.collapse)
  from shaped_menu_answers_choosable [OF world_run_trace [OF w(1)] _ _ w(3) _ this] show ?thesis
    using w(2,4,5) by (simp add: one_menu_def MENU_DISMISSED_def list_ex_iff)
qed

text \<open>
  A menu that replaces another can answer with a row that cannot be chosen. The shaping of
  the first request, delivered after the second took its place, lays the first one's rows over
  the second one's items; a press on the first row then answers with the id of the second
  request's first item, which is disabled.
\<close>

theorem stale_layout_answers_disabled:
  "\<exists>ls w s'. world_trace (new_menu_world True) ls w \<and> w_requests w = [two_rows, [row_item 1 False, row_item 2 True]] \<and>
     call_update True 2 (Pointer (Physical (Fin 5 0) (Fin 10 0)) True) (w_state w) = (s', Some (1, 1))"
proof -
  let ?ls = "[Calls True (Arm 10 10 0), open_at 10 10 two_rows, Render_Takes,
      open_at 10 10 [row_item 1 False, row_item 2 True], shapes]"
  have "\<exists>w s'. world_run ?ls (new_menu_world True) = Some w \<and>
      w_requests w = [two_rows, [row_item 1 False, row_item 2 True]] \<and>
      call_update True 2 (Pointer (Physical (Fin 5 0) (Fin 10 0)) True) (w_state w) = (s', Some (1, 1))"
    by (simp add: world_evals)
  then show ?thesis using world_run_trace by blast
qed

text \<open>
  A menu that replaces another before the surface is ready is shown at the first one's place.
  The second request, asked for at (50, 60), is shaped, painted and shown, and the surface
  was only ever told to create the popup at (10, 10), the first request's anchor.
\<close>

theorem reopened_menu_keeps_old_place:
  "\<exists>ls w m p q. world_trace (new_menu_world True) ls w \<and> s_menu (w_state w) = Some m \<and> m_anchor m = (50, 60) \<and>
     s_phase (w_state w) = Shown \<and> s_job (w_state w) = None \<and> w_render w = Rd_Wait \<and>
     w_queued w = [Op_Create 1 p 0, Op_Present q] \<and> pl_x p = 10 \<and> pl_y p = 10"
proof -
  let ?ls = "[open_at 10 10 two_rows, Render_Takes, shapes, open_at 50 60 two_rows, Render_Takes, shapes,
      Calls True (On_Ready 1), Render_Takes, Paints (Some [])]"
  have "\<exists>w m p q. world_run ?ls (new_menu_world True) = Some w \<and> s_menu (w_state w) = Some m \<and> m_anchor m = (50, 60) \<and>
     s_phase (w_state w) = Shown \<and> s_job (w_state w) = None \<and> w_render w = Rd_Wait \<and>
     w_queued w = [Op_Create 1 p 0, Op_Present q] \<and> pl_x p = 10 \<and> pl_y p = 10"
    by (simp add: world_evals on_pixels_def placement_of_def)
  then show ?thesis using world_run_trace by blast
qed

end
