(* ===== verification/Rounding_Bounds.thy ===== *)
theory Rounding_Bounds
  imports Ieee
begin

text \<open>
  Rounding keeps powers of two as bounds: a value between two of them that the format holds is
  rounded to one between them. What bounds on a number read from a file rest on.
\<close>

lemma half_even_ge: "0 < b \<Longrightarrow> N * b \<le> a \<Longrightarrow> N \<le> half_even a b"
proof -
  assume b: "0 < b" and a: "N * b \<le> a"
  have "N = (N * b) div b" using b by simp
  also have "\<dots> \<le> a div b" using a b by (rule zdiv_mono1)
  finally show ?thesis by (auto simp: half_even_def Let_def)
qed

lemma half_even_le:
  assumes b: "0 < b" and a: "a \<le> N * b"
  shows "half_even a b \<le> N"
proof (cases "a div b = N")
  case True
  have "b * N + a mod b = a" using True mult_div_mod_eq [of b a] by simp
  then have "a mod b = 0" using a pos_mod_sign [OF b, of a] by (simp add: mult.commute)
  then show ?thesis using True b by (simp add: half_even_def Let_def)
next
  case False
  have "a div b \<le> (N * b) div b" using a b by (rule zdiv_mono1)
  then show ?thesis using False b by (auto simp: half_even_def Let_def)
qed

lemma round_pos_between:
  assumes n: "0 < n" and d: "0 < d"
    and lo: "2 powr of_int l \<le> of_int n / (of_int d :: real)" and hi: "of_int n / (of_int d :: real) \<le> 2 powr of_int h"
    and f: "emin f \<le> l" "h - prec f + 1 \<le> l" "h - prec f + 1 < emax f" "emin f < emax f"
  shows "\<exists>q e. round_pos f n d = Fin q e \<and> 2 powr of_int l \<le> fval (Fin q e) \<and> fval (Fin q e) \<le> 2 powr of_int h"
proof -
  define e where "e = unit_exp f n d"
  define a where "a = fst (in_units n d e)"
  define b where "b = snd (in_units n d e)"
  define q where "q = half_even a b"
  have b: "0 < b" and ab: "of_int a / of_int b = of_int n / (of_int d :: real) * 2 powr of_int (- e)"
    using in_units_value [OF d, of n e] by (simp_all add: a_def b_def)
  have "2 powr of_int (log2_floor n d) \<le> (2 :: real) powr of_int h"
    using log2_floor_le [OF n d] hi by linarith
  then have "log2_floor n d \<le> h" by simp
  then have e: "e \<le> l" "e < emax f" using f by (auto simp: e_def unit_exp_def)
  have lh: "2 powr of_int l \<le> (2 :: real) powr of_int h" using lo hi by linarith
  then have lh: "l \<le> h" by simp
  have scaled: "(2 :: real) powr of_int k * 2 powr of_int (- e) = of_int (2 ^ nat (k - e))" if "e \<le> k" for k
  proof -
    have "(2 :: real) powr of_int k * 2 powr of_int (- e) = 2 powr of_int (k - e)"
      by (simp only: powr_add [symmetric] of_int_add [symmetric]) simp
    also have "\<dots> = 2 ^ nat (k - e)" using that by (intro two_powr_nonneg) simp
    finally show ?thesis by simp
  qed
  have pos: "(0 :: real) < 2 powr of_int (- e)" by simp
  have "of_int (2 ^ nat (l - e)) \<le> of_int a / (of_int b :: real)"
    unfolding ab scaled [OF e(1), symmetric] using lo pos by (simp only: mult_right_mono less_imp_le)
  then have "of_int (2 ^ nat (l - e) * b) \<le> (of_int a :: real)"
    using b by (simp add: field_simps)
  then have "2 ^ nat (l - e) * b \<le> a" by (simp only: of_int_le_iff)
  from half_even_ge [OF b this] have ql: "2 ^ nat (l - e) \<le> q" by (simp add: q_def)
  have "of_int a / (of_int b :: real) \<le> of_int (2 ^ nat (h - e))"
    unfolding ab scaled [OF order_trans [OF e(1) lh], symmetric] using hi pos by (simp only: mult_right_mono less_imp_le)
  then have "(of_int a :: real) \<le> of_int (2 ^ nat (h - e) * b)"
    using b by (simp add: field_simps)
  then have "a \<le> 2 ^ nat (h - e) * b" by (simp only: of_int_le_iff)
  from half_even_le [OF b this] have qh: "q \<le> 2 ^ nat (h - e)" by (simp add: q_def)
  have r: "round_pos f n d = Fin q e"
    using e unfolding round_pos_def q_def a_def b_def e_def by (auto simp: split_beta Let_def)
  have unscale: "of_int (2 ^ nat (k - e)) * 2 powr of_int e = (2 :: real) powr of_int k" if "e \<le> k" for k
    unfolding scaled [OF that, symmetric] by (simp add: mult.assoc powr_add [symmetric])
  have "of_int (2 ^ nat (l - e)) * 2 powr of_int e \<le> of_int q * (2 powr of_int e :: real)"
    by (rule mult_right_mono) (use ql in \<open>simp_all only: of_int_le_iff powr_ge_zero\<close>)
  moreover have "of_int q * (2 powr of_int e :: real) \<le> of_int (2 ^ nat (h - e)) * 2 powr of_int e"
    by (rule mult_right_mono) (use qh in \<open>simp_all only: of_int_le_iff powr_ge_zero\<close>)
  ultimately have "2 powr of_int l \<le> fval (Fin q e)" "fval (Fin q e) \<le> 2 powr of_int h"
    unfolding unscale [OF e(1)] unscale [OF order_trans [OF e(1) lh]] by simp_all
  with r show ?thesis by blast
qed

lemma f_narrow_between:
  assumes x: "f_is_finite x" and lo: "2 powr of_int l \<le> fval x" and hi: "fval x \<le> 2 powr of_int h"
    and f: "emin f \<le> l" "h - prec f + 1 \<le> l" "h - prec f + 1 < emax f" "emin f < emax f"
  shows "f_is_finite (f_narrow f x) \<and> 2 powr of_int l \<le> fval (f_narrow f x) \<and> fval (f_narrow f x) \<le> 2 powr of_int h"
proof -
  have p: "(0 :: real) < 2 powr of_int l" by simp
  have "0 < fval x" using p lo by linarith
  then obtain m e where m: "x = Fin m e" "0 < m"
    using x by (cases x) (auto simp: zero_less_mult_iff)
  obtain a b where ab: "in_units \<bar>m\<bar> 1 (- e) = (a, b)" by (cases "in_units \<bar>m\<bar> 1 (- e)") auto
  have b: "0 < b" and v: "of_int a / of_int b = (fval x :: real)"
    using in_units_value [of 1 "\<bar>m\<bar>" "- e"] ab m by simp_all
  have "0 < of_int a / (of_int b :: real)" using v p lo by linarith
  then have a: "0 < a" using b by (simp add: zero_less_divide_iff)
  have n: "f_narrow f x = round_pos f a b" using m ab a by (simp add: round_dyadic_def round_frac_def)
  obtain q e where "round_pos f a b = Fin q e" "2 powr of_int l \<le> fval (Fin q e)" "fval (Fin q e) \<le> 2 powr of_int h"
    using round_pos_between [OF a b lo [folded v] hi [folded v] f] by blast
  then show ?thesis unfolding n by (simp del: fval.simps)
qed

end
