(* ===== verification/Config.thy ===== *)
theory Config
  imports Window_Lifecycle Text Rounding_Bounds
begin

text \<open>
  The settings store (\<open>config/src/lib.rs\<close>): the settings in memory, the \<open>settings.json\<close>
  document and what loading and saving do to them, the bounds on hand-edited values, and the
  background worker that writes snapshots. The text of a document is \<open>serde_json\<close>'s: a document
  is given by the keys and values it parses to, in order; an inner map is sorted and has every
  key once, as \<open>BTreeMap\<close> keeps it.
\<close>

section \<open>Names\<close>

definition DEVICE_NAME_MAX :: nat where "DEVICE_NAME_MAX = 64"

text \<open>The build for macOS has another decoder default.\<close>

definition HWDEC_DEFAULT :: "bool \<Rightarrow> ustring" where
  "HWDEC_DEFAULT macos = (if macos then u ''videotoolbox'' else u ''no'')"

text \<open>Bytes of a character in UTF-8, and the longest prefix of whole characters within \<open>n\<close> bytes.\<close>

definition utf8_len :: "nat \<Rightarrow> nat" where
  "utf8_len c = (if c < 0x80 then 1 else if c < 0x800 then 2 else if c < 0x10000 then 3 else 4)"

definition byte_len :: "ustring \<Rightarrow> nat" where
  "byte_len s = sum_list (map utf8_len s)"

fun cut_at :: "nat \<Rightarrow> ustring \<Rightarrow> ustring" where
  "cut_at n [] = []"
| "cut_at n (c # s) = (if utf8_len c \<le> n then c # cut_at (n - utf8_len c) s else [])"

definition truncate_device_name :: "ustring \<Rightarrow> ustring" where
  "truncate_device_name s = (if byte_len s \<le> DEVICE_NAME_MAX then s else cut_at DEVICE_NAME_MAX s)"

definition name_space :: "nat \<Rightarrow> bool" where
  "name_space c \<longleftrightarrow> c = 32 \<or> c = 9 \<or> c = 13 \<or> c = 10 \<or> c = 11 \<or> c = 12"

text \<open>The loop over the characters: the text collected and whether the last one was a space.\<close>

definition collapse_step :: "nat \<Rightarrow> ustring \<times> bool \<Rightarrow> ustring \<times> bool" where
  "collapse_step c acc =
     (case acc of (s, in_space) \<Rightarrow>
        if name_space c then (if in_space then s else s @ [32], True) else (s @ [c], False))"

definition collapse_spaces :: "ustring \<Rightarrow> ustring" where
  "collapse_spaces raw = fst (fold collapse_step raw ([], True))"

definition normalize_device_name :: "ustring \<Rightarrow> ustring \<Rightarrow> ustring" where
  "normalize_device_name raw platform_default =
     (let s = collapse_spaces raw;
          s = (if s \<noteq> [] \<and> last s = 32 then butlast s else s);
          s = truncate_device_name s
      in if s = platform_default then [] else s)"

section \<open>Scales\<close>

definition WINDOW_SCALE_MIN :: f32 where "WINDOW_SCALE_MIN = Fin 1 (-1)"
definition WINDOW_SCALE_MAX :: f32 where "WINDOW_SCALE_MAX = Fin 4 0"
definition INTERFACE_SCALE_MIN :: f64 where "INTERFACE_SCALE_MIN = Fin 1 (-1)"
definition INTERFACE_SCALE_MAX :: f64 where "INTERFACE_SCALE_MAX = Fin 2 0"
definition INTERFACE_SCALE_DEFAULT :: f64 where "INTERFACE_SCALE_DEFAULT = Fin 1 0"

datatype scale_check = Scale_Ok f64 | Scale_Clamped f64 | Scale_Unusable

definition check_window_scale :: "f64 \<Rightarrow> scale_check" where
  "check_window_scale raw =
     (if \<not> f_is_finite raw \<or> f_le raw (Fin 0 0) then Scale_Unusable
      else if f_lt raw WINDOW_SCALE_MIN then Scale_Clamped WINDOW_SCALE_MIN
      else if f_lt WINDOW_SCALE_MAX raw then Scale_Clamped WINDOW_SCALE_MAX
      else Scale_Ok (f_narrow single raw))"

text \<open>
  \<open>str::parse::<f64>\<close>: an optional sign, then \<open>inf\<close>, \<open>infinity\<close> or \<open>nan\<close> in any case, or digits
  with an optional point and an optional exponent, rounded to the nearest number.
\<close>

definition strip_sign :: "ustring \<Rightarrow> bool \<times> ustring" where
  "strip_sign s = (case s of c # t \<Rightarrow> if c = 45 then (True, t) else if c = 43 then (False, t) else (False, s)
                   | [] \<Rightarrow> (False, []))"

definition parse_exponent :: "ustring \<Rightarrow> int option" where
  "parse_exponent s =
     (case s of
        [] \<Rightarrow> Some 0
      | c # t \<Rightarrow>
          (let (neg, ds) = strip_sign t
           in if (c = 101 \<or> c = 69) \<and> ds \<noteq> [] \<and> list_all is_digit ds
              then Some ((if neg then -1 else 1) * int (digits_value ds)) else None))"

definition decimal_value :: "bool \<Rightarrow> nat \<Rightarrow> int \<Rightarrow> f64" where
  "decimal_value neg n e =
     (if 0 \<le> e then round_frac double neg (int n * 10 ^ nat e) 1 else round_frac double neg (int n) (10 ^ nat (- e)))"

definition parse_decimal :: "bool \<Rightarrow> ustring \<Rightarrow> f64 option" where
  "parse_decimal neg s =
     (let whole = takeWhile is_digit s; s' = dropWhile is_digit s;
          (frac, rest) = (case s' of c # t \<Rightarrow> if c = 46 then (takeWhile is_digit t, dropWhile is_digit t) else ([], s')
                          | [] \<Rightarrow> ([], []))
      in if whole = [] \<and> frac = [] then None
         else map_option (\<lambda>e. decimal_value neg (digits_value (whole @ frac)) (e - int (length frac)))
                (parse_exponent rest))"

definition parse_f64 :: "ustring \<Rightarrow> f64 option" where
  "parse_f64 s =
     (let (neg, t) = strip_sign s
      in if to_ascii_lowercase t = u ''inf'' \<or> to_ascii_lowercase t = u ''infinity'' then Some (Infty neg)
         else if to_ascii_lowercase t = u ''nan'' then Some NaN
         else parse_decimal neg t)"

definition check_interface_scale :: "ustring \<Rightarrow> scale_check" where
  "check_interface_scale raw =
     (case parse_f64 raw of
        None \<Rightarrow> Scale_Unusable
      | Some v \<Rightarrow>
          if \<not> f_is_finite v then Scale_Unusable
          else if f_lt v INTERFACE_SCALE_MIN then Scale_Clamped INTERFACE_SCALE_MIN
          else if f_lt INTERFACE_SCALE_MAX v then Scale_Clamped INTERFACE_SCALE_MAX
          else Scale_Ok v)"

definition interface_scale_factor :: "ustring \<Rightarrow> f64" where
  "interface_scale_factor v =
     (case check_interface_scale v of
        Scale_Ok f \<Rightarrow> f | Scale_Clamped f \<Rightarrow> f | Scale_Unusable \<Rightarrow> INTERFACE_SCALE_DEFAULT)"

section \<open>Settings\<close>

datatype window_decorations = Csd | Server | Server_Themed

fun decorations_str :: "window_decorations \<Rightarrow> ustring" where
  "decorations_str Csd = u ''csd''"
| "decorations_str Server = u ''server''"
| "decorations_str Server_Themed = u ''serverThemed''"

definition parse_decorations :: "ustring \<Rightarrow> window_decorations option" where
  "parse_decorations s =
     (if s = u ''csd'' then Some Csd else if s = u ''server'' then Some Server
      else if s = u ''serverThemed'' then Some Server_Themed else None)"

type_synonym string_map = "(ustring \<times> ustring) list"

record settings_data =
  sd_server_url :: ustring
  sd_hwdec :: ustring
  sd_video_mode :: ustring
  sd_video_mode_migrated :: bool
  sd_video_mode_libraries :: string_map
  sd_transcode_notice :: ustring
  sd_audio_passthrough :: ustring
  sd_audio_channels :: ustring
  sd_log_level :: ustring
  sd_device_name :: ustring
  sd_window :: saved_geometry
  sd_audio_exclusive :: bool
  sd_disable_gpu_compositing :: bool
  sd_transparent_titlebar :: bool
  sd_force_transcoding :: bool
  sd_window_decorations :: "window_decorations option"
  sd_hide_scrollbar :: bool
  sd_interface_scale :: ustring

definition default_settings :: settings_data where
  "default_settings =
     \<lparr>sd_server_url = [], sd_hwdec = [], sd_video_mode = [], sd_video_mode_migrated = False,
      sd_video_mode_libraries = [], sd_transcode_notice = [], sd_audio_passthrough = [], sd_audio_channels = [],
      sd_log_level = [], sd_device_name = [], sd_window = default_saved, sd_audio_exclusive = False,
      sd_disable_gpu_compositing = False, sd_transparent_titlebar = True, sd_force_transcoding = False,
      sd_window_decorations = None, sd_hide_scrollbar = True, sd_interface_scale = []\<rparr>"

record settings_file =
  sf_server_url :: "ustring option"
  sf_window_width :: "int option"
  sf_window_height :: "int option"
  sf_window_logical_width :: "int option"
  sf_window_logical_height :: "int option"
  sf_window_scale :: "f64 option"
  sf_window_x :: "int option"
  sf_window_y :: "int option"
  sf_window_maximized :: "bool option"
  sf_hwdec :: "ustring option"
  sf_video_mode :: "ustring option"
  sf_video_mode_migrated :: "bool option"
  sf_video_mode_libraries :: "string_map option"
  sf_transcode_notice :: "ustring option"
  sf_audio_passthrough :: "ustring option"
  sf_audio_exclusive :: "bool option"
  sf_audio_channels :: "ustring option"
  sf_disable_gpu_compositing :: "bool option"
  sf_transparent_titlebar :: "bool option"
  sf_log_level :: "ustring option"
  sf_force_transcoding :: "bool option"
  sf_window_decorations :: "window_decorations option"
  sf_hide_scrollbar :: "bool option"
  sf_interface_scale :: "ustring option"
  sf_device_name :: "ustring option"

text \<open>What a load complains about.\<close>

datatype load_notice =
    Window_Scale_Clamped f64 f32
  | Window_Scale_Unusable f64
  | Interface_Scale_Clamped ustring f64
  | Interface_Scale_Unusable ustring
  | File_Too_Big nat
  | File_Unreadable
  | File_Ignored

definition MAX_LOAD_NOTICES :: nat where "MAX_LOAD_NOTICES = 32"

definition note_load :: "load_notice \<Rightarrow> load_notice list \<Rightarrow> load_notice list" where
  "note_load n ns = (if length ns < MAX_LOAD_NOTICES then ns @ [n] else ns)"

definition keep :: "'a option \<Rightarrow> 'a \<Rightarrow> 'a" where
  "keep v old = (case v of None \<Rightarrow> old | Some v \<Rightarrow> v)"

definition overlay_window_scale :: "f64 option \<Rightarrow> f32 \<Rightarrow> load_notice list \<Rightarrow> f32 \<times> load_notice list" where
  "overlay_window_scale v old ns =
     (case v of
        None \<Rightarrow> (old, ns)
      | Some v \<Rightarrow>
          (case check_window_scale v of
             Scale_Ok s \<Rightarrow> (s, ns)
           | Scale_Clamped s \<Rightarrow> (s, note_load (Window_Scale_Clamped v s) ns)
           | Scale_Unusable \<Rightarrow> (old, note_load (Window_Scale_Unusable v) ns)))"

definition overlay_interface_scale :: "ustring option \<Rightarrow> load_notice list \<Rightarrow> load_notice list" where
  "overlay_interface_scale v ns =
     (case v of
        None \<Rightarrow> ns
      | Some v \<Rightarrow>
          if v = [] then ns
          else case check_interface_scale v of
                 Scale_Ok f \<Rightarrow> ns
               | Scale_Clamped f \<Rightarrow> note_load (Interface_Scale_Clamped v f) ns
               | Scale_Unusable \<Rightarrow> note_load (Interface_Scale_Unusable v) ns)"

definition overlay :: "settings_file \<Rightarrow> settings_data \<times> load_notice list \<Rightarrow> settings_data \<times> load_notice list" where
  "overlay f acc =
     (case acc of (d, ns) \<Rightarrow>
        let w = sd_window d; (scale, ns) = overlay_window_scale (sf_window_scale f) (sg_scale w) ns;
            ns = overlay_interface_scale (sf_interface_scale f) ns
        in (\<lparr>sd_server_url = keep (sf_server_url f) (sd_server_url d),
             sd_hwdec = keep (sf_hwdec f) (sd_hwdec d),
             sd_video_mode = keep (sf_video_mode f) (sd_video_mode d),
             sd_video_mode_migrated = keep (sf_video_mode_migrated f) (sd_video_mode_migrated d),
             sd_video_mode_libraries = keep (sf_video_mode_libraries f) (sd_video_mode_libraries d),
             sd_transcode_notice = keep (sf_transcode_notice f) (sd_transcode_notice d),
             sd_audio_passthrough = keep (sf_audio_passthrough f) (sd_audio_passthrough d),
             sd_audio_channels = keep (sf_audio_channels f) (sd_audio_channels d),
             sd_log_level = keep (sf_log_level f) (sd_log_level d),
             sd_device_name = keep (map_option truncate_device_name (sf_device_name f)) (sd_device_name d),
             sd_window =
               \<lparr>sg_x = keep (sf_window_x f) (sg_x w), sg_y = keep (sf_window_y f) (sg_y w),
                sg_width = keep (sf_window_width f) (sg_width w), sg_height = keep (sf_window_height f) (sg_height w),
                sg_logical_width = keep (sf_window_logical_width f) (sg_logical_width w),
                sg_logical_height = keep (sf_window_logical_height f) (sg_logical_height w), sg_scale = scale,
                sg_maximized = keep (sf_window_maximized f) (sg_maximized w)\<rparr>,
             sd_audio_exclusive = keep (sf_audio_exclusive f) (sd_audio_exclusive d),
             sd_disable_gpu_compositing = keep (sf_disable_gpu_compositing f) (sd_disable_gpu_compositing d),
             sd_transparent_titlebar = keep (sf_transparent_titlebar f) (sd_transparent_titlebar d),
             sd_force_transcoding = keep (sf_force_transcoding f) (sd_force_transcoding d),
             sd_window_decorations =
               (case sf_window_decorations f of None \<Rightarrow> sd_window_decorations d | Some v \<Rightarrow> Some v),
             sd_hide_scrollbar = keep (sf_hide_scrollbar f) (sd_hide_scrollbar d),
             sd_interface_scale = keep (sf_interface_scale f) (sd_interface_scale d)\<rparr>, ns))"

definition then_some :: "bool \<Rightarrow> 'a \<Rightarrow> 'a option" where
  "then_some b v = (if b then Some v else None)"

definition to_file :: "bool \<Rightarrow> settings_data \<Rightarrow> settings_file" where
  "to_file macos d =
     (let w = sd_window d; size = 0 < sg_width w \<and> 0 < sg_height w;
          logical = 0 < sg_logical_width w \<and> 0 < sg_logical_height w; position = 0 \<le> sg_x w \<and> 0 \<le> sg_y w
      in \<lparr>sf_server_url = Some (sd_server_url d),
          sf_window_width = then_some size (sg_width w), sf_window_height = then_some size (sg_height w),
          sf_window_logical_width = then_some logical (sg_logical_width w),
          sf_window_logical_height = then_some logical (sg_logical_height w),
          sf_window_scale = then_some (f_lt (Fin 0 0) (sg_scale w)) (sg_scale w),
          sf_window_x = then_some position (sg_x w), sf_window_y = then_some position (sg_y w),
          sf_window_maximized = Some (sg_maximized w),
          sf_hwdec = then_some (sd_hwdec d \<noteq> [] \<and> sd_hwdec d \<noteq> HWDEC_DEFAULT macos) (sd_hwdec d),
          sf_video_mode = then_some (sd_video_mode d \<noteq> []) (sd_video_mode d),
          sf_video_mode_migrated = Some True,
          sf_video_mode_libraries = then_some (sd_video_mode_libraries d \<noteq> []) (sd_video_mode_libraries d),
          sf_transcode_notice = then_some (sd_transcode_notice d \<noteq> []) (sd_transcode_notice d),
          sf_audio_passthrough = then_some (sd_audio_passthrough d \<noteq> []) (sd_audio_passthrough d),
          sf_audio_exclusive = then_some (sd_audio_exclusive d) True,
          sf_audio_channels = then_some (sd_audio_channels d \<noteq> []) (sd_audio_channels d),
          sf_disable_gpu_compositing = then_some (sd_disable_gpu_compositing d) True,
          sf_transparent_titlebar = then_some (\<not> sd_transparent_titlebar d) False,
          sf_log_level = then_some (sd_log_level d \<noteq> []) (sd_log_level d),
          sf_force_transcoding = then_some (sd_force_transcoding d) True,
          sf_window_decorations = sd_window_decorations d,
          sf_hide_scrollbar = then_some (\<not> sd_hide_scrollbar d) False,
          sf_interface_scale = then_some (sd_interface_scale d \<noteq> []) (sd_interface_scale d),
          sf_device_name = then_some (sd_device_name d \<noteq> []) (sd_device_name d)\<rparr>)"

section \<open>The document\<close>

datatype json = JNull | JBool bool | JInt int | JFloat f64 | JStr ustring | JArr "json list" | JObj "(ustring \<times> json) list"

text \<open>\<open>lenient\<close>, type by type: a value of another type is no value.\<close>

fun as_str :: "json \<Rightarrow> ustring option" where
  "as_str (JStr s) = Some s"
| "as_str _ = None"

fun as_bool :: "json \<Rightarrow> bool option" where
  "as_bool (JBool b) = Some b"
| "as_bool _ = None"

fun as_i32 :: "json \<Rightarrow> int option" where
  "as_i32 (JInt i) = (if is_i32 i then Some i else None)"
| "as_i32 _ = None"

fun as_f64 :: "json \<Rightarrow> f64 option" where
  "as_f64 (JFloat x) = Some x"
| "as_f64 (JInt i) = Some (f_of_int double i)"
| "as_f64 _ = None"

fun as_string_pairs :: "(ustring \<times> json) list \<Rightarrow> string_map option" where
  "as_string_pairs [] = Some []"
| "as_string_pairs ((k, v) # kvs) =
     (case as_str v of None \<Rightarrow> None | Some s \<Rightarrow> map_option (Cons (k, s)) (as_string_pairs kvs))"

fun as_string_map :: "json \<Rightarrow> string_map option" where
  "as_string_map (JObj kvs) = as_string_pairs kvs"
| "as_string_map _ = None"

text \<open>Decoration names outside the contract are no value either.\<close>

definition as_decorations :: "json \<Rightarrow> window_decorations option" where
  "as_decorations v = Option.bind (as_str v) parse_decorations"

text \<open>What is written: a number that is not finite as \<open>null\<close>.\<close>

definition json_of_f64 :: "f64 \<Rightarrow> json" where
  "json_of_f64 x = (if f_is_finite x then JFloat x else JNull)"

definition json_of_map :: "string_map \<Rightarrow> json" where
  "json_of_map kvs = JObj (map (\<lambda>(k, v). (k, JStr v)) kvs)"

text \<open>The keys, in the order of the document.\<close>

datatype settings_key =
    K_Server_Url | K_Window_Width | K_Window_Height | K_Window_Logical_Width
  | K_Window_Logical_Height | K_Window_Scale | K_Window_X | K_Window_Y
  | K_Window_Maximized | K_Hwdec | K_Video_Mode | K_Video_Mode_Migrated
  | K_Video_Mode_Libraries | K_Transcode_Notice | K_Audio_Passthrough | K_Audio_Exclusive
  | K_Audio_Channels | K_Disable_Gpu_Compositing | K_Transparent_Titlebar | K_Log_Level
  | K_Force_Transcoding | K_Window_Decorations | K_Hide_Scrollbar | K_Interface_Scale
  | K_Device_Name

fun key_name :: "settings_key \<Rightarrow> string" where
  "key_name K_Server_Url = ''serverUrl''"
| "key_name K_Window_Width = ''windowWidth''"
| "key_name K_Window_Height = ''windowHeight''"
| "key_name K_Window_Logical_Width = ''windowLogicalWidth''"
| "key_name K_Window_Logical_Height = ''windowLogicalHeight''"
| "key_name K_Window_Scale = ''windowScale''"
| "key_name K_Window_X = ''windowX''"
| "key_name K_Window_Y = ''windowY''"
| "key_name K_Window_Maximized = ''windowMaximized''"
| "key_name K_Hwdec = ''hwdec''"
| "key_name K_Video_Mode = ''videoMode''"
| "key_name K_Video_Mode_Migrated = ''videoModeMigrated''"
| "key_name K_Video_Mode_Libraries = ''videoModeLibraries''"
| "key_name K_Transcode_Notice = ''transcodeNotice''"
| "key_name K_Audio_Passthrough = ''audioPassthrough''"
| "key_name K_Audio_Exclusive = ''audioExclusive''"
| "key_name K_Audio_Channels = ''audioChannels''"
| "key_name K_Disable_Gpu_Compositing = ''disableGpuCompositing''"
| "key_name K_Transparent_Titlebar = ''transparentTitlebar''"
| "key_name K_Log_Level = ''logLevel''"
| "key_name K_Force_Transcoding = ''forceTranscoding''"
| "key_name K_Window_Decorations = ''windowDecorations''"
| "key_name K_Hide_Scrollbar = ''hideScrollbar''"
| "key_name K_Interface_Scale = ''interfaceScale''"
| "key_name K_Device_Name = ''deviceName''"

definition settings_keys :: "settings_key list" where
  "settings_keys =
     [K_Server_Url, K_Window_Width, K_Window_Height, K_Window_Logical_Width,
      K_Window_Logical_Height, K_Window_Scale, K_Window_X, K_Window_Y,
      K_Window_Maximized, K_Hwdec, K_Video_Mode, K_Video_Mode_Migrated,
      K_Video_Mode_Libraries, K_Transcode_Notice, K_Audio_Passthrough, K_Audio_Exclusive,
      K_Audio_Channels, K_Disable_Gpu_Compositing, K_Transparent_Titlebar, K_Log_Level,
      K_Force_Transcoding, K_Window_Decorations, K_Hide_Scrollbar, K_Interface_Scale,
      K_Device_Name]"

fun field_json :: "settings_file \<Rightarrow> settings_key \<Rightarrow> json option" where
  "field_json f K_Server_Url = map_option JStr (sf_server_url f)"
| "field_json f K_Window_Width = map_option JInt (sf_window_width f)"
| "field_json f K_Window_Height = map_option JInt (sf_window_height f)"
| "field_json f K_Window_Logical_Width = map_option JInt (sf_window_logical_width f)"
| "field_json f K_Window_Logical_Height = map_option JInt (sf_window_logical_height f)"
| "field_json f K_Window_Scale = map_option json_of_f64 (sf_window_scale f)"
| "field_json f K_Window_X = map_option JInt (sf_window_x f)"
| "field_json f K_Window_Y = map_option JInt (sf_window_y f)"
| "field_json f K_Window_Maximized = map_option JBool (sf_window_maximized f)"
| "field_json f K_Hwdec = map_option JStr (sf_hwdec f)"
| "field_json f K_Video_Mode = map_option JStr (sf_video_mode f)"
| "field_json f K_Video_Mode_Migrated = map_option JBool (sf_video_mode_migrated f)"
| "field_json f K_Video_Mode_Libraries = map_option json_of_map (sf_video_mode_libraries f)"
| "field_json f K_Transcode_Notice = map_option JStr (sf_transcode_notice f)"
| "field_json f K_Audio_Passthrough = map_option JStr (sf_audio_passthrough f)"
| "field_json f K_Audio_Exclusive = map_option JBool (sf_audio_exclusive f)"
| "field_json f K_Audio_Channels = map_option JStr (sf_audio_channels f)"
| "field_json f K_Disable_Gpu_Compositing = map_option JBool (sf_disable_gpu_compositing f)"
| "field_json f K_Transparent_Titlebar = map_option JBool (sf_transparent_titlebar f)"
| "field_json f K_Log_Level = map_option JStr (sf_log_level f)"
| "field_json f K_Force_Transcoding = map_option JBool (sf_force_transcoding f)"
| "field_json f K_Window_Decorations = map_option (JStr \<circ> decorations_str) (sf_window_decorations f)"
| "field_json f K_Hide_Scrollbar = map_option JBool (sf_hide_scrollbar f)"
| "field_json f K_Interface_Scale = map_option JStr (sf_interface_scale f)"
| "field_json f K_Device_Name = map_option JStr (sf_device_name f)"

text \<open>A key without a value is absent.\<close>

definition encode_file :: "settings_file \<Rightarrow> (ustring \<times> json) list" where
  "encode_file f = List.map_filter (\<lambda>k. map_option (Pair (u (key_name k))) (field_json f k)) settings_keys"

definition lookup_key :: "(ustring \<times> json) list \<Rightarrow> settings_key \<Rightarrow> json option" where
  "lookup_key doc k = map_of doc (u (key_name k))"

text \<open>A key given twice fails the whole document; an unknown one is ignored.\<close>

definition repeats_key :: "(ustring \<times> json) list \<Rightarrow> bool" where
  "repeats_key doc = list_ex (\<lambda>k. 1 < length (filter (\<lambda>(n, v). n = u (key_name k)) doc)) settings_keys"

definition decode_file :: "(ustring \<times> json) list \<Rightarrow> settings_file option" where
  "decode_file doc =
     (if repeats_key doc then None
      else Some
        \<lparr>sf_server_url = Option.bind (lookup_key doc K_Server_Url) as_str,
         sf_window_width = Option.bind (lookup_key doc K_Window_Width) as_i32,
         sf_window_height = Option.bind (lookup_key doc K_Window_Height) as_i32,
         sf_window_logical_width = Option.bind (lookup_key doc K_Window_Logical_Width) as_i32,
         sf_window_logical_height = Option.bind (lookup_key doc K_Window_Logical_Height) as_i32,
         sf_window_scale = Option.bind (lookup_key doc K_Window_Scale) as_f64,
         sf_window_x = Option.bind (lookup_key doc K_Window_X) as_i32,
         sf_window_y = Option.bind (lookup_key doc K_Window_Y) as_i32,
         sf_window_maximized = Option.bind (lookup_key doc K_Window_Maximized) as_bool,
         sf_hwdec = Option.bind (lookup_key doc K_Hwdec) as_str,
         sf_video_mode = Option.bind (lookup_key doc K_Video_Mode) as_str,
         sf_video_mode_migrated = Option.bind (lookup_key doc K_Video_Mode_Migrated) as_bool,
         sf_video_mode_libraries = Option.bind (lookup_key doc K_Video_Mode_Libraries) as_string_map,
         sf_transcode_notice = Option.bind (lookup_key doc K_Transcode_Notice) as_str,
         sf_audio_passthrough = Option.bind (lookup_key doc K_Audio_Passthrough) as_str,
         sf_audio_exclusive = Option.bind (lookup_key doc K_Audio_Exclusive) as_bool,
         sf_audio_channels = Option.bind (lookup_key doc K_Audio_Channels) as_str,
         sf_disable_gpu_compositing = Option.bind (lookup_key doc K_Disable_Gpu_Compositing) as_bool,
         sf_transparent_titlebar = Option.bind (lookup_key doc K_Transparent_Titlebar) as_bool,
         sf_log_level = Option.bind (lookup_key doc K_Log_Level) as_str,
         sf_force_transcoding = Option.bind (lookup_key doc K_Force_Transcoding) as_bool,
         sf_window_decorations = Option.bind (lookup_key doc K_Window_Decorations) as_decorations,
         sf_hide_scrollbar = Option.bind (lookup_key doc K_Hide_Scrollbar) as_bool,
         sf_interface_scale = Option.bind (lookup_key doc K_Interface_Scale) as_str,
         sf_device_name = Option.bind (lookup_key doc K_Device_Name) as_str\<rparr>)"

text \<open>
  Reading the file: its size if it could be asked for, and what opening it gives - a text that
  parses to a document, to a sequence, or to neither, nothing there, or an error. A sequence fills the
  keys in their order, those it does not reach keep their defaults, and one too long is refused. The
  notices join those before.
\<close>

datatype file_contents = No_File | Unreadable | Bad_Text | Document "(ustring \<times> json) list" | Sequence "json list"

definition decode_sequence :: "json list \<Rightarrow> settings_file option" where
  "decode_sequence vs =
     (if length settings_keys < length vs then None
      else decode_file (zip (map (\<lambda>k. u (key_name k)) settings_keys) vs))"

definition MAX_SETTINGS_BYTES :: nat where "MAX_SETTINGS_BYTES = 1024 * 1024"

definition read_file :: "nat option \<Rightarrow> file_contents \<Rightarrow> load_notice list \<Rightarrow> settings_file option \<times> load_notice list" where
  "read_file file_len contents ns =
     (if (case file_len of None \<Rightarrow> False | Some n \<Rightarrow> MAX_SETTINGS_BYTES < n)
      then (None, note_load (File_Too_Big (the file_len)) ns)
      else case contents of
             No_File \<Rightarrow> (None, ns)
           | Unreadable \<Rightarrow> (None, note_load File_Unreadable ns)
           | Bad_Text \<Rightarrow> (None, note_load File_Ignored ns)
           | Document doc \<Rightarrow>
               (case decode_file doc of None \<Rightarrow> (None, note_load File_Ignored ns) | Some f \<Rightarrow> (Some f, ns))
           | Sequence vs \<Rightarrow>
               (case decode_sequence vs of None \<Rightarrow> (None, note_load File_Ignored ns) | Some f \<Rightarrow> (Some f, ns)))"

definition settings_load ::
    "nat option \<Rightarrow> file_contents \<Rightarrow> settings_data \<times> load_notice list \<Rightarrow> (settings_data \<times> load_notice list) \<times> bool" where
  "settings_load file_len contents acc =
     (case read_file file_len contents (snd acc) of
        (None, ns) \<Rightarrow> ((fst acc, ns), False)
      | (Some f, ns) \<Rightarrow> (overlay f (fst acc, ns), True))"

text \<open>A sequence loads, with what it does not hold at its default; one with an element too many does not.\<close>

lemma sequences_fill_keys:
  "decode_sequence [] = decode_file []"
  "map_option sf_server_url (decode_sequence [JStr s, JInt 800]) = Some (Some s)"
  "length vs = 26 \<Longrightarrow> decode_sequence vs = None"
  by (simp_all add: decode_sequence_def settings_keys_def decode_file_def repeats_key_def lookup_key_def)

section \<open>Accessors\<close>

definition set_device_name :: "ustring \<Rightarrow> ustring \<Rightarrow> settings_data \<Rightarrow> settings_data" where
  "set_device_name raw platform_default d = d\<lparr>sd_device_name := normalize_device_name raw platform_default\<rparr>"

definition set_window_decorations :: "ustring option \<Rightarrow> settings_data \<Rightarrow> settings_data" where
  "set_window_decorations v d = d\<lparr>sd_window_decorations := Option.bind v parse_decorations\<rparr>"

text \<open>The decorations a platform can honour, and what a stored choice resolves to there - or without one.\<close>

record decoration_options =
  do_server :: bool
  do_server_themed :: bool

fun options_contain :: "decoration_options \<Rightarrow> window_decorations \<Rightarrow> bool" where
  "options_contain opts Csd = True"
| "options_contain opts Server = do_server opts"
| "options_contain opts Server_Themed = do_server_themed opts"

definition resolve_window_decorations ::
    "decoration_options \<Rightarrow> window_decorations \<Rightarrow> window_decorations option \<Rightarrow> window_decorations" where
  "resolve_window_decorations opts dflt configured =
     (let wanted = keep configured dflt in if options_contain opts wanted then wanted else Csd)"

definition resolve_decorations ::
    "(decoration_options \<times> window_decorations) option \<Rightarrow> window_decorations option \<Rightarrow> window_decorations" where
  "resolve_decorations platform configured =
     (case platform of
        Some (opts, dflt) \<Rightarrow> resolve_window_decorations opts dflt configured
      | None \<Rightarrow> keep configured Csd)"

text \<open>What the settings page is handed: the host's own name and the decoders it offers come with it.\<close>

definition cli_settings :: "bool \<Rightarrow> ustring \<Rightarrow> ustring list \<Rightarrow> settings_data \<Rightarrow> (string \<times> json) list" where
  "cli_settings macos host hwdec_opts d =
     List.map_filter (\<lambda>(k, v). map_option (Pair k) v)
       [(''hwdec'', then_some (sd_hwdec d \<noteq> []) (JStr (sd_hwdec d))),
        (''videoMode'', then_some (sd_video_mode d \<noteq> []) (JStr (sd_video_mode d))),
        (''videoModeLibraries'', then_some (sd_video_mode_libraries d \<noteq> []) (json_of_map (sd_video_mode_libraries d))),
        (''transcodeNotice'', then_some (sd_transcode_notice d \<noteq> []) (JStr (sd_transcode_notice d))),
        (''audioPassthrough'', then_some (sd_audio_passthrough d \<noteq> []) (JStr (sd_audio_passthrough d))),
        (''audioExclusive'', then_some (sd_audio_exclusive d) (JBool True)),
        (''audioChannels'', then_some (sd_audio_channels d \<noteq> []) (JStr (sd_audio_channels d))),
        (''disableGpuCompositing'', then_some (sd_disable_gpu_compositing d) (JBool True)),
        (''transparentTitlebar'', then_some (\<not> sd_transparent_titlebar d) (JBool False)),
        (''logLevel'', then_some (sd_log_level d \<noteq> []) (JStr (sd_log_level d))),
        (''forceTranscoding'', Some (JBool (sd_force_transcoding d))),
        (''hideScrollbar'', Some (JBool (sd_hide_scrollbar d))),
        (''interfaceScale'', then_some (sd_interface_scale d \<noteq> []) (JStr (sd_interface_scale d))),
        (''deviceName'', then_some (sd_device_name d \<noteq> []) (JStr (sd_device_name d))),
        (''deviceNameDefault'', Some (JStr host)), (''hwdecOptions'', Some (JArr (map JStr hwdec_opts))),
        (''hwdecDefault'', Some (JStr (HWDEC_DEFAULT macos)))]"

section \<open>Document lemmas\<close>

lemma u_inject [simp]: "u s = u t \<longleftrightarrow> s = t"
  unfolding u_def by (rule inj_map_eq_map) (simp add: inj_def)

lemma settings_keys_all: "k \<in> set settings_keys"
  by (cases k) (simp_all add: settings_keys_def)

lemma settings_keys_distinct: "distinct settings_keys"
  by (simp add: settings_keys_def)

lemma key_names_distinct: "distinct (map key_name settings_keys)"
  by (simp add: settings_keys_def)

lemma key_name_inject: "key_name k = key_name k' \<longleftrightarrow> k = k'"
  using key_names_distinct settings_keys_all by (metis distinct_map inj_onD)

lemma map_of_map_filter:
  assumes "distinct ks" "inj_on n (set ks)" "k \<in> set ks"
  shows "map_of (List.map_filter (\<lambda>k. map_option (Pair (n k)) (g k)) ks) (n k) = g k"
  using assms
proof (induction ks)
  case (Cons k' ks)
  have none: "map_of (List.map_filter (\<lambda>k. map_option (Pair (n k)) (g k)) js) (n k') = None"
    if "inj_on n (set (k' # js))" "k' \<notin> set js" for js
    using that by (induction js) (auto simp: List.map_filter_def split: option.split)
  show ?case
  proof (cases "k = k'")
    case True
    then show ?thesis using none [of ks] Cons.prems by (cases "g k'") (auto simp: List.map_filter_def)
  next
    case False
    then have "map_of (List.map_filter (\<lambda>k. map_option (Pair (n k)) (g k)) ks) (n k) = g k" "n k \<noteq> n k'"
      using Cons by (auto simp: inj_on_def)
    then show ?thesis by (cases "g k'") (auto simp: List.map_filter_def)
  qed
qed simp

lemma map_filter_keys:
  "set (map fst (List.map_filter (\<lambda>k. map_option (Pair (n k)) (g k)) ks)) \<subseteq> n ` set ks"
  by (induction ks) (auto simp: List.map_filter_def)

lemma map_filter_keys_distinct:
  "distinct (map n ks) \<Longrightarrow> distinct (map fst (List.map_filter (\<lambda>k. map_option (Pair (n k)) (g k)) ks))"
proof (induction ks)
  case (Cons k ks)
  then show ?case using map_filter_keys [of n g ks] by (auto simp: List.map_filter_def split: option.split)
qed (simp add: List.map_filter_def)

lemma encode_lookup: "lookup_key (encode_file f) k = field_json f k"
  unfolding lookup_key_def encode_file_def
  using map_of_map_filter [of settings_keys "\<lambda>k. u (key_name k)" k "field_json f"] settings_keys_distinct settings_keys_all
  by (simp add: inj_on_def key_name_inject)

lemma distinct_key_once: "distinct (map fst doc) \<Longrightarrow> length (filter (\<lambda>(n, v). n = m) doc) \<le> 1"
proof (induction doc)
  case (Cons e doc)
  have "filter (\<lambda>(n, v). n = m) doc = []" if "m \<notin> set (map fst doc)"
    using that by (induction doc) auto
  then show ?case using Cons by (cases e) auto
qed simp

lemma encode_no_repeats: "\<not> repeats_key (encode_file f)"
proof -
  have "distinct (map (\<lambda>k. u (key_name k)) settings_keys)"
    using settings_keys_distinct by (simp add: distinct_map inj_on_def key_name_inject)
  then have "distinct (map fst (encode_file f))" unfolding encode_file_def by (rule map_filter_keys_distinct)
  from distinct_key_once [OF this] show ?thesis by (auto simp: repeats_key_def list_ex_iff not_less)
qed

lemma string_map_roundtrip [simp]: "as_string_map (json_of_map kvs) = Some kvs"
  by (induction kvs) (auto simp: json_of_map_def)

lemma decorations_roundtrip [simp]: "parse_decorations (decorations_str w) = Some w"
  by (cases w) (simp_all add: parse_decorations_def)

lemma as_roundtrip [simp]:
  "as_string_map \<circ>\<^sub>m (\<lambda>_. Some (json_of_map kvs)) = (\<lambda>_. Some kvs)"
  "Option.bind (map_option JStr v) as_str = v" "Option.bind (map_option JBool b) as_bool = b"
  "Option.bind (map_option json_of_map m) as_string_map = m"
  "Option.bind (map_option (JStr \<circ> decorations_str) w) as_decorations = w"
  by (auto simp: as_decorations_def map_comp_def split: Option.bind_split)

lemma as_i32_roundtrip: "pred_option is_i32 v \<Longrightarrow> Option.bind (map_option JInt v) as_i32 = v"
  by (cases v) auto

lemma as_f64_roundtrip: "pred_option f_is_finite v \<Longrightarrow> Option.bind (map_option json_of_f64 v) as_f64 = v"
  by (cases v) (auto simp: json_of_f64_def)

text \<open>The numbers of a document fit their types and can be written.\<close>

definition file_ok :: "settings_file \<Rightarrow> bool" where
  "file_ok f \<longleftrightarrow> list_all (pred_option is_i32)
       [sf_window_width f, sf_window_height f, sf_window_logical_width f, sf_window_logical_height f,
        sf_window_x f, sf_window_y f] \<and> pred_option f_is_finite (sf_window_scale f)"

lemma decode_encode: "file_ok f \<Longrightarrow> decode_file (encode_file f) = Some f"
  by (cases f) (simp add: decode_file_def encode_no_repeats encode_lookup file_ok_def as_i32_roundtrip as_f64_roundtrip)

section \<open>What a save remembers\<close>

text \<open>
  The settings a saved file brings back: the default decoder is not written, the marker always
  is, and a size, a logical size and a position are written only when both halves are there.
\<close>

definition remembered_window :: "saved_geometry \<Rightarrow> saved_geometry" where
  "remembered_window w =
     (let size = 0 < sg_width w \<and> 0 < sg_height w; logical = 0 < sg_logical_width w \<and> 0 < sg_logical_height w;
          position = 0 \<le> sg_x w \<and> 0 \<le> sg_y w
      in \<lparr>sg_x = (if position then sg_x w else -1), sg_y = (if position then sg_y w else -1),
          sg_width = (if size then sg_width w else 0), sg_height = (if size then sg_height w else 0),
          sg_logical_width = (if logical then sg_logical_width w else 0),
          sg_logical_height = (if logical then sg_logical_height w else 0),
          sg_scale = (if f_lt (Fin 0 0) (sg_scale w) then sg_scale w else Fin 0 0),
          sg_maximized = sg_maximized w\<rparr>)"

definition remembered :: "bool \<Rightarrow> settings_data \<Rightarrow> settings_data" where
  "remembered macos d =
     d\<lparr>sd_hwdec := (if sd_hwdec d = HWDEC_DEFAULT macos then [] else sd_hwdec d), sd_video_mode_migrated := True,
       sd_window := remembered_window (sd_window d)\<rparr>"

text \<open>What the setters and a load leave in memory: \<open>i32\<close> coordinates, a scale in bounds or none, a name that fits.\<close>

definition storable :: "settings_data \<Rightarrow> bool" where
  "storable d \<longleftrightarrow>
     list_all is_i32 [sg_x (sd_window d), sg_y (sd_window d), sg_width (sd_window d), sg_height (sd_window d),
       sg_logical_width (sd_window d), sg_logical_height (sd_window d)] \<and>
     (if f_lt (Fin 0 0) (sg_scale (sd_window d))
      then check_window_scale (sg_scale (sd_window d)) = Scale_Ok (sg_scale (sd_window d)) else True) \<and>
     byte_len (sd_device_name d) \<le> DEVICE_NAME_MAX"

lemma then_some_simps [simp]:
  "then_some True v = Some v" "then_some False v = None"
  by (simp_all add: then_some_def)

lemma keep_simps [simp]: "keep None old = old" "keep (Some v) old = v"
  by (simp_all add: keep_def)

lemma keep_then_some: "keep (then_some b v) old = (if b then v else old)"
  by (simp add: then_some_def)

lemma truncate_short: "byte_len s \<le> DEVICE_NAME_MAX \<Longrightarrow> truncate_device_name s = s"
  by (simp add: truncate_device_name_def)

lemma check_ok_finite: "check_window_scale x = Scale_Ok y \<Longrightarrow> f_is_finite x"
  by (simp add: check_window_scale_def split: if_splits)

lemma to_file_ok: "storable d \<Longrightarrow> file_ok (to_file macos d)"
  using check_ok_finite [of "sg_scale (sd_window d)"]
  by (auto simp: storable_def file_ok_def to_file_def Let_def then_some_def)

lemma keep_written:
  "keep (then_some (s \<noteq> []) s) [] = s" "keep (then_some b True) False = b" "keep (then_some (\<not> b) False) True = b"
  "keep (then_some (s \<noteq> [] \<and> s \<noteq> h) s) [] = (if s = h then [] else s)"
  "byte_len n \<le> DEVICE_NAME_MAX \<Longrightarrow> keep (map_option truncate_device_name (then_some (n \<noteq> []) n)) [] = n"
  "(case w of None \<Rightarrow> None | Some v \<Rightarrow> Some v) = w"
  by (auto simp: then_some_def truncate_short split: option.split)

lemma overlay_to_file:
  assumes "storable d"
  shows "overlay (to_file macos d) (default_settings, ns) =
    (remembered macos d, overlay_interface_scale (then_some (sd_interface_scale d \<noteq> []) (sd_interface_scale d)) ns)"
proof -
  have scale: "overlay_window_scale (then_some (f_lt (Fin 0 0) (sg_scale (sd_window d))) (sg_scale (sd_window d))) (Fin 0 0) ns =
      (if f_lt (Fin 0 0) (sg_scale (sd_window d)) then sg_scale (sd_window d) else Fin 0 0, ns)"
    using assms by (simp add: overlay_window_scale_def storable_def)
  have name: "byte_len (sd_device_name d) \<le> DEVICE_NAME_MAX" using assms by (simp add: storable_def)
  note defs = overlay_def to_file_def default_settings_def default_saved_def remembered_def remembered_window_def
    Let_def scale keep_written keep_then_some name
  have "fst (overlay (to_file macos d) (default_settings, ns)) = remembered macos d"
    by (rule settings_data.equality; (simp add: defs split del: if_split cong del: if_weak_cong)?; (auto split: if_splits option.splits)?)
  moreover have "snd (overlay (to_file macos d) (default_settings, ns)) =
      overlay_interface_scale (then_some (sd_interface_scale d \<noteq> []) (sd_interface_scale d)) ns"
    by (simp add: defs split del: if_split cong del: if_weak_cong)
  ultimately show ?thesis by (metis prod.collapse)
qed

section \<open>Round trip\<close>

lemma remembered_size:
  "(if 0 < sg_logical_width (remembered_window w) \<and> 0 < sg_logical_height (remembered_window w)
    then \<lparr>log_w = sg_logical_width (remembered_window w), log_h = sg_logical_height (remembered_window w)\<rparr>
    else if 0 < sg_width (remembered_window w) \<and> 0 < sg_height (remembered_window w)
    then \<lparr>log_w = sg_width (remembered_window w), log_h = sg_height (remembered_window w)\<rparr> else e) =
   (if 0 < sg_logical_width w \<and> 0 < sg_logical_height w
    then \<lparr>log_w = sg_logical_width w, log_h = sg_logical_height w\<rparr>
    else if 0 < sg_width w \<and> 0 < sg_height w then \<lparr>log_w = sg_width w, log_h = sg_height w\<rparr> else e)"
  by (auto simp: remembered_window_def Let_def)

lemma remembered_position:
  "geometry_from_raw a b (sg_x (remembered_window w)) (sg_y (remembered_window w)) = geometry_from_raw a b (sg_x w) (sg_y w)"
  by (auto simp: remembered_window_def geometry_from_raw_def Let_def)

lemma resolve_remembered: "resolve_boot (remembered_window w) s clamp = resolve_boot w s clamp"
  unfolding resolve_boot_def remembered_size remembered_position by (simp add: remembered_window_def Let_def)

lemma written_again: "to_file macos (remembered macos d) = to_file macos d"
  by (rule settings_file.equality)
    (auto simp: to_file_def remembered_def remembered_window_def Let_def then_some_def HWDEC_DEFAULT_def f_lt_def f_diff_sign_def)

lemma load_own_document:
  assumes "storable d" "file_len = None \<or> (\<exists>n. file_len = Some n \<and> n \<le> MAX_SETTINGS_BYTES)"
  shows "settings_load file_len (Document (encode_file (to_file macos d))) (default_settings, ns) =
    ((remembered macos d, overlay_interface_scale (then_some (sd_interface_scale d \<noteq> []) (sd_interface_scale d)) ns), True)"
  using assms(2) decode_encode [OF to_file_ok [OF assms(1)]] overlay_to_file [OF assms(1)]
  by (auto simp: settings_load_def read_file_def not_less)

text \<open>
  C28: Saving and loading is a round trip for settings the setters can leave: i32 coordinates, a window
  scale that is absent or passes the bounds unchanged, a device name that fits. Whether or not the
  file's size can be asked for, as long as it is within the limit, the document a save writes of them,
  loaded into a fresh process, gives back every setting but the ones a save leaves out on purpose (the
  default decoder, half of a size or of a position), is written again as the same document, and opens
  the next window as the settings in memory would.
\<close>
theorem settings_roundtrip:
  assumes "storable d" "file_len = None \<or> (\<exists>n. file_len = Some n \<and> n \<le> MAX_SETTINGS_BYTES)"
  shows "\<exists>d' ns. settings_load file_len (Document (encode_file (to_file macos d))) (default_settings, []) = ((d', ns), True) \<and>
    length ns \<le> 1 \<and>
    d' = d\<lparr>sd_hwdec := (if sd_hwdec d = HWDEC_DEFAULT macos then [] else sd_hwdec d), sd_video_mode_migrated := True,
            sd_window := sd_window d'\<rparr> \<and>
    encode_file (to_file macos d') = encode_file (to_file macos d) \<and>
    (\<forall>s clamp. resolve_boot (sd_window d') s clamp = resolve_boot (sd_window d) s clamp)"
  using load_own_document [OF assms, of macos "[]"] written_again [of macos d] resolve_remembered [of "sd_window d"]
  by (auto simp: remembered_def overlay_interface_scale_def note_load_def MAX_LOAD_NOTICES_def split: option.split scale_check.split)

section \<open>Bounds on what a file can ask for\<close>

lemma fval_bounds [simp]:
  "fval WINDOW_SCALE_MIN = 1 / 2" "fval WINDOW_SCALE_MAX = 4" "fval INTERFACE_SCALE_MIN = 1 / 2"
  "fval INTERFACE_SCALE_MAX = 2" "fval INTERFACE_SCALE_DEFAULT = 1"
  by (simp_all add: WINDOW_SCALE_MIN_def WINDOW_SCALE_MAX_def INTERFACE_SCALE_MIN_def INTERFACE_SCALE_MAX_def
      INTERFACE_SCALE_DEFAULT_def powr_minus)

lemma finite_bounds [simp]:
  "f_is_finite WINDOW_SCALE_MIN" "f_is_finite WINDOW_SCALE_MAX" "f_is_finite INTERFACE_SCALE_MIN"
  "f_is_finite INTERFACE_SCALE_MAX" "f_is_finite INTERFACE_SCALE_DEFAULT"
  by (simp_all add: WINDOW_SCALE_MIN_def WINDOW_SCALE_MAX_def INTERFACE_SCALE_MIN_def INTERFACE_SCALE_MAX_def
      INTERFACE_SCALE_DEFAULT_def)

text \<open>
  Whatever text is stored as the interface scale - empty, not a number, an infinity, a number with
  any exponent - the factor handed to the browser is a finite number between 0.5 and 2.
\<close>
theorem interface_scale_bounded:
  "f_is_finite (interface_scale_factor s) \<and> 1 / 2 \<le> fval (interface_scale_factor s) \<and> fval (interface_scale_factor s) \<le> 2"
  by (auto simp: interface_scale_factor_def check_interface_scale_def f_lt_iff split: option.split)

lemma check_window_scale_bounds:
  assumes "f_is_finite raw \<Longrightarrow> 1 / 2 \<le> fval raw \<Longrightarrow> fval raw \<le> 4 \<Longrightarrow> Q (f_narrow single raw)"
    and "Q WINDOW_SCALE_MIN" "Q WINDOW_SCALE_MAX"
  shows "case check_window_scale raw of Scale_Ok s \<Rightarrow> Q s | Scale_Clamped s \<Rightarrow> Q s | Scale_Unusable \<Rightarrow> True"
  using assms by (auto simp: check_window_scale_def f_lt_iff not_less)

definition scale_ok :: "f32 \<Rightarrow> bool" where
  "scale_ok s \<longleftrightarrow> f_is_finite s \<and> 1 / 2 \<le> fval s \<and> fval s \<le> 4"

lemma narrow_scale_ok: "f_is_finite x \<Longrightarrow> 1 / 2 \<le> fval x \<Longrightarrow> fval x \<le> 4 \<Longrightarrow> scale_ok (f_narrow single x)"
  using f_narrow_between [of x "-1" 2 single] by (simp add: scale_ok_def powr_minus)

lemma overlay_scale_ok: "old = Fin 0 0 \<or> scale_ok old \<Longrightarrow>
    fst (overlay_window_scale v old ns) = Fin 0 0 \<or> scale_ok (fst (overlay_window_scale v old ns))"
  using check_window_scale_bounds [of "the v" scale_ok] narrow_scale_ok
  by (auto simp: overlay_window_scale_def scale_ok_def [of WINDOW_SCALE_MIN] scale_ok_def [of WINDOW_SCALE_MAX]
      split: option.split scale_check.split)

lemma cut_at_fits: "byte_len (cut_at n s) \<le> n"
  by (induction n s rule: cut_at.induct) (auto simp: byte_len_def)

lemma truncate_fits: "byte_len (truncate_device_name s) \<le> DEVICE_NAME_MAX"
  using cut_at_fits by (simp add: truncate_device_name_def)

definition well_typed :: "settings_data \<Rightarrow> bool" where
  "well_typed d \<longleftrightarrow>
     list_all is_i32 [sg_x (sd_window d), sg_y (sd_window d), sg_width (sd_window d), sg_height (sd_window d),
       sg_logical_width (sd_window d), sg_logical_height (sd_window d)] \<and>
     (sg_scale (sd_window d) = Fin 0 0 \<or> scale_ok (sg_scale (sd_window d))) \<and>
     byte_len (sd_device_name d) \<le> DEVICE_NAME_MAX"

lemma bind_as_i32: "pred_option is_i32 (Option.bind v as_i32)"
proof (cases v)
  case (Some j)
  then show ?thesis by (cases j) auto
qed simp

lemma decode_file_types: "decode_file doc = Some f \<Longrightarrow> list_all (pred_option is_i32)
     [sf_window_width f, sf_window_height f, sf_window_logical_width f, sf_window_logical_height f,
      sf_window_x f, sf_window_y f]"
  by (auto simp: decode_file_def bind_as_i32 split: if_splits)

lemma keep_i32: "pred_option is_i32 v \<Longrightarrow> is_i32 old \<Longrightarrow> is_i32 (keep v old)"
  by (cases v) auto

lemma keep_name: "byte_len old \<le> DEVICE_NAME_MAX \<Longrightarrow> byte_len (keep (map_option truncate_device_name v) old) \<le> DEVICE_NAME_MAX"
  by (cases v) (auto simp: truncate_fits)

lemma overlay_well_typed:
  assumes "decode_file doc = Some f" "well_typed d"
  shows "well_typed (fst (overlay f (d, ns)))"
  using decode_file_types [OF assms(1)] assms(2) overlay_scale_ok [of "sg_scale (sd_window d)" "sf_window_scale f" ns]
  by (simp add: overlay_def well_typed_def Let_def split_beta keep_i32 keep_name)

text \<open>
  C29: Loading is type safe. Whatever the file holds - no file, a text that is no document, keys of the
  wrong type, numbers out of range - the settings in memory afterwards are well typed: coordinates
  within \<open>i32\<close>, no window scale or one between 0.5 and 4, and a device name of at most 64 bytes;
  the defaults are, and storing a device name keeps them so.
\<close>
theorem load_well_typed:
  "well_typed default_settings \<and>
   (\<forall>d. well_typed d \<longrightarrow> well_typed (fst (fst (settings_load file_len contents (d, ns)))) \<and>
      well_typed (set_device_name raw platform_default d))"
proof -
  have "well_typed default_settings" by (simp add: well_typed_def default_settings_def default_saved_def byte_len_def is_i32_def)
  moreover have "well_typed (fst (fst (settings_load file_len contents (d, ns))))" if "well_typed d" for d
    using that overlay_well_typed
    by (auto simp: settings_load_def read_file_def decode_sequence_def split: file_contents.split option.splits if_splits)
  moreover have "well_typed (set_device_name raw platform_default d)" if "well_typed d" for d
    using that truncate_fits by (simp add: well_typed_def set_device_name_def normalize_device_name_def Let_def byte_len_def [of "[]"])
  ultimately show ?thesis by blast
qed

section \<open>Malformed keys\<close>

text \<open>The values a key takes.\<close>

fun key_accepts :: "settings_key \<Rightarrow> json \<Rightarrow> bool" where
  "key_accepts k v =
     (if k \<in> {K_Window_Width, K_Window_Height, K_Window_Logical_Width, K_Window_Logical_Height, K_Window_X, K_Window_Y}
      then as_i32 v \<noteq> None
      else if k = K_Window_Scale then as_f64 v \<noteq> None
      else if k = K_Video_Mode_Libraries then as_string_map v \<noteq> None
      else if k = K_Window_Decorations then as_decorations v \<noteq> None
      else if k \<in> {K_Window_Maximized, K_Video_Mode_Migrated, K_Audio_Exclusive, K_Disable_Gpu_Compositing,
                   K_Transparent_Titlebar, K_Force_Transcoding, K_Hide_Scrollbar}
      then as_bool v \<noteq> None
      else as_str v \<noteq> None)"

declare key_accepts.simps [simp del]

definition entry_ok :: "ustring \<times> json \<Rightarrow> bool" where
  "entry_ok e = list_ex (\<lambda>k. fst e = u (key_name k) \<and> key_accepts k (snd e)) settings_keys"

lemma map_of_filter_once:
  assumes "length (filter (\<lambda>(n, v). n = m) doc) \<le> 1"
  shows "map_of (filter P doc) m = Option.bind (map_of doc m) (\<lambda>v. if P (m, v) then Some v else None)"
  using assms
proof (induction doc)
  case (Cons e doc)
  have none: "map_of js m = None" if "filter (\<lambda>(n, v). n = m) js = []" for js :: "('a \<times> 'b) list"
    using that by (induction js) (auto split: if_splits)
  have "map_of (filter P doc) m = None" if "fst e = m"
    using that Cons.prems none [of "filter P doc"] by (cases e) (auto simp: filter_empty_conv)
  then show ?case using Cons by (cases e) (auto split: if_splits)
qed simp

lemma entry_ok_key: "entry_ok (u (key_name k), v) = key_accepts k v"
  using settings_keys_all by (auto simp: entry_ok_def list_ex_iff key_name_inject)

lemma lookup_filtered:
  assumes "\<not> repeats_key doc" "\<And>v. key_accepts k v = (f v \<noteq> None)"
  shows "Option.bind (lookup_key (filter entry_ok doc) k) f = Option.bind (lookup_key doc k) f"
proof -
  have "length (filter (\<lambda>(n, v). n = u (key_name k)) doc) \<le> 1"
    using assms(1) settings_keys_all [of k] by (auto simp: repeats_key_def list_ex_iff not_less)
  from map_of_filter_once [OF this, of entry_ok] show ?thesis
    using assms(2) by (cases "map_of doc (u (key_name k))") (auto simp: lookup_key_def entry_ok_key)
qed

lemma filter_fewer: "length (filter Q (filter P xs)) \<le> length (filter Q xs)"
  by (induction xs) auto

lemma filter_no_repeats: "\<not> repeats_key doc \<Longrightarrow> \<not> repeats_key (filter P doc)"
  unfolding repeats_key_def list_ex_iff using filter_fewer by (metis order_less_le_trans)

text \<open>
  C30: A malformed key costs only itself. Of a document without a repeated key, the unknown keys, the
  keys with a value of another type and the numbers that do not fit change nothing about what is
  read: the document without them reads the same. A repeated key, in turn, fails the whole file,
  which leaves every setting as it was and says so.
\<close>
theorem malformed_keys_ignored:
  "(if repeats_key doc
    then settings_load None (Document doc) (d, ns) = ((d, note_load File_Ignored ns), False)
    else decode_file doc = decode_file (filter entry_ok doc) \<and>
         settings_load None (Document doc) (d, ns) = settings_load None (Document (filter entry_ok doc)) (d, ns) \<and>
         snd (settings_load None (Document doc) (d, ns)))"
proof (cases "repeats_key doc")
  case True
  then show ?thesis by (simp add: settings_load_def read_file_def decode_file_def)
next
  case False
  have "decode_file doc = decode_file (filter entry_ok doc)"
    using False filter_no_repeats [OF False] by (simp add: decode_file_def lookup_filtered key_accepts.simps)
  then show ?thesis
    using False filter_no_repeats [OF False, of entry_ok]
    by (simp add: settings_load_def read_file_def) (simp add: decode_file_def)
qed

section \<open>Device names\<close>

definition tidy :: "ustring \<Rightarrow> bool" where
  "tidy s \<longleftrightarrow> (s = [] \<or> hd s \<noteq> 32) \<and> successively (\<lambda>a b. a \<noteq> 32 \<or> b \<noteq> 32) s \<and>
     list_all (\<lambda>c. c = 32 \<or> \<not> name_space c) s"

lemma tidy_snoc: "tidy (s @ [c]) \<longleftrightarrow> tidy s \<and> (if c = 32 then s \<noteq> [] \<and> last s \<noteq> 32 else \<not> name_space c)"
  by (cases "s = []") (auto simp: tidy_def successively_append_iff hd_append)

lemma collapse_step_tidy:
  assumes "tidy (fst acc)" "snd acc = (fst acc = [] \<or> last (fst acc) = 32)"
  shows "tidy (fst (collapse_step c acc)) \<and>
    snd (collapse_step c acc) = (fst (collapse_step c acc) = [] \<or> last (fst (collapse_step c acc)) = 32)"
  using assms by (cases acc) (auto simp: collapse_step_def tidy_snoc name_space_def)

lemma collapse_tidy: "tidy (collapse_spaces raw)"
proof -
  have "tidy (fst (fold collapse_step raw acc))" if "tidy (fst acc)" "snd acc = (fst acc = [] \<or> last (fst acc) = 32)" for acc
    using that
  proof (induction raw arbitrary: acc)
    case (Cons c raw)
    show ?case using Cons.IH [of "collapse_step c acc"] collapse_step_tidy [OF Cons.prems, of c] by simp
  qed simp
  then show ?thesis by (simp add: collapse_spaces_def tidy_def)
qed

lemma tidy_take: "tidy s \<Longrightarrow> tidy (take k s)"
proof -
  assume s: "tidy s"
  have "successively P (take k s)" if "successively P s" for P :: "nat \<Rightarrow> nat \<Rightarrow> bool"
    using that successively_append_iff [of P "take k s" "drop k s"] by simp
  then show ?thesis using s by (cases s; cases k) (auto simp: tidy_def list_all_iff dest: in_set_takeD)
qed

lemma cut_at_take: "\<exists>k. cut_at n s = take k s"
proof (induction n s rule: cut_at.induct)
  case (2 n c s)
  show ?case
  proof (cases "utf8_len c \<le> n")
    case True
    then obtain k where "cut_at (n - utf8_len c) s = take k s" using 2 by blast
    then show ?thesis using True by (intro exI [of _ "Suc k"]) simp
  qed (auto intro: exI [of _ 0])
qed simp

lemma truncate_tidy: "tidy s \<Longrightarrow> tidy (truncate_device_name s)"
  using cut_at_take [of DEVICE_NAME_MAX s] tidy_take [of s] by (auto simp: truncate_device_name_def)

lemma untailed_tidy: "tidy s \<Longrightarrow> tidy (if s \<noteq> [] \<and> last s = 32 then butlast s else s)"
  using tidy_take [of s "length s - 1"] by (simp add: butlast_conv_take)

text \<open>
  A stored device name fits and is tidy. It is at most 64 bytes of whole characters, does not begin
  with a space, has no two spaces in a row and no other white space; it is empty when it would be the
  platform's own.
\<close>
theorem device_name_normalized:
  "byte_len (normalize_device_name raw dflt) \<le> 64 \<and> tidy (normalize_device_name raw dflt) \<and>
   (if normalize_device_name raw dflt = dflt then dflt = [] else True)"
  using truncate_tidy [OF untailed_tidy [OF collapse_tidy [of raw]]] truncate_fits
  by (auto simp: normalize_device_name_def Let_def DEVICE_NAME_MAX_def byte_len_def [of "[]"] tidy_def [of "[]"])

text \<open>
  The trailing space is removed before the cut, so a cut can leave one, and a name stored is then
  not a name that stays when stored again.
\<close>
lemma cut_leaves_space:
  "normalize_device_name (replicate 63 97 @ [32, 98]) [] = replicate 63 97 @ [32]"
  "normalize_device_name (replicate 63 97 @ [32]) [] = replicate 63 97"
  by code_simp+

section \<open>Examples\<close>

definition example_settings :: settings_data where
  "example_settings = default_settings\<lparr>sd_server_url := u ''http://media:8096'', sd_hwdec := u ''no'',
     sd_device_name := u ''Living room'', sd_interface_scale := u ''9'',
     sd_window := \<lparr>sg_x = 10, sg_y = 20, sg_width = 2000, sg_height = 1125, sg_logical_width = 1600,
       sg_logical_height = 900, sg_scale = Fin 10485760 (-23), sg_maximized = True\<rparr>\<rparr>"

lemma example_storable: "storable example_settings"
  by code_simp

lemma settings_roundtrip_witness:
  "\<exists>d' ns. settings_load (Some 500) (Document (encode_file (to_file False example_settings))) (default_settings, []) = ((d', ns), True) \<and>
    d' = example_settings\<lparr>sd_hwdec := [], sd_video_mode_migrated := True, sd_window := sd_window d'\<rparr>"
  using settings_roundtrip [OF example_storable, of "Some 500" False]
  by (auto simp: MAX_SETTINGS_BYTES_def example_settings_def HWDEC_DEFAULT_def)

lemma example_well_typed: "well_typed example_settings"
  by (simp add: well_typed_def example_settings_def is_i32_def scale_ok_def byte_len_def utf8_len_def u_def DEVICE_NAME_MAX_def
      default_settings_def powr_minus)

lemma load_well_typed_witness:
  "well_typed (fst (fst (settings_load None (Document [(u ''windowScale'', JInt 9), (u ''windowX'', JStr [])]) (example_settings, [])))) \<and>
   well_typed (set_device_name (u '' a  b'') [] example_settings)"
  using load_well_typed example_well_typed by blast

end
