(* ===== verification/Save_Worker.thy ===== *)
theory Save_Worker
  imports Config "HOL-Library.Sublist"
begin

text \<open>
  The background writer of the settings (\<open>config/src/lib.rs\<close>, \<open>settings_save_async\<close>, the worker
  loop, \<open>settings_shutdown_save_worker\<close>), with the \<open>update\<close> and \<open>wait\<close> of its mailbox
  (\<open>mailbox/src/lib.rs\<close>). Every step is what one thread does under one lock; the threads that save
  are numbered, and their steps interleave in any order the locks allow.
\<close>

section \<open>Threads\<close>

type_synonym snapshot = "ustring \<times> settings_data"

record save_pending =
  sp_data :: "settings_data option"
  sp_path :: ustring
  sp_stop :: bool

text \<open>Where a caller of \<open>settings_save_async\<close> is, where the worker is, and where the shutdown is.\<close>

datatype saver = Saver_Idle | Saver_Has snapshot | Saver_Ready snapshot | Saver_Locked snapshot | Saver_Queued bool

datatype worker = Not_Started | Waiting | Writing snapshot | Ended

datatype shutdown = Shutdown_Idle | Shutdown_Stopped | Shutdown_Joining bool | Shutdown_Done

text \<open>
  The store, the mailbox, whether the worker's cell exists, the lock around the join handle with the
  handle, the threads, the files, and the shutdowns that returned early. The last two fields are history that no step reads: the
  snapshots queued and those the worker took. \<open>Shutdown_Done\<close> is the return of the one shutdown that
  set the flag; a shutdown that finds no cell yet, or the flag set by another, returns at once without
  waiting and is only counted.
\<close>

record save_system =
  sv_path :: ustring
  sv_data :: settings_data
  sv_cell :: bool
  sv_pending :: save_pending
  sv_lock :: "nat option"
  sv_handle :: bool
  sv_savers :: "nat \<Rightarrow> saver"
  sv_worker :: worker
  sv_shutdown :: shutdown
  sv_files :: "ustring \<Rightarrow> settings_file option"
  sv_early_returns :: nat
  sv_queued :: "snapshot list"
  sv_taken :: "snapshot list"

definition save_init :: "ustring \<Rightarrow> settings_data \<Rightarrow> save_system" where
  "save_init path d =
     \<lparr>sv_path = path, sv_data = d, sv_cell = False, sv_pending = \<lparr>sp_data = None, sp_path = [], sp_stop = False\<rparr>,
      sv_lock = None, sv_handle = False, sv_savers = (\<lambda>_. Saver_Idle), sv_worker = Not_Started,
      sv_shutdown = Shutdown_Idle, sv_files = (\<lambda>_. None), sv_early_returns = 0, sv_queued = [], sv_taken = []\<rparr>"

text \<open>
  What can happen: a setting changes; saver \<open>i\<close> takes its snapshot, has the cell made, gets the handle lock, offers the
  snapshot, starts the worker if there is none and lets go; the worker takes a snapshot, writes it or
  fails to, or leaves; the shutdown sets the flag, takes the handle, joins; a synchronous save writes.
\<close>

datatype save_event =
    Setting_Changed settings_data
  | Snapshot nat | Open_Cell nat | Lock_Handle nat | Offer nat | Start_And_Release nat
  | Worker_Takes | Worker_Writes bool | Worker_Leaves
  | Shutdown_Flag | Shutdown_Takes_Handle | Shutdown_Joined
  | Save_Now bool

definition write_file :: "bool \<Rightarrow> bool \<Rightarrow> snapshot \<Rightarrow> (ustring \<Rightarrow> settings_file option) \<Rightarrow> ustring \<Rightarrow> settings_file option" where
  "write_file macos ok x files = (if ok then files(fst x := Some (to_file macos (snd x))) else files)"

fun save_step :: "bool \<Rightarrow> save_system \<Rightarrow> save_event \<Rightarrow> save_system option" where
  "save_step macos s (Setting_Changed d) = Some (s\<lparr>sv_data := d\<rparr>)"
| "save_step macos s (Snapshot i) =
     (case sv_savers s i of
        Saver_Idle \<Rightarrow> Some (s\<lparr>sv_savers := (sv_savers s)(i := Saver_Has (sv_path s, sv_data s))\<rparr>)
      | _ \<Rightarrow> None)"
| "save_step macos s (Open_Cell i) =
     (case sv_savers s i of
        Saver_Has x \<Rightarrow> Some (s\<lparr>sv_savers := (sv_savers s)(i := Saver_Ready x), sv_cell := True\<rparr>)
      | _ \<Rightarrow> None)"
| "save_step macos s (Lock_Handle i) =
     (case (sv_savers s i, sv_lock s) of
        (Saver_Ready x, None) \<Rightarrow> Some (s\<lparr>sv_savers := (sv_savers s)(i := Saver_Locked x), sv_lock := Some i\<rparr>)
      | _ \<Rightarrow> None)"
| "save_step macos s (Offer i) =
     (case sv_savers s i of
        Saver_Locked x \<Rightarrow>
          Some (if sp_stop (sv_pending s) then s\<lparr>sv_savers := (sv_savers s)(i := Saver_Queued False)\<rparr>
                else s\<lparr>sv_savers := (sv_savers s)(i := Saver_Queued True),
                       sv_pending := (sv_pending s)\<lparr>sp_data := Some (snd x), sp_path := fst x\<rparr>,
                       sv_queued := sv_queued s @ [x]\<rparr>)
      | _ \<Rightarrow> None)"
| "save_step macos s (Start_And_Release i) =
     (case sv_savers s i of
        Saver_Queued queued \<Rightarrow>
          (let s = s\<lparr>sv_savers := (sv_savers s)(i := Saver_Idle), sv_lock := None\<rparr>
           in Some (if queued \<and> \<not> sv_handle s then s\<lparr>sv_handle := True, sv_worker := Waiting\<rparr> else s))
      | _ \<Rightarrow> None)"
| "save_step macos s Worker_Takes =
     (case (sv_worker s, sp_data (sv_pending s)) of
        (Waiting, Some d) \<Rightarrow>
          Some (s\<lparr>sv_pending := (sv_pending s)\<lparr>sp_data := None\<rparr>, sv_worker := Writing (sp_path (sv_pending s), d),
                  sv_taken := sv_taken s @ [(sp_path (sv_pending s), d)]\<rparr>)
      | _ \<Rightarrow> None)"
| "save_step macos s (Worker_Writes ok) =
     (case sv_worker s of
        Writing x \<Rightarrow> Some (s\<lparr>sv_worker := Waiting, sv_files := write_file macos ok x (sv_files s)\<rparr>)
      | _ \<Rightarrow> None)"
| "save_step macos s Worker_Leaves =
     (case (sv_worker s, sp_data (sv_pending s)) of
        (Waiting, None) \<Rightarrow> (if sp_stop (sv_pending s) then Some (s\<lparr>sv_worker := Ended\<rparr>) else None)
      | _ \<Rightarrow> None)"
| "save_step macos s Shutdown_Flag =
     Some (if \<not> sv_cell s \<or> sp_stop (sv_pending s) then s\<lparr>sv_early_returns := sv_early_returns s + 1\<rparr>
           else s\<lparr>sv_pending := (sv_pending s)\<lparr>sp_stop := True\<rparr>, sv_shutdown := Shutdown_Stopped\<rparr>)"
| "save_step macos s Shutdown_Takes_Handle =
     (case (sv_shutdown s, sv_lock s) of
        (Shutdown_Stopped, None) \<Rightarrow> Some (s\<lparr>sv_handle := False, sv_shutdown := Shutdown_Joining (sv_handle s)\<rparr>)
      | _ \<Rightarrow> None)"
| "save_step macos s Shutdown_Joined =
     (case sv_shutdown s of
        Shutdown_Joining h \<Rightarrow> (if h \<and> sv_worker s \<noteq> Ended then None else Some (s\<lparr>sv_shutdown := Shutdown_Done\<rparr>))
      | _ \<Rightarrow> None)"
| "save_step macos s (Save_Now ok) =
     Some (s\<lparr>sv_files := write_file macos ok (sv_path s, sv_data s) (sv_files s)\<rparr>)"

fun save_run :: "bool \<Rightarrow> save_system \<Rightarrow> save_event list \<Rightarrow> save_system option" where
  "save_run macos s [] = Some s"
| "save_run macos s (e # es) = Option.bind (save_step macos s e) (\<lambda>s. save_run macos s es)"

section \<open>Invariant\<close>

fun holds_lock :: "saver \<Rightarrow> bool" where
  "holds_lock (Saver_Locked _) = True"
| "holds_lock (Saver_Queued _) = True"
| "holds_lock _ = False"

definition lock_inv :: "save_system \<Rightarrow> bool" where
  "lock_inv s \<longleftrightarrow> (\<forall>i. holds_lock (sv_savers s i) = (sv_lock s = Some i))"

definition will_start :: "save_system \<Rightarrow> bool" where
  "will_start s \<longleftrightarrow> (case sv_lock s of None \<Rightarrow> False | Some i \<Rightarrow> sv_savers s i = Saver_Queued True)"

text \<open>The handle is there exactly while a worker runs and nobody has taken it to join.\<close>

definition thread_inv :: "save_system \<Rightarrow> bool" where
  "thread_inv s \<longleftrightarrow>
     (case sv_shutdown s of
        Shutdown_Idle \<Rightarrow> \<not> sp_stop (sv_pending s) \<and> sv_handle s = (sv_worker s \<noteq> Not_Started)
      | Shutdown_Stopped \<Rightarrow> sp_stop (sv_pending s) \<and> sv_handle s = (sv_worker s \<noteq> Not_Started)
      | Shutdown_Joining h \<Rightarrow> sp_stop (sv_pending s) \<and> \<not> sv_handle s \<and> h = (sv_worker s \<noteq> Not_Started) \<and> \<not> will_start s
      | Shutdown_Done \<Rightarrow> sp_stop (sv_pending s) \<and> \<not> sv_handle s \<and> sv_worker s \<in> {Not_Started, Ended} \<and> \<not> will_start s)"

text \<open>Nothing waits in the slot without a worker to take it, and what was queued last is in the slot or was taken last.\<close>

definition slot_inv :: "save_system \<Rightarrow> bool" where
  "slot_inv s \<longleftrightarrow>
     subseq (sv_taken s) (sv_queued s) \<and>
     (sp_data (sv_pending s) = None \<longrightarrow>
        (sv_queued s = [] \<longleftrightarrow> sv_taken s = []) \<and> (sv_queued s \<noteq> [] \<longrightarrow> last (sv_taken s) = last (sv_queued s))) \<and>
     (\<forall>d. sp_data (sv_pending s) = Some d \<longrightarrow>
        sv_queued s \<noteq> [] \<and> last (sv_queued s) = (sp_path (sv_pending s), d) \<and>
        subseq (sv_taken s) (butlast (sv_queued s)) \<and>
        (sv_worker s = Not_Started \<longrightarrow> will_start s) \<and> sv_worker s \<noteq> Ended) \<and>
     (sv_worker s = Ended \<longrightarrow> sp_stop (sv_pending s)) \<and>
     (sv_worker s = Not_Started \<longrightarrow> sv_taken s = []) \<and>
     (\<forall>x. sv_worker s = Writing x \<longrightarrow> sv_taken s \<noteq> [] \<and> last (sv_taken s) = x)"

definition save_inv :: "save_system \<Rightarrow> bool" where
  "save_inv s \<longleftrightarrow> lock_inv s \<and> thread_inv s \<and> slot_inv s"

lemma save_inv_init: "save_inv (save_init path d)"
  by (simp add: save_inv_def lock_inv_def thread_inv_def slot_inv_def save_init_def)

lemmas save_step_splits = saver.split_asm option.split_asm worker.split_asm shutdown.split_asm if_split_asm

lemma lockD:
  "lock_inv s \<Longrightarrow> sv_savers s i = Saver_Locked x \<Longrightarrow> sv_lock s = Some i"
  "lock_inv s \<Longrightarrow> sv_savers s i = Saver_Queued q \<Longrightarrow> sv_lock s = Some i"
  "lock_inv s \<Longrightarrow> sv_savers s i = Saver_Idle \<Longrightarrow> sv_lock s \<noteq> Some i"
  "lock_inv s \<Longrightarrow> sv_savers s i = Saver_Has y \<Longrightarrow> sv_lock s \<noteq> Some i"
  "lock_inv s \<Longrightarrow> sv_savers s i = Saver_Ready y \<Longrightarrow> sv_lock s \<noteq> Some i"
  by (metis lock_inv_def holds_lock.simps)+

lemma lock_step:
  assumes lock: "lock_inv s" and step: "save_step macos s e = Some s'"
  shows "lock_inv s'"
proof -
  have free: "holds_lock (sv_savers s i) = (sv_lock s = Some i)" for i using lock by (simp add: lock_inv_def)
  show ?thesis
  proof (cases "sv_savers s' = sv_savers s \<and> sv_lock s' = sv_lock s")
    case True
    then show ?thesis using lock by (simp add: lock_inv_def)
  next
    case False
    then show ?thesis
      using step
      by (cases e) (auto simp: lock_inv_def Let_def free split: save_step_splits dest: lockD [OF lock])
  qed
qed

lemma will_start_step:
  "lock_inv s \<Longrightarrow> save_step macos s e = Some s' \<Longrightarrow> will_start s' =
     (case e of Offer i \<Rightarrow> \<not> sp_stop (sv_pending s) | Start_And_Release i \<Rightarrow> False | Lock_Handle i \<Rightarrow> False | _ \<Rightarrow> will_start s)"
  by (cases e) (auto simp: will_start_def Let_def lockD dest: lockD split: save_step_splits option.split if_splits)

lemma will_startD: "will_start s \<Longrightarrow> lock_inv s \<Longrightarrow> sv_savers s i = Saver_Queued q \<Longrightarrow> q"
  by (auto simp: will_start_def lock_inv_def split: option.splits) (metis holds_lock.simps(2) option.inject saver.inject(4))

lemma will_startI: "lock_inv s \<Longrightarrow> sv_savers s i = Saver_Queued q \<Longrightarrow> will_start s = q"
  using lockD(2) [of s i q] by (simp add: will_start_def)

lemma thread_frame:
  assumes "thread_inv s" "sv_shutdown s' = sv_shutdown s" "sp_stop (sv_pending s') = sp_stop (sv_pending s)"
    "sv_handle s' = sv_handle s" "(sv_worker s' = Not_Started) = (sv_worker s = Not_Started)"
    "sv_worker s = Ended \<longrightarrow> sv_worker s' = Ended" "will_start s' \<longrightarrow> will_start s \<or> \<not> sp_stop (sv_pending s)"
  shows "thread_inv s'"
  using assms by (cases "sv_shutdown s") (auto simp: thread_inv_def)

lemma thread_start:
  assumes thread: "thread_inv s" and step: "save_step macos s (Start_And_Release i) = Some s'" and lock: "lock_inv s"
  shows "thread_inv s'"
proof -
  obtain q where q: "sv_savers s i = Saver_Queued q" using step by (auto split: saver.split_asm)
  have w: "will_start s = q" "\<not> will_start s'" using will_startI [OF lock q] will_start_step [OF lock step] by simp_all
  show ?thesis
  proof (cases "q \<and> \<not> sv_handle s")
    case True
    then have "s' = s\<lparr>sv_savers := (sv_savers s)(i := Saver_Idle), sv_lock := None, sv_handle := True, sv_worker := Waiting\<rparr>"
      using step q by (simp add: Let_def)
    then show ?thesis using thread w True by (cases "sv_shutdown s") (simp_all add: thread_inv_def)
  next
    case False
    then have "s' = s\<lparr>sv_savers := (sv_savers s)(i := Saver_Idle), sv_lock := None\<rparr>"
      using step q by (simp add: Let_def split: if_splits)
    then show ?thesis using w by (intro thread_frame [OF thread]) simp_all
  qed
qed

lemma thread_step:
  assumes inv: "save_inv s" and step: "save_step macos s e = Some s'"
  shows "thread_inv s'"
proof -
  have lock: "lock_inv s" and thread: "thread_inv s" using inv by (simp_all add: save_inv_def)
  note w = will_start_step [OF lock step]
  show ?thesis
  proof (cases e)
    case (Start_And_Release i)
    then show ?thesis using thread_start [OF thread _ lock] step by blast
  next
    case Shutdown_Flag
    show ?thesis
    proof (cases "\<not> sv_cell s \<or> sp_stop (sv_pending s)")
      case True
      then have "s' = s\<lparr>sv_early_returns := sv_early_returns s + 1\<rparr>" using Shutdown_Flag step by simp
      then show ?thesis using thread w Shutdown_Flag by (intro thread_frame [OF thread]) simp_all
    next
      case False
      then have "s' = s\<lparr>sv_pending := (sv_pending s)\<lparr>sp_stop := True\<rparr>, sv_shutdown := Shutdown_Stopped\<rparr>"
        using Shutdown_Flag step by simp
      then show ?thesis using thread False by (cases "sv_shutdown s") (simp_all add: thread_inv_def)
    qed
  next
    case Shutdown_Takes_Handle
    then have "sv_shutdown s = Shutdown_Stopped" "sv_lock s = None"
        "s' = s\<lparr>sv_handle := False, sv_shutdown := Shutdown_Joining (sv_handle s)\<rparr>"
      using step by (auto split: option.split_asm shutdown.split_asm)
    then show ?thesis using thread by (simp add: thread_inv_def will_start_def)
  next
    case Shutdown_Joined
    then obtain h where "sv_shutdown s = Shutdown_Joining h" "h \<longrightarrow> sv_worker s = Ended" "s' = s\<lparr>sv_shutdown := Shutdown_Done\<rparr>"
      using step by (auto split: shutdown.split_asm if_split_asm)
    then show ?thesis using thread w Shutdown_Joined by (auto simp: thread_inv_def)
  next
    case (Offer i)
    then show ?thesis using step w by (intro thread_frame [OF thread]) (auto split: saver.split_asm)
  next
    case (Snapshot i)
    then show ?thesis using step w by (intro thread_frame [OF thread]) (auto split: saver.split_asm)
  next
    case (Open_Cell i)
    then show ?thesis using step w by (intro thread_frame [OF thread]) (auto split: saver.split_asm)
  next
    case (Lock_Handle i)
    then show ?thesis using step w by (intro thread_frame [OF thread]) (auto split: saver.split_asm option.split_asm)
  next
    case Worker_Takes
    then show ?thesis using step w by (intro thread_frame [OF thread]) (auto split: worker.split_asm option.split_asm)
  next
    case (Worker_Writes ok)
    then show ?thesis using step w by (intro thread_frame [OF thread]) (auto split: worker.split_asm)
  next
    case Worker_Leaves
    then show ?thesis using step w by (intro thread_frame [OF thread]) (auto split: worker.split_asm option.split_asm if_split_asm)
  next
    case (Setting_Changed d)
    then show ?thesis using step w by (intro thread_frame [OF thread]) auto
  next
    case (Save_Now ok)
    then show ?thesis using step w by (intro thread_frame [OF thread]) auto
  qed
qed

lemma slotD:
  assumes "slot_inv s"
  shows "subseq (sv_taken s) (sv_queued s)"
    and "sp_data (sv_pending s) = None \<Longrightarrow> (sv_queued s = []) = (sv_taken s = [])"
    and "sp_data (sv_pending s) = None \<Longrightarrow> sv_queued s \<noteq> [] \<Longrightarrow> last (sv_taken s) = last (sv_queued s)"
    and "sp_data (sv_pending s) = Some d \<Longrightarrow> sv_queued s \<noteq> [] \<and> last (sv_queued s) = (sp_path (sv_pending s), d) \<and>
        subseq (sv_taken s) (butlast (sv_queued s))"
    and "sp_data (sv_pending s) = Some d \<Longrightarrow> sv_worker s = Not_Started \<Longrightarrow> will_start s"
    and "sp_data (sv_pending s) = Some d \<Longrightarrow> sv_worker s \<noteq> Ended"
    and "sv_worker s = Ended \<Longrightarrow> sp_stop (sv_pending s)"
    and "sv_worker s = Not_Started \<Longrightarrow> sv_taken s = []"
    and "sv_worker s = Writing x \<Longrightarrow> sv_taken s \<noteq> [] \<and> last (sv_taken s) = x"
  using assms by (simp_all add: slot_inv_def)

text \<open>A step that leaves the slot, the history and the worker alone keeps the invariant if a start that is due stays due.\<close>

lemma slot_frame:
  assumes "slot_inv s" "sp_data (sv_pending s') = sp_data (sv_pending s)" "sp_path (sv_pending s') = sp_path (sv_pending s)"
    "sp_stop (sv_pending s) \<longrightarrow> sp_stop (sv_pending s')" "sv_queued s' = sv_queued s" "sv_taken s' = sv_taken s"
    "sv_worker s' = sv_worker s" "will_start s \<longrightarrow> will_start s'"
  shows "slot_inv s'"
  using assms unfolding slot_inv_def by simp

lemma slot_offer:
  assumes slot: "slot_inv s" and step: "save_step macos s (Offer i) = Some s'" and lock: "lock_inv s"
  shows "slot_inv s'"
proof -
  obtain x where x: "sv_savers s i = Saver_Locked x" using step by (auto split: saver.split_asm)
  then have no: "\<not> will_start s" using lockD(1) [OF lock x] by (simp add: will_start_def)
  show ?thesis
  proof (cases "sp_stop (sv_pending s)")
    case True
    then show ?thesis using x step no by (intro slot_frame [OF slot]) auto
  next
    case False
    then have s': "s' = s\<lparr>sv_savers := (sv_savers s)(i := Saver_Queued True),
        sv_pending := (sv_pending s)\<lparr>sp_data := Some (snd x), sp_path := fst x\<rparr>, sv_queued := sv_queued s @ [x]\<rparr>"
      using step x by simp
    have "will_start s'" using will_start_step [OF lock step] False by simp
    moreover have "sv_worker s \<noteq> Ended" using slotD(7) [OF slot] False by blast
    ultimately show ?thesis using list_emb_prefix [OF slotD(1) [OF slot], of "[x]"] slotD(1) [OF slot] slotD(8,9) [OF slot]
      unfolding slot_inv_def by (simp add: s')
  qed
qed

lemma slot_start:
  assumes slot: "slot_inv s" and step: "save_step macos s (Start_And_Release i) = Some s'"
    and lock: "lock_inv s" and thread: "thread_inv s"
  shows "slot_inv s'"
proof -
  obtain q where q: "sv_savers s i = Saver_Queued q" using step by (auto split: saver.split_asm)
  have w: "will_start s = q" using will_startI [OF lock q] .
  show ?thesis
  proof (cases "q \<and> \<not> sv_handle s")
    case True
    then have s': "s' = s\<lparr>sv_savers := (sv_savers s)(i := Saver_Idle), sv_lock := None, sv_handle := True, sv_worker := Waiting\<rparr>"
      using step q by (simp add: Let_def)
    show ?thesis using slotD(1-4) [OF slot] unfolding slot_inv_def by (simp add: s')
  next
    case False
    then have s': "s' = s\<lparr>sv_savers := (sv_savers s)(i := Saver_Idle), sv_lock := None\<rparr>"
      using step q by (simp add: Let_def split: if_splits)
    have "sv_worker s \<noteq> Not_Started" if "sp_data (sv_pending s) = Some d" for d
      using slotD(5) [OF slot that] w False thread by (auto simp: thread_inv_def split: shutdown.splits)
    then show ?thesis using slotD [OF slot] unfolding slot_inv_def by (simp add: s')
  qed
qed

lemma slot_takes:
  assumes slot: "slot_inv s" and step: "save_step macos s Worker_Takes = Some s'"
  shows "slot_inv s'"
proof -
  obtain d where d: "sp_data (sv_pending s) = Some d" "sv_worker s = Waiting"
    using step by (auto split: worker.split_asm option.split_asm)
  have q: "sv_queued s \<noteq> []" "last (sv_queued s) = (sp_path (sv_pending s), d)" "subseq (sv_taken s) (butlast (sv_queued s))"
    using slotD(4) [OF slot d(1)] by auto
  have "subseq (sv_taken s @ [last (sv_queued s)]) (butlast (sv_queued s) @ [last (sv_queued s)])"
    using q by (intro list_emb_append_mono) simp_all
  then have "subseq (sv_taken s @ [last (sv_queued s)]) (sv_queued s)" using q(1) by simp
  then show ?thesis using d q step unfolding slot_inv_def by auto
qed

lemma slot_step:
  assumes inv: "save_inv s" and step: "save_step macos s e = Some s'"
  shows "slot_inv s'"
proof -
  have lock: "lock_inv s" and thread: "thread_inv s" and slot: "slot_inv s" using inv by (simp_all add: save_inv_def)
  note w = will_start_step [OF lock step]
  show ?thesis
  proof (cases e)
    case (Offer i)
    then show ?thesis using slot_offer [OF slot _ lock] step by blast
  next
    case (Start_And_Release i)
    then show ?thesis using slot_start [OF slot _ lock thread] step by blast
  next
    case Worker_Takes
    then show ?thesis using slot_takes [OF slot] step by blast
  next
    case Worker_Leaves
    then have "sp_data (sv_pending s) = None" "sp_stop (sv_pending s)" "s' = s\<lparr>sv_worker := Ended\<rparr>"
      using step by (auto split: worker.split_asm option.split_asm if_split_asm)
    then show ?thesis using slotD(1-3) [OF slot] unfolding slot_inv_def by simp
  next
    case (Worker_Writes ok)
    then obtain x where "sv_worker s = Writing x" "s' = s\<lparr>sv_worker := Waiting, sv_files := write_file macos ok x (sv_files s)\<rparr>"
      using step by (auto split: worker.split_asm)
    then show ?thesis using slotD(1-4) [OF slot] unfolding slot_inv_def by simp
  next
    case (Snapshot i)
    then show ?thesis using step w by (intro slot_frame [OF slot]) (auto split: saver.split_asm)
  next
    case (Open_Cell i)
    then show ?thesis using step w by (intro slot_frame [OF slot]) (auto split: saver.split_asm)
  next
    case (Lock_Handle i)
    then have "\<not> will_start s" using step by (auto simp: will_start_def split: saver.split_asm option.split_asm)
    then show ?thesis using Lock_Handle step by (intro slot_frame [OF slot]) (auto split: saver.split_asm option.split_asm)
  next
    case Shutdown_Flag
    then show ?thesis using step w by (intro slot_frame [OF slot]) auto
  next
    case Shutdown_Takes_Handle
    then show ?thesis using step w by (intro slot_frame [OF slot]) (auto split: shutdown.split_asm option.split_asm)
  next
    case Shutdown_Joined
    then show ?thesis using step w by (intro slot_frame [OF slot]) (auto split: shutdown.split_asm if_split_asm)
  next
    case (Setting_Changed d)
    then show ?thesis using step w by (intro slot_frame [OF slot]) auto
  next
    case (Save_Now ok)
    then show ?thesis using step w by (intro slot_frame [OF slot]) auto
  qed
qed

lemma save_inv_step: "save_inv s \<Longrightarrow> save_step macos s e = Some s' \<Longrightarrow> save_inv s'"
  unfolding save_inv_def [of s'] using lock_step thread_step slot_step save_inv_def by blast

lemma save_inv_run: "save_inv s \<Longrightarrow> save_run macos s es = Some s' \<Longrightarrow> save_inv s'"
  by (induction es arbitrary: s) (auto simp: bind_eq_Some_conv dest: save_inv_step)

section \<open>What the shutdown guarantees\<close>

text \<open>
  C27: Shutting down loses nothing that was queued, and never goes back to an older snapshot. However the
  savers, the worker and the shutdowns interleave, the snapshots written are some of those queued, in
  their order; and once the shutdown that set the stop flag has returned - not one that found no worker
  yet, or the flag set already, and returned at once - the slot is empty, no worker is left, and if any
  snapshot was queued the last one queued is the last one that was taken to be written.
\<close>
theorem shutdown_drains_queue:
  assumes "save_run macos (save_init path d) es = Some s"
  shows "subseq (sv_taken s) (sv_queued s) \<and>
    (sv_shutdown s = Shutdown_Done \<longrightarrow>
       sp_data (sv_pending s) = None \<and> sv_worker s \<in> {Not_Started, Ended} \<and> (sv_queued s \<noteq> [] \<longrightarrow>
       sv_taken s \<noteq> [] \<and> last (sv_taken s) = last (sv_queued s)))"
proof -
  have inv: "save_inv s" using save_inv_run [OF save_inv_init assms] .
  have "sv_worker s \<in> {Not_Started, Ended} \<and> \<not> will_start s" if "sv_shutdown s = Shutdown_Done"
    using inv that by (simp add: save_inv_def thread_inv_def)
  moreover have "sp_data (sv_pending s) = None" if "sv_worker s \<in> {Not_Started, Ended}" "\<not> will_start s"
    using inv that slotD(5,6) by (cases "sp_data (sv_pending s)") (auto simp: save_inv_def)
  ultimately show ?thesis using inv slotD(1-3) by (auto simp: save_inv_def)
qed

text \<open>Work the worker still has after the flag is set, in steps of its own.\<close>

definition worker_work :: "save_system \<Rightarrow> nat" where
  "worker_work s =
     (case sv_worker s of Not_Started \<Rightarrow> 0 | Ended \<Rightarrow> 0 | Waiting \<Rightarrow> 1 | Writing x \<Rightarrow> 2) +
     (if sp_data (sv_pending s) = None then 0 else 2)"

fun worker_event :: "save_event \<Rightarrow> bool" where
  "worker_event Worker_Takes = True"
| "worker_event (Worker_Writes _) = True"
| "worker_event Worker_Leaves = True"
| "worker_event _ = False"

text \<open>A worker that is due to start has as much ahead of it as one that waits.\<close>

definition work_left :: "save_system \<Rightarrow> nat" where
  "work_left s =
     (case sv_worker s of Not_Started \<Rightarrow> (if will_start s then 1 else 0) | Ended \<Rightarrow> 0 | Waiting \<Rightarrow> 1 | Writing x \<Rightarrow> 2) +
     (if sp_data (sv_pending s) = None then 0 else 2)"

lemma stop_stays: "save_step macos s e = Some s' \<Longrightarrow> sp_stop (sv_pending s) \<Longrightarrow> sp_stop (sv_pending s')"
  by (cases e) (auto simp: Let_def split: save_step_splits)

lemma worker_step_works:
  "worker_event e \<Longrightarrow> save_step macos s e = Some s' \<Longrightarrow> Suc (work_left s') = work_left s"
  by (cases e) (auto simp: work_left_def split: worker.split_asm option.split_asm if_split_asm)

lemma work_frame:
  assumes "sv_worker s' = sv_worker s" "sp_data (sv_pending s') = sp_data (sv_pending s)" "will_start s' \<longrightarrow> will_start s"
  shows "work_left s' \<le> work_left s"
  using assms by (simp add: work_left_def split: worker.split)

text \<open>No other thread gives a stopped worker anything to do.\<close>

lemma other_step_adds_nothing:
  assumes inv: "save_inv s" and step: "save_step macos s e = Some s'" and stop: "sp_stop (sv_pending s)" and other: "\<not> worker_event e"
  shows "work_left s' \<le> work_left s"
proof -
  have lock: "lock_inv s" and thread: "thread_inv s" using inv by (simp_all add: save_inv_def)
  note w = will_start_step [OF lock step]
  show ?thesis
  proof (cases e)
    case (Start_And_Release i)
    then obtain q where q: "sv_savers s i = Saver_Queued q" using step by (auto split: saver.split_asm)
    have "will_start s = q" using will_startI [OF lock q] .
    then have "sv_worker s = Not_Started \<and> will_start s" if "q" "\<not> sv_handle s"
      using thread that stop by (auto simp: thread_inv_def split: shutdown.split_asm)
    then show ?thesis using Start_And_Release step q w
      by (auto simp: work_left_def Let_def split: worker.split if_split_asm)
  qed (use step w other stop in \<open>auto intro!: work_frame split: saver.split_asm option.split_asm shutdown.split_asm if_split_asm\<close>)
qed

lemma stopped_run:
  "save_inv s \<Longrightarrow> sp_stop (sv_pending s) \<Longrightarrow> save_run macos s es = Some s' \<Longrightarrow>
   length (filter worker_event es) + work_left s' \<le> work_left s \<and> save_inv s' \<and> sp_stop (sv_pending s')"
proof (induction es arbitrary: s)
  case (Cons e es)
  then obtain s1 where s1: "save_step macos s e = Some s1" "save_run macos s1 es = Some s'" by (auto simp: bind_eq_Some_conv)
  have "length (filter worker_event es) + work_left s' \<le> work_left s1 \<and> save_inv s' \<and> sp_stop (sv_pending s')"
    using Cons.IH [OF save_inv_step [OF Cons.prems(1) s1(1)] stop_stays [OF s1(1) Cons.prems(2)] s1(2)] .
  then show ?case
    using worker_step_works [OF _ s1(1)] other_step_adds_nothing [OF Cons.prems(1) s1(1) Cons.prems(2)]
    by (cases "worker_event e") auto
qed simp

text \<open>A worker that has not ended always has a step of its own, and the shutdown has one once it has.\<close>

lemma stopped_not_stuck:
  assumes "sp_stop (sv_pending s)" "sv_worker s \<noteq> Not_Started" "sv_worker s \<noteq> Ended"
  shows "\<exists>e. worker_event e \<and> save_step macos s e \<noteq> None"
proof (cases "sv_worker s")
  case Waiting
  then show ?thesis using assms(1)
    by (cases "sp_data (sv_pending s)") (auto intro: exI [of _ Worker_Leaves] exI [of _ Worker_Takes])
next
  case (Writing x)
  then show ?thesis by (intro exI [of _ "Worker_Writes True"]) simp
qed (use assms in auto)

text \<open>
  C31: The worker comes to an end. In every run that goes on from a reachable state with the stop flag
  set, whatever savers and shutdowns do meanwhile, the worker makes at most four steps - finish a write,
  take and write what is in the slot, leave; at every point of the run a worker that has not ended has
  a step of its own open to it, so it only stops by ending; and the shutdown waiting to join it can
  return as soon as it has.
\<close>
theorem stopped_worker_ends:
  assumes "save_run macos (save_init path d) before = Some s" "sp_stop (sv_pending s)" "save_run macos s es = Some s'"
  shows "length (filter worker_event es) \<le> 4 \<and>
    (sv_worker s' \<in> {Not_Started, Ended} \<or> (\<exists>e. worker_event e \<and> save_step macos s' e \<noteq> None)) \<and>
    (case sv_shutdown s' of Shutdown_Joining h \<Rightarrow> sv_worker s' \<in> {Not_Started, Ended} \<longrightarrow> save_step macos s' Shutdown_Joined \<noteq> None
     | _ \<Rightarrow> True)"
proof -
  have run: "length (filter worker_event es) + work_left s' \<le> work_left s" "save_inv s'" "sp_stop (sv_pending s')"
    using stopped_run [OF save_inv_run [OF save_inv_init assms(1)] assms(2,3)] by simp_all
  have "work_left s \<le> 4" by (simp add: work_left_def split: worker.split)
  moreover have "sv_worker s' = Not_Started \<longrightarrow> \<not> h" if "sv_shutdown s' = Shutdown_Joining h" for h
    using run(2) that by (simp add: save_inv_def thread_inv_def)
  ultimately show ?thesis using run stopped_not_stuck [OF run(3), of macos]
    by (auto split: shutdown.split)
qed

section \<open>Examples\<close>

text \<open>Two savers; the first snapshot is being written when the second is offered, then the shutdown comes.\<close>

definition example_changed :: settings_data where
  "example_changed = default_settings\<lparr>sd_force_transcoding := True\<rparr>"

definition example_saves :: "save_event list" where
  "example_saves =
     [Snapshot 0, Open_Cell 0, Lock_Handle 0, Offer 0, Start_And_Release 0, Worker_Takes,
      Setting_Changed example_changed, Snapshot 1, Open_Cell 1, Shutdown_Flag]"

definition example_saved :: save_system where
  "example_saved = the (save_run False (save_init (u ''s.json'') default_settings) example_saves)"

lemma example_saves_run: "save_run False (save_init (u ''s.json'') default_settings) example_saves = Some example_saved"
  by (simp add: example_saved_def example_saves_def save_init_def)

lemma example_saved_state: "sv_worker example_saved = Writing (u ''s.json'', default_settings)" "sp_stop (sv_pending example_saved)"
  by (simp_all add: example_saved_def example_saves_def save_init_def)

lemma shutdown_drains_queue_witness: "subseq (sv_taken example_saved) (sv_queued example_saved)"
  using shutdown_drains_queue [OF example_saves_run] by blast

definition example_ending :: "save_event list" where
  "example_ending =
     [Shutdown_Flag, Lock_Handle 1, Offer 1, Worker_Writes True, Start_And_Release 1, Shutdown_Takes_Handle, Worker_Leaves]"

lemma stopped_worker_ends_witness:
  "length (filter worker_event example_ending) \<le> 4 \<and>
   (case save_run False example_saved example_ending of
      Some s' \<Rightarrow> sv_worker s' = Ended \<and> save_step False s' Shutdown_Joined \<noteq> None | None \<Rightarrow> False)"
proof -
  have "save_run False example_saved example_ending \<noteq> None"
    by (simp add: example_saved_def example_saves_def save_init_def example_ending_def)
  then obtain s' where s': "save_run False example_saved example_ending = Some s'" by blast
  have "sv_worker s' = Ended" "sv_shutdown s' = Shutdown_Joining True"
    using s' by (auto simp: example_saved_def example_saves_def save_init_def example_ending_def)
  then show ?thesis using stopped_worker_ends [OF example_saves_run example_saved_state(2) s'] s' by simp
qed

text \<open>
  The snapshot is taken before the handle lock: a saver that is overtaken between the two queues its
  older snapshot after the newer one. Nothing else happens here, both saves return, the shutdown
  drains - and the file ends with settings that are not those in memory.
\<close>

definition overtaken :: "save_event list" where
  "overtaken =
     [Snapshot 0, Open_Cell 0, Setting_Changed example_changed,
      Snapshot 1, Open_Cell 1, Lock_Handle 1, Offer 1, Start_And_Release 1, Worker_Takes, Worker_Writes True,
      Lock_Handle 0, Offer 0, Start_And_Release 0, Worker_Takes, Worker_Writes True,
      Shutdown_Flag, Shutdown_Takes_Handle, Worker_Leaves, Shutdown_Joined]"

lemma overtaken_save_is_stale:
  "\<exists>s. save_run False (save_init p default_settings) overtaken = Some s \<and> sv_shutdown s = Shutdown_Done \<and>
     sv_data s = example_changed \<and> sv_files s p = Some (to_file False default_settings) \<and>
     to_file False example_changed \<noteq> to_file False default_settings"
  by (simp add: overtaken_def save_init_def write_file_def)
    (simp add: to_file_def example_changed_def default_settings_def default_saved_def then_some_def Let_def)

text \<open>
  A shutdown before the first save does not set the flag: a later save is not a no-op, it starts a
  worker that nobody joins.
\<close>
lemma early_shutdown_stops_nothing:
  "\<exists>s. save_run False (save_init p d) [Shutdown_Flag, Snapshot 0, Open_Cell 0, Lock_Handle 0, Offer 0, Start_And_Release 0] = Some s \<and>
     sv_worker s = Waiting \<and> sp_data (sv_pending s) = Some d \<and> \<not> sp_stop (sv_pending s)"
  by (simp add: save_init_def)

end
