(* ===== verification/Wayland_Scale.thy ===== *)
theory Wayland_Scale
  imports Ieee
begin

text \<open>
  Wayland window sizes and scales: the fractional scale in 120ths (\<open>wayland/src/scale.rs\<close>) and the
  owner of the window's scale and extent (\<open>wayland/src/window_state.rs\<close>), whose consumers read the
  extent as one value.
\<close>

section \<open>Scale\<close>

record window_size =
  wz_w :: int
  wz_h :: int

definition window_size_new :: "int \<Rightarrow> int \<Rightarrow> window_size option" where
  "window_size_new w h = (if 0 < w \<and> 0 < h then Some \<lparr>wz_w = w, wz_h = h\<rparr> else None)"

text \<open>A scale is a positive number of 120ths that fits \<open>u32\<close>.\<close>

type_synonym scale120 = int

definition SCALE_BASE :: int where "SCALE_BASE = 120"

definition SCALE_UNIT :: scale120 where "SCALE_UNIT = SCALE_BASE"

definition scale_from_wire :: "int \<Rightarrow> scale120 option" where
  "scale_from_wire raw = (if raw = 0 then None else Some raw)"

definition checked_i64 :: "int \<Rightarrow> int option" where
  "checked_i64 i = (if is_i64 i then Some i else None)"

definition checked_i32 :: "int \<Rightarrow> int option" where
  "checked_i32 i = (if is_i32 i then Some i else None)"

definition scale_from_physical_logical :: "int \<Rightarrow> int \<Rightarrow> scale120 option" where
  "scale_from_physical_logical physical logical =
     (let num = physical * SCALE_BASE
      in if u64_max < num then None
         else let scaled = (num + logical div 2) div logical
              in if 4294967295 < scaled then None else scale_from_wire scaled)"

definition scale_ratio_f32 :: "scale120 \<Rightarrow> f32" where
  "scale_ratio_f32 s = f_div single (f_of_int single s) (f_of_int single SCALE_BASE)"

definition scale_dim :: "scale120 \<Rightarrow> int \<Rightarrow> int option" where
  "scale_dim s logical =
     Option.bind (checked_i64 (logical * s)) (\<lambda>m.
     Option.bind (checked_i64 (m + trunc_div SCALE_BASE 2)) (\<lambda>n. checked_i32 (trunc_div n SCALE_BASE)))"

definition scale_physical_size :: "scale120 \<Rightarrow> window_size \<Rightarrow> window_size option" where
  "scale_physical_size s logical =
     Option.bind (scale_dim s (wz_w logical)) (\<lambda>w.
     Option.bind (scale_dim s (wz_h logical)) (\<lambda>h. window_size_new w h))"

section \<open>Window state\<close>

datatype window_mode = Floating | Tiled | Maximized | Fullscreen

fun uses_floating_restore :: "window_mode \<Rightarrow> bool" where
  "uses_floating_restore m = (m = Floating)"

datatype provenance = Provisional | Authoritative

record known_scale =
  ks_scale :: scale120
  ks_provenance :: provenance

record wl_extent =
  wx_logical :: window_size
  wx_physical :: window_size
  wx_scale :: known_scale
  wx_generation :: int
  wx_mode :: window_mode

definition extent_build :: "window_size \<Rightarrow> known_scale \<Rightarrow> window_mode \<Rightarrow> int \<Rightarrow> wl_extent option" where
  "extent_build logical scale mode generation =
     map_option (\<lambda>physical. \<lparr>wx_logical = logical, wx_physical = physical, wx_scale = scale,
                   wx_generation = generation, wx_mode = mode\<rparr>)
       (scale_physical_size (ks_scale scale) logical)"

record window_inner =
  wi_scale :: "known_scale option"
  wi_extent :: "wl_extent option"
  wi_generation :: int

definition window_inner_new :: window_inner where
  "window_inner_new = \<lparr>wi_scale = None, wi_extent = None, wi_generation = 0\<rparr>"

definition known_scale_of :: "window_inner \<Rightarrow> scale120 option" where
  "known_scale_of st = map_option ks_scale (wi_scale st)"

definition cached_scale :: "window_inner \<Rightarrow> f32" where
  "cached_scale st =
     (case (wi_extent st, wi_scale st) of
        (Some e, _) \<Rightarrow> scale_ratio_f32 (ks_scale (wx_scale e))
      | (None, Some k) \<Rightarrow> scale_ratio_f32 (ks_scale k)
      | (None, None) \<Rightarrow> Fin 1 0)"

definition scale_displaces :: "provenance option \<Rightarrow> provenance \<Rightarrow> bool" where
  "scale_displaces current incoming =
     (case (current, incoming) of
        (None, _) \<Rightarrow> True
      | (Some _, Authoritative) \<Rightarrow> True
      | (Some cur, Provisional) \<Rightarrow> cur = Provisional)"

definition feed_scale :: "scale120 \<Rightarrow> provenance \<Rightarrow> window_inner \<Rightarrow> window_inner" where
  "feed_scale scale prov st =
     (if \<not> scale_displaces (map_option ks_provenance (wi_scale st)) prov then st
      else st\<lparr>wi_scale := Some \<lparr>ks_scale = scale, ks_provenance = prov\<rparr>\<rparr>)"

definition feed_unit_scale :: "window_inner \<Rightarrow> window_inner" where
  "feed_unit_scale = feed_scale SCALE_UNIT Provisional"

text \<open>Publishing a size: the new state, and the extent the consumers are then told of, if any.\<close>

definition publish_size :: "window_size \<Rightarrow> window_mode \<Rightarrow> window_inner \<Rightarrow> window_inner \<times> wl_extent option" where
  "publish_size logical mode st =
     (case wi_scale st of
        None \<Rightarrow> (st, None)
      | Some scale \<Rightarrow>
          (let st = st\<lparr>wi_generation := wi_generation st + 1\<rparr>;
               extent = extent_build logical scale mode (wi_generation st)
           in (case extent of None \<Rightarrow> st | Some e \<Rightarrow> st\<lparr>wi_extent := Some e\<rparr>, extent)))"

section \<open>Properties\<close>

definition scale_valid :: "scale120 \<Rightarrow> bool" where
  "scale_valid s \<longleftrightarrow> 0 < s \<and> s < 4294967296"

definition size_valid :: "window_size \<Rightarrow> bool" where
  "size_valid z \<longleftrightarrow> 0 < wz_w z \<and> wz_w z \<le> i32_max \<and> 0 < wz_h z \<and> wz_h z \<le> i32_max"

text \<open>Neither checked operation can fail on sizes: only the last conversion can.\<close>

lemma scale_dim_eq:
  assumes "scale_valid s" "0 < l" "l \<le> i32_max"
  shows "scale_dim s l = checked_i32 ((l * s + 60) div 120)"
proof -
  have "l * s \<le> i32_max * 4294967295"
    using assms by (intro mult_mono) (auto simp: scale_valid_def)
  moreover have "0 < l * s" using assms by (simp add: scale_valid_def)
  ultimately show ?thesis
    by (simp add: scale_dim_def checked_i64_def is_i64_def SCALE_BASE_def trunc_div_nonneg)
qed

text \<open>
  A physical size is the logical size times the scale, each side rounded to the nearest pixel,
  halves up - or there is none, and then a side would be zero or not fit \<open>i32\<close>.
\<close>
theorem physical_size_rounds:
  assumes "scale_valid s" "size_valid z"
  shows "(case scale_physical_size s z of
      Some p \<Rightarrow> size_valid p \<and> \<bar>120 * wz_w p - wz_w z * s\<bar> \<le> 60 \<and> \<bar>120 * wz_h p - wz_h z * s\<bar> \<le> 60
    | None \<Rightarrow> (\<exists>l. l \<in> {wz_w z, wz_h z} \<and> (l * s < 60 \<or> 120 * i32_max + 60 \<le> l * s)))"
proof -
  define w where "w = (wz_w z * s + 60) div 120"
  define h where "h = (wz_h z * s + 60) div 120"
  have p: "0 < wz_w z * s" "0 < wz_h z * s" using assms by (simp_all add: scale_valid_def size_valid_def)
  have nonneg: "0 \<le> w" "0 \<le> h" using p by (simp_all add: w_def h_def)
  have "scale_dim s (wz_w z) = checked_i32 w" "scale_dim s (wz_h z) = checked_i32 h"
    using assms scale_dim_eq by (simp_all add: size_valid_def w_def h_def)
  then have "scale_physical_size s z =
      (if w \<le> i32_max \<and> h \<le> i32_max then window_size_new w h else None)"
    using nonneg by (simp add: scale_physical_size_def checked_i32_def is_i32_def)
  moreover have "120 * w \<le> wz_w z * s + 60" "wz_w z * s + 60 < 120 * w + 120"
    "120 * h \<le> wz_h z * s + 60" "wz_h z * s + 60 < 120 * h + 120"
    by (auto simp: w_def h_def)
  ultimately show ?thesis
    by (auto simp: window_size_new_def size_valid_def abs_le_iff split: if_splits)
qed

lemma physical_size_rounds_witness:
  "scale_physical_size 150 \<lparr>wz_w = 1281, wz_h = 720\<rparr> = Some \<lparr>wz_w = 1601, wz_h = 900\<rparr> \<and>
   (\<exists>p. scale_physical_size 150 \<lparr>wz_w = 1281, wz_h = 720\<rparr> = Some p \<and> size_valid p)"
proof -
  have "scale_physical_size 150 \<lparr>wz_w = 1281, wz_h = 720\<rparr> = Some \<lparr>wz_w = 1601, wz_h = 900\<rparr>" by code_simp
  moreover have "scale_valid 150" "size_valid \<lparr>wz_w = 1281, wz_h = 720\<rparr>" by (simp_all add: scale_valid_def size_valid_def)
  ultimately show ?thesis using physical_size_rounds [of 150 "\<lparr>wz_w = 1281, wz_h = 720\<rparr>"] by simp
qed

definition inner_ok :: "window_inner \<Rightarrow> bool" where
  "inner_ok st \<longleftrightarrow>
     (case wi_scale st of None \<Rightarrow> wi_extent st = None | Some k \<Rightarrow> scale_valid (ks_scale k)) \<and>
     (case wi_extent st of None \<Rightarrow> True | Some e \<Rightarrow> scale_valid (ks_scale (wx_scale e)) \<and>
        scale_physical_size (ks_scale (wx_scale e)) (wx_logical e) = Some (wx_physical e) \<and>
        wx_generation e \<le> wi_generation st)"

lemma inner_ok_new: "inner_ok window_inner_new"
  by (simp add: inner_ok_def window_inner_new_def)

lemma inner_ok_feed: "inner_ok st \<Longrightarrow> scale_valid s \<Longrightarrow> inner_ok (feed_scale s prov st)"
  by (auto simp: inner_ok_def feed_scale_def split: option.splits)

lemma inner_ok_publish: "inner_ok st \<Longrightarrow> inner_ok (fst (publish_size z m st))"
  by (auto simp: inner_ok_def publish_size_def extent_build_def Let_def split: option.splits)

text \<open>The scale kept after any feeds: the last authoritative one if there was one, else the last.\<close>

definition feed_all :: "(scale120 \<times> provenance) list \<Rightarrow> window_inner \<Rightarrow> window_inner" where
  "feed_all fs st = fold (\<lambda>(s, prov). feed_scale s prov) fs st"

text \<open>
  A stand-in never displaces the compositor's scale. After any sequence of scales fed - probes that
  return late included - the scale kept is the last authoritative one if there was any, and the
  last one fed otherwise.
\<close>
theorem authoritative_scale_stays:
  "wi_scale (feed_all fs window_inner_new) =
     (let auth = filter (\<lambda>(s, prov). prov = Authoritative) fs; kept = (if auth = [] then fs else auth)
      in if kept = [] then None else Some \<lparr>ks_scale = fst (last kept), ks_provenance = snd (last kept)\<rparr>)"
proof (induction fs rule: rev_induct)
  case Nil
  then show ?case by (simp add: feed_all_def window_inner_new_def Let_def)
next
  case (snoc f fs)
  obtain s prov where f: "f = (s, prov)" by fastforce
  have last: "snd (last (filter (\<lambda>(s, prov). prov = Authoritative) fs)) = Authoritative"
    if "filter (\<lambda>(s, prov). prov = Authoritative) fs \<noteq> []"
    using last_in_set [OF that] by auto
  have none: "snd (last fs) = Provisional" if "filter (\<lambda>(s, prov). prov = Authoritative) fs = []" "fs \<noteq> []"
    using that last_in_set [OF that(2)] by (cases "snd (last fs)") (auto simp: filter_empty_conv split_beta)
  show ?case
    using snoc last none
    by (cases prov) (auto simp: feed_all_def f feed_scale_def scale_displaces_def Let_def split: if_splits)
qed

end
