(* ===== verification/Root_Window.thy ===== *)
theory Root_Window
  imports Wayland_Scale Menu_Engine Config
begin

text \<open>
  The Wayland root window (\<open>wayland/src/root_window.rs\<close>): what other threads leave for its thread, the
  presentation decision, the handlers of the compositor's events, the menu popup (with the
  surface of \<open>wayland/src/popup.rs\<close>) and the loop that settles before it sleeps. Every operation
  returns the requests it makes of the compositor and the notifications it sends. What creating a
  protocol object or a buffer answers is the parameter \<open>ok\<close>, asked by kind and call number.
\<close>

unbundle bit_operations_syntax

section \<open>Requests of other threads\<close>

datatype decoration_request = Deco_Auto | Deco_Client_Side | Deco_Server_Side

fun decoration_for_configured :: "window_decorations option \<Rightarrow> decoration_request" where
  "decoration_for_configured None = Deco_Auto"
| "decoration_for_configured (Some Csd) = Deco_Client_Side"
| "decoration_for_configured (Some _) = Deco_Server_Side"

datatype effective_decorations = Client_Side | Server_Side

type_synonym rgb = "8 word \<times> 8 word \<times> 8 word"

definition BG_SET :: "32 word" where "BG_SET = push_bit 24 1"

definition encode_bg :: "rgb \<Rightarrow> 32 word" where
  "encode_bg c = (case c of (r, g, b) \<Rightarrow> BG_SET OR push_bit 16 (ucast r) OR push_bit 8 (ucast g) OR ucast b)"

definition decode_bg :: "32 word \<Rightarrow> rgb option" where
  "decode_bg v = (if v AND BG_SET \<noteq> 0 then Some (ucast (drop_bit 16 v), ucast (drop_bit 8 v), ucast v) else None)"

definition ROOT_BG :: rgb where "ROOT_BG = (0x10, 0x10, 0x10)"

definition FS_NONE :: nat where "FS_NONE = 0"
definition FS_TOGGLE :: nat where "FS_TOGGLE = 1"
definition FS_ON :: nat where "FS_ON = 2"
definition FS_OFF :: nat where "FS_OFF = 3"

definition fullscreen_request :: "nat \<Rightarrow> bool \<Rightarrow> bool option" where
  "fullscreen_request pending currently_fullscreen =
     (if pending = FS_ON then Some True else if pending = FS_OFF then Some False
      else if pending = FS_TOGGLE then Some (\<not> currently_fullscreen) else None)"

datatype popup_command =
    Popup_Create int placement int
  | Popup_Reposition int placement
  | Popup_Paint menu_paint
  | Popup_Destroy int

datatype window_command =
    Cmd_Move int
  | Cmd_Resize int int
  | Cmd_Set_Maximized bool
  | Cmd_Minimize
  | Cmd_Set_Palette string
  | Cmd_Popup popup_command

text \<open>
  The menu's surface operations as commands; a popup without a serial of its own cites the seat's
  last. What a teardown does to the swallowed loss of the keyboard focus is its second result.
\<close>

datatype focus_effect = Focus_None | Focus_Discard | Focus_Flush

definition popup_op :: "int \<Rightarrow> surface_op \<Rightarrow> window_command \<times> focus_effect" where
  "popup_op last_serial x =
     (case x of
        Op_Create g place serial \<Rightarrow> (Cmd_Popup (Popup_Create g place (if serial \<noteq> 0 then serial else last_serial)), Focus_None)
      | Op_Reposition g place \<Rightarrow> (Cmd_Popup (Popup_Reposition g place), Focus_None)
      | Op_Present paint \<Rightarrow> (Cmd_Popup (Popup_Paint paint), Focus_None)
      | Op_Destroy g reason \<Rightarrow> (Cmd_Popup (Popup_Destroy g),
          (case reason of Speculative \<Rightarrow> Focus_Discard | External \<Rightarrow> Focus_Flush | Finished \<Rightarrow> Focus_None)))"

definition matches_menu_surface :: "int \<Rightarrow> int \<Rightarrow> bool" where
  "matches_menu_surface surface_id menu_surface_id \<longleftrightarrow> surface_id \<noteq> 0 \<and> menu_surface_id = surface_id"

section \<open>Presentation decisions\<close>

record plan_inputs =
  pi_mapped :: bool
  pi_pending_configure :: bool
  pi_scale_known :: bool
  pi_size :: "window_size option"

datatype scale_discovery = Discovery_Idle | Discovery_Requested | Discovery_Spawned

fun discovery_request :: "scale_discovery \<Rightarrow> scale_discovery" where
  "discovery_request Discovery_Idle = Discovery_Requested"
| "discovery_request other = other"

fun after_batch_drained :: "scale_discovery \<Rightarrow> bool \<Rightarrow> scale_discovery \<times> bool" where
  "after_batch_drained Discovery_Requested scale_known = (if scale_known then (Discovery_Idle, False) else (Discovery_Spawned, True))"
| "after_batch_drained other scale_known = (other, False)"

datatype plan_step = Plan_Wait | Plan_Discover_Scale | Plan_Present

definition plan_next :: "plan_inputs \<Rightarrow> plan_step" where
  "plan_next i =
     (if \<not> pi_pending_configure i \<and> \<not> pi_mapped i then Plan_Wait
      else if \<not> pi_scale_known i then (if pi_mapped i then Plan_Wait else Plan_Discover_Scale)
      else if pi_size i = None then Plan_Wait
      else Plan_Present)"

definition pick_extent :: "window_mode \<Rightarrow> int option \<Rightarrow> int option \<Rightarrow> int option \<Rightarrow> int option" where
  "pick_extent mode pending cur floating =
     (case pending of Some p \<Rightarrow> Some p | None \<Rightarrow> if uses_floating_restore mode then floating else cur)"

definition resolve_logical_size ::
    "int option \<times> int option \<Rightarrow> window_size option \<Rightarrow> window_size option \<Rightarrow> window_mode \<Rightarrow> window_size option" where
  "resolve_logical_size pending cur floating mode =
     Option.bind (pick_extent mode (fst pending) (map_option wz_w cur) (map_option wz_w floating)) (\<lambda>w.
     Option.bind (pick_extent mode (snd pending) (map_option wz_h cur) (map_option wz_h floating)) (\<lambda>h.
       window_size_new w h))"

definition floating_record :: "window_mode \<Rightarrow> int \<Rightarrow> int \<Rightarrow> window_size option \<Rightarrow> window_size option" where
  "floating_record mode w h floating = (if uses_floating_restore mode then window_size_new w h else floating)"

text \<open>Any tiled edge tiles; fullscreen and maximized come first.\<close>

definition window_mode_of :: "bool \<Rightarrow> bool \<Rightarrow> bool \<Rightarrow> window_mode" where
  "window_mode_of fullscreen maximized tiled =
     (if fullscreen then Fullscreen else if maximized then Maximized else if tiled then Tiled else Floating)"

definition logical_extent :: "int \<Rightarrow> int option" where
  "logical_extent v = Option.bind (checked_i32 v) (\<lambda>i. if i = 0 then None else Some i)"

section \<open>The menu popup\<close>

record placed =
  pd_sent :: placement
  pd_held :: "placement option"

definition placed_created :: "placement \<Rightarrow> placed" where
  "placed_created sent = \<lparr>pd_sent = sent, pd_held = None\<rparr>"

definition placed_hold :: "placement \<Rightarrow> placed \<Rightarrow> placed" where
  "placed_hold want p = p\<lparr>pd_held := (if want \<noteq> pd_sent p then Some want else None)\<rparr>"

definition placed_on_map :: "placed \<Rightarrow> placed \<times> placement option" where
  "placed_on_map p =
     (case pd_held p of
        None \<Rightarrow> (p, None)
      | Some place \<Rightarrow> (p\<lparr>pd_sent := place, pd_held := None\<rparr>, Some place))"

definition placed_send :: "placement \<Rightarrow> placed \<Rightarrow> placed \<times> placement option" where
  "placed_send want p = (if want \<noteq> pd_sent p then (p\<lparr>pd_sent := want\<rparr>, Some want) else (p, None))"

text \<open>A live popup: the generation that owns it, the compositor's object, and what it was told of its place.\<close>

record live_popup =
  lp_generation :: int
  lp_popup :: nat
  lp_place :: placed

datatype menu_popup = Popup_None | Popup_Unmapped live_popup | Popup_Mapped live_popup

fun popup_live :: "menu_popup \<Rightarrow> live_popup option" where
  "popup_live Popup_None = None"
| "popup_live (Popup_Unmapped live) = Some live"
| "popup_live (Popup_Mapped live) = Some live"

definition popup_generation :: "menu_popup \<Rightarrow> int option" where
  "popup_generation m = map_option lp_generation (popup_live m)"

section \<open>State\<close>

text \<open>What is asked of the compositor, and who is told what.\<close>

datatype fallible = Make_Positioner | Make_Surface | Make_Popup | Make_Background | Make_Menu_Buffer | Make_Thread | Attach_Buffer

datatype root_out =
    Set_Geometry int int | Viewport_Size int int | Attach_Background rgb | Damage | Commit | Roleless_Commit
  | Req_Move int | Req_Resize int int | Req_Maximize | Req_Unmaximize | Req_Minimize
  | Req_Fullscreen | Req_Unfullscreen | Req_Palette string
  | Popup_Created nat placement | Popup_Grab nat int | Popup_Initial_Commit nat
  | Popup_Attach nat menu_paint | Popup_Move nat placement | Popup_Gone nat
  | Tell_Proxy window_size | Tell_Core bool | Tell_Window wl_extent | Tell_Suspended bool | Tell_Decorations effective_decorations
  | Tell_Menu_Ready int | Tell_Menu_Done int | Spawn_Probe | Shutdown_Requested

text \<open>
  The fields other threads touch, then those of the thread, then what the compositor offers. The
  background buffer is its colour; the number of fallible calls made picks the next answer.
\<close>

record root_window =
  rw_fs :: nat
  rw_maximized :: bool
  rw_pending_bg :: "32 word"
  rw_pending_present :: bool
  rw_commands :: "window_command list"
  rw_fallback_fed :: bool
  rw_menu_surface :: int
  rw_effective :: effective_decorations
  rw_exported :: "string option"
  rw_window :: window_inner
  rw_core :: bool
  rw_size :: "window_size option"
  rw_pending_w :: "int option"
  rw_pending_h :: "int option"
  rw_mode :: window_mode
  rw_suspended :: bool
  rw_floating :: "window_size option"
  rw_pending_configure :: bool
  rw_present :: bool
  rw_discovery :: scale_discovery
  rw_pre_fs_maximized :: bool
  rw_bg :: rgb
  rw_bg_buffer :: "rgb option"
  rw_menu :: menu_popup
  rw_armed_gen :: int
  rw_viewport :: bool
  rw_seat :: bool
  rw_palette :: bool
  rw_decorations_negotiated :: bool
  rw_calls :: nat

definition DEFAULT_W :: int where "DEFAULT_W = 1280"
definition DEFAULT_H :: int where "DEFAULT_H = 720"

record boot_size =
  bs_w :: int
  bs_h :: int
  bs_maximized :: bool

definition boot_default :: boot_size where
  "boot_default = \<lparr>bs_w = DEFAULT_W, bs_h = DEFAULT_H, bs_maximized = False\<rparr>"

definition set_boot_geometry :: "int \<Rightarrow> int \<Rightarrow> bool \<Rightarrow> boot_size \<Rightarrow> boot_size" where
  "set_boot_geometry w h maximized boot =
     (case window_size_new w h of
        Some z \<Rightarrow> boot\<lparr>bs_w := wz_w z, bs_h := wz_h z, bs_maximized := maximized\<rparr>
      | None \<Rightarrow> boot\<lparr>bs_maximized := maximized\<rparr>)"

text \<open>
  The globals the compositor offers at the start; without a scale manager the unit scale is fed,
  without decoration negotiation an explicit server-side request is taken as granted.
\<close>

record offered =
  of_viewporter :: bool
  of_scale_manager :: bool
  of_decorations :: bool
  of_palette :: bool
  of_seat :: bool

definition root_start :: "offered \<Rightarrow> boot_size \<Rightarrow> decoration_request \<Rightarrow> 32 word \<Rightarrow> root_window \<times> root_out list" where
  "root_start offer boot request bg =
     (let granted = \<not> of_decorations offer \<and> request = Deco_Server_Side
      in (\<lparr>rw_fs = FS_NONE, rw_maximized = False, rw_pending_bg = bg, rw_pending_present = False, rw_commands = [],
           rw_fallback_fed = False, rw_menu_surface = 0, rw_effective = (if granted then Server_Side else Client_Side),
           rw_exported = None,
           rw_window = (if of_scale_manager offer then window_inner_new else feed_unit_scale window_inner_new),
           rw_core = False, rw_size = None, rw_pending_w = None, rw_pending_h = None, rw_mode = Floating,
           rw_suspended = False, rw_floating = floating_record Floating (bs_w boot) (bs_h boot) None,
           rw_pending_configure = False, rw_present = False, rw_discovery = Discovery_Idle, rw_pre_fs_maximized = False,
           rw_bg = (case decode_bg bg of None \<Rightarrow> ROOT_BG | Some c \<Rightarrow> c), rw_bg_buffer = None, rw_menu = Popup_None,
           rw_armed_gen = 0, rw_viewport = of_viewporter offer, rw_seat = of_seat offer, rw_palette = of_palette offer,
           rw_decorations_negotiated = of_decorations offer, rw_calls = 0\<rparr>,
          (if bs_maximized boot then [Req_Maximize] else []) @ (if granted then [Tell_Decorations Server_Side] else []) @
          [Set_Geometry (bs_w boot) (bs_h boot), Roleless_Commit]))"

section \<open>Operations of the root thread\<close>

type_synonym answers = "fallible \<Rightarrow> nat \<Rightarrow> bool"

definition ask :: "answers \<Rightarrow> fallible \<Rightarrow> root_window \<Rightarrow> root_window \<times> bool" where
  "ask ok what s = (s\<lparr>rw_calls := rw_calls s + 1\<rparr>, ok what (rw_calls s))"

definition resolve_logical :: "root_window \<Rightarrow> window_size option" where
  "resolve_logical s = resolve_logical_size (rw_pending_w s, rw_pending_h s) (rw_size s) (rw_floating s) (rw_mode s)"

definition attach_background :: "answers \<Rightarrow> root_window \<Rightarrow> root_window \<times> root_out list" where
  "attach_background ok s =
     (case rw_bg_buffer s of
        None \<Rightarrow> (s, [])
      | Some c \<Rightarrow> (let (s, attached) = ask ok Attach_Buffer s in (s, if attached then [Attach_Background c] else [])))"

definition create_solid_buffer :: "answers \<Rightarrow> root_window \<Rightarrow> root_window \<times> rgb option" where
  "create_solid_buffer ok s = (let (s, made) = ask ok Make_Background s in (s, if made then Some (rw_bg s) else None))"

definition fill_background :: "answers \<Rightarrow> int \<Rightarrow> int \<Rightarrow> root_window \<Rightarrow> root_window \<times> root_out list" where
  "fill_background ok w h s =
     (let vp = (if rw_viewport s then [Viewport_Size w h] else []);
          (s, attach) =
            (if rw_bg_buffer s = None
             then let (s, buf) = create_solid_buffer ok s in attach_background ok (s\<lparr>rw_bg_buffer := buf\<rparr>)
             else (s, []))
      in (s, vp @ attach @ [Damage]))"

definition rebuild_background :: "answers \<Rightarrow> int \<Rightarrow> int \<Rightarrow> root_window \<Rightarrow> root_window \<times> root_out list" where
  "rebuild_background ok w h s =
     (case create_solid_buffer ok s of
        (s, None) \<Rightarrow> (s, [])
      | (s, Some c) \<Rightarrow>
          (let (s, attach) = attach_background ok (s\<lparr>rw_bg_buffer := Some c\<rparr>)
           in (s, attach @ (if rw_viewport s then [Viewport_Size w h] else []) @ [Damage])))"

text \<open>\<open>WindowState::publish\<close> with its consumers: the maximized flag, the surfaces, everybody else.\<close>

definition publish :: "window_size \<Rightarrow> root_window \<Rightarrow> root_window \<times> root_out list" where
  "publish z s =
     (case publish_size z (rw_mode s) (rw_window s) of
        (st, None) \<Rightarrow> (s\<lparr>rw_window := st\<rparr>, [])
      | (st, Some e) \<Rightarrow>
          (s\<lparr>rw_window := st, rw_maximized := (rw_mode s = Maximized)\<rparr>,
           (if rw_core s then [Tell_Core (rw_mode s = Fullscreen)] else []) @ [Tell_Window e]))"

definition execute_present :: "answers \<Rightarrow> root_window \<Rightarrow> root_window \<times> root_out list" where
  "execute_present ok s =
     (case resolve_logical s of
        None \<Rightarrow> (s, [])
      | Some z \<Rightarrow>
          if \<not> rw_pending_configure s \<and> \<not> rw_present s then (s, [])
          else
            (let s = (if rw_pending_configure s then s\<lparr>rw_pending_configure := False, rw_present := True\<rparr> else s);
                 (s, fill) = fill_background ok (wz_w z) (wz_h z) s;
                 s = s\<lparr>rw_size := Some z, rw_floating := floating_record (rw_mode s) (wz_w z) (wz_h z) (rw_floating s)\<rparr>;
                 (s, told) = publish z s
             in (s\<lparr>rw_pending_present := True\<rparr>, [Set_Geometry (wz_w z) (wz_h z)] @ fill @ [Tell_Proxy z] @ told)))"

definition plan_of :: "root_window \<Rightarrow> plan_step" where
  "plan_of s = plan_next
     \<lparr>pi_mapped = rw_present s, pi_pending_configure = rw_pending_configure s,
      pi_scale_known = known_scale_of (rw_window s) \<noteq> None, pi_size = resolve_logical s\<rparr>"

definition try_present :: "answers \<Rightarrow> root_window \<Rightarrow> root_window \<times> root_out list" where
  "try_present ok s =
     (case plan_of s of
        Plan_Wait \<Rightarrow> (s, [])
      | Plan_Discover_Scale \<Rightarrow> (s\<lparr>rw_discovery := discovery_request (rw_discovery s)\<rparr>, [])
      | Plan_Present \<Rightarrow> execute_present ok s)"

definition service_scale_discovery :: "answers \<Rightarrow> root_window \<Rightarrow> root_window \<times> root_out list" where
  "service_scale_discovery ok s =
     (let (d, spawn) = after_batch_drained (rw_discovery s) (known_scale_of (rw_window s) \<noteq> None);
          s = s\<lparr>rw_discovery := d\<rparr>
      in if \<not> spawn then (s, [])
         else case ask ok Make_Thread s of
                (s, True) \<Rightarrow> (s, [Spawn_Probe])
              | (s, False) \<Rightarrow> try_present ok (s\<lparr>rw_window := feed_unit_scale (rw_window s)\<rparr>))"

section \<open>The popup's operations\<close>

definition drop_popup :: "menu_popup \<Rightarrow> root_out list" where
  "drop_popup m = (case popup_live m of None \<Rightarrow> [] | Some live \<Rightarrow> [Popup_Gone (lp_popup live)])"

definition popup_move :: "answers \<Rightarrow> live_popup \<Rightarrow> placement \<Rightarrow> root_window \<Rightarrow> root_window \<times> root_out list" where
  "popup_move ok live place s =
     (case ask ok Make_Positioner s of (s, made) \<Rightarrow> (s, if made then [Popup_Move (lp_popup live) place] else []))"

text \<open>A new popup's number is that of the call that made it; its surface's id is derived from it.\<close>

definition create_menu_popup :: "answers \<Rightarrow> int \<Rightarrow> placement \<Rightarrow> int \<Rightarrow> root_window \<Rightarrow> root_window \<times> root_out list" where
  "create_menu_popup ok generation place serial s =
     (if generation \<le> rw_armed_gen s then (s, [])
      else
        (let gone = drop_popup (rw_menu s); s = s\<lparr>rw_armed_gen := generation, rw_menu := Popup_None\<rparr>
         in case ask ok Make_Positioner s of
              (s, False) \<Rightarrow> (s, gone)
            | (s, True) \<Rightarrow>
                (case ask ok Make_Surface s of
                   (s, False) \<Rightarrow> (s, gone)
                 | (s, True) \<Rightarrow>
                     (let popup = rw_calls s
                      in case ask ok Make_Popup s of
                           (s, False) \<Rightarrow> (s, gone)
                         | (s, True) \<Rightarrow>
                             (s\<lparr>rw_menu_surface := int popup,
                                rw_menu := Popup_Unmapped \<lparr>lp_generation = generation, lp_popup = popup, lp_place = placed_created place\<rparr>\<rparr>,
                              gone @ [Popup_Created popup place] @ (if rw_seat s then [Popup_Grab popup serial] else []) @
                              [Popup_Initial_Commit popup])))))"

definition reposition_menu_popup :: "answers \<Rightarrow> int \<Rightarrow> placement \<Rightarrow> root_window \<Rightarrow> root_window \<times> root_out list" where
  "reposition_menu_popup ok generation want s =
     (if popup_generation (rw_menu s) \<noteq> Some generation then (s, [])
      else case rw_menu s of
             Popup_None \<Rightarrow> (s, [])
           | Popup_Unmapped live \<Rightarrow> (s\<lparr>rw_menu := Popup_Unmapped (live\<lparr>lp_place := placed_hold want (lp_place live)\<rparr>)\<rparr>, [])
           | Popup_Mapped live \<Rightarrow>
               (case placed_send want (lp_place live) of
                  (p, None) \<Rightarrow> (s\<lparr>rw_menu := Popup_Mapped (live\<lparr>lp_place := p\<rparr>)\<rparr>, [])
                | (p, Some place) \<Rightarrow> popup_move ok live place (s\<lparr>rw_menu := Popup_Mapped (live\<lparr>lp_place := p\<rparr>)\<rparr>)))"

definition paint_menu_popup :: "answers \<Rightarrow> menu_paint \<Rightarrow> root_window \<Rightarrow> root_window \<times> root_out list" where
  "paint_menu_popup ok paint s =
     (if popup_generation (rw_menu s) \<noteq> Some (mp_generation paint) then (s, [])
      else
        (case ask ok Make_Menu_Buffer s of
           (s, False) \<Rightarrow> (s, [])
         | (s, True) \<Rightarrow>
             (case popup_live (rw_menu s) of
                None \<Rightarrow> (s, [])
              | Some live \<Rightarrow>
                  (let (p, held) = placed_on_map (lp_place live); live = live\<lparr>lp_place := p\<rparr>;
                       (s, moved) = (case held of None \<Rightarrow> (s, []) | Some place \<Rightarrow> popup_move ok live place s)
                   in (s\<lparr>rw_menu := Popup_Mapped live\<rparr>, Popup_Attach (lp_popup live) paint # moved)))))"

definition destroy_menu_popup :: "int \<Rightarrow> root_window \<Rightarrow> root_window \<times> root_out list" where
  "destroy_menu_popup generation s =
     (if popup_generation (rw_menu s) \<noteq> Some generation then (s, [])
      else (s\<lparr>rw_menu := Popup_None\<rparr>, drop_popup (rw_menu s)))"

definition menu_generation :: "nat \<Rightarrow> root_window \<Rightarrow> int option" where
  "menu_generation popup s =
     (case popup_live (rw_menu s) of
        None \<Rightarrow> None | Some live \<Rightarrow> if lp_popup live = popup then Some (lp_generation live) else None)"

section \<open>Requests serviced\<close>

fun popup_step :: "answers \<Rightarrow> popup_command \<Rightarrow> root_window \<Rightarrow> root_window \<times> root_out list" where
  "popup_step ok (Popup_Create g place serial) s = create_menu_popup ok g place serial s"
| "popup_step ok (Popup_Reposition g place) s = reposition_menu_popup ok g place s"
| "popup_step ok (Popup_Paint paint) s = paint_menu_popup ok paint s"
| "popup_step ok (Popup_Destroy g) s = destroy_menu_popup g s"

text \<open>The edges of \<open>xdg_toplevel\<close>: none, top, bottom, left and right with the corners between.\<close>

definition resize_edge :: "int \<Rightarrow> bool" where
  "resize_edge edge \<longleftrightarrow> edge \<in> {0, 1, 2, 4, 5, 6, 8, 9, 10}"

fun apply_command :: "answers \<Rightarrow> window_command \<Rightarrow> root_window \<Rightarrow> root_window \<times> root_out list" where
  "apply_command ok (Cmd_Move serial) s = (s, if rw_seat s then [Req_Move serial] else [])"
| "apply_command ok (Cmd_Resize serial edge) s = (s, if rw_seat s \<and> resize_edge edge then [Req_Resize serial edge] else [])"
| "apply_command ok (Cmd_Set_Maximized on) s = (s, [if on then Req_Maximize else Req_Unmaximize])"
| "apply_command ok Cmd_Minimize s = (s, [Req_Minimize])"
| "apply_command ok (Cmd_Set_Palette path) s = (s, if rw_palette s then [Req_Palette path] else [])"
| "apply_command ok (Cmd_Popup c) s = popup_step ok c s"

definition apply_fullscreen :: "bool \<Rightarrow> root_window \<Rightarrow> root_window \<times> root_out list" where
  "apply_fullscreen on s =
     (if on
      then (if rw_mode s \<noteq> Fullscreen then s\<lparr>rw_pre_fs_maximized := (rw_mode s = Maximized)\<rparr> else s, [Req_Fullscreen])
      else (s\<lparr>rw_pre_fs_maximized := False\<rparr>, Req_Unfullscreen # (if rw_pre_fs_maximized s then [Req_Maximize] else [])))"

text \<open>A new background colour; \<open>True\<close> when there was one.\<close>

definition service_background :: "answers \<Rightarrow> root_window \<Rightarrow> (root_window \<times> root_out list) \<times> bool" where
  "service_background ok s =
     (case decode_bg (rw_pending_bg s) of
        None \<Rightarrow> ((s, []), False)
      | Some bg \<Rightarrow>
          if bg = rw_bg s then ((s, []), False)
          else
            (let s = s\<lparr>rw_bg := bg\<rparr>
             in (if rw_present s
                 then (case rw_size s of
                         None \<Rightarrow> (s, [])
                       | Some z \<Rightarrow> (let (s, outs) = rebuild_background ok (wz_w z) (wz_h z) s in (s\<lparr>rw_pending_present := True\<rparr>, outs)))
                 else (s, []), True)))"

section \<open>Events of the compositor\<close>

record configure =
  cf_w :: "int option"
  cf_h :: "int option"
  cf_fullscreen :: bool
  cf_maximized :: bool
  cf_tiled :: bool
  cf_suspended :: bool
  cf_decoration :: effective_decorations

datatype compositor_event =
    Ev_Configure configure
  | Ev_Preferred_Scale int
  | Ev_Close
  | Ev_Popup_Configure nat
  | Ev_Popup_Done nat
  | Ev_Exported string

definition on_configure :: "answers \<Rightarrow> configure \<Rightarrow> root_window \<Rightarrow> root_window \<times> root_out list" where
  "on_configure ok c s =
     (let s = s\<lparr>rw_pending_w := Option.bind (cf_w c) logical_extent, rw_pending_h := Option.bind (cf_h c) logical_extent,
               rw_mode := window_mode_of (cf_fullscreen c) (cf_maximized c) (cf_tiled c)\<rparr>;
          susp = (if cf_suspended c \<noteq> rw_suspended s then [Tell_Suspended (cf_suspended c)] else []);
          s = s\<lparr>rw_suspended := cf_suspended c\<rparr>;
          deco = (if rw_decorations_negotiated s \<and> cf_decoration c \<noteq> rw_effective s then [Tell_Decorations (cf_decoration c)] else []);
          s = (if rw_decorations_negotiated s then s\<lparr>rw_effective := cf_decoration c\<rparr> else s);
          (s, outs) = try_present ok (s\<lparr>rw_pending_configure := True\<rparr>)
      in (s, susp @ deco @ outs))"

definition on_preferred_scale :: "answers \<Rightarrow> int \<Rightarrow> root_window \<Rightarrow> root_window \<times> root_out list" where
  "on_preferred_scale ok raw s =
     (case scale_from_wire raw of
        None \<Rightarrow> (s, [])
      | Some scale \<Rightarrow> try_present ok (s\<lparr>rw_window := feed_scale scale Authoritative (rw_window s)\<rparr>))"

fun deliver :: "answers \<Rightarrow> compositor_event \<Rightarrow> root_window \<Rightarrow> root_window \<times> root_out list" where
  "deliver ok (Ev_Configure c) s = on_configure ok c s"
| "deliver ok (Ev_Preferred_Scale raw) s = on_preferred_scale ok raw s"
| "deliver ok Ev_Close s = (s, [Shutdown_Requested])"
| "deliver ok (Ev_Popup_Configure p) s =
     (s, case menu_generation p s of None \<Rightarrow> [] | Some g \<Rightarrow> [Tell_Menu_Ready g])"
| "deliver ok (Ev_Popup_Done p) s =
     (s, case menu_generation p s of None \<Rightarrow> [] | Some g \<Rightarrow> [Tell_Menu_Done g])"
| "deliver ok (Ev_Exported handle) s = (case rw_exported s of None \<Rightarrow> s\<lparr>rw_exported := Some handle\<rparr> | Some _ \<Rightarrow> s, [])"

end
