(* ===== verification/Root_Runs.thy ===== *)
theory Root_Runs
  imports Root_Window
begin

text \<open>
  The root window's thread among the others (\<open>wayland/src/root_window.rs\<close>): requests are stored and
  then rung for, the loop dispatches what the compositor sent and settles before it sleeps, and a
  probe for the scale may run beside it. Every step is one access to what the threads share.
\<close>

section \<open>Steps\<close>

text \<open>Where the thread is: the flag says whether the pass of \<open>settle\<close> it is in has made progress.\<close>

datatype root_pc =
    Asleep | Dispatching
  | Settle_Fallback | Settle_Discovery bool | Settle_Fs bool | Settle_Commands bool | Settle_Bg bool | Settle_Latch bool
  | Exited

datatype probe = Probe_None | Probe_Running | Probe_Fed

text \<open>
  \<open>wakes\<close> counts requests stored and not yet rung for; a ring reaches the thread only once its
  handle is published. \<open>due\<close> holds the commands of callers that flipped the maximized flag and
  have not sent yet.
\<close>

record root_world =
  ww_root :: root_window
  ww_pc :: root_pc
  ww_published :: bool
  ww_ping :: bool
  ww_wakes :: nat
  ww_due :: "window_command list"
  ww_probe :: probe
  ww_stop :: bool
  ww_stopping :: bool

definition root_world_start :: "bool \<Rightarrow> root_window \<Rightarrow> root_world" where
  "root_world_start published r =
     \<lparr>ww_root = r, ww_pc = Settle_Fallback, ww_published = published, ww_ping = False, ww_wakes = 0, ww_due = [],
      ww_probe = Probe_None, ww_stop = False, ww_stopping = False\<rparr>"

datatype root_event =
    Begin_Dispatch | Take_Ping | Deliver compositor_event | End_Dispatch | Settle
  | Post_Fullscreen nat | Post_Background rgb | Post_Present | Post_Command window_command
  | Flip_Maximized | Send_Due | Ring | Publish_Thread
  | Probe_Feeds "scale120 option" | Probe_Flags | Core_Ready | Stop_Thread

text \<open>One step of \<open>settle\<close>.\<close>

definition run_on :: "(root_window \<Rightarrow> root_window \<times> root_out list) \<Rightarrow> root_pc \<Rightarrow> root_world \<Rightarrow> root_world \<times> root_out list" where
  "run_on f pc w = (case f (ww_root w) of (r, outs) \<Rightarrow> (w\<lparr>ww_root := r, ww_pc := pc\<rparr>, outs))"

fun settle_step :: "answers \<Rightarrow> root_world \<Rightarrow> (root_world \<times> root_out list) option" where
  "settle_step ok w =
     (case ww_pc w of
        Settle_Fallback \<Rightarrow>
          Some (if rw_fallback_fed (ww_root w)
                then run_on (\<lambda>r. try_present ok (r\<lparr>rw_fallback_fed := False\<rparr>)) (Settle_Discovery True) w
                else (w\<lparr>ww_pc := Settle_Discovery False\<rparr>, []))
      | Settle_Discovery p \<Rightarrow>
          (case run_on (service_scale_discovery ok) (Settle_Fs p) w of (w, outs) \<Rightarrow>
             Some (if Spawn_Probe \<in> set outs then w\<lparr>ww_probe := Probe_Running\<rparr> else w, outs))
      | Settle_Fs p \<Rightarrow>
          Some (case fullscreen_request (rw_fs (ww_root w)) (rw_mode (ww_root w) = Fullscreen) of
                  None \<Rightarrow> run_on (\<lambda>r. (r\<lparr>rw_fs := FS_NONE\<rparr>, [])) (Settle_Commands p) w
                | Some on \<Rightarrow> run_on (\<lambda>r. apply_fullscreen on (r\<lparr>rw_fs := FS_NONE\<rparr>)) (Settle_Commands True) w)
      | Settle_Commands p \<Rightarrow>
          Some (case rw_commands (ww_root w) of
                  [] \<Rightarrow> (w\<lparr>ww_pc := Settle_Bg p\<rparr>, [])
                | c # cs \<Rightarrow> run_on (\<lambda>r. apply_command ok c (r\<lparr>rw_commands := cs\<rparr>)) (Settle_Commands True) w)
      | Settle_Bg p \<Rightarrow>
          Some (case service_background ok (ww_root w) of
                  ((r, outs), changed) \<Rightarrow> (w\<lparr>ww_root := r, ww_pc := Settle_Latch (p \<or> changed)\<rparr>, outs))
      | Settle_Latch p \<Rightarrow>
          Some (if rw_present (ww_root w) \<and> rw_pending_present (ww_root w)
                then (w\<lparr>ww_root := (ww_root w)\<lparr>rw_pending_present := False\<rparr>, ww_pc := Settle_Fallback\<rparr>, [Commit])
                else if p then (w\<lparr>ww_pc := Settle_Fallback\<rparr>, [])
                else (w\<lparr>ww_pc := (if ww_stopping w then Exited else Asleep)\<rparr>, []))
      | _ \<Rightarrow> None)"

declare settle_step.simps [simp del]

text \<open>A request of another thread: stored now, rung for later.\<close>

definition posted :: "(root_window \<Rightarrow> root_window) \<Rightarrow> root_world \<Rightarrow> (root_world \<times> root_out list) option" where
  "posted f w = Some (w\<lparr>ww_root := f (ww_root w), ww_wakes := ww_wakes w + 1\<rparr>, [])"

fun root_step :: "answers \<Rightarrow> root_world \<Rightarrow> root_event \<Rightarrow> (root_world \<times> root_out list) option" where
  "root_step ok w Begin_Dispatch = (if ww_pc w = Asleep then Some (w\<lparr>ww_pc := Dispatching\<rparr>, []) else None)"
| "root_step ok w Take_Ping =
     (if ww_pc w = Dispatching \<and> ww_ping w
      then Some (w\<lparr>ww_ping := False, ww_stopping := ww_stopping w \<or> ww_stop w\<rparr>, []) else None)"
| "root_step ok w (Deliver e) =
     (if ww_pc w = Dispatching then Some (run_on (deliver ok e) Dispatching w) else None)"
| "root_step ok w End_Dispatch = (if ww_pc w = Dispatching then Some (w\<lparr>ww_pc := Settle_Fallback\<rparr>, []) else None)"
| "root_step ok w Settle = settle_step ok w"
| "root_step ok w (Post_Fullscreen v) = posted (\<lambda>r. r\<lparr>rw_fs := v\<rparr>) w"
| "root_step ok w (Post_Background c) = posted (\<lambda>r. r\<lparr>rw_pending_bg := encode_bg c\<rparr>) w"
| "root_step ok w Post_Present = posted (\<lambda>r. r\<lparr>rw_pending_present := True\<rparr>) w"
| "root_step ok w (Post_Command c) = posted (\<lambda>r. r\<lparr>rw_commands := rw_commands r @ [c]\<rparr>) w"
| "root_step ok w Flip_Maximized =
     (let next = \<not> rw_maximized (ww_root w)
      in Some (w\<lparr>ww_root := (ww_root w)\<lparr>rw_maximized := next\<rparr>, ww_due := ww_due w @ [Cmd_Set_Maximized next]\<rparr>, []))"
| "root_step ok w Send_Due =
     (case ww_due w of
        [] \<Rightarrow> None
      | c # cs \<Rightarrow> posted (\<lambda>r. r\<lparr>rw_commands := rw_commands r @ [c]\<rparr>) (w\<lparr>ww_due := cs\<rparr>))"
| "root_step ok w Ring =
     (if ww_wakes w = 0 then None
      else Some (w\<lparr>ww_wakes := ww_wakes w - 1, ww_ping := ww_ping w \<or> ww_published w\<rparr>, []))"
| "root_step ok w Publish_Thread = Some (w\<lparr>ww_published := True\<rparr>, [])"
| "root_step ok w (Probe_Feeds found) =
     (if ww_probe w = Probe_Running
      then Some (w\<lparr>ww_root := (ww_root w)\<lparr>rw_window :=
             (case found of Some scale \<Rightarrow> feed_scale scale Provisional (rw_window (ww_root w))
              | None \<Rightarrow> feed_unit_scale (rw_window (ww_root w)))\<rparr>, ww_probe := Probe_Fed\<rparr>, [])
      else None)"
| "root_step ok w Probe_Flags =
     (if ww_probe w = Probe_Fed
      then posted (\<lambda>r. r\<lparr>rw_fallback_fed := True\<rparr>) (w\<lparr>ww_probe := Probe_None\<rparr>) else None)"
| "root_step ok w Core_Ready = Some (w\<lparr>ww_root := (ww_root w)\<lparr>rw_core := True\<rparr>\<rparr>, [])"
| "root_step ok w Stop_Thread =
     (if ww_published w then Some (w\<lparr>ww_stop := True, ww_wakes := ww_wakes w + 1\<rparr>, []) else None)"

fun root_run :: "answers \<Rightarrow> root_world \<Rightarrow> root_event list \<Rightarrow> (root_world \<times> root_out list) option" where
  "root_run ok w [] = Some (w, [])"
| "root_run ok w (e # es) =
     (case root_step ok w e of
        None \<Rightarrow> None
      | Some (w', outs) \<Rightarrow> map_option (\<lambda>(w'', outs'). (w'', outs @ outs')) (root_run ok w' es))"

section \<open>What an operation touches\<close>

text \<open>The part the presentation is decided from, and the part other threads leave requests in.\<close>

definition present_view where
  "present_view s = (rw_pending_configure s, rw_present s, rw_size s, rw_window s, rw_discovery s, rw_mode s,
     rw_pending_w s, rw_pending_h s, rw_floating s)"

definition request_view where
  "request_view s = (rw_fs s, rw_commands s, rw_pending_bg s, rw_fallback_fed s)"

definition latch_view where
  "latch_view s = (rw_pending_present s, rw_bg s)"

lemmas views = present_view_def request_view_def latch_view_def

lemma view_updates [simp]:
  "present_view (s\<lparr>rw_fs := fs\<rparr>) = present_view s" "present_view (s\<lparr>rw_commands := cs\<rparr>) = present_view s"
  "present_view (s\<lparr>rw_pending_bg := c\<rparr>) = present_view s" "present_view (s\<lparr>rw_bg := bg\<rparr>) = present_view s"
  "present_view (s\<lparr>rw_pending_present := b\<rparr>) = present_view s" "present_view (s\<lparr>rw_maximized := b\<rparr>) = present_view s"
  "present_view (s\<lparr>rw_exported := h\<rparr>) = present_view s" "present_view (s\<lparr>rw_core := b\<rparr>) = present_view s"
  "request_view (s\<lparr>rw_bg := bg\<rparr>) = request_view s" "request_view (s\<lparr>rw_pending_present := b\<rparr>) = request_view s"
  by (simp_all add: views)

lemma ask_views [simp]:
  "present_view (fst (ask ok k s)) = present_view s" "request_view (fst (ask ok k s)) = request_view s"
  "latch_view (fst (ask ok k s)) = latch_view s"
  by (simp_all add: ask_def views)

lemma popup_move_views:
  "present_view (fst (popup_move ok live p s)) = present_view s" "request_view (fst (popup_move ok live p s)) = request_view s"
  "latch_view (fst (popup_move ok live p s)) = latch_view s"
  by (simp_all add: popup_move_def ask_def views)

lemma popup_views:
  "present_view (fst (popup_step ok c s)) = present_view s \<and> request_view (fst (popup_step ok c s)) = request_view s \<and>
   latch_view (fst (popup_step ok c s)) = latch_view s"
  by (cases c) (auto simp: create_menu_popup_def reposition_menu_popup_def paint_menu_popup_def destroy_menu_popup_def
      popup_move_def ask_def views Let_def split: prod.splits option.splits menu_popup.splits bool.splits)

lemma command_views:
  "present_view (fst (apply_command ok c s)) = present_view s" "request_view (fst (apply_command ok c s)) = request_view s"
  "latch_view (fst (apply_command ok c s)) = latch_view s"
  using popup_views by (cases c; simp)+

lemma fullscreen_views:
  "present_view (fst (apply_fullscreen on s)) = present_view s" "request_view (fst (apply_fullscreen on s)) = request_view s"
  "latch_view (fst (apply_fullscreen on s)) = latch_view s"
  by (simp_all add: apply_fullscreen_def views)

lemma fill_views:
  "present_view (fst (fill_background ok x y s)) = present_view s" "request_view (fst (fill_background ok x y s)) = request_view s"
  "latch_view (fst (fill_background ok x y s)) = latch_view s"
  by (auto simp: fill_background_def create_solid_buffer_def attach_background_def ask_def views Let_def
      split: prod.splits option.splits)

lemma rebuild_views:
  "present_view (fst (rebuild_background ok x y s)) = present_view s" "request_view (fst (rebuild_background ok x y s)) = request_view s"
  "latch_view (fst (rebuild_background ok x y s)) = latch_view s"
  by (auto simp: rebuild_background_def create_solid_buffer_def attach_background_def ask_def views Let_def
      split: prod.splits option.splits)

lemma publish_fields:
  "request_view (fst (publish z s)) = request_view s" "latch_view (fst (publish z s)) = latch_view s"
  "wi_scale (rw_window (fst (publish z s))) = wi_scale (rw_window s)"
  "rw_present (fst (publish z s)) = rw_present s" "rw_pending_configure (fst (publish z s)) = rw_pending_configure s"
  "rw_size (fst (publish z s)) = rw_size s" "rw_discovery (fst (publish z s)) = rw_discovery s"
  "rw_mode (fst (publish z s)) = rw_mode s"
  by (auto simp: publish_def publish_size_def views Let_def split: prod.splits option.splits)

definition scale_known :: "root_window \<Rightarrow> bool" where
  "scale_known s \<longleftrightarrow> wi_scale (rw_window s) \<noteq> None"

lemma known_scale_iff [simp]: "known_scale_of (rw_window s) = None \<longleftrightarrow> \<not> scale_known s"
  by (simp add: known_scale_of_def scale_known_def)

lemma present_view_eq:
  "present_view s' = present_view s \<longleftrightarrow> rw_pending_configure s' = rw_pending_configure s \<and> rw_present s' = rw_present s \<and>
     rw_size s' = rw_size s \<and> rw_window s' = rw_window s \<and> rw_discovery s' = rw_discovery s \<and> rw_mode s' = rw_mode s \<and>
     rw_pending_w s' = rw_pending_w s \<and> rw_pending_h s' = rw_pending_h s \<and> rw_floating s' = rw_floating s"
  by (simp add: present_view_def)

lemma request_view_eq:
  "request_view s' = request_view s \<longleftrightarrow> rw_fs s' = rw_fs s \<and> rw_commands s' = rw_commands s \<and>
     rw_pending_bg s' = rw_pending_bg s \<and> rw_fallback_fed s' = rw_fallback_fed s"
  by (simp add: request_view_def)

lemma execute_present_spec:
  fixes ok :: answers
  assumes "resolve_logical s = Some z" "rw_pending_configure s \<or> rw_present s"
  defines "s' \<equiv> fst (execute_present ok s)"
  shows "request_view s' = request_view s \<and> rw_bg s' = rw_bg s \<and> rw_pending_present s' \<and> rw_present s' \<and>
    \<not> rw_pending_configure s' \<and> rw_size s' = Some z \<and> wi_scale (rw_window s') = wi_scale (rw_window s) \<and>
    rw_discovery s' = rw_discovery s \<and> rw_mode s' = rw_mode s"
proof -
  define s1 where "s1 = (if rw_pending_configure s then s\<lparr>rw_pending_configure := False, rw_present := True\<rparr> else s)"
  obtain s2 fill where f: "fill_background ok (wz_w z) (wz_h z) s1 = (s2, fill)" by fastforce
  define s3 where "s3 = s2\<lparr>rw_size := Some z, rw_floating := floating_record (rw_mode s2) (wz_w z) (wz_h z) (rw_floating s2)\<rparr>"
  obtain s4 told where p: "publish z s3 = (s4, told)" by fastforce
  have s': "s' = s4\<lparr>rw_pending_present := True\<rparr>"
  proof -
    have c: "\<not> (\<not> rw_pending_configure s \<and> \<not> rw_present s)" using assms(2) by simp
    show ?thesis
      using f p by (simp add: s'_def execute_present_def assms(1) if_not_P [OF c] Let_def flip: s1_def s3_def)
  qed
  have "rw_present s1" "\<not> rw_pending_configure s1" using assms(2) by (auto simp: s1_def)
  then show ?thesis
    using fill_views [of ok "wz_w z" "wz_h z" s1] publish_fields [of z s3] assms(2) unfolding f p
    by (auto simp: s' s3_def s1_def views split: if_splits)
qed

lemma try_present_cases:
  "(case plan_of s of
      Plan_Wait \<Rightarrow> fst (try_present ok s) = s
    | Plan_Discover_Scale \<Rightarrow> fst (try_present ok s) = s\<lparr>rw_discovery := discovery_request (rw_discovery s)\<rparr>
    | Plan_Present \<Rightarrow> (\<exists>z. resolve_logical s = Some z) \<and> (rw_pending_configure s \<or> rw_present s) \<and> scale_known s \<and>
        try_present ok s = execute_present ok s)"
  by (auto simp: plan_of_def plan_next_def try_present_def split: plan_step.split if_splits)

section \<open>A configure is never forgotten\<close>

definition present_inv :: "root_window \<Rightarrow> probe \<Rightarrow> bool" where
  "present_inv r pr \<longleftrightarrow>
     (rw_present r \<longrightarrow> scale_known r \<and> rw_size r \<noteq> None) \<and>
     (rw_discovery r \<noteq> Discovery_Spawned \<longrightarrow> pr = Probe_None \<and> \<not> rw_fallback_fed r) \<and>
     (rw_discovery r = Discovery_Spawned \<and> \<not> scale_known r \<longrightarrow> pr = Probe_Running) \<and>
     (pr = Probe_Fed \<or> rw_fallback_fed r \<longrightarrow> scale_known r) \<and>
     (rw_pending_configure r \<longrightarrow>
        resolve_logical r = None \<or> \<not> scale_known r \<and> rw_discovery r \<noteq> Discovery_Idle \<or>
        scale_known r \<and> (pr = Probe_Fed \<or> rw_fallback_fed r))"

definition settled_start :: "root_window \<Rightarrow> bool" where
  "settled_start r \<longleftrightarrow> \<not> rw_present r \<and> \<not> rw_pending_configure r \<and> rw_discovery r = Discovery_Idle \<and> \<not> rw_fallback_fed r"

lemma root_start_settled: "settled_start (fst (root_start offer boot request bg))"
  by (simp add: root_start_def Let_def settled_start_def)

lemma present_inv_start: "settled_start r \<Longrightarrow> present_inv r Probe_None"
  by (simp add: settled_start_def present_inv_def)

lemma try_present_inv:
  assumes "rw_present s \<longrightarrow> scale_known s \<and> rw_size s \<noteq> None"
    "rw_discovery s \<noteq> Discovery_Spawned \<longrightarrow> pr = Probe_None \<and> \<not> rw_fallback_fed s"
    "rw_discovery s = Discovery_Spawned \<and> \<not> scale_known s \<longrightarrow> pr = Probe_Running"
    "pr = Probe_Fed \<or> rw_fallback_fed s \<longrightarrow> scale_known s"
  shows "present_inv (fst (try_present ok s)) pr"
proof (cases "plan_of s")
  case Plan_Wait
  then have s': "fst (try_present ok s) = s" using try_present_cases [where s = s and ok = ok] by simp
  have "rw_pending_configure s \<Longrightarrow> resolve_logical s = None"
    using Plan_Wait assms(1) by (auto simp: plan_of_def plan_next_def split: if_splits)
  then show ?thesis using assms unfolding s' by (auto simp: present_inv_def)
next
  case Plan_Discover_Scale
  then have s': "fst (try_present ok s) = s\<lparr>rw_discovery := discovery_request (rw_discovery s)\<rparr>"
    using try_present_cases [where s = s and ok = ok] by simp
  have "\<not> scale_known s" using Plan_Discover_Scale by (auto simp: plan_of_def plan_next_def split: if_splits)
  then show ?thesis using assms unfolding s' by (cases "rw_discovery s") (auto simp: present_inv_def scale_known_def)
next
  case Plan_Present
  then obtain z where z: "resolve_logical s = Some z" "rw_pending_configure s \<or> rw_present s" "scale_known s"
    "try_present ok s = execute_present ok s" using try_present_cases [where s = s and ok = ok] by auto
  show ?thesis using execute_present_spec [OF z(1,2), where ok = ok] assms z(3) unfolding z(4)
    by (auto simp: present_inv_def scale_known_def request_view_def)
qed

lemma present_inv_views:
  "present_view s' = present_view s \<Longrightarrow> rw_fallback_fed s' = rw_fallback_fed s \<Longrightarrow> present_inv s' pr = present_inv s pr"
  by (simp add: present_inv_def present_view_eq scale_known_def resolve_logical_def)

lemma feed_known [simp]: "wi_scale (feed_scale x p st) \<noteq> None"
  by (cases "wi_scale st") (auto simp: feed_scale_def scale_displaces_def)

lemma deliver_present_inv: "present_inv s pr \<Longrightarrow> present_inv (fst (deliver ok e s)) pr"
proof (cases e)
  case (Ev_Configure c)
  assume inv: "present_inv s pr"
  define s1 where "s1 = s\<lparr>rw_pending_w := Option.bind (cf_w c) logical_extent, rw_pending_h := Option.bind (cf_h c) logical_extent,
               rw_mode := window_mode_of (cf_fullscreen c) (cf_maximized c) (cf_tiled c), rw_suspended := cf_suspended c\<rparr>"
  define s2 where "s2 = (if rw_decorations_negotiated s1 then s1\<lparr>rw_effective := cf_decoration c\<rparr> else s1)\<lparr>rw_pending_configure := True\<rparr>"
  have "fst (deliver ok e s) = fst (try_present ok s2)"
    by (simp add: Ev_Configure on_configure_def s1_def s2_def Let_def split_beta)
  moreover have "present_inv (fst (try_present ok s2)) pr"
    using inv by (intro try_present_inv) (auto simp: s2_def s1_def present_inv_def scale_known_def)
  ultimately show ?thesis by simp
next
  case (Ev_Preferred_Scale raw)
  assume inv: "present_inv s pr"
  show ?thesis
  proof (cases "scale_from_wire raw")
    case None
    then show ?thesis using inv Ev_Preferred_Scale by (simp add: on_preferred_scale_def)
  next
    case (Some scale)
    have "present_inv (fst (try_present ok (s\<lparr>rw_window := feed_scale scale Authoritative (rw_window s)\<rparr>))) pr"
      using inv by (intro try_present_inv) (auto simp: present_inv_def scale_known_def)
    then show ?thesis using Some Ev_Preferred_Scale by (simp add: on_preferred_scale_def)
  qed
next
  case (Ev_Exported h)
  assume "present_inv s pr"
  then show ?thesis using present_inv_views [of "s\<lparr>rw_exported := Some h\<rparr>" s pr]
    by (cases "rw_exported s") (simp_all add: Ev_Exported present_view_def)
qed auto

lemma fill_no_probe: "Spawn_Probe \<notin> set (snd (fill_background ok x y s))"
  by (auto simp: fill_background_def attach_background_def create_solid_buffer_def ask_def Let_def split_beta split: option.split)

lemma publish_no_probe: "Spawn_Probe \<notin> set (snd (publish z s))"
  by (auto simp: publish_def split_beta split: option.split)

lemma try_present_no_probe: "Spawn_Probe \<notin> set (snd (try_present ok s))"
  using fill_no_probe publish_no_probe
  by (simp add: try_present_def execute_present_def Let_def split_beta split: plan_step.split option.split)

lemma discovery_inv:
  assumes "present_inv s pr"
  shows "present_inv (fst (service_scale_discovery ok s))
     (if Spawn_Probe \<in> set (snd (service_scale_discovery ok s)) then Probe_Running else pr)"
proof (cases "rw_discovery s = Discovery_Requested \<and> \<not> scale_known s")
  case True
  define s1 where "s1 = s\<lparr>rw_discovery := Discovery_Spawned, rw_calls := rw_calls s + 1\<rparr>"
  show ?thesis
  proof (cases "ok Make_Thread (rw_calls s)")
    case started: True
    then have r: "service_scale_discovery ok s = (s1, [Spawn_Probe])"
      using True by (simp add: service_scale_discovery_def ask_def s1_def Let_def)
    show ?thesis unfolding r using assms True by (auto simp: s1_def present_inv_def scale_known_def resolve_logical_def)
  next
    case failed: False
    then have r: "service_scale_discovery ok s = try_present ok (s1\<lparr>rw_window := feed_unit_scale (rw_window s1)\<rparr>)"
      using True by (simp add: service_scale_discovery_def ask_def s1_def Let_def)
    have "Spawn_Probe \<notin> set (snd (try_present ok r))" for r by (rule try_present_no_probe)
    moreover have "present_inv (fst (try_present ok (s1\<lparr>rw_window := feed_unit_scale (rw_window s1)\<rparr>))) pr"
      using assms True by (intro try_present_inv) (auto simp: s1_def present_inv_def scale_known_def feed_unit_scale_def)
    ultimately show ?thesis unfolding r by simp
  qed
next
  case False
  then obtain d where d: "service_scale_discovery ok s = (s\<lparr>rw_discovery := d\<rparr>, [])"
      "d = rw_discovery s \<or> d = Discovery_Idle \<and> rw_discovery s = Discovery_Requested \<and> scale_known s"
    by (cases "rw_discovery s") (auto simp: service_scale_discovery_def)
  show ?thesis using assms d(2) unfolding d(1) by (auto simp: present_inv_def scale_known_def resolve_logical_def)
qed

definition world_inv :: "root_world \<Rightarrow> bool" where
  "world_inv w \<longleftrightarrow> present_inv (ww_root w) (ww_probe w)"

lemma background_views:
  "present_view (fst (fst (service_background ok s))) = present_view s"
  "request_view (fst (fst (service_background ok s))) = request_view s"
  by (auto simp: service_background_def Let_def split_beta rebuild_views split: option.split)

lemma present_inv_frame:
  "present_inv s pr \<Longrightarrow> present_view s' = present_view s \<Longrightarrow> request_view s' = request_view s \<Longrightarrow> present_inv s' pr"
  unfolding request_view_eq by (metis present_inv_views)

lemma present_inv_update:
  "present_view r' = present_view r \<Longrightarrow> rw_fallback_fed r' = rw_fallback_fed r \<Longrightarrow> present_inv r pr \<Longrightarrow> present_inv r' pr"
  by (metis present_inv_views)

lemma run_on_simps [simp]:
  "ww_root (fst (run_on f pc w)) = fst (f (ww_root w))" "ww_probe (fst (run_on f pc w)) = ww_probe w"
  "snd (run_on f pc w) = snd (f (ww_root w))" "ww_pc (fst (run_on f pc w)) = pc" "ww_ping (fst (run_on f pc w)) = ww_ping w"
  "ww_wakes (fst (run_on f pc w)) = ww_wakes w"
  by (simp_all add: run_on_def split_beta)

lemma settle_inv:
  assumes inv: "world_inv w" and step: "settle_step ok w = Some x"
  shows "world_inv (fst x)"
proof (cases "ww_pc w")
  case Settle_Fallback
  have "present_inv (fst (try_present ok (ww_root w\<lparr>rw_fallback_fed := False\<rparr>))) (ww_probe w)" if "rw_fallback_fed (ww_root w)"
    using inv that by (intro try_present_inv) (auto simp: world_inv_def present_inv_def scale_known_def)
  then show ?thesis using inv step Settle_Fallback
    by (cases "rw_fallback_fed (ww_root w)") (auto simp: settle_step.simps world_inv_def)
next
  case (Settle_Discovery p)
  then show ?thesis using inv step discovery_inv [of "ww_root w" "ww_probe w" ok]
    by (auto simp: settle_step.simps run_on_def world_inv_def split_beta split: if_splits)
next
  case (Settle_Fs p)
  have "present_inv (fst (apply_fullscreen on (r\<lparr>rw_fs := v\<rparr>))) pr" if "present_inv r pr" for on r v pr
    using fullscreen_views [of on "r\<lparr>rw_fs := v\<rparr>"] that by (intro present_inv_update [OF _ _ that]) (auto simp: request_view_eq)
  moreover have "present_inv (r\<lparr>rw_fs := v\<rparr>) pr" if "present_inv r pr" for r v pr
    by (rule present_inv_update [OF _ _ that]) auto
  moreover have "ww_root (fst x) = ww_root w\<lparr>rw_fs := FS_NONE\<rparr> \<or>
      (\<exists>on. ww_root (fst x) = fst (apply_fullscreen on (ww_root w\<lparr>rw_fs := FS_NONE\<rparr>)))" "ww_probe (fst x) = ww_probe w"
    using step Settle_Fs
    by (cases "fullscreen_request (rw_fs (ww_root w)) (rw_mode (ww_root w) = Fullscreen)";
        auto simp: settle_step.simps)+
  ultimately show ?thesis using inv unfolding world_inv_def by metis
next
  case (Settle_Commands p)
  have "present_inv (fst (apply_command ok c (r\<lparr>rw_commands := cs\<rparr>))) pr" if "present_inv r pr" for c cs r pr
    using command_views [of ok c "r\<lparr>rw_commands := cs\<rparr>"] by (intro present_inv_update [OF _ _ that]) (auto simp: request_view_eq)
  moreover have "ww_root (fst x) = ww_root w \<or>
      (\<exists>c cs. ww_root (fst x) = fst (apply_command ok c (ww_root w\<lparr>rw_commands := cs\<rparr>)))" "ww_probe (fst x) = ww_probe w"
    using step Settle_Commands by (cases "rw_commands (ww_root w)"; auto simp: settle_step.simps)+
  ultimately show ?thesis using inv unfolding world_inv_def by metis
next
  case (Settle_Bg p)
  have "present_inv (fst (fst (service_background ok (ww_root w)))) (ww_probe w)"
    using background_views(2) [of ok "ww_root w"]
    by (intro present_inv_update [OF background_views(1) _ inv [unfolded world_inv_def]]) (simp add: request_view_eq)
  then show ?thesis using step Settle_Bg by (auto simp: settle_step.simps world_inv_def split_beta)
next
  case (Settle_Latch p)
  have "present_inv (r\<lparr>rw_pending_present := v\<rparr>) pr" if "present_inv r pr" for r v pr
    by (rule present_inv_update [OF _ _ that]) auto
  then show ?thesis using inv step Settle_Latch
    by (auto simp: settle_step.simps world_inv_def split: if_splits)
qed (use step in \<open>simp_all add: settle_step.simps\<close>)

lemma world_inv_simple:
  assumes "world_inv w" "present_view (ww_root w') = present_view (ww_root w)"
    "rw_fallback_fed (ww_root w') = rw_fallback_fed (ww_root w)" "ww_probe w' = ww_probe w"
  shows "world_inv w'"
  using assms present_inv_update unfolding world_inv_def by metis

lemma root_step_inv:
  assumes inv: "world_inv w" and step: "root_step ok w e = Some x"
  shows "world_inv (fst x)"
proof (cases e)
  case (Deliver c)
  then have "x = run_on (deliver ok c) Dispatching w" using step by (simp split: if_splits)
  then show ?thesis using inv deliver_present_inv [of "ww_root w" "ww_probe w" ok c] by (simp add: world_inv_def)
next
  case Settle
  then show ?thesis using inv step settle_inv by simp
next
  case (Probe_Feeds found)
  then have p: "ww_probe w = Probe_Running" using step by (simp split: if_splits)
  obtain scale where "(case found of Some scale \<Rightarrow> feed_scale scale Provisional (rw_window (ww_root w))
      | None \<Rightarrow> feed_unit_scale (rw_window (ww_root w))) = feed_scale scale Provisional (rw_window (ww_root w))"
    by (cases found) (auto simp: feed_unit_scale_def)
  then have x: "fst x = w\<lparr>ww_root := (ww_root w)\<lparr>rw_window := feed_scale scale Provisional (rw_window (ww_root w))\<rparr>, ww_probe := Probe_Fed\<rparr>"
    using step p Probe_Feeds by auto
  show ?thesis using inv p unfolding x
    by (simp add: world_inv_def present_inv_def scale_known_def resolve_logical_def)
next
  case Probe_Flags
  then show ?thesis using inv step
    by (auto simp: posted_def world_inv_def present_inv_def scale_known_def resolve_logical_def split: if_splits)
next
  case Flip_Maximized
  then show ?thesis using step by (intro world_inv_simple [OF inv]) (auto simp: Let_def)
next
  case Send_Due
  then show ?thesis using step by (intro world_inv_simple [OF inv]) (auto simp: posted_def split: list.splits)
qed (use step in \<open>auto intro!: world_inv_simple [OF inv] simp: posted_def split: if_splits\<close>)

lemma root_run_inv: "world_inv w \<Longrightarrow> root_run ok w es = Some x \<Longrightarrow> world_inv (fst x)"
  by (induction es arbitrary: w x) (auto split: option.splits dest: root_step_inv)

section \<open>Nothing is shown before a configure\<close>

definition acked :: "root_window \<Rightarrow> bool" where
  "acked r \<longleftrightarrow> rw_present r \<or> rw_pending_configure r"

definition shows_content :: "root_out list \<Rightarrow> bool" where
  "shows_content outs \<longleftrightarrow> list_ex (\<lambda>x. case x of Commit \<Rightarrow> True | Attach_Background c \<Rightarrow> True | _ \<Rightarrow> False) outs"

lemma shows_append [simp]: "shows_content (xs @ ys) \<longleftrightarrow> shows_content xs \<or> shows_content ys"
  "shows_content [] = False"
  by (simp_all add: shows_content_def)

lemma acked_view: "present_view s' = present_view s \<Longrightarrow> acked s' = acked s"
  by (simp add: acked_def present_view_eq)

lemma command_shows: "\<not> shows_content (snd (apply_command ok c s))"
proof (cases c)
  case (Cmd_Popup p)
  then show ?thesis
    by (cases p) (auto simp: shows_content_def create_menu_popup_def reposition_menu_popup_def paint_menu_popup_def
        destroy_menu_popup_def drop_popup_def popup_move_def ask_def Let_def split: prod.splits option.splits menu_popup.splits bool.splits)
qed (auto simp: shows_content_def)

lemma try_present_acked:
  "acked (fst (try_present ok s)) = acked s" "shows_content (snd (try_present ok s)) \<Longrightarrow> acked s"
proof -
  have "acked (fst (try_present ok s)) = acked s \<and> (shows_content (snd (try_present ok s)) \<longrightarrow> acked s)"
  proof (cases "plan_of s")
    case Plan_Present
    then obtain z where z: "resolve_logical s = Some z" "rw_pending_configure s \<or> rw_present s"
      "try_present ok s = execute_present ok s" using try_present_cases [where s = s and ok = ok] by auto
    show ?thesis using execute_present_spec [OF z(1,2), where ok = ok] z(2) unfolding z(3) by (auto simp: acked_def)
  qed (auto simp: try_present_def acked_def)
  then show "acked (fst (try_present ok s)) = acked s" "shows_content (snd (try_present ok s)) \<Longrightarrow> acked s" by auto
qed

lemma discovery_acked:
  "acked (fst (service_scale_discovery ok s)) = acked s \<and> (shows_content (snd (service_scale_discovery ok s)) \<longrightarrow> acked s)"
proof -
  obtain d spawn where d: "after_batch_drained (rw_discovery s) (scale_known s) = (d, spawn)" by fastforce
  define s1 where "s1 = s\<lparr>rw_discovery := d, rw_calls := rw_calls s + 1, rw_window := feed_unit_scale (rw_window s)\<rparr>"
  have "service_scale_discovery ok s =
      (if \<not> spawn then (s\<lparr>rw_discovery := d\<rparr>, [])
       else if ok Make_Thread (rw_calls s) then (s\<lparr>rw_discovery := d, rw_calls := rw_calls s + 1\<rparr>, [Spawn_Probe])
       else try_present ok s1)"
    by (simp add: service_scale_discovery_def d ask_def s1_def split: bool.split)
  moreover have "acked s1 = acked s" by (simp add: acked_def s1_def)
  ultimately show ?thesis using try_present_acked [of ok s1] by (auto simp: acked_def shows_content_def)
qed

lemma background_acked: "shows_content (snd (fst (service_background ok s))) \<Longrightarrow> acked s"
  by (auto simp: service_background_def acked_def Let_def split_beta split: option.splits if_splits)

lemma fullscreen_shows: "\<not> shows_content (snd (apply_fullscreen on s))"
  by (simp add: apply_fullscreen_def shows_content_def)

lemma settle_acked:
  assumes "settle_step ok w = Some x"
  shows "acked (ww_root (fst x)) = acked (ww_root w) \<and> (shows_content (snd x) \<longrightarrow> acked (ww_root w))"
proof (cases "ww_pc w")
  case Settle_Fallback
  then show ?thesis using assms try_present_acked [of ok "ww_root w\<lparr>rw_fallback_fed := False\<rparr>"]
    by (cases "rw_fallback_fed (ww_root w)") (auto simp: settle_step.simps acked_def)
next
  case (Settle_Discovery p)
  then show ?thesis using assms discovery_acked [of ok "ww_root w"]
    by (auto simp: settle_step.simps run_on_def split_beta split: if_splits)
next
  case (Settle_Fs p)
  have a: "acked (fst (apply_fullscreen on (ww_root w\<lparr>rw_fs := FS_NONE\<rparr>))) = acked (ww_root w)" for on
    using fullscreen_views(1) [of on "ww_root w\<lparr>rw_fs := FS_NONE\<rparr>"] by (intro acked_view) simp
  show ?thesis using assms Settle_Fs fullscreen_shows a acked_view [OF view_updates(1), of FS_NONE "ww_root w"]
    by (cases "fullscreen_request (rw_fs (ww_root w)) (rw_mode (ww_root w) = Fullscreen)")
      (auto simp: settle_step.simps)
next
  case (Settle_Commands p)
  have a: "acked (fst (apply_command ok c (ww_root w\<lparr>rw_commands := cs\<rparr>))) = acked (ww_root w)" for c cs
    using command_views(1) [of ok c "ww_root w\<lparr>rw_commands := cs\<rparr>"] by (intro acked_view) simp
  show ?thesis using assms Settle_Commands command_shows a
    by (cases "rw_commands (ww_root w)") (auto simp: settle_step.simps)
next
  case (Settle_Bg p)
  then show ?thesis using assms background_acked [of ok "ww_root w"] acked_view [OF background_views(1), of ok "ww_root w"]
    by (auto simp: settle_step.simps split_beta)
next
  case (Settle_Latch p)
  then show ?thesis using assms by (auto simp: settle_step.simps acked_def shows_content_def split: if_splits)
qed (use assms in \<open>simp_all add: settle_step.simps\<close>)

lemma configure_shape:
  "\<exists>s' pre. on_configure ok c s = (fst (try_present ok s'), pre @ snd (try_present ok s')) \<and> \<not> shows_content pre \<and>
     rw_pending_configure s' \<and> rw_present s' = rw_present s"
proof -
  define s1 where "s1 = s\<lparr>rw_pending_w := Option.bind (cf_w c) logical_extent, rw_pending_h := Option.bind (cf_h c) logical_extent,
               rw_mode := window_mode_of (cf_fullscreen c) (cf_maximized c) (cf_tiled c), rw_suspended := cf_suspended c\<rparr>"
  define s2 where "s2 = (if rw_decorations_negotiated s1 then s1\<lparr>rw_effective := cf_decoration c\<rparr> else s1)\<lparr>rw_pending_configure := True\<rparr>"
  show ?thesis
    by (rule exI [of _ s2], rule exI [of _ "(if cf_suspended c \<noteq> rw_suspended s then [Tell_Suspended (cf_suspended c)] else []) @
        (if rw_decorations_negotiated s \<and> cf_decoration c \<noteq> rw_effective s then [Tell_Decorations (cf_decoration c)] else [])"])
      (auto simp: on_configure_def s1_def s2_def Let_def split_beta shows_content_def)
qed

lemma deliver_acked:
  assumes "\<And>c. e \<noteq> Ev_Configure c"
  shows "acked (fst (deliver ok e s)) = acked s \<and> (shows_content (snd (deliver ok e s)) \<longrightarrow> acked s)"
proof (cases e)
  case (Ev_Preferred_Scale raw)
  show ?thesis
  proof (cases "scale_from_wire raw")
    case (Some scale)
    define s1 where "s1 = s\<lparr>rw_window := feed_scale scale Authoritative (rw_window s)\<rparr>"
    have "acked s1 = acked s" by (simp add: acked_def s1_def)
    then show ?thesis using try_present_acked [of ok s1] Some Ev_Preferred_Scale
      by (auto simp: on_preferred_scale_def s1_def)
  qed (simp add: Ev_Preferred_Scale on_preferred_scale_def)
next
  case (Ev_Exported h)
  then show ?thesis by (auto simp: acked_def split: option.split)
qed (use assms in \<open>auto simp: shows_content_def split: option.splits\<close>)

lemma step_acked:
  assumes step: "root_step ok w e = Some x" and e: "\<And>c. e \<noteq> Deliver (Ev_Configure c)"
  shows "acked (ww_root (fst x)) = acked (ww_root w) \<and> (shows_content (snd x) \<longrightarrow> acked (ww_root w))"
proof (cases e)
  case (Deliver d)
  then show ?thesis using step e deliver_acked [of d ok "ww_root w"] by (auto split: if_splits)
next
  case Settle
  then show ?thesis using step settle_acked by simp
next
  case Flip_Maximized
  then show ?thesis using step by (auto simp: acked_def Let_def)
next
  case Send_Due
  then show ?thesis using step by (auto simp: posted_def acked_def split: list.split_asm)
qed (use step in \<open>auto simp: posted_def acked_def split: if_split_asm\<close>)

text \<open>
  C33: Nothing is shown before the compositor asked for it. In every run of the root thread beside its
  requesters, a commit of the window or a buffer attached to it comes after a configure was received
  (and with it acknowledged), whatever was requested before and however early the scale is known.
\<close>
theorem content_after_configure:
  assumes "settled_start r" "root_run ok (root_world_start published r) es = Some (w, outs)" "shows_content outs"
  shows "\<exists>c. Deliver (Ev_Configure c) \<in> set es"
proof (rule ccontr)
  assume none: "\<nexists>c. Deliver (Ev_Configure c) \<in> set es"
  have "\<not> shows_content outs" if "root_run ok w0 es = Some (w, outs)" "\<not> acked (ww_root w0)"
      "\<nexists>c. Deliver (Ev_Configure c) \<in> set es" for w0 es w outs
    using that
  proof (induction es arbitrary: w0 outs)
    case (Cons e es)
    obtain w1 o1 where s: "root_step ok w0 e = Some (w1, o1)" using Cons.prems(1) by (auto split: option.splits)
    obtain o2 where r: "root_run ok w1 es = Some (w, o2)" "outs = o1 @ o2" using Cons.prems(1) s by (auto split: option.splits)
    have "\<not> acked (ww_root w1)" "\<not> shows_content o1" using step_acked [OF s] Cons.prems(2,3) by auto
    then show ?case using Cons.IH [OF r(1)] Cons.prems(3) r(2) by simp
  qed simp
  moreover have "\<not> acked (ww_root (root_world_start published r))"
    using assms(1) by (simp add: acked_def settled_start_def root_world_start_def)
  ultimately show False using assms(2,3) none by blast
qed

section \<open>No request sleeps\<close>

text \<open>The stages of a pass, and whether the thread comes by a stage before it sleeps.\<close>

fun reaches :: "nat \<Rightarrow> root_pc \<Rightarrow> bool" where
  "reaches k Asleep = False"
| "reaches k Exited = False"
| "reaches k Dispatching = True"
| "reaches k Settle_Fallback = True"
| "reaches k (Settle_Discovery p) = (p \<or> 1 \<le> k)"
| "reaches k (Settle_Fs p) = (p \<or> 2 \<le> k)"
| "reaches k (Settle_Commands p) = (p \<or> 3 \<le> k)"
| "reaches k (Settle_Bg p) = (p \<or> 4 \<le> k)"
| "reaches k (Settle_Latch p) = (p \<or> 5 \<le> k)"

definition rung :: "root_world \<Rightarrow> bool" where
  "rung w \<longleftrightarrow> ww_ping w \<or> 0 < ww_wakes w"

definition new_bg :: "root_window \<Rightarrow> bool" where
  "new_bg r \<longleftrightarrow> (case decode_bg (rw_pending_bg r) of None \<Rightarrow> False | Some c \<Rightarrow> c \<noteq> rw_bg r)"

definition wake_inv :: "root_world \<Rightarrow> bool" where
  "wake_inv w \<longleftrightarrow> ww_published w \<and>
     (rw_fallback_fed (ww_root w) \<longrightarrow> rung w \<or> reaches 0 (ww_pc w)) \<and>
     (rw_discovery (ww_root w) = Discovery_Requested \<longrightarrow> reaches 1 (ww_pc w)) \<and>
     (rw_fs (ww_root w) \<noteq> FS_NONE \<longrightarrow> rung w \<or> reaches 2 (ww_pc w)) \<and>
     (rw_commands (ww_root w) \<noteq> [] \<longrightarrow> rung w \<or> reaches 3 (ww_pc w)) \<and>
     (new_bg (ww_root w) \<longrightarrow> rung w \<or> reaches 4 (ww_pc w)) \<and>
     (rw_present (ww_root w) \<and> rw_pending_present (ww_root w) \<longrightarrow> rung w \<or> reaches 5 (ww_pc w))"

lemma wake_all: "ww_published w \<Longrightarrow> reaches 0 (ww_pc w) \<Longrightarrow> wake_inv w"
  by (cases "ww_pc w") (simp_all add: wake_inv_def)

lemma wake_start: "wake_inv (root_world_start True r)"
  by (rule wake_all) (simp_all add: root_world_start_def)

lemma try_present_discovery:
  "rw_discovery s \<noteq> Discovery_Idle \<Longrightarrow> rw_discovery (fst (try_present ok s)) = rw_discovery s"
  "request_view (fst (try_present ok s)) = request_view s" "rw_bg (fst (try_present ok s)) = rw_bg s"
proof -
  have "(rw_discovery s \<noteq> Discovery_Idle \<longrightarrow> rw_discovery (fst (try_present ok s)) = rw_discovery s) \<and>
      request_view (fst (try_present ok s)) = request_view s \<and> rw_bg (fst (try_present ok s)) = rw_bg s"
  proof (cases "plan_of s")
    case Plan_Present
    then obtain z where z: "resolve_logical s = Some z" "rw_pending_configure s \<or> rw_present s"
      "try_present ok s = execute_present ok s" using try_present_cases [where s = s and ok = ok] by auto
    show ?thesis using execute_present_spec [OF z(1,2), where ok = ok] unfolding z(3) by simp
  qed (cases "rw_discovery s"; auto simp: try_present_def views)+
  then show "rw_discovery s \<noteq> Discovery_Idle \<Longrightarrow> rw_discovery (fst (try_present ok s)) = rw_discovery s"
    "request_view (fst (try_present ok s)) = request_view s" "rw_bg (fst (try_present ok s)) = rw_bg s" by auto
qed

lemma discovery_serviced:
  "request_view (fst (service_scale_discovery ok s)) = request_view s \<and> rw_bg (fst (service_scale_discovery ok s)) = rw_bg s \<and>
   rw_discovery (fst (service_scale_discovery ok s)) \<noteq> Discovery_Requested"
proof -
  obtain d spawn where d: "after_batch_drained (rw_discovery s) (scale_known s) = (d, spawn)" by fastforce
  define s1 where "s1 = s\<lparr>rw_discovery := d, rw_calls := rw_calls s + 1, rw_window := feed_unit_scale (rw_window s)\<rparr>"
  have r: "service_scale_discovery ok s =
      (if \<not> spawn then (s\<lparr>rw_discovery := d\<rparr>, [])
       else if ok Make_Thread (rw_calls s) then (s\<lparr>rw_discovery := d, rw_calls := rw_calls s + 1\<rparr>, [Spawn_Probe])
       else try_present ok s1)"
    by (simp add: service_scale_discovery_def d ask_def s1_def split: bool.split)
  have "d \<noteq> Discovery_Requested \<and> (spawn \<longrightarrow> d = Discovery_Spawned)" using d by (cases "rw_discovery s") (auto split: if_splits)
  then show ?thesis using try_present_discovery [where s = s1 and ok = ok] unfolding r by (auto simp: s1_def views)
qed

lemma run_on_fields [simp]:
  "ww_published (fst (run_on f pc w)) = ww_published w" "rung (fst (run_on f pc w)) = rung w"
  "ww_stopping (fst (run_on f pc w)) = ww_stopping w"
  by (simp_all add: run_on_def split_beta rung_def)

lemma settle_wake:
  assumes inv: "wake_inv w" and step: "settle_step ok w = Some x"
  shows "wake_inv (fst x)"
proof (cases "ww_pc w")
  case Settle_Fallback
  show ?thesis
  proof (cases "rw_fallback_fed (ww_root w)")
    case True
    then show ?thesis using inv step Settle_Fallback
      by (intro wake_all) (auto simp: settle_step.simps wake_inv_def)
  next
    case False
    then show ?thesis using inv step Settle_Fallback by (auto simp: settle_step.simps wake_inv_def rung_def)
  qed
next
  case (Settle_Discovery p)
  define r' where "r' = fst (service_scale_discovery ok (ww_root w))"
  have x: "ww_root (fst x) = r'" "ww_pc (fst x) = Settle_Fs p" "rung (fst x) = rung w" "ww_published (fst x) = ww_published w"
    using step Settle_Discovery by (auto simp: settle_step.simps run_on_def split_beta rung_def r'_def split: if_splits)
  show ?thesis using inv Settle_Discovery discovery_serviced [of ok "ww_root w"]
    by (simp add: wake_inv_def x request_view_eq flip: r'_def)
next
  case (Settle_Fs p)
  show ?thesis
  proof (cases "fullscreen_request (rw_fs (ww_root w)) (rw_mode (ww_root w) = Fullscreen)")
    case None
    then show ?thesis using inv step Settle_Fs by (auto simp: settle_step.simps wake_inv_def new_bg_def run_on_def rung_def)
  next
    case (Some on)
    then show ?thesis using inv step Settle_Fs by (intro wake_all) (auto simp: settle_step.simps wake_inv_def)
  qed
next
  case (Settle_Commands p)
  show ?thesis
  proof (cases "rw_commands (ww_root w)")
    case Nil
    then show ?thesis using inv step Settle_Commands by (auto simp: settle_step.simps wake_inv_def rung_def)
  next
    case (Cons c cs)
    then show ?thesis using inv step Settle_Commands by (intro wake_all) (auto simp: settle_step.simps wake_inv_def)
  qed
next
  case (Settle_Bg p)
  show ?thesis
  proof (cases "new_bg (ww_root w)")
    case True
    then have "snd (service_background ok (ww_root w))"
      by (auto simp: new_bg_def service_background_def Let_def split: option.splits)
    then show ?thesis using inv step Settle_Bg by (intro wake_all) (auto simp: settle_step.simps wake_inv_def split_beta)
  next
    case False
    then have "service_background ok (ww_root w) = ((ww_root w, []), False)"
      by (auto simp: new_bg_def service_background_def split: option.splits)
    then have "fst x = w\<lparr>ww_pc := Settle_Latch p\<rparr>" using step Settle_Bg by (auto simp: settle_step.simps)
    then show ?thesis using inv Settle_Bg False by (simp add: wake_inv_def rung_def)
  qed
next
  case (Settle_Latch p)
  show ?thesis
  proof (cases "rw_present (ww_root w) \<and> rw_pending_present (ww_root w) \<or> p")
    case True
    then have "ww_pc (fst x) = Settle_Fallback" "ww_published (fst x) = ww_published w"
      using step Settle_Latch by (auto simp: settle_step.simps split: if_splits)
    then show ?thesis using inv by (intro wake_all) (simp_all add: wake_inv_def)
  next
    case False
    then have "fst x = w\<lparr>ww_pc := (if ww_stopping w then Exited else Asleep)\<rparr>" using step Settle_Latch by (auto simp: settle_step.simps)
    then show ?thesis using inv Settle_Latch False by (simp add: wake_inv_def rung_def) blast
  qed
qed (use step in \<open>simp_all add: settle_step.simps\<close>)

lemma wake_frame:
  assumes "wake_inv w" "ww_published w' = ww_published w \<or> ww_published w'" "ww_wakes w' = ww_wakes w" "ww_ping w' = ww_ping w"
    "ww_pc w' = ww_pc w" "request_view (ww_root w') = request_view (ww_root w)"
    "rw_discovery (ww_root w') = rw_discovery (ww_root w)" "latch_view (ww_root w') = latch_view (ww_root w)"
    "rw_present (ww_root w') = rw_present (ww_root w)"
  shows "wake_inv w'"
proof -
  have bg: "new_bg (ww_root w') = new_bg (ww_root w)"
    using assms(6,8) by (simp add: new_bg_def request_view_eq latch_view_def split: option.split)
  show ?thesis using assms bg unfolding wake_inv_def rung_def request_view_eq latch_view_def by auto
qed

lemma wake_posted:
  assumes "wake_inv w" "ww_published w' = ww_published w" "ww_wakes w' = ww_wakes w + 1" "ww_pc w' = ww_pc w"
    "rw_discovery (ww_root w') = rw_discovery (ww_root w)"
  shows "wake_inv w'"
  using assms by (simp add: wake_inv_def rung_def)

lemma root_step_wake:
  assumes inv: "wake_inv w" and step: "root_step ok w e = Some x"
  shows "wake_inv (fst x)"
proof (cases e)
  case (Deliver c)
  then show ?thesis using inv step by (intro wake_all) (auto simp: wake_inv_def split: if_splits)
next
  case Settle
  then show ?thesis using settle_wake [OF inv] step by simp
next
  case Begin_Dispatch
  then show ?thesis using inv step by (intro wake_all) (auto simp: wake_inv_def split: if_splits)
next
  case Take_Ping
  then show ?thesis using inv step by (intro wake_all) (auto simp: wake_inv_def split: if_splits)
next
  case End_Dispatch
  then show ?thesis using inv step by (intro wake_all) (auto simp: wake_inv_def split: if_splits)
next
  case Ring
  then show ?thesis using inv step by (auto simp: wake_inv_def rung_def split: if_splits)
next
  case Flip_Maximized
  then show ?thesis using step by (intro wake_frame [OF inv]) (auto simp: views Let_def)
next
  case Publish_Thread
  then show ?thesis using step by (intro wake_frame [OF inv]) auto
next
  case (Probe_Feeds found)
  then show ?thesis using step by (intro wake_frame [OF inv]) (auto simp: views split: if_splits)
next
  case Core_Ready
  then show ?thesis using step by (intro wake_frame [OF inv]) (auto simp: views)
next
  case Send_Due
  then show ?thesis using step by (intro wake_posted [OF inv]) (auto simp: posted_def split: list.splits)
qed (use step in \<open>auto intro!: wake_posted [OF inv] simp: posted_def split: if_split_asm\<close>)

lemma root_run_wake: "wake_inv w \<Longrightarrow> root_run ok w es = Some x \<Longrightarrow> wake_inv (fst x)"
  by (induction es arbitrary: w x) (auto split: option.splits dest: root_step_wake)

text \<open>All that was asked for has been done, as far as it can be before there is anything to show.\<close>

definition serviced :: "root_window \<Rightarrow> bool" where
  "serviced r \<longleftrightarrow> rw_fs r = FS_NONE \<and> rw_commands r = [] \<and> \<not> new_bg r \<and> \<not> rw_fallback_fed r \<and>
     \<not> (rw_present r \<and> rw_pending_present r)"


section \<open>Examples\<close>

definition all_ok :: answers where "all_ok what n = True"

definition plain_offer :: offered where
  "plain_offer = \<lparr>of_viewporter = True, of_scale_manager = True, of_decorations = True, of_palette = False, of_seat = True\<rparr>"

definition plain_root :: root_window where
  "plain_root = fst (root_start plain_offer boot_default Deco_Auto 0)"

definition plain_configure :: "int option \<Rightarrow> int option \<Rightarrow> window_mode \<Rightarrow> configure" where
  "plain_configure w h m = \<lparr>cf_w = w, cf_h = h, cf_fullscreen = (m = Fullscreen), cf_maximized = (m = Maximized),
     cf_tiled = (m = Tiled), cf_suspended = False, cf_decoration = Client_Side\<rparr>"

definition first_show :: "root_event list" where
  "first_show = replicate 6 Settle @
     [Begin_Dispatch, Deliver (Ev_Preferred_Scale 150), Deliver (Ev_Configure (plain_configure (Some 1600) (Some 900) Floating)),
      End_Dispatch] @ replicate 12 Settle"

definition first_shown :: "root_world \<times> root_out list" where
  "first_shown = the (root_run all_ok (root_world_start True plain_root) first_show)"

lemma first_show_runs: "root_run all_ok (root_world_start True plain_root) first_show = Some (fst first_shown, snd first_shown)"
proof -
  have "root_run all_ok (root_world_start True plain_root) first_show \<noteq> None" by code_simp
  then show ?thesis by (auto simp: first_shown_def)
qed

lemma first_show_content: "shows_content (snd first_shown)" "ww_pc (fst first_shown) = Asleep" "\<not> rung (fst first_shown)"
  by code_simp+

lemma plain_settled: "settled_start plain_root"
  unfolding plain_root_def by (rule root_start_settled)

lemma content_after_configure_witness: "\<exists>c. Deliver (Ev_Configure c) \<in> set first_show"
  by (rule content_after_configure [OF plain_settled first_show_runs first_show_content(1)])


end
