(* ===== verification/Root_Settle.thy ===== *)
theory Root_Settle
  imports Root_Runs
begin

text \<open>
  What the root window's loop comes to, and what it shows (\<open>wayland/src/root_window.rs\<close>): settling
  ends, the popup is told every placement that matters once and in order, sizes and modes come back
  as they were; and where requests are lost.
\<close>

section \<open>Settling ends\<close>

definition settle_to :: "answers \<Rightarrow> root_world \<Rightarrow> nat \<Rightarrow> root_world \<Rightarrow> bool" where
  "settle_to ok w n w' \<longleftrightarrow> (\<exists>outs. root_run ok w (replicate n Settle) = Some (w', outs))"

lemma root_run_append:
  "root_run ok w (es @ es') =
     Option.bind (root_run ok w es) (\<lambda>(w', o1). map_option (\<lambda>(w'', o2). (w'', o1 @ o2)) (root_run ok w' es'))"
proof (induction es arbitrary: w)
  case Nil
  then show ?case by (cases "root_run ok w es'") auto
next
  case (Cons e es)
  show ?case
  proof (cases "root_step ok w e")
    case (Some x)
    then show ?thesis using Cons [of "fst x"]
      by (cases x; cases "root_run ok (fst x) es") (auto simp: option.map_comp comp_def split_beta split: option.split)
  qed simp
qed

lemma settle_to_trans: "settle_to ok w n w1 \<Longrightarrow> settle_to ok w1 m w2 \<Longrightarrow> settle_to ok w (n + m) w2"
  by (auto simp: settle_to_def replicate_add root_run_append)

lemma settle_to_1: "settle_step ok w = Some x \<Longrightarrow> settle_to ok w 1 (fst x)"
  by (cases x) (simp add: settle_to_def)

lemma settle_to_refl: "settle_to ok w 0 w"
  by (simp add: settle_to_def)

text \<open>What is done by the time a pass has come to a stage.\<close>

definition done_to :: "nat \<Rightarrow> root_window \<Rightarrow> bool" where
  "done_to k r \<longleftrightarrow> \<not> rw_fallback_fed r \<and> (2 \<le> k \<longrightarrow> rw_discovery r \<noteq> Discovery_Requested) \<and>
     (3 \<le> k \<longrightarrow> rw_fs r = FS_NONE) \<and> (4 \<le> k \<longrightarrow> rw_commands r = []) \<and> (5 \<le> k \<longrightarrow> \<not> new_bg r)"

lemma stage_fallback:
  assumes "ww_pc w = Settle_Fallback"
  shows "\<exists>p w'. settle_to ok w 1 w' \<and> ww_pc w' = Settle_Discovery p \<and> done_to 1 (ww_root w') \<and>
    rw_commands (ww_root w') = rw_commands (ww_root w)"
proof (cases "rw_fallback_fed (ww_root w)")
  case True
  then have "settle_step ok w = Some (run_on (\<lambda>r. try_present ok (r\<lparr>rw_fallback_fed := False\<rparr>)) (Settle_Discovery True) w)"
    using assms by (simp add: settle_step.simps)
  from settle_to_1 [OF this] show ?thesis
    using try_present_discovery(2) [where s = "ww_root w\<lparr>rw_fallback_fed := False\<rparr>" and ok = ok]
    by (intro exI [of _ True] exI [of _ "fst (run_on (\<lambda>r. try_present ok (r\<lparr>rw_fallback_fed := False\<rparr>)) (Settle_Discovery True) w)"])
      (auto simp: done_to_def request_view_eq)
next
  case False
  then have "settle_step ok w = Some (w\<lparr>ww_pc := Settle_Discovery False\<rparr>, [])"
    using assms by (simp add: settle_step.simps)
  from settle_to_1 [OF this] show ?thesis
    using False by (intro exI [of _ False] exI [of _ "w\<lparr>ww_pc := Settle_Discovery False\<rparr>"]) (auto simp: done_to_def)
qed

lemma stage_discovery:
  assumes "ww_pc w = Settle_Discovery p" "done_to 1 (ww_root w)"
  shows "\<exists>w'. settle_to ok w 1 w' \<and> ww_pc w' = Settle_Fs p \<and> done_to 2 (ww_root w') \<and>
    rw_commands (ww_root w') = rw_commands (ww_root w)"
proof -
  define r' where "r' = fst (service_scale_discovery ok (ww_root w))"
  obtain x where x: "settle_step ok w = Some x" "ww_root (fst x) = r'" "ww_pc (fst x) = Settle_Fs p"
    using assms(1) by (auto simp: settle_step.simps run_on_def split_beta r'_def)
  show ?thesis
    using settle_to_1 [OF x(1)] x(2,3) assms(2) discovery_serviced [of ok "ww_root w"]
    by (intro exI [of _ "fst x"]) (auto simp: done_to_def request_view_eq simp flip: r'_def)
qed

lemma stage_fs:
  assumes "ww_pc w = Settle_Fs p" "done_to 2 (ww_root w)"
  shows "\<exists>q w'. settle_to ok w 1 w' \<and> ww_pc w' = Settle_Commands q \<and> done_to 3 (ww_root w') \<and>
    rw_commands (ww_root w') = rw_commands (ww_root w)"
proof (cases "fullscreen_request (rw_fs (ww_root w)) (rw_mode (ww_root w) = Fullscreen)")
  case None
  then have "settle_step ok w = Some (run_on (\<lambda>r. (r\<lparr>rw_fs := FS_NONE\<rparr>, [])) (Settle_Commands p) w)"
    using assms(1) by (simp add: settle_step.simps)
  from settle_to_1 [OF this] show ?thesis
    using assms(2) by (intro exI [of _ p] exI [of _ "fst (run_on (\<lambda>r. (r\<lparr>rw_fs := FS_NONE\<rparr>, [])) (Settle_Commands p) w)"])
      (auto simp: done_to_def)
next
  case (Some on)
  then have "settle_step ok w = Some (run_on (\<lambda>r. apply_fullscreen on (r\<lparr>rw_fs := FS_NONE\<rparr>)) (Settle_Commands True) w)"
    using assms(1) by (simp add: settle_step.simps)
  from settle_to_1 [OF this] show ?thesis
    using assms(2) fullscreen_views [of on "ww_root w\<lparr>rw_fs := FS_NONE\<rparr>"]
    by (intro exI [of _ True] exI [of _ "fst (run_on (\<lambda>r. apply_fullscreen on (r\<lparr>rw_fs := FS_NONE\<rparr>)) (Settle_Commands True) w)"])
      (auto simp: done_to_def request_view_eq present_view_eq)
qed

lemma stage_commands:
  assumes "ww_pc w = Settle_Commands p" "done_to 3 (ww_root w)"
  shows "\<exists>q w'. settle_to ok w (Suc (length (rw_commands (ww_root w)))) w' \<and> ww_pc w' = Settle_Bg q \<and> done_to 4 (ww_root w')"
  using assms
proof (induction "rw_commands (ww_root w)" arbitrary: w p)
  case Nil
  then have "settle_step ok w = Some (w\<lparr>ww_pc := Settle_Bg p\<rparr>, [])" by (simp add: settle_step.simps flip: Nil.hyps)
  from settle_to_1 [OF this] show ?case
    using Nil by (intro exI [of _ p] exI [of _ "w\<lparr>ww_pc := Settle_Bg p\<rparr>"]) (auto simp: done_to_def)
next
  case (Cons c cs)
  define w1 where "w1 = fst (run_on (\<lambda>r. apply_command ok c (r\<lparr>rw_commands := cs\<rparr>)) (Settle_Commands True) w)"
  have step: "settle_to ok w 1 w1"
    using Cons.prems(1) unfolding w1_def by (intro settle_to_1) (simp add: settle_step.simps flip: Cons.hyps(2))
  have v: "rw_commands (ww_root w1) = cs" "ww_pc w1 = Settle_Commands True" "done_to 3 (ww_root w1)"
    using command_views [of ok c "ww_root w\<lparr>rw_commands := cs\<rparr>"] Cons.prems(2)
    by (auto simp: w1_def done_to_def request_view_eq present_view_eq)
  obtain q w' where "settle_to ok w1 (Suc (length cs)) w'" "ww_pc w' = Settle_Bg q" "done_to 4 (ww_root w')"
    using Cons.hyps(1) [of w1 True] v by auto
  with settle_to_trans [OF step this(1)] show ?case by (auto simp flip: Cons.hyps(2))
qed

lemma stage_bg:
  assumes "ww_pc w = Settle_Bg p" "done_to 4 (ww_root w)"
  shows "\<exists>q w'. settle_to ok w 1 w' \<and> ww_pc w' = Settle_Latch q \<and> done_to 5 (ww_root w')"
proof -
  define r' where "r' = fst (fst (service_background ok (ww_root w)))"
  obtain x q where x: "settle_step ok w = Some x" "ww_root (fst x) = r'" "ww_pc (fst x) = Settle_Latch q"
    using assms(1) by (auto simp: settle_step.simps split_beta r'_def)
  have "\<not> new_bg r'"
  proof (cases "decode_bg (rw_pending_bg (ww_root w))")
    case None
    then show ?thesis by (simp add: r'_def service_background_def new_bg_def)
  next
    case (Some c)
    have "rw_bg r' = c \<and> rw_pending_bg r' = rw_pending_bg (ww_root w)"
      using Some background_views(2) [of ok "ww_root w"] rebuild_views(3) [of ok _ _ "ww_root w\<lparr>rw_bg := c\<rparr>"]
      by (auto simp: r'_def service_background_def Let_def split_beta request_view_eq latch_view_def split: option.splits)
    then show ?thesis using Some by (simp add: new_bg_def)
  qed
  moreover have "request_view r' = request_view (ww_root w)" "present_view r' = present_view (ww_root w)"
    using background_views [of ok "ww_root w"] by (simp_all add: r'_def)
  ultimately show ?thesis
    using settle_to_1 [OF x(1)] x(2,3) assms(2)
    by (intro exI [of _ q] exI [of _ "fst x"]) (auto simp: done_to_def request_view_eq present_view_eq)
qed

lemma new_bg_latch [simp]: "new_bg (r\<lparr>rw_pending_present := b\<rparr>) = new_bg r"
  by (auto simp: new_bg_def split: option.split)

lemma stage_latch:
  assumes "ww_pc w = Settle_Latch p" "done_to 5 (ww_root w)"
  shows "\<exists>w'. settle_to ok w 1 w' \<and> serviced (ww_root w') \<and> rw_discovery (ww_root w') \<noteq> Discovery_Requested \<and>
    (ww_pc w' = Settle_Fallback \<or> ww_pc w' \<in> {Asleep, Exited})"
proof -
  obtain x where x: "settle_step ok w = Some x" "ww_root (fst x) = ww_root w\<lparr>rw_pending_present := False\<rparr> \<or>
      ww_root (fst x) = ww_root w \<and> \<not> (rw_present (ww_root w) \<and> rw_pending_present (ww_root w))"
      "ww_pc (fst x) \<in> {Settle_Fallback, Asleep, Exited}"
    using assms(1) by (auto simp: settle_step.simps)
  show ?thesis using settle_to_1 [OF x(1)] x(2,3) assms(2)
    by (intro exI [of _ "fst x"]) (auto simp: done_to_def serviced_def)
qed

lemma settle_pass:
  assumes "ww_pc w = Settle_Fallback"
  shows "\<exists>w'. settle_to ok w (length (rw_commands (ww_root w)) + 6) w' \<and> serviced (ww_root w') \<and>
    rw_discovery (ww_root w') \<noteq> Discovery_Requested \<and> (ww_pc w' = Settle_Fallback \<or> ww_pc w' \<in> {Asleep, Exited})"
proof -
  obtain p w1 where 1: "settle_to ok w 1 w1" "ww_pc w1 = Settle_Discovery p" "done_to 1 (ww_root w1)"
    "rw_commands (ww_root w1) = rw_commands (ww_root w)" using stage_fallback [OF assms] by blast
  obtain w2 where 2: "settle_to ok w1 1 w2" "ww_pc w2 = Settle_Fs p" "done_to 2 (ww_root w2)"
    "rw_commands (ww_root w2) = rw_commands (ww_root w)" using stage_discovery [OF 1(2,3)] 1(4) by metis
  obtain q w3 where 3: "settle_to ok w2 1 w3" "ww_pc w3 = Settle_Commands q" "done_to 3 (ww_root w3)"
    "rw_commands (ww_root w3) = rw_commands (ww_root w)" using stage_fs [OF 2(2,3)] 2(4) by metis
  obtain q' w4 where 4: "settle_to ok w3 (Suc (length (rw_commands (ww_root w)))) w4" "ww_pc w4 = Settle_Bg q'" "done_to 4 (ww_root w4)"
    using stage_commands [OF 3(2,3)] 3(4) by metis
  obtain q'' w5 where 5: "settle_to ok w4 1 w5" "ww_pc w5 = Settle_Latch q''" "done_to 5 (ww_root w5)"
    using stage_bg [OF 4(2,3)] by blast
  obtain w6 where 6: "settle_to ok w5 1 w6" "serviced (ww_root w6)" "rw_discovery (ww_root w6) \<noteq> Discovery_Requested"
    "ww_pc w6 = Settle_Fallback \<or> ww_pc w6 \<in> {Asleep, Exited}" using stage_latch [OF 5(2,3)] by blast
  have "settle_to ok w (1 + (1 + (1 + (Suc (length (rw_commands (ww_root w))) + (1 + 1))))) w6"
    using 1(1) 2(1) 3(1) 4(1) 5(1) 6(1) by (intro settle_to_trans)
  moreover have "1 + (1 + (1 + (Suc (length (rw_commands (ww_root w))) + (1 + 1)))) = length (rw_commands (ww_root w)) + (6 :: nat)" by simp
  ultimately have "settle_to ok w (length (rw_commands (ww_root w)) + 6) w6" by metis
  then show ?thesis using 6 by blast
qed

text \<open>A pass that finds nothing to do goes to sleep.\<close>

lemma quiet_pass:
  assumes "ww_pc w = Settle_Fallback" "serviced (ww_root w)" "rw_discovery (ww_root w) \<noteq> Discovery_Requested"
  shows "\<exists>w'. settle_to ok w 6 w' \<and> ww_root w' = ww_root w \<and> ww_pc w' \<in> {Asleep, Exited}"
proof -
  define in_pc where "in_pc pc = w\<lparr>ww_pc := pc\<rparr>" for pc
  have s: "settle_to ok (in_pc pc) 1 (in_pc pc')" if "settle_step ok (in_pc pc) = Some (in_pc pc', [])" for pc pc'
    using settle_to_1 [OF that] by simp
  have d: "service_scale_discovery ok (ww_root w) = (ww_root w, [])"
    using assms(3) by (cases "rw_discovery (ww_root w)") (simp_all add: service_scale_discovery_def)
  have bg: "service_background ok (ww_root w) = ((ww_root w, []), False)"
    using assms(2) by (auto simp: serviced_def new_bg_def service_background_def split: option.splits)
  have fs: "ww_root w\<lparr>rw_fs := FS_NONE\<rparr> = ww_root w" "fullscreen_request (rw_fs (ww_root w)) b = None" for b
    using assms(2) by (simp_all add: serviced_def fullscreen_request_def FS_NONE_def FS_ON_def FS_OFF_def FS_TOGGLE_def)
  have w: "in_pc Settle_Fallback = w" using assms(1) by (simp add: in_pc_def)
  have 1: "settle_to ok (in_pc Settle_Fallback) 1 (in_pc (Settle_Discovery False))"
    using assms(2) by (intro s) (simp add: in_pc_def settle_step.simps serviced_def)
  have 2: "settle_to ok (in_pc (Settle_Discovery False)) 1 (in_pc (Settle_Fs False))"
    by (intro s) (simp add: in_pc_def settle_step.simps run_on_def d)
  have 3: "settle_to ok (in_pc (Settle_Fs False)) 1 (in_pc (Settle_Commands False))"
    by (intro s) (simp add: in_pc_def settle_step.simps run_on_def fs)
  have 4: "settle_to ok (in_pc (Settle_Commands False)) 1 (in_pc (Settle_Bg False))"
    using assms(2) by (intro s) (simp add: in_pc_def settle_step.simps serviced_def)
  have 5: "settle_to ok (in_pc (Settle_Bg False)) 1 (in_pc (Settle_Latch False))"
    by (intro s) (simp add: in_pc_def settle_step.simps bg)
  have 6: "settle_to ok (in_pc (Settle_Latch False)) 1 (in_pc (if ww_stopping w then Exited else Asleep))"
    using assms(2) by (intro s) (auto simp: in_pc_def settle_step.simps serviced_def)
  have "settle_to ok (in_pc Settle_Fallback) (1 + (1 + (1 + (1 + (1 + 1))))) (in_pc (if ww_stopping w then Exited else Asleep))"
    using 1 2 3 4 5 6 by (intro settle_to_trans)
  then have "settle_to ok w 6 (in_pc (if ww_stopping w then Exited else Asleep))" by (simp add: w eval_nat_numeral)
  then show ?thesis by (intro exI [of _ "in_pc (if ww_stopping w then Exited else Asleep)"]) (simp add: in_pc_def)
qed

text \<open>
  C34: Settling ends. Left to itself the loop goes from the start of a pass to sleep (or, once stopped,
  to its end) in at most twelve steps and one per queued command, and everything requested before is
  serviced then.
\<close>
theorem settling_ends:
  assumes "ww_pc w = Settle_Fallback"
  shows "\<exists>n w' outs. n \<le> length (rw_commands (ww_root w)) + 12 \<and> root_run ok w (replicate n Settle) = Some (w', outs) \<and>
    ww_pc w' \<in> {Asleep, Exited} \<and> serviced (ww_root w')"
proof -
  obtain w1 where w1: "settle_to ok w (length (rw_commands (ww_root w)) + 6) w1" "serviced (ww_root w1)"
    "rw_discovery (ww_root w1) \<noteq> Discovery_Requested" "ww_pc w1 = Settle_Fallback \<or> ww_pc w1 \<in> {Asleep, Exited}"
    using settle_pass [OF assms] by blast
  show ?thesis
  proof (cases "ww_pc w1 = Settle_Fallback")
    case True
    obtain w2 where w2: "settle_to ok w1 6 w2" "ww_root w2 = ww_root w1" "ww_pc w2 \<in> {Asleep, Exited}"
      using quiet_pass [OF True w1(2,3)] by blast
    then obtain outs where "root_run ok w (replicate (length (rw_commands (ww_root w)) + 6 + 6) Settle) = Some (w2, outs)"
      using settle_to_trans [OF w1(1) w2(1)] unfolding settle_to_def by blast
    then show ?thesis
      using w1(2) w2(2,3)
      by (intro exI [of _ "length (rw_commands (ww_root w)) + 6 + 6"] exI [of _ w2] exI [of _ outs]) simp
  next
    case False
    then show ?thesis using w1 unfolding settle_to_def
      by (elim exE, intro exI [of _ "length (rw_commands (ww_root w)) + 6"] exI [of _ w1] exI) auto
  qed
qed

section \<open>The popup's place\<close>

text \<open>
  What the compositor knows of the menu's popup from the requests made. Of \<open>xdg_shell\<close> it holds that a
  popup is grabbed before its first commit, which comes once; that a buffer is attached only after the
  popup was configured, which answers the commit, and maps it; and that a request to move counts only
  for a mapped popup. The popup is placed when created; one is up at a time.
\<close>

record popup_view =
  pv_popup :: "(nat \<times> placement) option"
  pv_committed :: bool
  pv_configured :: bool
  pv_mapped :: bool

definition no_popup :: popup_view where
  "no_popup = \<lparr>pv_popup = None, pv_committed = False, pv_configured = False, pv_mapped = False\<rparr>"

definition shows_popup :: "popup_view \<Rightarrow> nat \<Rightarrow> bool" where
  "shows_popup v n \<longleftrightarrow> map_option fst (pv_popup v) = Some n"

datatype popup_event = Menu_Asks popup_command | Popup_Configured nat

datatype popup_record = Configures nat | Asked root_out

fun see_out :: "popup_view \<Rightarrow> root_out \<Rightarrow> popup_view option" where
  "see_out v (Popup_Created n p) =
     (if pv_popup v = None then Some \<lparr>pv_popup = Some (n, p), pv_committed = False, pv_configured = False, pv_mapped = False\<rparr>
      else None)"
| "see_out v (Popup_Grab n serial) = (if shows_popup v n \<and> \<not> pv_committed v then Some v else None)"
| "see_out v (Popup_Initial_Commit n) = (if shows_popup v n \<and> \<not> pv_committed v then Some (v\<lparr>pv_committed := True\<rparr>) else None)"
| "see_out v (Popup_Attach n paint) = (if shows_popup v n \<and> pv_configured v then Some (v\<lparr>pv_mapped := True\<rparr>) else None)"
| "see_out v (Popup_Move n p) =
     (if shows_popup v n \<and> pv_mapped v \<and> pv_popup v \<noteq> Some (n, p) then Some (v\<lparr>pv_popup := Some (n, p)\<rparr>) else None)"
| "see_out v (Popup_Gone n) = (if shows_popup v n then Some no_popup else None)"
| "see_out v _ = Some v"

text \<open>A configure answers a commit; there is none without.\<close>

fun see :: "popup_view option \<Rightarrow> popup_record \<Rightarrow> popup_view option" where
  "see None _ = None"
| "see (Some v) (Asked x) = see_out v x"
| "see (Some v) (Configures n) = Some (if shows_popup v n \<and> pv_committed v then v\<lparr>pv_configured := True\<rparr> else v)"

definition sees :: "popup_record list \<Rightarrow> popup_view option \<Rightarrow> popup_view option" where
  "sees outs v = foldl see v outs"

lemma sees_simps [simp]: "sees [] v = v" "sees (x # xs) v = sees xs (see v x)" "sees (xs @ ys) v = sees ys (sees xs v)"
  by (simp_all add: sees_def)

fun popup_event_step :: "answers \<Rightarrow> popup_event \<Rightarrow> root_window \<Rightarrow> root_window \<times> root_out list" where
  "popup_event_step ok (Menu_Asks c) r = popup_step ok c r"
| "popup_event_step ok (Popup_Configured n) r = deliver ok (Ev_Popup_Configure n) r"

fun popup_records :: "popup_event \<Rightarrow> root_out list \<Rightarrow> popup_record list" where
  "popup_records (Menu_Asks c) outs = map Asked outs"
| "popup_records (Popup_Configured n) outs = Configures n # map Asked outs"

fun popup_run :: "answers \<Rightarrow> root_window \<Rightarrow> popup_event list \<Rightarrow> root_window \<times> popup_record list" where
  "popup_run ok r [] = (r, [])"
| "popup_run ok r (e # es) =
     (let (r', outs) = popup_event_step ok e r; (r'', outs') = popup_run ok r' es in (r'', popup_records e outs @ outs'))"

text \<open>
  The menu paints a popup of a generation only once it was told that the generation is ready, which the
  root thread does when the popup is configured.
\<close>

definition told_ready :: "root_out list \<Rightarrow> int list" where
  "told_ready = List.map_filter (\<lambda>x. case x of Tell_Menu_Ready g \<Rightarrow> Some g | _ \<Rightarrow> None)"

fun paints_when_ready :: "answers \<Rightarrow> root_window \<Rightarrow> int list \<Rightarrow> popup_event list \<Rightarrow> bool" where
  "paints_when_ready ok r ready [] = True"
| "paints_when_ready ok r ready (e # es) =
     ((case e of Menu_Asks (Popup_Paint paint) \<Rightarrow> mp_generation paint \<in> set ready | _ \<Rightarrow> True) \<and>
      paints_when_ready ok (fst (popup_event_step ok e r)) (ready @ told_ready (snd (popup_event_step ok e r))) es)"

definition popup_agrees :: "root_window \<Rightarrow> int list \<Rightarrow> popup_view \<Rightarrow> bool" where
  "popup_agrees r ready v \<longleftrightarrow> (\<forall>g\<in>set ready. g \<le> rw_armed_gen r) \<and>
     (case rw_menu r of
        Popup_None \<Rightarrow> v = no_popup
      | Popup_Unmapped live \<Rightarrow> pv_popup v = Some (lp_popup live, pd_sent (lp_place live)) \<and> pv_committed v \<and> \<not> pv_mapped v \<and>
          pd_held (lp_place live) \<noteq> Some (pd_sent (lp_place live)) \<and> lp_generation live = rw_armed_gen r \<and>
          (lp_generation live \<in> set ready \<longrightarrow> pv_configured v)
      | Popup_Mapped live \<Rightarrow> pv_popup v = Some (lp_popup live, pd_sent (lp_place live)) \<and> pv_committed v \<and> pv_configured v \<and>
          pv_mapped v \<and> pd_held (lp_place live) = None \<and> lp_generation live = rw_armed_gen r)"

lemma told_ready_simps [simp]:
  "told_ready [] = []" "told_ready (Tell_Menu_Ready g # xs) = g # told_ready xs"
  "told_ready (Popup_Created n p # xs) = told_ready xs" "told_ready (Popup_Grab n i # xs) = told_ready xs"
  "told_ready (Popup_Initial_Commit n # xs) = told_ready xs" "told_ready (Popup_Attach n q # xs) = told_ready xs"
  "told_ready (Popup_Move n p # xs) = told_ready xs" "told_ready (Popup_Gone n # xs) = told_ready xs"
  by (simp_all add: told_ready_def List.map_filter_simps)

text \<open>With positioners to be had, every request is one the compositor takes, and the views stay in step.\<close>

lemma popup_step_agrees:
  assumes ok: "ok Make_Positioner = (\<lambda>_. True)" and agree: "popup_agrees r ready v"
    and painted: "case c of Popup_Paint paint \<Rightarrow> mp_generation paint \<in> set ready | _ \<Rightarrow> True"
  shows "\<exists>v'. sees (map Asked (snd (popup_step ok c r))) (Some v) = Some v' \<and>
    popup_agrees (fst (popup_step ok c r)) (ready @ told_ready (snd (popup_step ok c r))) v'"
proof (cases c)
  case (Popup_Create g place serial)
  then show ?thesis using agree ok
    by (cases "rw_menu r")
      (auto simp: create_menu_popup_def ask_def drop_popup_def popup_agrees_def placed_created_def shows_popup_def no_popup_def
        Let_def split: bool.split)
next
  case (Popup_Reposition g place)
  then show ?thesis using agree ok
    by (cases "rw_menu r")
      (auto simp: reposition_menu_popup_def popup_move_def ask_def popup_agrees_def placed_hold_def placed_send_def
        popup_generation_def shows_popup_def split: prod.split)
next
  case (Popup_Paint paint)
  then show ?thesis using agree ok painted
    by (cases "rw_menu r")
      (auto simp: paint_menu_popup_def popup_move_def ask_def popup_agrees_def placed_on_map_def
        popup_generation_def shows_popup_def Let_def split: bool.split option.split)
next
  case (Popup_Destroy g)
  then show ?thesis using agree
    by (cases "rw_menu r")
      (auto simp: destroy_menu_popup_def drop_popup_def popup_agrees_def popup_generation_def shows_popup_def)
qed

lemma popup_configured_agrees:
  assumes "popup_agrees r ready v"
  shows "\<exists>v'. sees (Configures n # map Asked (snd (deliver ok (Ev_Popup_Configure n) r))) (Some v) = Some v' \<and>
    popup_agrees r (ready @ told_ready (snd (deliver ok (Ev_Popup_Configure n) r))) v'"
  using assms
  by (cases "rw_menu r") (auto simp: menu_generation_def popup_agrees_def shows_popup_def no_popup_def)

lemma popup_run_agrees:
  assumes ok: "ok Make_Positioner = (\<lambda>_. True)"
  shows "popup_agrees r ready v \<Longrightarrow> paints_when_ready ok r ready es \<Longrightarrow>
    \<exists>v' ready'. sees (snd (popup_run ok r es)) (Some v) = Some v' \<and> popup_agrees (fst (popup_run ok r es)) ready' v'"
proof (induction es arbitrary: r ready v)
  case (Cons e es)
  let ?x = "popup_event_step ok e r"
  have "\<exists>v1. sees (popup_records e (snd ?x)) (Some v) = Some v1 \<and> popup_agrees (fst ?x) (ready @ told_ready (snd ?x)) v1"
  proof (cases e)
    case (Menu_Asks c)
    then show ?thesis using popup_step_agrees [of ok, OF ok Cons.prems(1), of c] Cons.prems(2) by (cases c) simp_all
  next
    case (Popup_Configured n)
    then show ?thesis using popup_configured_agrees [OF Cons.prems(1), of n ok] by simp
  qed
  then obtain v1 where v1: "sees (popup_records e (snd ?x)) (Some v) = Some v1" "popup_agrees (fst ?x) (ready @ told_ready (snd ?x)) v1"
    by blast
  show ?case using Cons.IH [OF v1(2)] Cons.prems(2) v1(1) by (auto simp: split_beta Let_def)
qed auto

text \<open>The place last wanted for the newest generation, from the commands alone.\<close>

fun want_step :: "int \<times> (int \<times> placement) option \<Rightarrow> popup_command \<Rightarrow> int \<times> (int \<times> placement) option" where
  "want_step (armed, want) (Popup_Create g place serial) = (if g \<le> armed then (armed, want) else (g, Some (g, place)))"
| "want_step (armed, want) (Popup_Reposition g place) =
     (armed, case want of Some (g', p) \<Rightarrow> if g' = g then Some (g, place) else want | None \<Rightarrow> None)"
| "want_step (armed, want) (Popup_Paint paint) = (armed, want)"
| "want_step (armed, want) (Popup_Destroy g) =
     (armed, case want of Some (g', p) \<Rightarrow> if g' = g then None else want | None \<Rightarrow> None)"

definition wanted :: "popup_command list \<Rightarrow> (int \<times> placement) option" where
  "wanted cs = snd (foldl want_step (0, None) cs)"

definition want_agrees :: "root_window \<Rightarrow> int \<times> (int \<times> placement) option \<Rightarrow> bool" where
  "want_agrees r w \<longleftrightarrow> fst w = rw_armed_gen r \<and>
     (case popup_live (rw_menu r) of None \<Rightarrow> True
      | Some live \<Rightarrow> snd w = Some (lp_generation live, keep (pd_held (lp_place live)) (pd_sent (lp_place live)))) \<and>
     (case rw_menu r of Popup_Mapped live \<Rightarrow> pd_held (lp_place live) = None | _ \<Rightarrow> True)"

lemma want_step_agrees:
  assumes "want_agrees r w"
  shows "want_agrees (fst (popup_step ok c r)) (want_step w c)"
proof -
  obtain armed want where w: "w = (armed, want)" by fastforce
  show ?thesis
  proof (cases c)
    case (Popup_Create g place serial)
    then show ?thesis using assms
      by (auto simp: w want_agrees_def create_menu_popup_def ask_def placed_created_def Let_def split: bool.split)
  next
    case (Popup_Reposition g place)
    then show ?thesis using assms
      by (cases "rw_menu r")
        (auto simp: w want_agrees_def reposition_menu_popup_def popup_move_def ask_def placed_hold_def placed_send_def
          popup_generation_def keep_def split: prod.split option.splits)
  next
    case (Popup_Paint paint)
    then show ?thesis using assms
      by (cases "rw_menu r")
        (auto simp: w want_agrees_def paint_menu_popup_def popup_move_def ask_def placed_on_map_def
          popup_generation_def keep_def Let_def split: bool.split option.splits)
  next
    case (Popup_Destroy g)
    then show ?thesis using assms
      by (cases "rw_menu r") (auto simp: w want_agrees_def destroy_menu_popup_def popup_generation_def)
  qed
qed

fun asked_by :: "popup_event list \<Rightarrow> popup_command list" where
  "asked_by [] = []"
| "asked_by (Menu_Asks c # es) = c # asked_by es"
| "asked_by (Popup_Configured n # es) = asked_by es"

lemma want_run_agrees: "want_agrees r w \<Longrightarrow> want_agrees (fst (popup_run ok r es)) (foldl want_step w (asked_by es))"
proof (induction es arbitrary: r w)
  case (Cons e es)
  then show ?case using want_step_agrees [OF Cons.prems, of ok] by (cases e) (simp_all add: split_beta Let_def)
qed simp

text \<open>
  C35: The compositor is told of a popup only what it can take, and holds the place that was wanted last.
  Positioners can be built, and the menu paints a generation only once it was told that it is ready;
  then for every sequence of menu commands and popup configures, whatever else fails, a popup is gone
  before another is created, is grabbed before its one initial commit, gets a buffer only after it was
  configured, and is moved only while it is mapped and to a place other than the one it has; and a
  mapped popup stands where it was last wanted.
\<close>
theorem popup_place_in_step:
  fixes offer :: offered and boot :: boot_size and request :: decoration_request and bg :: "32 word"
  defines "start \<equiv> fst (root_start offer boot request bg)"
  assumes "ok Make_Positioner = (\<lambda>_. True)" "paints_when_ready ok start [] es"
  shows "\<exists>v. sees (snd (popup_run ok start es)) (Some no_popup) = Some v \<and>
    (case rw_menu (fst (popup_run ok start es)) of
       Popup_Mapped live \<Rightarrow> (\<exists>place. wanted (asked_by es) = Some (lp_generation live, place) \<and>
         pv_popup v = Some (lp_popup live, place) \<and> pv_mapped v)
     | Popup_Unmapped live \<Rightarrow> \<not> pv_mapped v \<and> map_option fst (pv_popup v) = Some (lp_popup live)
     | Popup_None \<Rightarrow> pv_popup v = None)"
proof -
  have "popup_agrees start [] no_popup"
    by (simp add: popup_agrees_def start_def root_start_def Let_def)
  from popup_run_agrees [where ok = ok, OF assms(2) this assms(3)] obtain v ready where
    v: "sees (snd (popup_run ok start es)) (Some no_popup) = Some v" "popup_agrees (fst (popup_run ok start es)) ready v"
    by blast
  have "want_agrees start (0, None)"
    by (simp add: want_agrees_def start_def root_start_def Let_def)
  then have "want_agrees (fst (popup_run ok start es)) (foldl want_step (0, None) (asked_by es))" by (rule want_run_agrees)
  then show ?thesis using v
    by (intro exI [of _ v])
      (auto simp: popup_agrees_def want_agrees_def wanted_def keep_def no_popup_def split: menu_popup.splits)
qed

section \<open>Sizes and modes come back\<close>

fun deliver_all :: "answers \<Rightarrow> compositor_event list \<Rightarrow> root_window \<Rightarrow> root_window" where
  "deliver_all ok [] r = r"
| "deliver_all ok (e # es) r = deliver_all ok es (fst (deliver ok e r))"

lemma fill_kept: "rw_pre_fs_maximized (fst (fill_background ok x y s)) = rw_pre_fs_maximized s"
  by (auto simp: fill_background_def attach_background_def create_solid_buffer_def ask_def Let_def split_beta split: option.split)

lemma publish_kept: "rw_pre_fs_maximized (fst (publish z s)) = rw_pre_fs_maximized s" "rw_floating (fst (publish z s)) = rw_floating s"
  by (auto simp: publish_def split_beta split: option.split)

lemma try_present_kept:
  "rw_pre_fs_maximized (fst (try_present ok s)) = rw_pre_fs_maximized s"
  "rw_mode s \<noteq> Floating \<Longrightarrow> rw_floating (fst (try_present ok s)) = rw_floating s"
proof -
  show "rw_pre_fs_maximized (fst (try_present ok s)) = rw_pre_fs_maximized s"
    by (simp add: try_present_def execute_present_def Let_def split_beta fill_kept publish_kept split: plan_step.split option.split)
  have "rw_floating (fst (fill_background ok x y s)) = rw_floating s" "rw_mode (fst (fill_background ok x y s)) = rw_mode s" for x y s
    using fill_views(1) [of ok x y s] by (simp_all add: present_view_eq)
  then show "rw_mode s \<noteq> Floating \<Longrightarrow> rw_floating (fst (try_present ok s)) = rw_floating s"
    by (simp add: try_present_def execute_present_def Let_def split_beta publish_kept floating_record_def split: plan_step.split option.split)
qed

lemma deliver_kept: "rw_pre_fs_maximized (fst (deliver ok e s)) = rw_pre_fs_maximized s"
  by (cases e) (auto simp: on_configure_def on_preferred_scale_def Let_def split_beta try_present_kept split: option.split)

lemma deliver_all_kept: "rw_pre_fs_maximized (deliver_all ok es s) = rw_pre_fs_maximized s"
  by (induction es arbitrary: s) (simp_all add: deliver_kept)

text \<open>
  Leaving fullscreen gives the maximized state back. Whatever the compositor sends between entering
  fullscreen and leaving it - a repeated request to enter included - the window asks to be maximized
  again exactly if it was when it entered.
\<close>
theorem fullscreen_restores_maximized:
  assumes "rw_mode r \<noteq> Fullscreen" "rw_mode (deliver_all ok es (fst (apply_fullscreen True r))) = Fullscreen"
  defines "r1 \<equiv> deliver_all ok es (fst (apply_fullscreen True r))"
  shows "snd (apply_fullscreen False (deliver_all ok es' (fst (apply_fullscreen True r1)))) =
    Req_Unfullscreen # (if rw_mode r = Maximized then [Req_Maximize] else [])"
  using assms by (simp add: apply_fullscreen_def deliver_all_kept)

text \<open>Presenting records the size for the floating mode only, and forgets nothing the size is resolved from.\<close>

lemma execute_present_record:
  assumes "resolve_logical s = Some z" "rw_pending_configure s \<or> rw_present s"
  shows "rw_floating (fst (execute_present ok s)) = floating_record (rw_mode s) (wz_w z) (wz_h z) (rw_floating s) \<and>
    rw_pending_w (fst (execute_present ok s)) = rw_pending_w s \<and> rw_pending_h (fst (execute_present ok s)) = rw_pending_h s"
proof -
  have fill: "rw_floating (fst (fill_background ok x y r)) = rw_floating r" "rw_mode (fst (fill_background ok x y r)) = rw_mode r"
    "rw_pending_w (fst (fill_background ok x y r)) = rw_pending_w r" "rw_pending_h (fst (fill_background ok x y r)) = rw_pending_h r"
    for x y r
    using fill_views(1) [of ok x y r] by (simp_all add: present_view_eq)
  have publ: "rw_pending_w (fst (publish z r)) = rw_pending_w r" "rw_pending_h (fst (publish z r)) = rw_pending_h r" for z r
    by (auto simp: publish_def split_beta split: option.split)
  show ?thesis using assms
    by (auto simp: execute_present_def Let_def split_beta fill publ publish_kept)
qed

text \<open>
  A window that floats, or floated, at \<open>z\<close>: the size is recorded, and while it floats it is the size
  it is presented at.
\<close>

definition floated_at :: "window_size \<Rightarrow> root_window \<Rightarrow> bool" where
  "floated_at z r \<longleftrightarrow> scale_known r \<and> rw_present r \<and> rw_floating r = Some z \<and>
     (rw_mode r = Floating \<longrightarrow> resolve_logical r = Some z)"

lemma window_size_of_size_valid: "size_valid z \<Longrightarrow> window_size_new (wz_w z) (wz_h z) = Some z"
  by (simp add: window_size_new_def size_valid_def)

lemma present_floated:
  assumes "scale_known s" "rw_present s" "size_valid z"
    and "rw_mode s = Floating \<Longrightarrow> resolve_logical s = Some z" "rw_mode s \<noteq> Floating \<Longrightarrow> rw_floating s = Some z"
    and "rw_floating s = Some z \<or> rw_pending_w s \<noteq> None \<and> rw_pending_h s \<noteq> None"
  shows "floated_at z (fst (try_present ok s))"
proof (cases "resolve_logical s")
  case None
  then have "plan_of s = Plan_Wait" using assms(1,2) by (simp add: plan_of_def plan_next_def)
  then show ?thesis using assms None by (cases "rw_mode s = Floating") (auto simp: try_present_def floated_at_def)
next
  case (Some y)
  have t: "try_present ok s = execute_present ok s"
    using assms(1,2) Some by (simp add: try_present_def plan_of_def plan_next_def)
  have spec: "rw_present (fst (execute_present ok s))" "scale_known (fst (execute_present ok s))"
      "rw_mode (fst (execute_present ok s)) = rw_mode s" "rw_size (fst (execute_present ok s)) = Some y"
    using execute_present_spec [OF Some, where ok = ok] assms(1,2) by (simp_all add: scale_known_def)
  note rec = execute_present_record [OF Some, of ok]
  show ?thesis
  proof (cases "rw_mode s = Floating")
    case True
    then have y: "y = z" using assms(4) Some by simp
    then have "rw_floating (fst (execute_present ok s)) = Some z"
      using rec assms(2) True window_size_of_size_valid [OF assms(3)] by (simp add: floating_record_def)
    moreover have "resolve_logical (fst (execute_present ok s)) = Some z"
      using calculation rec assms(2,6) spec(3) True Some y
      by (auto simp: resolve_logical_def resolve_logical_size_def pick_extent_def split: option.splits)
    ultimately show ?thesis using spec by (simp add: t floated_at_def)
  next
    case False
    then have "rw_floating (fst (execute_present ok s)) = Some z" using rec assms(2,5) by (simp add: floating_record_def)
    then show ?thesis using spec False by (simp add: t floated_at_def)
  qed
qed

definition floating_configure :: "configure \<Rightarrow> bool" where
  "floating_configure c \<longleftrightarrow> \<not> cf_fullscreen c \<and> \<not> cf_maximized c \<and> \<not> cf_tiled c"

text \<open>What the window is before a configure's present.\<close>

definition configured :: "configure \<Rightarrow> root_window \<Rightarrow> root_window" where
  "configured c r =
     (let s = r\<lparr>rw_pending_w := Option.bind (cf_w c) logical_extent, rw_pending_h := Option.bind (cf_h c) logical_extent,
                rw_mode := window_mode_of (cf_fullscreen c) (cf_maximized c) (cf_tiled c), rw_suspended := cf_suspended c\<rparr>
      in (if rw_decorations_negotiated s then s\<lparr>rw_effective := cf_decoration c\<rparr> else s)\<lparr>rw_pending_configure := True\<rparr>)"

lemma on_configure_present:
  "fst (on_configure ok c r) = fst (try_present ok (configured c r))"
  "set (snd (try_present ok (configured c r))) \<subseteq> set (snd (on_configure ok c r))"
  by (auto simp: on_configure_def configured_def Let_def split_beta)

lemma configured_fields:
  "scale_known (configured c r) = scale_known r" "rw_present (configured c r) = rw_present r"
  "rw_floating (configured c r) = rw_floating r" "rw_size (configured c r) = rw_size r"
  "rw_pending_w (configured c r) = Option.bind (cf_w c) logical_extent"
  "rw_pending_h (configured c r) = Option.bind (cf_h c) logical_extent"
  "rw_mode (configured c r) = Floating \<longleftrightarrow> floating_configure c"
  by (auto simp: configured_def scale_known_def Let_def window_mode_of_def floating_configure_def)

text \<open>The compositor's events that do not let the window float: any but a configure that does.\<close>

fun keeps_from_floating :: "compositor_event \<Rightarrow> bool" where
  "keeps_from_floating (Ev_Configure c) \<longleftrightarrow> \<not> floating_configure c"
| "keeps_from_floating _ \<longleftrightarrow> True"

lemma deliver_floated:
  assumes "floated_at z r" "size_valid z" "keeps_from_floating e"
  shows "floated_at z (fst (deliver ok e r))"
proof (cases e)
  case (Ev_Configure c)
  then show ?thesis
    using present_floated [of "configured c r" z ok] assms
    by (simp add: on_configure_present configured_fields floated_at_def)
next
  case (Ev_Preferred_Scale raw)
  show ?thesis
  proof (cases "scale_from_wire raw")
    case (Some sc)
    let ?s = "r\<lparr>rw_window := feed_scale sc Authoritative (rw_window r)\<rparr>"
    have "scale_known ?s" using assms(1) by (auto simp: floated_at_def scale_known_def feed_scale_def)
    moreover have "resolve_logical ?s = resolve_logical r" by (simp add: resolve_logical_def)
    ultimately show ?thesis
      using present_floated [of ?s z ok] assms Some Ev_Preferred_Scale
      by (simp add: on_preferred_scale_def floated_at_def)
  qed (use Ev_Preferred_Scale assms in \<open>simp add: on_preferred_scale_def\<close>)
qed (use assms in \<open>auto simp: floated_at_def scale_known_def resolve_logical_def split: option.split\<close>)

lemma deliver_all_floated:
  "floated_at z r \<Longrightarrow> size_valid z \<Longrightarrow> list_all keeps_from_floating es \<Longrightarrow> floated_at z (deliver_all ok es r)"
  by (induction es arbitrary: r) (simp_all add: deliver_floated)

text \<open>A configure that lets the window float without a size presents it where it floated.\<close>

lemma floats_again:
  assumes "floated_at z r" "size_valid z" "floating_configure c" "cf_w c = None" "cf_h c = None"
  shows "rw_size (fst (on_configure ok c r)) = Some z \<and> Set_Geometry (wz_w z) (wz_h z) \<in> set (snd (on_configure ok c r)) \<and>
    rw_pending_present (fst (on_configure ok c r))"
proof -
  let ?s = "configured c r"
  have z: "resolve_logical ?s = Some z"
    using assms by (auto simp: resolve_logical_def resolve_logical_size_def pick_extent_def configured_fields floated_at_def
        window_size_new_def size_valid_def)
  have t: "try_present ok ?s = execute_present ok ?s" "rw_pending_configure ?s \<or> rw_present ?s"
    using assms(1) z by (simp_all add: try_present_def plan_of_def plan_next_def configured_fields floated_at_def)
  have "Set_Geometry (wz_w z) (wz_h z) \<in> set (snd (execute_present ok ?s))"
    using z t(2) by (auto simp: execute_present_def Let_def split_beta)
  then show ?thesis using execute_present_spec [OF z t(2), where ok = ok] on_configure_present [of ok c r] by (auto simp: t)
qed

text \<open>
  C36: A window gets its floating size back. The compositor lets a shown window float in a size it
  names; then come any number of other events - configures that maximize, tile or fullscreen it in
  whatever size, new scales - and the first configure that lets it float again without naming a size
  presents it in the size it floated at.
\<close>
theorem floating_size_restored:
  fixes ok :: answers
  assumes "scale_known r" "rw_present r"
    "floating_configure c0" "cf_w c0 = Some (wz_w z)" "cf_h c0 = Some (wz_h z)" "size_valid z"
    "list_all keeps_from_floating es" "floating_configure c" "cf_w c = None" "cf_h c = None"
  defines "r1 \<equiv> deliver_all ok (Ev_Configure c0 # es) r"
  shows "rw_size (fst (on_configure ok c r1)) = Some z \<and> Set_Geometry (wz_w z) (wz_h z) \<in> set (snd (on_configure ok c r1)) \<and>
    rw_pending_present (fst (on_configure ok c r1))"
proof -
  have ext: "Option.bind (cf_w c0) logical_extent = Some (wz_w z)" "Option.bind (cf_h c0) logical_extent = Some (wz_h z)"
    using assms(4-6) by (simp_all add: logical_extent_def checked_i32_def is_i32_def size_valid_def)
  have "resolve_logical (configured c0 r) = Some z"
    using ext window_size_of_size_valid [OF assms(6)]
    by (simp add: resolve_logical_def resolve_logical_size_def pick_extent_def configured_fields)
  then have "floated_at z (fst (on_configure ok c0 r))"
    using present_floated [of "configured c0 r" z ok] assms(1-3,6) ext by (simp add: on_configure_present configured_fields)
  then have "floated_at z r1" using deliver_all_floated [OF _ assms(6,7)] by (simp add: r1_def)
  then show ?thesis using floats_again assms(6,8-10) by blast
qed

section \<open>The background word\<close>

lemma bit_BG_SET: "bit BG_SET n \<longleftrightarrow> n = 24"
  unfolding BG_SET_def bit_push_bit_iff bit_1_iff by auto

lemma decode_encode_bg: "decode_bg (encode_bg c) = Some c"
proof -
  obtain r g b where c: "c = (r, g, b)" by (cases c) auto
  have "bit (encode_bg c AND BG_SET) 24" by (simp add: c encode_bg_def bit_BG_SET bit_simps)
  then have "encode_bg c AND BG_SET \<noteq> 0" by auto
  moreover have "ucast (drop_bit 16 (encode_bg c)) = r" "ucast (drop_bit 8 (encode_bg c)) = g" "ucast (encode_bg c) = b"
    by (rule bit_word_eqI; auto simp: c encode_bg_def bit_BG_SET bit_simps dest: bit_imp_le_length)+
  ultimately show ?thesis by (simp add: decode_bg_def c)
qed

section \<open>Further examples\<close>

lemma settling_ends_witness:
  "\<exists>n w' outs. n \<le> 12 \<and> root_run all_ok (root_world_start True plain_root) (replicate n Settle) = Some (w', outs) \<and>
     ww_pc w' \<in> {Asleep, Exited}"
proof -
  have "ww_pc (root_world_start True plain_root) = Settle_Fallback" "rw_commands (ww_root (root_world_start True plain_root)) = []"
    by (simp_all add: root_world_start_def plain_root_def root_start_def Let_def)
  from settling_ends [OF this(1), of all_ok] this(2) show ?thesis by auto
qed

definition example_place :: "int \<Rightarrow> placement" where
  "example_place x = \<lparr>pl_x = x, pl_y = 40, pl_lw = 200, pl_lh = 300, pl_pw = 250, pl_ph = 375\<rparr>"

definition example_paint :: menu_paint where
  "example_paint = \<lparr>mp_generation = 1, mp_pixels = [], mp_pw = 250, mp_ph = 375, mp_scroll = 0, mp_view_ph = 375, mp_lw = 200, mp_lh = 300\<rparr>"

definition example_popup :: "popup_event list" where
  "example_popup =
     [Menu_Asks (Popup_Create 1 (example_place 10) 7), Menu_Asks (Popup_Reposition 1 (example_place 20)), Popup_Configured 2,
      Menu_Asks (Popup_Paint example_paint), Menu_Asks (Popup_Reposition 1 (example_place 30))]"

lemma popup_place_in_step_witness:
  "\<exists>v live. sees (snd (popup_run all_ok plain_root example_popup)) (Some no_popup) = Some v \<and>
     rw_menu (fst (popup_run all_ok plain_root example_popup)) = Popup_Mapped live \<and>
     pv_popup v = Some (lp_popup live, example_place 30) \<and> pv_mapped v"
proof -
  have ok: "all_ok Make_Positioner = (\<lambda>_. True)" by (rule ext) (simp add: all_ok_def)
  have w: "wanted (asked_by example_popup) = Some (1, example_place 30)" by code_simp
  have p: "paints_when_ready all_ok plain_root [] example_popup" by code_simp
  have "(case rw_menu (fst (popup_run all_ok plain_root example_popup)) of Popup_Mapped live \<Rightarrow> True | _ \<Rightarrow> False)" by code_simp
  then obtain live where live: "rw_menu (fst (popup_run all_ok plain_root example_popup)) = Popup_Mapped live"
    by (auto split: menu_popup.splits)
  show ?thesis
    using popup_place_in_step [where ok = all_ok, OF ok p [unfolded plain_root_def]] w live
    by (auto simp: plain_root_def)
qed

text \<open>A place whose positioner cannot be built counts as sent: the popup stays where it was, and asking again changes nothing.\<close>

lemma failed_move_is_not_repeated:
  "let ok = (\<lambda>what n. what \<noteq> Make_Positioner \<or> n < 5);
       (r, log) = popup_run ok plain_root (example_popup @ [Menu_Asks (Popup_Reposition 1 (example_place 30))])
   in map_option pv_popup (sees log (Some no_popup)) = Some (Some (2, example_place 20)) \<and>
      map_option (pd_sent \<circ> lp_place) (popup_live (rw_menu r)) = Some (example_place 30)"
  by code_simp

lemma fullscreen_restores_maximized_witness:
  "let r1 = deliver_all all_ok [Ev_Configure (plain_configure None None Fullscreen)]
       (fst (apply_fullscreen True (plain_root\<lparr>rw_mode := Maximized\<rparr>)))
   in snd (apply_fullscreen False (fst (apply_fullscreen True r1))) = [Req_Unfullscreen, Req_Maximize]"
proof -
  have "rw_mode (deliver_all all_ok [Ev_Configure (plain_configure None None Fullscreen)]
      (fst (apply_fullscreen True (plain_root\<lparr>rw_mode := Maximized\<rparr>)))) = Fullscreen" by code_simp
  from fullscreen_restores_maximized [OF _ this, of "[]"] show ?thesis by (simp add: Let_def)
qed

definition shown_root :: root_window where
  "shown_root = plain_root\<lparr>rw_present := True, rw_window := feed_scale 120 Authoritative window_inner_new\<rparr>"

lemma floating_size_restored_witness:
  "rw_size (fst (on_configure all_ok (plain_configure None None Floating)
     (deliver_all all_ok [Ev_Configure (plain_configure (Some 1000) (Some 600) Floating),
        Ev_Configure (plain_configure (Some 1920) (Some 1080) Maximized), Ev_Preferred_Scale 180] shown_root))) =
   Some \<lparr>wz_w = 1000, wz_h = 600\<rparr>"
proof -
  let ?z = "\<lparr>wz_w = 1000, wz_h = 600\<rparr>"
  have "scale_known shown_root" "rw_present shown_root" "floating_configure (plain_configure (Some 1000) (Some 600) Floating)"
    "cf_w (plain_configure (Some 1000) (Some 600) Floating) = Some (wz_w ?z)"
    "cf_h (plain_configure (Some 1000) (Some 600) Floating) = Some (wz_h ?z)" "size_valid ?z"
    "list_all keeps_from_floating [Ev_Configure (plain_configure (Some 1920) (Some 1080) Maximized), Ev_Preferred_Scale 180]"
    "floating_configure (plain_configure None None Floating)" "cf_w (plain_configure None None Floating) = None"
    "cf_h (plain_configure None None Floating) = None"
    by (simp_all add: shown_root_def scale_known_def size_valid_def plain_configure_def floating_configure_def)
  from floating_size_restored [OF this, of all_ok] show ?thesis by blast
qed

section \<open>What is lost\<close>

text \<open>
  The thread starts before its handle is published. A request stored after its first settling and
  before the publication rings for nobody; the thread sleeps on it until something else wakes it.
\<close>
lemma early_ring_is_lost:
  "case root_run all_ok (root_world_start False plain_root)
      (replicate 6 Settle @ [Post_Fullscreen FS_ON, Ring, Publish_Thread]) of
     Some (w, outs) \<Rightarrow> ww_pc w = Asleep \<and> \<not> rung w \<and> rw_fs (ww_root w) = FS_ON
   | None \<Rightarrow> False"
  by code_simp

text \<open>Two requests to toggle that meet in the slot are one.\<close>
lemma two_toggles_are_one:
  "case root_run all_ok (root_world_start True plain_root)
      (replicate 6 Settle @ [Post_Fullscreen FS_TOGGLE, Ring, Post_Fullscreen FS_TOGGLE, Ring,
        Begin_Dispatch, Take_Ping, End_Dispatch] @ replicate 3 Settle) of
     Some (w, outs) \<Rightarrow> outs = [Req_Fullscreen] \<and> rw_fs (ww_root w) = FS_NONE
   | None \<Rightarrow> False"
  by code_simp

end
