(* ===== verification/Dirty_Rects.thy ===== *)
theory Dirty_Rects
  imports X11_Logic "HOL-Library.Monad_Syntax"
begin

text \<open>
  The pixel copies behind software painting on Wayland (\<open>wayland/src/layer_actor.rs\<close>): the
  span of a frame, cutting the dirty rectangles out of it, and patching them into the shadow
  the worker keeps. Byte offsets are natural numbers, with the checked \<open>usize\<close> operations of the
  code written out; pixels are lists of bytes. The reference is \<open>patch\<close>: a byte comes from the
  new frame where a rectangle covers its pixel, and stays elsewhere.
\<close>

type_synonym bytes = "8 word list"

section \<open>Offsets\<close>

definition usize_max :: nat where "usize_max = 18446744073709551615"

text \<open>\<open>usize::try_from\<close> on an \<open>i32\<close>, \<open>as usize\<close> on one, the result of a checked operation.\<close>

definition try_usize :: "int \<Rightarrow> nat option" where
  "try_usize i = (if 0 \<le> i then Some (nat i) else None)"

definition as_usize :: "int \<Rightarrow> nat" where
  "as_usize i = nat (i mod 18446744073709551616)"

definition checked :: "nat \<Rightarrow> nat option" where
  "checked n = (if int n \<le> u64_max then Some n else None)"

lemma checked_nat: "checked n = (if n \<le> usize_max then Some n else None)"
  by (auto simp: checked_def usize_max_def)

definition get_range :: "bytes \<Rightarrow> nat \<Rightarrow> nat \<Rightarrow> bytes option" where
  "get_range xs a b = (if a \<le> b \<and> b \<le> length xs then Some (take (b - a) (drop a xs)) else None)"

definition put_range :: "bytes \<Rightarrow> nat \<Rightarrow> bytes \<Rightarrow> bytes" where
  "put_range xs a ys = take a xs @ ys @ drop (a + length ys) xs"

definition frame_span :: "int \<Rightarrow> int \<Rightarrow> (nat \<times> nat) option" where
  "frame_span width height =
     do { let stride = nat (min u64_max (int (as_usize width * 4)));
          len \<leftarrow> checked (as_usize height * stride);
          Some (stride, len) }"

section \<open>Cutting a rectangle out of a frame\<close>

record shm_rect =
  sr_x :: int
  sr_y :: int
  sr_w :: int
  sr_h :: int
  sr_pixels :: bytes

text \<open>One row of the rectangle; a row the buffer does not hold is left out.\<close>

definition copy_row :: "bytes \<Rightarrow> nat \<Rightarrow> nat \<Rightarrow> nat \<Rightarrow> int \<Rightarrow> bytes" where
  "copy_row pixels src_stride rx_bytes row_bytes row =
     (case do { row_us \<leftarrow> try_usize row;
                v \<leftarrow> checked (row_us * src_stride);
                off \<leftarrow> checked (v + rx_bytes);
                en \<leftarrow> checked (off + row_bytes);
                get_range pixels off en }
      of None \<Rightarrow> [] | Some bs \<Rightarrow> bs)"

definition copy_dirty_rect :: "bytes \<Rightarrow> nat \<Rightarrow> int \<Rightarrow> int \<Rightarrow> jfn_rect \<Rightarrow> shm_rect option" where
  "copy_dirty_rect pixels src_stride width height rect =
     (let x0 = max 0 (rect_x rect);
          y0 = max 0 (rect_y rect);
          x1 = min width (rect_x rect + rect_w rect);
          y1 = min height (rect_y rect + rect_h rect)
      in if x1 \<le> x0 \<or> y1 \<le> y0 then None
         else
           let rx = x0; ry = y0; rw = x1 - x0; rh = y1 - y0
           in do { rw_us \<leftarrow> try_usize rw;
                   rx_us \<leftarrow> try_usize rx;
                   row_bytes \<leftarrow> checked (rw_us * 4);
                   rx_bytes \<leftarrow> checked (rx_us * 4);
                   Some \<lparr>sr_x = rx, sr_y = ry, sr_w = rw, sr_h = rh,
                         sr_pixels = concat (map (copy_row pixels src_stride rx_bytes row_bytes) [ry .. ry + rh - 1])\<rparr> })"

section \<open>Patching the shadow\<close>

definition apply_row :: "shm_rect \<Rightarrow> nat \<Rightarrow> nat \<Rightarrow> nat \<Rightarrow> bytes \<Rightarrow> int \<Rightarrow> bytes" where
  "apply_row rect dst_stride rx_bytes row_bytes shadow row =
     (case do { row_us \<leftarrow> try_usize row;
                dst_row \<leftarrow> (if sr_y rect + row \<le> i32_max then try_usize (sr_y rect + row) else None);
                src_off \<leftarrow> checked (row_us * row_bytes);
                v \<leftarrow> checked (dst_row * dst_stride);
                dst_off \<leftarrow> checked (v + rx_bytes);
                src_end \<leftarrow> checked (src_off + row_bytes);
                dst_end \<leftarrow> checked (dst_off + row_bytes);
                src \<leftarrow> get_range (sr_pixels rect) src_off src_end;
                _ \<leftarrow> get_range shadow dst_off dst_end;
                Some (dst_off, src) }
      of None \<Rightarrow> shadow | Some (dst_off, src) \<Rightarrow> put_range shadow dst_off src)"

definition apply_rect :: "nat \<Rightarrow> bytes \<Rightarrow> shm_rect \<Rightarrow> bytes" where
  "apply_rect dst_stride shadow rect =
     (case do { rw_us \<leftarrow> try_usize (sr_w rect);
                rx_us \<leftarrow> try_usize (sr_x rect);
                row_bytes \<leftarrow> checked (rw_us * 4);
                rx_bytes \<leftarrow> checked (rx_us * 4);
                Some (row_bytes, rx_bytes) }
      of None \<Rightarrow> shadow
       | Some (row_bytes, rx_bytes) \<Rightarrow>
           foldl (apply_row rect dst_stride rx_bytes row_bytes) shadow [0 .. sr_h rect - 1])"

definition apply_dirty_to_shadow :: "bytes \<Rightarrow> int \<Rightarrow> shm_rect list \<Rightarrow> bytes" where
  "apply_dirty_to_shadow shadow width rects =
     (case do { width_us \<leftarrow> try_usize width; checked (width_us * 4) }
      of None \<Rightarrow> shadow | Some dst_stride \<Rightarrow> foldl (apply_rect dst_stride) shadow rects)"

section \<open>What the copies amount to\<close>

text \<open>Does the rectangle cover the pixel byte \<open>i\<close> of a frame of this width belongs to?\<close>

definition rect_covers :: "int \<Rightarrow> jfn_rect \<Rightarrow> nat \<Rightarrow> bool" where
  "rect_covers width r i \<longleftrightarrow>
     in_box (rect_x r, rect_y r, rect_w r, rect_h r)
       (int (i mod (nat width * 4) div 4)) (int (i div (nat width * 4)))"

definition patch :: "int \<Rightarrow> jfn_rect list \<Rightarrow> bytes \<Rightarrow> bytes \<Rightarrow> bytes" where
  "patch width rects old new =
     map (\<lambda>i. if list_ex (\<lambda>r. rect_covers width r i) rects then new ! i else old ! i) [0 ..< length old]"

lemma patch_length [simp]: "length (patch w rs old new) = length old"
  by (simp add: patch_def)

lemma patch_nth:
  "i < length old \<Longrightarrow> patch w rs old new ! i = (if list_ex (\<lambda>r. rect_covers w r i) rs then new ! i else old ! i)"
  by (simp add: patch_def)

lemma patch_Nil [simp]: "patch w [] old new = old"
  by (simp add: patch_def map_nth)

lemma patch_append: "patch w (rs @ qs) old new = patch w qs (patch w rs old new) new"
  by (auto simp: patch_nth intro!: nth_equalityI)

text \<open>A frame that differs from its predecessor inside its dirty rectangles only.\<close>

definition damage_covers :: "int \<Rightarrow> jfn_rect list \<Rightarrow> bytes \<Rightarrow> bytes \<Rightarrow> bool" where
  "damage_covers width rects old new \<longleftrightarrow>
     length old = length new \<and>
     list_all (\<lambda>i. new ! i = old ! i \<or> list_ex (\<lambda>r. rect_covers width r i) rects) [0 ..< length new]"

lemma patch_damage: "damage_covers w rs old new \<Longrightarrow> patch w rs old new = new"
proof (rule nth_equalityI)
  assume d: "damage_covers w rs old new"
  then show "length (patch w rs old new) = length new" by (simp add: damage_covers_def)
  fix i assume i: "i < length (patch w rs old new)"
  with d have "new ! i = old ! i \<or> list_ex (\<lambda>r. rect_covers w r i) rs"
    by (simp add: damage_covers_def list_all_iff Ball_def)
  moreover have "i < length new" "i < length old" using d i by (simp_all add: damage_covers_def)
  ultimately show "patch w rs old new ! i = new ! i"
    by (cases "list_ex (\<lambda>r. rect_covers w r i) rs") (simp_all add: patch_nth)
qed

section \<open>Writes of pieces of one frame\<close>

lemma put_range_nth:
  assumes "a + length ys \<le> length xs" "i < length xs"
  shows "put_range xs a ys ! i = (if a \<le> i \<and> i < a + length ys then ys ! (i - a) else xs ! i)"
proof -
  have m: "min (length xs) a = a" using assms by simp
  show ?thesis
  proof (cases "a \<le> i \<and> i < a + length ys")
    case True
    then have "i - a < length ys" "\<not> i < a" by linarith+
    with True m show ?thesis by (simp add: put_range_def nth_append)
  next
    case False
    then have "\<not> i - a < length ys \<or> i < a" by linarith
    with False m assms show ?thesis
      by (cases "i < a") (simp_all add: put_range_def nth_append)
  qed
qed

lemma put_range_length [simp]: "a + length ys \<le> length xs \<Longrightarrow> length (put_range xs a ys) = length xs"
  by (simp add: put_range_def)

text \<open>The piece of \<open>new\<close> of \<open>n\<close> bytes at \<open>a\<close>.\<close>

abbreviation piece :: "bytes \<Rightarrow> nat \<Rightarrow> nat \<Rightarrow> bytes" where
  "piece new n a \<equiv> take n (drop a new)"

lemma pieces_nth:
  assumes "\<And>a. a \<in> set offs \<Longrightarrow> a + n \<le> length xs" "length new \<ge> length xs" "i < length xs"
  shows "foldl (\<lambda>xs a. put_range xs a (piece new n a)) xs offs ! i
           = (if \<exists>a\<in>set offs. a \<le> i \<and> i < a + n then new ! i else xs ! i)"
  using assms
proof (induction offs arbitrary: xs)
  case Nil
  then show ?case by simp
next
  case (Cons a offs)
  have "a + n \<le> length xs" using Cons.prems(1) by simp
  then have n: "min (length new - a) n = n" using Cons.prems(2) by simp
  let ?ys = "put_range xs a (piece new n a)"
  have len: "length ?ys = length xs" using Cons.prems(1) n by simp
  have at: "?ys ! i = (if a \<le> i \<and> i < a + n then new ! i else xs ! i)"
    using Cons.prems \<open>a + n \<le> length xs\<close> n put_range_nth [of a "piece new n a" xs i] by auto
  show ?case
    using Cons.IH [of ?ys] Cons.prems at len by (simp add: min_def) blast
qed

lemma pieces_length:
  assumes "\<And>a. a \<in> set offs \<Longrightarrow> a + n \<le> length xs"
  shows "length (foldl (\<lambda>xs a. put_range xs a (piece new n a)) xs offs) = length xs"
  using assms
proof (induction offs arbitrary: xs)
  case (Cons a offs)
  have "a + n \<le> length xs" using Cons.prems by simp
  then have "length (put_range xs a (piece new n a)) = length xs" by simp
  then show ?case using Cons.IH [of "put_range xs a (piece new n a)"] Cons.prems by simp
qed simp

lemma concat_run:
  assumes "\<And>k. k < n \<Longrightarrow> length (f k) = m" "k < n"
  shows "take m (drop (k * m) (concat (map f [0 ..< n]))) = f k"
proof -
  have len: "length (concat (map f [0 ..< j])) = j * m" if "j \<le> n" for j
    using that assms(1) by (induction j) simp_all
  have "[0 ..< n] = [0 ..< k] @ k # [Suc k ..< n]"
    using assms(2) by (metis append.left_neutral le0 less_imp_le_nat upt_add_eq_append upt_conv_Cons
        le_add_diff_inverse)
  then show ?thesis
    using len [of k] assms by simp
qed

lemma concat_run_length:
  "(\<And>k. k < n \<Longrightarrow> length (f k) = m) \<Longrightarrow> length (concat (map f [0 ..< n])) = n * m"
  by (induction n) simp_all

lemma upto_upt: "[a .. a + int n - 1] = map (\<lambda>k. a + int k) [0 ..< n]"
proof (induction n)
  case (Suc n)
  have "[a .. a + int (Suc n) - 1] = [a .. a + int n - 1] @ [a + int n]"
    using upto_rec2 [of a "a + int n"] by simp
  with Suc show ?case by simp
qed simp

section \<open>Cutting and patching\<close>

text \<open>Within a frame of \<open>i32\<close> extent no offset leaves a \<open>usize\<close>.\<close>

lemma frame_bytes:
  assumes "0 < w" "w \<le> i32_max" "0 < h" "h \<le> i32_max"
  shows "nat h * (nat w * 4) \<le> usize_max"
proof -
  have "nat h * (nat w * 4) \<le> 2147483647 * (2147483647 * 4)"
    using assms by (intro mult_le_mono) simp_all
  then show ?thesis by (simp add: usize_max_def)
qed

lemma frame_span_valid:
  assumes "0 < w" "w \<le> i32_max" "0 < h" "h \<le> i32_max"
  shows "frame_span w h = Some (nat w * 4, nat h * (nat w * 4))"
proof -
  have "as_usize w = nat w" "as_usize h = nat h" using assms by (simp_all add: as_usize_def)
  moreover have "nat (min u64_max (int (nat w * 4))) = nat w * 4" using assms by (simp add: nat_mult_distrib)
  ultimately show ?thesis using frame_bytes [OF assms] by (simp add: frame_span_def checked_nat Let_def)
qed

lemma row_fits:
  assumes "y < nat h" "x + n \<le> nat w * 4"
  shows "y * (nat w * 4) + x + n \<le> nat h * (nat w * 4)"
proof -
  have "Suc y * (nat w * 4) \<le> nat h * (nat w * 4)" using assms(1) by (intro mult_le_mono1) simp
  with assms(2) show ?thesis by simp
qed

lemma copy_row_valid:
  assumes "0 < w" "w \<le> i32_max" "0 < h" "h \<le> i32_max" "nat h * (nat w * 4) \<le> length pixels"
    "y < nat h" "x + n \<le> nat w * 4"
  shows "copy_row pixels (nat w * 4) x n (int y) = piece pixels n (y * (nat w * 4) + x)"
proof -
  have "y * (nat w * 4) + x + n \<le> nat h * (nat w * 4)" by (rule row_fits [OF assms(6,7)])
  moreover have "nat h * (nat w * 4) \<le> usize_max" by (rule frame_bytes [OF assms(1-4)])
  ultimately show ?thesis
    using assms(5) by (simp add: copy_row_def try_usize_def checked_nat get_range_def)
qed

lemma apply_row_valid:
  assumes "0 < w" "w \<le> i32_max" "0 < h" "h \<le> i32_max" "length shadow = nat h * (nat w * 4)"
    "0 \<le> sr_y r" "nat (sr_y r) + k < nat h" "x + n \<le> nat w * 4" "Suc k * n \<le> length (sr_pixels r)"
    "k * n + n \<le> usize_max"
  shows "apply_row r (nat w * 4) x n shadow (int k)
           = put_range shadow ((nat (sr_y r) + k) * (nat w * 4) + x) (piece (sr_pixels r) n (k * n))"
proof -
  have "(nat (sr_y r) + k) * (nat w * 4) + x + n \<le> nat h * (nat w * 4)" by (rule row_fits [OF assms(7,8)])
  moreover have "nat h * (nat w * 4) \<le> usize_max" by (rule frame_bytes [OF assms(1-4)])
  moreover have "nat (sr_y r + int k) = nat (sr_y r) + k" "sr_y r + int k \<le> i32_max"
    using assms(4,6,7) by linarith+
  ultimately show ?thesis
    using assms by (simp add: apply_row_def try_usize_def checked_nat get_range_def)
qed

text \<open>A rectangle cut out of a frame, clamped to it.\<close>

lemma copy_dirty_rect_valid:
  fixes w h :: int and r :: jfn_rect
  assumes "0 < w" "w \<le> i32_max" "0 < h" "h \<le> i32_max" "nat h * (nat w * 4) \<le> length pixels"
  defines "x0 \<equiv> max 0 (rect_x r)" and "y0 \<equiv> max 0 (rect_y r)"
    and "x1 \<equiv> min w (rect_x r + rect_w r)" and "y1 \<equiv> min h (rect_y r + rect_h r)"
  shows "copy_dirty_rect pixels (nat w * 4) w h r =
     (if x1 \<le> x0 \<or> y1 \<le> y0 then None
      else Some \<lparr>sr_x = x0, sr_y = y0, sr_w = x1 - x0, sr_h = y1 - y0,
        sr_pixels = concat (map (\<lambda>k. piece pixels (nat (x1 - x0) * 4)
           ((nat y0 + k) * (nat w * 4) + nat x0 * 4)) [0 ..< nat (y1 - y0)])\<rparr>)"
proof (cases "x1 \<le> x0 \<or> y1 \<le> y0")
  case True
  then show ?thesis by (auto simp: copy_dirty_rect_def assms(6-9) Let_def)
next
  case False
  have b: "0 \<le> x0" "0 \<le> y0" "x0 < x1" "x1 \<le> w" "y0 < y1" "y1 \<le> h"
    using False by (simp_all add: not_le, simp_all add: assms(6-9))
  have rows: "[y0 .. y1 - 1] = map (\<lambda>k. int (nat y0 + k)) [0 ..< nat (y1 - y0)]"
    using upto_upt [of y0 "nat (y1 - y0)"] b by simp
  have row: "copy_row pixels (nat w * 4) (nat x0 * 4) (nat (x1 - x0) * 4) (int (nat y0 + k))
      = piece pixels (nat (x1 - x0) * 4) ((nat y0 + k) * (nat w * 4) + nat x0 * 4)"
    if "k < nat (y1 - y0)" for k
  proof (rule copy_row_valid [OF assms(1-5)])
    show "nat y0 + k < nat h" using that b by linarith
    show "nat x0 * 4 + nat (x1 - x0) * 4 \<le> nat w * 4" using b by linarith
  qed
  have pix: "concat (map (copy_row pixels (nat w * 4) (nat x0 * 4) (nat (x1 - x0) * 4)) [y0 .. y1 - 1])
      = concat (map (\<lambda>k. piece pixels (nat (x1 - x0) * 4)
           ((nat y0 + k) * (nat w * 4) + nat x0 * 4)) [0 ..< nat (y1 - y0)])"
    unfolding rows map_map comp_def
    by (rule arg_cong [of _ _ concat], rule map_cong) (simp_all only: row set_upt atLeastLessThan_iff)
  have "nat (x1 - x0) * 4 \<le> usize_max" "nat x0 * 4 \<le> usize_max"
    using b assms(2) by (simp_all add: usize_max_def)
  with False b show ?thesis
    unfolding copy_dirty_rect_def Let_def assms(6-9) [symmetric]
    by (simp add: pix try_usize_def checked_nat)
qed

lemma apply_rect_pieces:
  assumes "0 < w" "w \<le> i32_max" "0 < h" "h \<le> i32_max"
    "length shadow = nat h * (nat w * 4)" "length shadow \<le> length pixels"
    "0 \<le> x" "0 \<le> y" "0 < rw" "0 < rh" "x + rw \<le> w" "y + rh \<le> h"
  shows "apply_rect (nat w * 4) shadow \<lparr>sr_x = x, sr_y = y, sr_w = rw, sr_h = rh,
       sr_pixels = concat (map (\<lambda>k. piece pixels (nat rw * 4) ((nat y + k) * (nat w * 4) + nat x * 4)) [0 ..< nat rh])\<rparr>
     = foldl (\<lambda>xs a. put_range xs a (piece pixels (nat rw * 4) a)) shadow
         (map (\<lambda>k. (nat y + k) * (nat w * 4) + nat x * 4) [0 ..< nat rh])"
    (is "apply_rect _ _ ?r = foldl ?put _ (map ?off _)")
proof -
  let ?n = "nat rw * 4"
  have fit: "?off k + ?n \<le> length shadow" if "k < nat rh" for k
    unfolding assms(5) using that assms by (intro row_fits) linarith+
  have small: "Suc k * ?n \<le> nat h * (nat w * 4)" if "k < nat rh" for k
    using that assms by (intro mult_le_mono) linarith+
  have plen: "length (piece pixels ?n (?off k)) = ?n" if "k < nat rh" for k
    using fit [OF that] assms(6) by simp
  have step: "apply_row ?r (nat w * 4) (nat x * 4) ?n xs (int k) = ?put xs (?off k)"
    if "k < nat rh" "length xs = length shadow" for xs k
  proof (subst apply_row_valid [OF assms(1-4)])
    show "length xs = nat h * (nat w * 4)" using that assms(5) by simp
    show "Suc k * ?n \<le> length (sr_pixels ?r)"
      using that plen mult_le_mono1 [of "Suc k" "nat rh" ?n] by (simp add: concat_run_length del: mult_Suc)
    show "k * ?n + ?n \<le> usize_max"
      using small [OF that(1)] frame_bytes [OF assms(1-4)] by simp
    show "put_range xs ((nat (sr_y ?r) + k) * (nat w * 4) + nat x * 4) (piece (sr_pixels ?r) ?n (k * ?n))
        = ?put xs (?off k)"
      using concat_run [of "nat rh" "\<lambda>k. piece pixels ?n (?off k)" ?n k] plen that by simp
    show "nat (sr_y ?r) + k < nat h" using that(1) assms(8,10,12) by simp
    show "nat x * 4 + ?n \<le> nat w * 4" using assms(7,9,11) by linarith
  qed (use that assms in simp_all)
  have "foldl (apply_row ?r (nat w * 4) (nat x * 4) ?n) xs (map int ks) = foldl ?put xs (map ?off ks)"
    if "\<forall>k\<in>set ks. k < nat rh" "length xs = length shadow" for ks xs
    using that
  proof (induction ks arbitrary: xs)
    case (Cons k ks)
    moreover have "length (?put xs (?off k)) = length xs" using Cons.prems fit plen by simp
    ultimately show ?case by (simp add: step)
  qed simp
  moreover have "[0 .. rh - 1] = map int [0 ..< nat rh]"
    using upto_upt [of 0 "nat rh"] assms by simp
  moreover have "?n \<le> usize_max" "nat x * 4 \<le> usize_max" using assms by (simp_all add: usize_max_def)
  ultimately show ?thesis
    using assms by (simp add: apply_rect_def try_usize_def checked_nat)
qed


text \<open>A pixel byte lies in one of the rows written iff its pixel is in the rectangle.\<close>

lemma row_bytes_iff:
  assumes "0 < (w::nat)" "x + n \<le> w"
  shows "(\<exists>k<rh. (y + k) * (w * 4) + x * 4 \<le> i \<and> i < (y + k) * (w * 4) + x * 4 + n * 4) \<longleftrightarrow>
         x \<le> i mod (w * 4) div 4 \<and> i mod (w * 4) div 4 < x + n \<and> y \<le> i div (w * 4) \<and> i div (w * 4) < y + rh"
    (is "?L \<longleftrightarrow> ?R")
proof -
  define q where "q = i div (w * 4)"
  define m where "m = i mod (w * 4)"
  have i: "i = q * (w * 4) + m" "m < w * 4" using assms(1) div_mult_mod_eq [of i "w * 4"] by (simp_all add: q_def m_def)
  have line: "y + k = q" if "(y + k) * (w * 4) + x * 4 \<le> i" "i < (y + k) * (w * 4) + x * 4 + n * 4" for k
  proof -
    have "i < (y + k) * (w * 4) + w * 4" using that(2) assms(2) by linarith
    then have "q * (w * 4) < Suc (y + k) * (w * 4)" "(y + k) * (w * 4) < Suc q * (w * 4)"
      using i that(1) by simp_all
    then have "q < Suc (y + k)" "y + k < Suc q" by (metis mult_less_cancel2)+
    then show ?thesis by simp
  qed
  show ?thesis
  proof
    assume ?L
    then obtain k where k: "k < rh" "(y + k) * (w * 4) + x * 4 \<le> i" "i < (y + k) * (w * 4) + x * 4 + n * 4"
      by blast
    then have "y + k = q" using line by blast
    with k i show ?R unfolding q_def [symmetric] m_def [symmetric] by (simp, linarith)
  next
    assume R: ?R
    have "(y + (q - y)) * (w * 4) + x * 4 \<le> i \<and> i < (y + (q - y)) * (w * 4) + x * 4 + n * 4"
      using R i unfolding q_def [symmetric] m_def [symmetric] by (simp, linarith)
    moreover have "q - y < rh" using R unfolding q_def [symmetric] by linarith
    ultimately show ?L by blast
  qed
qed

lemma pixel_bounds:
  assumes "i < nat h * (nat w * 4)"
  shows "int (i mod (nat w * 4) div 4) < w" "int (i div (nat w * 4)) < h"
proof -
  have "i mod (nat w * 4) < nat w * 4" using assms by (cases "nat w = 0") simp_all
  then have "i mod (nat w * 4) div 4 < nat w" by linarith
  then show "int (i mod (nat w * 4) div 4) < w" by linarith
  have "i div (nat w * 4) < nat h" using assms by (simp add: less_mult_imp_div_less)
  then show "int (i div (nat w * 4)) < h" by linarith
qed

text \<open>Writing the rows of a box of one frame over another of the same size patches it there.\<close>

lemma box_rows_patch:
  assumes "0 < w" "length old = nat h * (nat w * 4)" "length old \<le> length new"
    and b: "0 \<le> x" "0 \<le> y" "0 < bw" "0 < bh" "x + bw \<le> w" "y + bh \<le> h"
  shows "foldl (\<lambda>xs a. put_range xs a (piece new (nat bw * 4) a)) old
      (map (\<lambda>k. (nat y + k) * (nat w * 4) + nat x * 4) [0 ..< nat bh])
    = patch w [\<lparr>rect_x = x, rect_y = y, rect_w = bw, rect_h = bh\<rparr>] old new"
    (is "foldl ?put old ?offs = patch w [?r] old new")
proof (rule nth_equalityI)
  let ?n = "nat bw * 4"
  have fit: "a + ?n \<le> length old" if "a \<in> set ?offs" for a
  proof -
    from that obtain k where k: "k < nat bh" "a = (nat y + k) * (nat w * 4) + nat x * 4" by auto
    have "nat y + k < nat h" "nat x * 4 + ?n \<le> nat w * 4" using k b by linarith+
    then show ?thesis unfolding k(2) assms(2) by (rule row_fits)
  qed
  show len: "length (foldl ?put old ?offs) = length (patch w [?r] old new)"
    using pieces_length [of ?offs ?n old new] fit by simp
  fix i assume "i < length (foldl ?put old ?offs)"
  then have i: "i < length old" using len by simp
  have "(\<exists>a\<in>set ?offs. a \<le> i \<and> i < a + ?n) \<longleftrightarrow>
      (\<exists>k<nat bh. (nat y + k) * (nat w * 4) + nat x * 4 \<le> i \<and>
         i < (nat y + k) * (nat w * 4) + nat x * 4 + ?n)" by auto
  also have "\<dots> \<longleftrightarrow> rect_covers w ?r i"
    unfolding rect_covers_def using b assms(1) by (subst row_bytes_iff) (simp_all, linarith+)
  finally have hit: "(\<exists>a\<in>set ?offs. a \<le> i \<and> i < a + ?n) \<longleftrightarrow> rect_covers w ?r i" .
  have "foldl ?put old ?offs ! i = (if \<exists>a\<in>set ?offs. a \<le> i \<and> i < a + ?n then new ! i else old ! i)"
    by (rule pieces_nth) (use fit assms(3) i in auto)
  also have "\<dots> = patch w [?r] old new ! i"
    unfolding hit using i by (simp add: patch_nth)
  finally show "foldl ?put old ?offs ! i = patch w [?r] old new ! i" .
qed

lemma patch_cong:
  assumes "\<And>i. i < length old \<Longrightarrow> list_ex (\<lambda>r. rect_covers w r i) rs \<longleftrightarrow> list_ex (\<lambda>r. rect_covers w r i) qs"
  shows "patch w rs old new = patch w qs old new"
  using assms by (simp add: patch_def)

lemma one_rect_patches:
  assumes "0 < w" "w \<le> i32_max" "0 < h" "h \<le> i32_max"
    "length shadow = nat h * (nat w * 4)" "length shadow \<le> length pixels"
  shows "(case copy_dirty_rect pixels (nat w * 4) w h r of None \<Rightarrow> shadow
          | Some sr \<Rightarrow> apply_rect (nat w * 4) shadow sr) = patch w [r] shadow pixels"
proof -
  define x0 where "x0 = max 0 (rect_x r)"
  define y0 where "y0 = max 0 (rect_y r)"
  define x1 where "x1 = min w (rect_x r + rect_w r)"
  define y1 where "y1 = min h (rect_y r + rect_h r)"
  note xy = x0_def y0_def x1_def y1_def
  have copy: "copy_dirty_rect pixels (nat w * 4) w h r =
     (if x1 \<le> x0 \<or> y1 \<le> y0 then None
      else Some \<lparr>sr_x = x0, sr_y = y0, sr_w = x1 - x0, sr_h = y1 - y0,
        sr_pixels = concat (map (\<lambda>k. piece pixels (nat (x1 - x0) * 4)
           ((nat y0 + k) * (nat w * 4) + nat x0 * 4)) [0 ..< nat (y1 - y0)])\<rparr>)"
    unfolding xy by (rule copy_dirty_rect_valid) (use assms in simp_all)
  have cov: "rect_covers w r i \<longleftrightarrow> rect_covers w \<lparr>rect_x = x0, rect_y = y0, rect_w = x1 - x0, rect_h = y1 - y0\<rparr> i"
    if "i < length shadow" for i
    using pixel_bounds [of i h w] that assms(5) by (simp add: rect_covers_def xy)
  show ?thesis
  proof (cases "x1 \<le> x0 \<or> y1 \<le> y0")
    case True
    then have "\<not> rect_covers w r i" if "i < length shadow" for i
      using True by (subst cov [OF that]) (simp add: rect_covers_def, linarith)
    then have "patch w [r] shadow pixels = patch w [] shadow pixels" by (intro patch_cong) simp
    with True show ?thesis by (simp add: copy)
  next
    case False
    have b: "0 \<le> x0" "0 \<le> y0" "0 < x1 - x0" "0 < y1 - y0" "x0 + (x1 - x0) \<le> w" "y0 + (y1 - y0) \<le> h"
      using False by (simp_all add: not_le, simp_all add: xy)
    have "apply_rect (nat w * 4) shadow (the (copy_dirty_rect pixels (nat w * 4) w h r))
        = patch w [\<lparr>rect_x = x0, rect_y = y0, rect_w = x1 - x0, rect_h = y1 - y0\<rparr>] shadow pixels"
      using False b by (simp add: copy apply_rect_pieces [OF assms] box_rows_patch [OF assms(1,5,6)])
    also have "\<dots> = patch w [r] shadow pixels" using cov by (intro patch_cong) simp
    finally show ?thesis using False by (simp add: copy)
  qed
qed

lemma merged_rects_patch:
  assumes "0 < w" "w \<le> i32_max" "0 < h" "h \<le> i32_max"
    "length shadow = nat h * (nat w * 4)" "length shadow \<le> length pixels"
  shows "apply_dirty_to_shadow shadow w (List.map_filter (copy_dirty_rect pixels (nat w * 4) w h) dirty)
      = patch w dirty shadow pixels"
proof -
  have "nat w * 4 \<le> usize_max" using assms by (simp add: usize_max_def)
  then have app: "apply_dirty_to_shadow s w rs = foldl (apply_rect (nat w * 4)) s rs" for s rs
    using assms by (simp add: apply_dirty_to_shadow_def try_usize_def checked_nat)
  show ?thesis
    using assms(5,6)
  proof (induction dirty arbitrary: shadow)
    case Nil
    then show ?case by (simp add: app List.map_filter_def)
  next
    case (Cons r dirty)
    have "foldl (apply_rect (nat w * 4)) shadow (List.map_filter (copy_dirty_rect pixels (nat w * 4) w h) (r # dirty))
        = foldl (apply_rect (nat w * 4)) (patch w [r] shadow pixels)
            (List.map_filter (copy_dirty_rect pixels (nat w * 4) w h) dirty)"
      using one_rect_patches [OF assms(1-4) Cons.prems, of r]
      by (auto simp: List.map_filter_def split: option.splits)
    also have "\<dots> = patch w dirty (patch w [r] shadow pixels) pixels"
      using Cons.IH [of "patch w [r] shadow pixels"] Cons.prems by (simp add: app)
    also have "\<dots> = patch w (r # dirty) shadow pixels"
      using patch_append [of w "[r]" dirty] by simp
    finally show ?case by (simp add: app)
  qed
qed

section \<open>The worker's shadow\<close>

record shm_payload =
  pl_rects :: "shm_rect list"
  pl_full :: "bytes option"
  pl_width :: int
  pl_height :: int

record shm_shadow =
  sh_pixels :: bytes
  sh_size :: "int \<times> int"

definition default_shadow :: shm_shadow where
  "default_shadow = \<lparr>sh_pixels = [], sh_size = (0, 0)\<rparr>"

text \<open>\<open>Inl\<close> is \<open>BadDimensions\<close>.\<close>

definition compose_shm_shadow :: "shm_shadow \<Rightarrow> shm_payload \<Rightarrow> (int \<times> int) + shm_shadow" where
  "compose_shm_shadow shadow p =
     (let width = pl_width p; height = pl_height p;
          sized = (if sh_size shadow \<noteq> (width, height)
                   then (case frame_span width height of
                           None \<Rightarrow> Inl (width, height)
                         | Some (_, len) \<Rightarrow> Inr \<lparr>sh_pixels = replicate len 0, sh_size = (width, height)\<rparr>)
                   else Inr shadow)
      in case sized of
           Inl e \<Rightarrow> Inl e
         | Inr shadow \<Rightarrow>
             let pixels = (case pl_full p of
                             None \<Rightarrow> sh_pixels shadow
                           | Some full \<Rightarrow> if length full \<le> length (sh_pixels shadow)
                                          then put_range (sh_pixels shadow) 0 full else sh_pixels shadow)
             in Inr (shadow\<lparr>sh_pixels := apply_dirty_to_shadow pixels width (pl_rects p)\<rparr>))"

text \<open>The rectangles cut out of a frame, as a payload carries them.\<close>

abbreviation cut :: "bytes \<Rightarrow> int \<Rightarrow> int \<Rightarrow> jfn_rect list \<Rightarrow> shm_rect list" where
  "cut pixels w h dirty \<equiv> List.map_filter (copy_dirty_rect pixels (nat w * 4) w h) dirty"

lemma map_filter_append [simp]: "List.map_filter f (xs @ ys) = List.map_filter f xs @ List.map_filter f ys"
  by (simp add: List.map_filter_def)

lemma apply_dirty_append:
  "apply_dirty_to_shadow s w (rs @ qs) = apply_dirty_to_shadow (apply_dirty_to_shadow s w rs) w qs"
  by (simp add: apply_dirty_to_shadow_def Option.bind_def split: option.splits)

text \<open>A full copy makes the shadow the frame, whatever was there; the rectangles that come with
  it, cut out of the same frame, change nothing.\<close>

lemma compose_full:
  assumes "0 < w" "w \<le> i32_max" "0 < h" "h \<le> i32_max" "length new = nat h * (nat w * 4)"
    "sh_size sh = (w, h) \<Longrightarrow> length (sh_pixels sh) = nat h * (nat w * 4)"
  shows "compose_shm_shadow sh \<lparr>pl_rects = cut new w h dirty, pl_full = Some new, pl_width = w, pl_height = h\<rparr>
    = Inr \<lparr>sh_pixels = new, sh_size = (w, h)\<rparr>"
proof -
  have same: "apply_dirty_to_shadow new w (cut new w h dirty) = new"
    using merged_rects_patch [OF assms(1-4), of new new dirty] assms(5)
    by (simp add: patch_damage damage_covers_def list_all_iff)
  show ?thesis
    using assms(5,6) frame_span_valid [OF assms(1-4)] same
    by (cases sh) (simp add: compose_shm_shadow_def put_range_def Let_def)
qed

text \<open>A dirty-only payload on a shadow of its size patches it.\<close>

lemma compose_dirty:
  assumes "sh_size sh = (w, h)"
  shows "compose_shm_shadow sh \<lparr>pl_rects = rects, pl_full = None, pl_width = w, pl_height = h\<rparr>
    = Inr \<lparr>sh_pixels = apply_dirty_to_shadow (sh_pixels sh) w rects, sh_size = (w, h)\<rparr>"
  using assms by (cases sh) (simp add: compose_shm_shadow_def Let_def)

text \<open>The stride and length of an empty extent are not refused, nor is every negative width:
  only the caller's check of the dimensions does that.\<close>

lemma frame_span_of_nothing:
  "frame_span 0 100 = Some (0, 0) \<and> frame_span 100 0 = Some (400, 0) \<and>
   frame_span (- 1) 1 = Some (usize_max, usize_max) \<and> frame_span (- 1) 4 = None"
  by (simp add: frame_span_def as_usize_def checked_def usize_max_def Let_def)

end
