(* ===== verification/Gpu_Painter.thy ===== *)
theory Gpu_Painter
  imports Dirty_Rects
begin

text \<open>
  The GPU painter of one window (\<open>gpu_paint/src/painter.rs\<close>, with the adapter rules of
  \<open>select.rs\<close>): when it configures the swapchain, what it keeps in the upload texture, and
  which frames reach the screen. The swapchain's answers and the importer's come in as
  parameters; the texture's contents are bytes; a slice out of range, which aborts the program,
  is \<open>None\<close>. Device limits and window handles are those of one context.
\<close>

section \<open>Adapters\<close>

datatype device_type = Discrete_Gpu | Integrated_Gpu | Virtual_Gpu | Cpu | Other_Device

definition is_usable :: "device_type \<Rightarrow> bool" where
  "is_usable t \<longleftrightarrow> \<not> (t = Cpu \<or> t = Other_Device)"

fun adapter_rank :: "device_type \<Rightarrow> nat" where
  "adapter_rank Discrete_Gpu = 3"
| "adapter_rank Integrated_Gpu = 2"
| "adapter_rank Virtual_Gpu = 1"
| "adapter_rank _ = 0"

definition matched_without_producer :: "bool \<Rightarrow> bool" where
  "matched_without_producer producer_named \<longleftrightarrow> \<not> producer_named"

definition can_import :: "bool \<Rightarrow> bool \<Rightarrow> bool" where
  "can_import import_capable device_matched \<longleftrightarrow> import_capable \<and> device_matched"

section \<open>Policies\<close>

datatype window_target = Xcb | Wayland | Composition_Visual | Core_Animation_Layer
datatype size_policy = Follow_Frame | Follow_Target
datatype alpha_source = Premultiplied | Straight
datatype present_policy = Fifo | Mailbox
datatype configure_site = At_Painter | At_Owner

fun size_policy_for :: "window_target \<Rightarrow> size_policy" where
  "size_policy_for Xcb = Follow_Target"
| "size_policy_for Wayland = Follow_Frame"
| "size_policy_for Composition_Visual = Follow_Frame"
| "size_policy_for Core_Animation_Layer = Follow_Target"

fun alpha_for :: "window_target \<Rightarrow> alpha_source" where
  "alpha_for Core_Animation_Layer = Straight"
| "alpha_for _ = Premultiplied"

fun present_policy_for :: "window_target \<Rightarrow> present_policy" where
  "present_policy_for Composition_Visual = Mailbox"
| "present_policy_for _ = Fifo"

fun configure_site_for :: "window_target \<Rightarrow> configure_site" where
  "configure_site_for Core_Animation_Layer = At_Owner"
| "configure_site_for _ = At_Painter"

section \<open>State\<close>

record upload_texture =
  ut_w :: int
  ut_h :: int
  ut_needs_base :: bool
  ut_tex :: bytes

datatype paint_mode = Shared | Copied

text \<open>\<open>pt_bind\<close> names the texture the shared bind group samples.\<close>

record painter =
  pt_max :: int
  pt_width :: int
  pt_height :: int
  pt_upload :: "upload_texture option"
  pt_pending_size :: "int \<times> int"
  pt_needs_configure :: bool
  pt_visible :: bool
  pt_policy :: size_policy
  pt_site :: configure_site
  pt_mode :: "paint_mode option"
  pt_bind :: "nat option"
  pt_configured :: bool

record pixels =
  px_w :: int
  px_h :: int
  px_stride :: nat
  px_bgra :: bytes
  px_dirty :: "jfn_rect list"

record shared_texture =
  tx_coded :: "int \<times> int"
  tx_visible_rect :: "int \<times> int"

definition visible_or_coded :: "int \<times> int \<Rightarrow> int \<times> int \<Rightarrow> int \<times> int" where
  "visible_or_coded visible_rect coded =
     (if 0 < fst visible_rect \<and> 0 < snd visible_rect then visible_rect else coded)"

definition tx_visible :: "shared_texture \<Rightarrow> int \<times> int" where
  "tx_visible t = visible_or_coded (tx_visible_rect t) (tx_coded t)"

text \<open>A frame, with the importer's answer for a shared one: the texture, and whether it is the
  cached one.\<close>

datatype frame = Frame_Copied pixels | Frame_Shared shared_texture "(nat \<times> bool) option"

fun frame_mode :: "frame \<Rightarrow> paint_mode" where
  "frame_mode (Frame_Shared _ _) = Shared"
| "frame_mode (Frame_Copied _) = Copied"

text \<open>What the swapchain answers, and the detail of a lost surface.\<close>

datatype acquired = Acq_Success | Acq_Suboptimal | Acq_Lost | Acq_Outdated | Acq_Timeout | Acq_Occluded | Acq_Validation

datatype lost_kind = Surface_Unsupported | Acquire_Validation | Bad_Dimensions int int | Bad_Pixel_Buffer int int nat nat

text \<open>What a present shows: the texture drawn and, for one drawn into a corner only, its size.\<close>

datatype shown = Shown_Copied int int bytes | Shown_Shared nat "(int \<times> int) option"

datatype presented = Presented_Yes shown | Presented_Skipped | Surface_Lost lost_kind | Aborted

section \<open>Configuring\<close>

definition texels :: "int \<times> int \<Rightarrow> (int \<times> int) option" where
  "texels sz = (if fst sz \<le> 0 \<or> snd sz \<le> 0 then None else Some sz)"

definition configure_needed :: "bool \<Rightarrow> bool \<Rightarrow> bool" where
  "configure_needed resized detached \<longleftrightarrow> resized \<or> detached"

definition configure_now :: "painter \<Rightarrow> painter" where
  "configure_now p = p\<lparr>pt_configured := True\<rparr>"

definition take_configured :: "painter \<Rightarrow> bool \<times> painter" where
  "take_configured p = (pt_configured p, p\<lparr>pt_configured := False\<rparr>)"

text \<open>\<open>u32::clamp\<close>.\<close>

definition clamp_extent :: "painter \<Rightarrow> int \<times> int \<Rightarrow> int \<times> int" where
  "clamp_extent p sz =
     (let mx = max 1 (pt_max p) in (max 1 (min mx (fst sz)), max 1 (min mx (snd sz))))"

definition reconfigure_to :: "int \<Rightarrow> int \<Rightarrow> painter \<Rightarrow> painter" where
  "reconfigure_to cw ch p =
     (let resized = ((pt_width p, pt_height p) \<noteq> (cw, ch))
      in if \<not> configure_needed resized (pt_needs_configure p) then p
         else
           let p = configure_now (p\<lparr>pt_width := cw, pt_height := ch, pt_needs_configure := False\<rparr>)
           in if resized
              then let p = p\<lparr>pt_upload := None\<rparr>
                   in if pt_policy p = Follow_Frame then p\<lparr>pt_pending_size := (cw, ch)\<rparr> else p
              else p)"

definition resize :: "int \<times> int \<Rightarrow> painter \<Rightarrow> painter" where
  "resize sz p =
     (case texels sz of
        None \<Rightarrow> p
      | Some sz \<Rightarrow>
          let p = p\<lparr>pt_pending_size := sz\<rparr>
          in if pt_site p = At_Owner
             then let (w, h) = clamp_extent p sz in reconfigure_to w h p
             else p)"

definition content_detached :: "painter \<Rightarrow> painter" where
  "content_detached p = p\<lparr>pt_needs_configure := True\<rparr>"

definition set_painter_visible :: "bool \<Rightarrow> painter \<Rightarrow> painter" where
  "set_painter_visible v p = p\<lparr>pt_visible := v\<rparr>"

definition extent_for :: "int \<times> int \<Rightarrow> painter \<Rightarrow> (int \<times> int) \<times> painter" where
  "extent_for fr p =
     (let p = (if pt_site p = At_Painter
               then let (cw, ch) = (case pt_policy p of Follow_Frame \<Rightarrow> fr
                                                      | Follow_Target \<Rightarrow> clamp_extent p (pt_pending_size p))
                    in reconfigure_to cw ch p
               else p)
      in ((pt_width p, pt_height p), p))"

definition frame_extent :: "int \<Rightarrow> int \<times> int \<Rightarrow> lost_kind + (int \<times> int)" where
  "frame_extent mx sz =
     (case texels sz of
        None \<Rightarrow> Inl (Bad_Dimensions (fst sz) (snd sz))
      | Some (w, h) \<Rightarrow> if mx < w \<or> mx < h then Inl (Bad_Dimensions (fst sz) (snd sz)) else Inr (w, h))"

text \<open>A new painter, the window system's answers given: whether the surface could be created on
  this adapter.\<close>

definition new_painter :: "int \<Rightarrow> bool \<Rightarrow> window_target \<Rightarrow> int \<times> int \<Rightarrow> lost_kind + painter" where
  "new_painter mx supported target sz =
     (case texels sz of
        None \<Rightarrow> Inl (Bad_Dimensions (fst sz) (snd sz))
      | Some extent \<Rightarrow>
          if mx < fst extent \<or> mx < snd extent then Inl (Bad_Dimensions (fst sz) (snd sz))
          else if \<not> supported then Inl Surface_Unsupported
          else Inr (configure_now
            \<lparr>pt_max = mx, pt_width = fst extent, pt_height = snd extent, pt_upload = None,
             pt_pending_size = extent, pt_needs_configure = False, pt_visible = True,
             pt_policy = size_policy_for target, pt_site = configure_site_for target,
             pt_mode = None, pt_bind = None, pt_configured = False\<rparr>))"

section \<open>Uploads\<close>

definition check_buffer :: "pixels \<Rightarrow> int \<Rightarrow> int \<Rightarrow> lost_kind option" where
  "check_buffer fr fw fh =
     (let stride = px_stride fr; row = nat fw * 4; needed = (nat fh - 1) * stride + row
      in if stride < row \<or> length (px_bgra fr) < needed
         then Some (Bad_Pixel_Buffer (px_w fr) (px_h fr) (px_stride fr) (length (px_bgra fr))) else None)"

definition painter_clip_rect :: "int \<Rightarrow> int \<Rightarrow> int \<Rightarrow> int \<Rightarrow> int \<Rightarrow> int \<Rightarrow> int \<times> int \<times> int \<times> int" where
  "painter_clip_rect x y w h fw fh =
     (let nx = max x 0;
          ny = max y 0;
          nw = wrap32 (w + min x 0);
          nh = wrap32 (h + min y 0);
          nw = (if fw < wrap32 (nx + nw) then wrap32 (fw - nx) else nw);
          nh = (if fh < wrap32 (ny + nh) then wrap32 (fh - ny) else nh);
          nw = (if nw < 0 then 0 else nw);
          nh = (if nh < 0 then 0 else nh);
          (nx, nw) = (if fw \<le> nx then (fw - 1, 0) else (nx, nw));
          (ny, nh) = (if fh \<le> ny then (fh - 1, 0) else (ny, nh))
      in (nx, ny, nw, nh))"

text \<open>\<open>queue.write_texture\<close> copies the rows of the slice, each \<open>bytes_per_row\<close> after the last, into
  the box at the origin, which has to lie in the texture.\<close>

definition write_texture :: "upload_texture \<Rightarrow> bytes \<Rightarrow> nat \<Rightarrow> nat \<Rightarrow> nat \<Rightarrow> nat \<Rightarrow> nat \<Rightarrow> bytes option" where
  "write_texture u data stride x y w h =
     (if nat (ut_w u) < x + w \<or> nat (ut_h u) < y + h then None
      else Some (foldl (\<lambda>t j. put_range t ((y + j) * (nat (ut_w u) * 4) + x * 4) (piece data (w * 4) (j * stride)))
                   (ut_tex u) [0 ..< h]))"

definition write_rect :: "upload_texture \<Rightarrow> pixels \<Rightarrow> int \<Rightarrow> int \<Rightarrow> int \<Rightarrow> int \<Rightarrow> bytes option" where
  "write_rect u fr x y w h =
     (let stride = px_stride fr;
          start = as_usize y * stride + as_usize x * 4;
          en = start + as_usize (h - 1) * stride + as_usize w * 4
      in do { data \<leftarrow> get_range (px_bgra fr) start en;
              write_texture u data stride (nat x) (nat y) (nat w) (nat h) })"

fun write_rects :: "upload_texture \<Rightarrow> pixels \<Rightarrow> int \<Rightarrow> int \<Rightarrow> jfn_rect list \<Rightarrow> upload_texture option" where
  "write_rects u fr bw bh [] = Some u"
| "write_rects u fr bw bh (r # rs) =
     (let (x, y, w, h) = painter_clip_rect (rect_x r) (rect_y r) (rect_w r) (rect_h r) bw bh
      in if w \<le> 0 \<or> h \<le> 0 then write_rects u fr bw bh rs
         else (case write_rect u fr x y w h of
                 None \<Rightarrow> None
               | Some t \<Rightarrow> write_rects (u\<lparr>ut_tex := t\<rparr>) fr bw bh rs))"

definition upload_write :: "upload_texture \<Rightarrow> pixels \<Rightarrow> int \<Rightarrow> int \<Rightarrow> upload_texture option" where
  "upload_write u fr cw ch =
     (let bw = min (px_w fr) cw; bh = min (px_h fr) ch
      in if ut_needs_base u \<or> px_dirty fr = []
         then map_option (\<lambda>t. u\<lparr>ut_tex := t, ut_needs_base := False\<rparr>) (write_rect u fr 0 0 bw bh)
         else write_rects u fr bw bh (px_dirty fr))"

text \<open>A fresh texture reads as zero.\<close>

definition new_upload :: "int \<Rightarrow> int \<Rightarrow> upload_texture" where
  "new_upload w h =
     \<lparr>ut_w = w, ut_h = h, ut_needs_base = True, ut_tex = replicate (nat h * (nat w * 4)) 0\<rparr>"

definition take_upload :: "int \<Rightarrow> int \<Rightarrow> painter \<Rightarrow> upload_texture \<times> painter" where
  "take_upload w h p =
     (let u = (case pt_upload p of
                 Some u \<Rightarrow> if ut_w u = w \<and> ut_h u = h then u else new_upload w h
               | None \<Rightarrow> new_upload w h)
      in (u, p\<lparr>pt_upload := None\<rparr>))"

section \<open>Presenting\<close>

text \<open>\<open>acquire_frame\<close>: the answers in the order they are asked for; \<open>Some\<close> says whether the frame
  is suboptimal.\<close>

fun acquire_frame :: "bool \<Rightarrow> acquired list \<Rightarrow> painter \<Rightarrow> (lost_kind + bool option) \<times> painter" where
  "acquire_frame reconfigured [] p = (Inr None, p)"
| "acquire_frame reconfigured (a # as) p =
     (case a of
        Acq_Success \<Rightarrow> (Inr (Some False), p)
      | Acq_Validation \<Rightarrow> (Inl Acquire_Validation, p)
      | Acq_Timeout \<Rightarrow> (Inr None, p)
      | Acq_Occluded \<Rightarrow> (Inr None, p)
      | Acq_Suboptimal \<Rightarrow> if pt_site p = At_Owner then (Inr None, p) else (Inr (Some True), p)
      | _ \<Rightarrow> if pt_site p = At_Owner then (Inr None, p)
            else if \<not> reconfigured then acquire_frame True as (configure_now p)
            else (Inr None, p))"

definition draw_and_present :: "acquired list \<Rightarrow> shown \<Rightarrow> painter \<Rightarrow> presented \<times> painter" where
  "draw_and_present acqs img p =
     (case acquire_frame False acqs p of
        (Inl k, p) \<Rightarrow> (Surface_Lost k, p)
      | (Inr None, p) \<Rightarrow> (Presented_Skipped, p)
      | (Inr (Some suboptimal), p) \<Rightarrow> (Presented_Yes img, if suboptimal then configure_now p else p))"

definition present_pixels :: "acquired list \<Rightarrow> pixels \<Rightarrow> painter \<Rightarrow> presented \<times> painter" where
  "present_pixels acqs fr p =
     (case frame_extent (pt_max p) (px_w fr, px_h fr) of
        Inl k \<Rightarrow> (Surface_Lost k, p)
      | Inr (fw, fh) \<Rightarrow>
          (case check_buffer fr fw fh of
             Some k \<Rightarrow> (Surface_Lost k, p)
           | None \<Rightarrow>
               if \<not> pt_visible p then (Presented_Skipped, p)
               else
                 let ((cw, ch), p) = extent_for (fw, fh) p;
                     (u, p) = take_upload cw ch p
                 in (case upload_write u fr cw ch of
                       None \<Rightarrow> (Aborted, p)
                     | Some u \<Rightarrow>
                         draw_and_present acqs (Shown_Copied cw ch (ut_tex u)) (p\<lparr>pt_upload := Some u\<rparr>))))"

definition present_shared :: "acquired list \<Rightarrow> shared_texture \<Rightarrow> (nat \<times> bool) option \<Rightarrow> painter \<Rightarrow> presented \<times> painter" where
  "present_shared acqs t imported p =
     (case frame_extent (pt_max p) (tx_coded t) of
        Inl k \<Rightarrow> (Surface_Lost k, p)
      | Inr (fw, fh) \<Rightarrow>
          if \<not> pt_visible p then (Presented_Skipped, p)
          else
            let ((cw, ch), p) = extent_for (fw, fh) p;
                viewport = (case pt_policy p of Follow_Frame \<Rightarrow> None | Follow_Target \<Rightarrow> Some (min fw cw, min fh ch))
            in (case imported of
                  None \<Rightarrow> (Presented_Skipped, p)
                | Some (tex, reused) \<Rightarrow>
                    let bind = (case pt_bind p of Some b \<Rightarrow> if reused then b else tex | None \<Rightarrow> tex);
                        (res, p) = draw_and_present acqs (Shown_Shared bind viewport) (p\<lparr>pt_bind := None\<rparr>)
                    in (res, p\<lparr>pt_bind := Some bind\<rparr>)))"

definition present_frame :: "acquired list \<Rightarrow> frame \<Rightarrow> painter \<Rightarrow> presented \<times> painter" where
  "present_frame acqs fr p =
     (if pt_mode p \<noteq> None \<and> pt_mode p \<noteq> Some (frame_mode fr) then (Presented_Skipped, p)
      else let p = p\<lparr>pt_mode := Some (frame_mode fr)\<rparr>
           in case fr of
                Frame_Copied px \<Rightarrow> present_pixels acqs px p
              | Frame_Shared t imported \<Rightarrow> present_shared acqs t imported p)"

text \<open>What the owner of a painter can do with it; a present answers with its frame and result.\<close>

datatype painter_op =
  Present_Frame "acquired list" frame
| Resize_To int int
| Content_Detached
| Set_Visible bool
| Take_Configured

fun painter_step :: "painter \<Rightarrow> painter_op \<Rightarrow> painter \<times> (frame \<times> presented) list" where
  "painter_step p (Present_Frame acqs fr) = (let (res, p) = present_frame acqs fr p in (p, [(fr, res)]))"
| "painter_step p (Resize_To w h) = (resize (w, h) p, [])"
| "painter_step p Content_Detached = (content_detached p, [])"
| "painter_step p (Set_Visible v) = (set_painter_visible v p, [])"
| "painter_step p Take_Configured = (snd (take_configured p), [])"

section \<open>Clipping\<close>

definition painter_clip_axis :: "int \<Rightarrow> int \<Rightarrow> int \<Rightarrow> int \<times> int" where
  "painter_clip_axis x w n =
     (let nx = max x 0; nw = wrap32 (w + min x 0);
          nw = (if n < wrap32 (nx + nw) then wrap32 (n - nx) else nw);
          nw = (if nw < 0 then 0 else nw)
      in if n \<le> nx then (n - 1, 0) else (nx, nw))"

lemma painter_clip_axes:
  "painter_clip_rect x y w h fw fh =
     (fst (painter_clip_axis x w fw), fst (painter_clip_axis y h fh),
      snd (painter_clip_axis x w fw), snd (painter_clip_axis y h fh))"
  by (simp add: painter_clip_rect_def painter_clip_axis_def Let_def)

lemma painter_clip_axis_sound:
  assumes "small_coord x" "small_coord w" "0 < n" "n \<le> i32_max" "painter_clip_axis x w n = (x', w')"
  shows "0 \<le> x' \<and> 0 \<le> w' \<and> x' + w' \<le> n \<and>
    (\<forall>p. x' \<le> p \<and> p < x' + w' \<longleftrightarrow> x \<le> p \<and> p < x + w \<and> 0 \<le> p \<and> p < n)"
proof -
  have "wrap32 (w + min x 0) = w + min x 0" "wrap32 (max x 0 + (w + min x 0)) = max x 0 + (w + min x 0)"
    "wrap32 (n - max x 0) = n - max x 0"
    using assms by (simp_all add: small_coord_def, (intro wrap32_id; linarith)+)
  with assms(3,5) show ?thesis
    by (auto simp: painter_clip_axis_def Let_def max_def min_def split: if_splits)
qed

lemma painter_clip_rect_sound:
  assumes "small_rect r" "0 < fw" "fw \<le> i32_max" "0 < fh" "fh \<le> i32_max"
    "painter_clip_rect (rect_x r) (rect_y r) (rect_w r) (rect_h r) fw fh = (x, y, w, h)"
  shows "0 \<le> x" "0 \<le> y" "0 \<le> w" "0 \<le> h" "x + w \<le> fw" "y + h \<le> fh"
    and "0 \<le> px \<Longrightarrow> px < fw \<Longrightarrow> 0 \<le> py \<Longrightarrow> py < fh \<Longrightarrow>
      in_box (rect_x r, rect_y r, rect_w r, rect_h r) px py \<longleftrightarrow> in_box (x, y, w, h) px py"
proof -
  have X: "painter_clip_axis (rect_x r) (rect_w r) fw = (x, w)"
    and Y: "painter_clip_axis (rect_y r) (rect_h r) fh = (y, h)"
    using assms(6) by (auto simp: painter_clip_axes intro: prod_eqI)
  note sx = painter_clip_axis_sound [OF _ _ assms(2,3) X] and sy = painter_clip_axis_sound [OF _ _ assms(4,5) Y]
  show "0 \<le> x" "0 \<le> y" "0 \<le> w" "0 \<le> h" "x + w \<le> fw" "y + h \<le> fh"
    using sx sy assms(1) by (simp_all add: small_rect_def)
  show "0 \<le> px \<Longrightarrow> px < fw \<Longrightarrow> 0 \<le> py \<Longrightarrow> py < fh \<Longrightarrow>
      in_box (rect_x r, rect_y r, rect_w r, rect_h r) px py \<longleftrightarrow> in_box (x, y, w, h) px py"
    using sx sy assms(1) by (auto simp: small_rect_def)
qed

section \<open>Uploads stay in the frame\<close>

definition frame_fits :: "pixels \<Rightarrow> bool" where
  "frame_fits fr \<longleftrightarrow> 0 < px_w fr \<and> px_w fr \<le> i32_max \<and> 0 < px_h fr \<and> px_h fr \<le> i32_max \<and>
     check_buffer fr (px_w fr) (px_h fr) = None"

lemma as_usize_nat: "0 \<le> i \<Longrightarrow> i \<le> i32_max \<Longrightarrow> as_usize i = nat i"
  by (simp add: as_usize_def)

lemma piece_of_piece:
  assumes "n \<le> m - b"
  shows "piece (take m (drop a xs)) n b = piece xs n (a + b)"
proof -
  have "drop b (take m (drop a xs)) = take (m - b) (drop (a + b) xs)"
    by (simp add: drop_take add.commute)
  with assms show ?thesis by (simp add: min_absorb1)
qed

lemma rows_in_buffer:
  fixes y h H x w W s L :: nat
  assumes "0 < h" "y + h \<le> H" "x + w \<le> W" "(H - 1) * s + W * 4 \<le> L"
  shows "y * s + x * 4 + (h - 1) * s + w * 4 \<le> L"
proof -
  have "(y + (h - 1)) * s \<le> (H - 1) * s" using assms by (intro mult_le_mono1) linarith
  then have "y * s + (h - 1) * s \<le> (H - 1) * s" by (simp only: add_mult_distrib)
  moreover have "x * 4 + w * 4 \<le> W * 4" using assms(3) by linarith
  ultimately show ?thesis using assms(4) by linarith
qed

lemma row_of_slice:
  fixes a h j n s :: nat
  assumes "j < h"
  shows "piece (take (a + (h - 1) * s + n - a) (drop a xs)) n (j * s) = piece xs n (a + j * s)"
proof (rule piece_of_piece)
  have "j * s \<le> (h - 1) * s" using assms by (intro mult_le_mono1) simp
  then show "n \<le> a + (h - 1) * s + n - a - j * s" by linarith
qed

lemma write_rect_in_frame:
  assumes "frame_fits fr" "0 \<le> x" "0 \<le> y" "0 < w" "0 < h" "x + w \<le> px_w fr" "y + h \<le> px_h fr"
    "x + w \<le> ut_w u" "y + h \<le> ut_h u"
  shows "write_rect u fr x y w h =
     Some (foldl (\<lambda>t j. put_range t ((nat y + j) * (nat (ut_w u) * 4) + nat x * 4)
                         (piece (px_bgra fr) (nat w * 4) ((nat y + j) * px_stride fr + nat x * 4)))
            (ut_tex u) [0 ..< nat h])"
proof -
  define s where "s = px_stride fr"
  define a where "a = nat y * s + nat x * 4"
  define e where "e = a + (nat h - 1) * s + nat w * 4"
  have "(nat (px_h fr) - 1) * s + nat (px_w fr) * 4 \<le> length (px_bgra fr)"
    using assms(1) by (simp add: frame_fits_def check_buffer_def Let_def s_def split: if_splits)
  moreover have "0 < nat h" "nat y + nat h \<le> nat (px_h fr)" "nat x + nat w \<le> nat (px_w fr)"
    using assms(2-7) by linarith+
  ultimately have "e \<le> length (px_bgra fr)" unfolding e_def a_def by (intro rows_in_buffer)
  then have get: "get_range (px_bgra fr) a e = Some (take (e - a) (drop a (px_bgra fr)))"
    by (simp add: get_range_def e_def)
  have us: "as_usize x = nat x" "as_usize y = nat y" "as_usize w = nat w" "as_usize (h - 1) = nat h - 1"
    using assms by (simp_all add: frame_fits_def as_usize_nat nat_diff_distrib)
  have off: "(nat y + j) * s + nat x * 4 = a + j * s" for j by (simp add: a_def add_mult_distrib)
  have cut: "piece (take (e - a) (drop a (px_bgra fr))) (nat w * 4) (j * s)
      = piece (px_bgra fr) (nat w * 4) ((nat y + j) * s + nat x * 4)" if "j < nat h" for j
    unfolding off e_def using that by (rule row_of_slice)
  have tex: "\<not> (nat (ut_w u) < nat x + nat w \<or> nat (ut_h u) < nat y + nat h)" using assms(2-9) by linarith
  have "write_rect u fr x y w h = write_texture u (take (e - a) (drop a (px_bgra fr))) s (nat x) (nat y) (nat w) (nat h)"
    unfolding write_rect_def Let_def us s_def [symmetric] a_def [symmetric] e_def [symmetric] get
    by (rule bind.bind_lunit)
  also have "\<dots> = Some (foldl (\<lambda>t j. put_range t ((nat y + j) * (nat (ut_w u) * 4) + nat x * 4)
      (piece (take (e - a) (drop a (px_bgra fr))) (nat w * 4) (j * s))) (ut_tex u) [0 ..< nat h])"
    unfolding write_texture_def if_not_P [OF tex] ..
  also have "\<dots> = Some (foldl (\<lambda>t j. put_range t ((nat y + j) * (nat (ut_w u) * 4) + nat x * 4)
      (piece (px_bgra fr) (nat w * 4) ((nat y + j) * s + nat x * 4))) (ut_tex u) [0 ..< nat h])"
    unfolding option.inject by (rule foldl_cong) (simp_all only: cut set_upt atLeastLessThan_iff)
  finally show ?thesis unfolding s_def .
qed

lemma write_rects_in_frame:
  assumes "frame_fits fr" "0 < bw" "0 < bh" "bw \<le> px_w fr" "bh \<le> px_h fr" "bw \<le> ut_w u" "bh \<le> ut_h u"
    "list_all small_rect rs"
  shows "\<exists>t. write_rects u fr bw bh rs = Some (u\<lparr>ut_tex := t\<rparr>)"
  using assms
proof (induction rs arbitrary: u)
  case Nil
  show ?case by (rule exI [of _ "ut_tex u"]) simp
next
  case (Cons r rs)
  obtain x y w h where box: "painter_clip_rect (rect_x r) (rect_y r) (rect_w r) (rect_h r) bw bh = (x, y, w, h)"
    using prod_cases4 by blast
  have max: "bw \<le> i32_max" "bh \<le> i32_max" using Cons.prems by (simp_all add: frame_fits_def)
  note b = painter_clip_rect_sound [OF _ Cons.prems(2) max(1) Cons.prems(3) max(2) box]
  show ?case
  proof (cases "w \<le> 0 \<or> h \<le> 0")
    case True
    with Cons box show ?thesis by auto
  next
    case False
    then have "\<exists>t. write_rect u fr x y w h = Some t"
      using write_rect_in_frame [OF Cons.prems(1), of x y w h u] b Cons.prems by auto
    then obtain t where t: "write_rect u fr x y w h = Some t" by blast
    have "\<exists>t'. write_rects (u\<lparr>ut_tex := t\<rparr>) fr bw bh rs = Some (u\<lparr>ut_tex := t, ut_tex := t'\<rparr>)"
      using Cons.IH [of "u\<lparr>ut_tex := t\<rparr>"] Cons.prems by simp
    with False box t show ?thesis by auto
  qed
qed

lemma upload_write_in_frame:
  assumes "frame_fits fr" "list_all small_rect (px_dirty fr)" "0 < ut_w u" "0 < ut_h u"
  shows "\<exists>t. upload_write u fr (ut_w u) (ut_h u) = Some (u\<lparr>ut_tex := t, ut_needs_base := False\<rparr>)"
proof -
  have pos: "0 < px_w fr" "0 < px_h fr" using assms(1) by (simp_all add: frame_fits_def)
  have full: "\<exists>t. write_rect u fr 0 0 (min (px_w fr) (ut_w u)) (min (px_h fr) (ut_h u)) = Some t"
    using write_rect_in_frame [OF assms(1), of 0 0 "min (px_w fr) (ut_w u)" "min (px_h fr) (ut_h u)" u] pos assms(3,4)
    by auto
  obtain t where "write_rects u fr (min (px_w fr) (ut_w u)) (min (px_h fr) (ut_h u)) (px_dirty fr) = Some (u\<lparr>ut_tex := t\<rparr>)"
    using write_rects_in_frame [OF assms(1) _ _ _ _ _ _ assms(2), of "min (px_w fr) (ut_w u)" "min (px_h fr) (ut_h u)" u]
      pos assms(3,4) by auto
  then show ?thesis
    using full by (cases u) (auto simp: upload_write_def Let_def)
qed

section \<open>A texture that follows its frames\<close>

text \<open>Tightly packed frames, as CEF paints them.\<close>

definition tight_frame :: "pixels \<Rightarrow> bool" where
  "tight_frame fr \<longleftrightarrow> 0 < px_w fr \<and> px_w fr \<le> i32_max \<and> 0 < px_h fr \<and> px_h fr \<le> i32_max \<and>
     px_stride fr = nat (px_w fr) * 4 \<and> length (px_bgra fr) = nat (px_h fr) * (nat (px_w fr) * 4) \<and>
     list_all small_rect (px_dirty fr)"

lemma tight_fits: "tight_frame fr \<Longrightarrow> frame_fits fr"
  by (cases "nat (px_h fr)") (auto simp: tight_frame_def frame_fits_def check_buffer_def Let_def)

lemma write_rect_tight:
  assumes "tight_frame fr" "0 \<le> x" "0 \<le> y" "0 < w" "0 < h" "x + w \<le> px_w fr" "y + h \<le> px_h fr"
    "ut_w u = px_w fr" "ut_h u = px_h fr" "length (ut_tex u) = length (px_bgra fr)"
  shows "write_rect u fr x y w h =
     Some (patch (px_w fr) [\<lparr>rect_x = x, rect_y = y, rect_w = w, rect_h = h\<rparr>] (ut_tex u) (px_bgra fr))"
proof -
  have "px_stride fr = nat (ut_w u) * 4" "0 < px_w fr"
    "length (ut_tex u) = nat (px_h fr) * (nat (px_w fr) * 4)" "length (ut_tex u) \<le> length (px_bgra fr)"
    using assms by (simp_all add: tight_frame_def)
  then show ?thesis
    using assms by (simp add: write_rect_in_frame tight_fits box_rows_patch [symmetric] foldl_map)
qed

lemma write_rects_tight:
  assumes "tight_frame fr" "ut_w u = px_w fr" "ut_h u = px_h fr" "length (ut_tex u) = length (px_bgra fr)"
    "list_all small_rect rs"
  shows "write_rects u fr (px_w fr) (px_h fr) rs
    = Some (u\<lparr>ut_tex := patch (px_w fr) rs (ut_tex u) (px_bgra fr)\<rparr>)"
  using assms
proof (induction rs arbitrary: u)
  case Nil
  show ?case by simp
next
  case (Cons r rs)
  let ?W = "px_w fr" and ?H = "px_h fr"
  have pos: "0 < ?W" "?W \<le> i32_max" "0 < ?H" "?H \<le> i32_max"
    and len: "length (ut_tex u) = nat ?H * (nat ?W * 4)"
    using Cons.prems by (simp_all add: tight_frame_def)
  obtain x y w h where box: "painter_clip_rect (rect_x r) (rect_y r) (rect_w r) (rect_h r) ?W ?H = (x, y, w, h)"
    using prod_cases4 by blast
  have small: "small_rect r" using Cons.prems by simp
  note b = painter_clip_rect_sound [OF small pos box]
  let ?r = "\<lparr>rect_x = x, rect_y = y, rect_w = w, rect_h = h\<rparr>"
  have cov: "rect_covers ?W r i \<longleftrightarrow> rect_covers ?W ?r i" if "i < length (ut_tex u)" for i
    using pixel_bounds [of i ?H ?W] that len b(7) by (simp add: rect_covers_def)
  have one: "patch ?W [?r] (ut_tex u) (px_bgra fr) = patch ?W [r] (ut_tex u) (px_bgra fr)"
    using cov by (intro patch_cong) simp
  have rest: "write_rects (u\<lparr>ut_tex := patch ?W [r] (ut_tex u) (px_bgra fr)\<rparr>) fr ?W ?H rs
      = Some (u\<lparr>ut_tex := patch ?W (r # rs) (ut_tex u) (px_bgra fr)\<rparr>)"
    using Cons.IH [of "u\<lparr>ut_tex := patch ?W [r] (ut_tex u) (px_bgra fr)\<rparr>"] Cons.prems
      patch_append [of ?W "[r]" rs] by simp
  show ?case
  proof (cases "w \<le> 0 \<or> h \<le> 0")
    case True
    then have "\<not> rect_covers ?W ?r i" for i by (auto simp: rect_covers_def)
    then have "patch ?W [r] (ut_tex u) (px_bgra fr) = patch ?W [] (ut_tex u) (px_bgra fr)"
      using cov by (intro patch_cong) simp
    with True rest box show ?thesis by simp
  next
    case False
    with b Cons.prems have "write_rect u fr x y w h = Some (patch ?W [r] (ut_tex u) (px_bgra fr))"
      by (simp add: write_rect_tight one)
    with False rest box show ?thesis by simp
  qed
qed

lemma base_kept: "\<not> ut_needs_base u \<Longrightarrow> u\<lparr>ut_needs_base := False, ut_tex := t\<rparr> = u\<lparr>ut_tex := t\<rparr>"
  by (cases u) simp

lemma upload_write_tight:
  assumes "tight_frame fr" "ut_w u = px_w fr" "ut_h u = px_h fr" "length (ut_tex u) = length (px_bgra fr)"
  shows "upload_write u fr (px_w fr) (px_h fr) = Some (u\<lparr>ut_needs_base := False,
     ut_tex := (if ut_needs_base u \<or> px_dirty fr = [] then px_bgra fr
                else patch (px_w fr) (px_dirty fr) (ut_tex u) (px_bgra fr))\<rparr>)"
proof -
  let ?W = "px_w fr" and ?H = "px_h fr"
  have pos: "0 < ?W" "0 < ?H" and len: "length (ut_tex u) = nat ?H * (nat ?W * 4)"
    and small: "list_all small_rect (px_dirty fr)"
    using assms by (simp_all add: tight_frame_def)
  have "rect_covers ?W \<lparr>rect_x = 0, rect_y = 0, rect_w = ?W, rect_h = ?H\<rparr> i" if "i < length (ut_tex u)" for i
    using pixel_bounds [of i ?H ?W] that len by (simp add: rect_covers_def)
  then have "patch ?W [\<lparr>rect_x = 0, rect_y = 0, rect_w = ?W, rect_h = ?H\<rparr>] (ut_tex u) (px_bgra fr) = px_bgra fr"
    using assms(4) by (intro nth_equalityI) (simp_all add: patch_nth)
  then have "write_rect u fr 0 0 ?W ?H = Some (px_bgra fr)"
    using write_rect_tight [OF assms(1), of 0 0 ?W ?H u] pos assms by simp
  then show ?thesis
    using write_rects_tight [OF assms small] by (auto simp: upload_write_def Let_def base_kept)
qed

section \<open>Runs\<close>

text \<open>CEF's promise: a frame of the size of the one before differs from it inside its dirty
  rectangles only, none standing for a full frame.\<close>

definition follows :: "pixels option \<Rightarrow> pixels \<Rightarrow> bool" where
  "follows prev fr =
     (case prev of None \<Rightarrow> True
      | Some q \<Rightarrow> (px_w q, px_h q) \<noteq> (px_w fr, px_h fr) \<or> px_dirty fr = [] \<or>
                  damage_covers (px_w fr) (px_dirty fr) (px_bgra q) (px_bgra fr))"

text \<open>What the producer has to keep to: CPU frames, those given while the painter is visible tightly
  packed and different from the last one given while visible only inside their damage, when they
  have one and its size.\<close>

fun well_fed :: "int \<Rightarrow> bool \<Rightarrow> pixels option \<Rightarrow> painter_op list \<Rightarrow> bool" where
  "well_fed mx vis prev [] = True"
| "well_fed mx vis prev (Present_Frame acqs fr # ops) =
     (case fr of Frame_Copied px \<Rightarrow>
                   if vis then tight_frame px \<and> px_w px \<le> mx \<and> px_h px \<le> mx \<and> follows prev px \<and>
                               well_fed mx vis (Some px) ops
                   else well_fed mx vis prev ops
               | Frame_Shared _ _ \<Rightarrow> False)"
| "well_fed mx vis prev (Set_Visible v # ops) = well_fed mx v prev ops"
| "well_fed mx vis prev (_ # ops) = well_fed mx vis prev ops"

definition shows_own_frame :: "frame \<times> presented \<Rightarrow> bool" where
  "shows_own_frame out =
     (case out of
        (Frame_Copied px, Presented_Yes img) \<Rightarrow> img = Shown_Copied (px_w px) (px_h px) (px_bgra px)
      | (_, r) \<Rightarrow> r \<noteq> Aborted)"

definition upload_tracks :: "pixels option \<Rightarrow> painter \<Rightarrow> bool" where
  "upload_tracks prev p \<longleftrightarrow>
     (case pt_upload p of None \<Rightarrow> True
      | Some u \<Rightarrow> \<not> ut_needs_base u \<and> ut_w u = pt_width p \<and> ut_h u = pt_height p \<and>
          length (ut_tex u) = nat (ut_h u) * (nat (ut_w u) * 4) \<and>
          (case prev of None \<Rightarrow> False
           | Some q \<Rightarrow> px_w q = ut_w u \<and> px_h q = ut_h u \<and> px_bgra q = ut_tex u))"

definition follows_frames :: "painter \<Rightarrow> bool" where
  "follows_frames p \<longleftrightarrow> pt_policy p = Follow_Frame \<and> pt_site p = At_Painter \<and> pt_mode p \<noteq> Some Shared"

lemma acquire_again_keeps: "snd (acquire_frame True acqs p) = p"
  by (cases acqs) (simp_all split: acquired.split)

lemma acquire_keeps:
  assumes "acquire_frame False acqs p = (r, p')"
  shows "p' = p \<or> p' = p\<lparr>pt_configured := True\<rparr>"
proof (cases acqs)
  case (Cons a as)
  have "snd (acquire_frame False (a # as) p) \<in> {p, configure_now p}"
    by (cases a) (simp_all add: acquire_again_keeps)
  then show ?thesis using assms Cons by (simp add: configure_now_def)
qed (use assms in simp)

lemma draw_keeps:
  assumes "draw_and_present acqs img p = (r, p')"
  shows "(p' = p \<or> p' = p\<lparr>pt_configured := True\<rparr>) \<and>
    (r = Presented_Yes img \<or> r = Presented_Skipped \<or> (\<exists>k. r = Surface_Lost k))"
  using assms
  by (auto simp: draw_and_present_def configure_now_def split: prod.splits sum.splits option.splits if_splits
      dest!: acquire_keeps)

lemma upload_tracks_frame [simp]:
  "upload_tracks prev (p\<lparr>pt_needs_configure := b\<rparr>) = upload_tracks prev p"
  "upload_tracks prev (p\<lparr>pt_visible := b\<rparr>) = upload_tracks prev p"
  "upload_tracks prev (p\<lparr>pt_configured := b\<rparr>) = upload_tracks prev p"
  "upload_tracks prev (p\<lparr>pt_pending_size := sz\<rparr>) = upload_tracks prev p"
  "upload_tracks prev (p\<lparr>pt_mode := m\<rparr>) = upload_tracks prev p"
  by (simp_all add: upload_tracks_def split: option.split)

text \<open>After \<open>extent_for\<close> the swapchain has the frame's extent, and a texture kept is of that extent.\<close>

lemma extent_for_follow:
  assumes "follows_frames p" "extent_for fr p = (e, p')"
  shows "e = fr \<and> (pt_width p', pt_height p') = fr \<and> follows_frames p' \<and> pt_visible p' = pt_visible p \<and>
    pt_max p' = pt_max p \<and> pt_mode p' = pt_mode p \<and>
    (pt_upload p' = None \<or> pt_upload p' = pt_upload p \<and> (pt_width p, pt_height p) = fr)"
  using assms
  by (cases fr)
    (auto simp: extent_for_def follows_frames_def reconfigure_to_def configure_now_def configure_needed_def Let_def
      split: if_splits)

lemma tight_extent:
  assumes "tight_frame fr" "px_w fr \<le> mx" "px_h fr \<le> mx"
  shows "frame_extent mx (px_w fr, px_h fr) = Inr (px_w fr, px_h fr)"
  using assms by (simp add: tight_frame_def frame_extent_def texels_def)

lemma new_upload_length [simp]: "length (ut_tex (new_upload w h)) = nat h * (nat w * 4)"
  and new_upload_simps [simp]: "ut_w (new_upload w h) = w" "ut_h (new_upload w h) = h" "ut_needs_base (new_upload w h)"
  by (simp_all add: new_upload_def)

lemma present_tracks:
  assumes "follows_frames p" "upload_tracks prev p" "pt_visible p" "tight_frame fr"
    "px_w fr \<le> pt_max p" "px_h fr \<le> pt_max p" "follows prev fr"
    "present_pixels acqs fr p = (r, p')"
  shows "follows_frames p' \<and> upload_tracks (Some fr) p' \<and> pt_visible p' \<and> pt_max p' = pt_max p \<and>
    shows_own_frame (Frame_Copied fr, r)"
proof -
  have chk: "check_buffer fr (px_w fr) (px_h fr) = None"
    using tight_fits [OF assms(4)] by (simp add: frame_fits_def)
  obtain e q where ext: "extent_for (px_w fr, px_h fr) p = (e, q)" by fastforce
  note q = extent_for_follow [OF assms(1) ext]
  obtain u q' where take: "take_upload (px_w fr) (px_h fr) q = (u, q')" by fastforce
  have q': "q' = q\<lparr>pt_upload := None\<rparr>" using take by (simp add: take_upload_def Let_def)
  have u: "ut_w u = px_w fr \<and> ut_h u = px_h fr \<and> length (ut_tex u) = length (px_bgra fr) \<and>
      (ut_needs_base u \<or> px_dirty fr = [] \<or> damage_covers (px_w fr) (px_dirty fr) (ut_tex u) (px_bgra fr))"
  proof (cases "u = new_upload (px_w fr) (px_h fr)")
    case True
    then show ?thesis using assms(4) by (simp add: tight_frame_def)
  next
    case False
    then have kept: "pt_upload q = Some u" "ut_w u = px_w fr" "ut_h u = px_h fr"
      using take by (auto simp: take_upload_def Let_def split: option.splits if_splits)
    then have old: "pt_upload p = Some u" using q by auto
    with assms(2) obtain pr where pr: "prev = Some pr" "px_w pr = ut_w u" "px_h pr = ut_h u" "px_bgra pr = ut_tex u"
      by (auto simp: upload_tracks_def split: option.splits)
    with assms(7) kept have "px_dirty fr = [] \<or> damage_covers (px_w fr) (px_dirty fr) (ut_tex u) (px_bgra fr)"
      by (simp add: follows_def)
    moreover have "length (ut_tex u) = length (px_bgra fr)"
      using assms(2,4) kept old by (simp add: upload_tracks_def tight_frame_def)
    ultimately show ?thesis using kept by auto
  qed
  define v where "v = u\<lparr>ut_needs_base := False, ut_tex := px_bgra fr\<rparr>"
  have e: "e = (px_w fr, px_h fr)" using q by simp
  have tv: "ut_tex v = px_bgra fr" by (simp add: v_def)
  have wr: "upload_write u fr (px_w fr) (px_h fr) = Some v"
    using upload_write_tight [of fr u] assms(4) u by (auto simp: v_def patch_damage)
  obtain r2 q2 where draw: "draw_and_present acqs (Shown_Copied (px_w fr) (px_h fr) (px_bgra fr)) (q\<lparr>pt_upload := Some v\<rparr>) = (r2, q2)"
    by fastforce
  have "present_pixels acqs fr p = (r2, q2)"
    unfolding present_pixels_def tight_extent [OF assms(4-6)]
    by (simp add: chk assms(3) ext e take wr draw q' tv)
  then have "r = r2" "p' = q2" using assms(8) by simp_all
  moreover have "follows_frames q2 \<and> upload_tracks (Some fr) q2 \<and> pt_visible q2 \<and> pt_max q2 = pt_max p"
  proof -
    let ?Q = "q\<lparr>pt_upload := Some v\<rparr>"
    have "pt_width q = px_w fr" "pt_height q = px_h fr" "follows_frames q" "pt_visible q" "pt_max q = pt_max p"
      using q assms(3) by simp_all
    moreover have "length (px_bgra fr) = nat (px_h fr) * (nat (px_w fr) * 4)"
      using assms(4) by (simp add: tight_frame_def)
    ultimately have "follows_frames ?Q \<and> upload_tracks (Some fr) ?Q \<and> pt_visible ?Q \<and> pt_max ?Q = pt_max p"
      using u by (simp add: follows_frames_def upload_tracks_def v_def)
    moreover have "q2 = ?Q \<or> q2 = ?Q\<lparr>pt_configured := True\<rparr>" using draw_keeps [OF draw] by blast
    ultimately show ?thesis by (elim disjE) (simp_all add: follows_frames_def)
  qed
  ultimately show ?thesis using draw_keeps [OF draw] by (auto simp: shows_own_frame_def)
qed

lemma present_hidden:
  assumes "\<not> pt_visible p" "present_pixels acqs fr p = (r, p')"
  shows "p' = p \<and> shows_own_frame (Frame_Copied fr, r)"
  using assms by (auto simp: present_pixels_def shows_own_frame_def split: sum.splits prod.splits option.splits)

lemma well_fed_run:
  assumes "follows_frames p" "upload_tracks prev p" "well_fed (pt_max p) (pt_visible p) prev ops"
    "out \<in> set (snd (run_steps painter_step p ops))"
  shows "shows_own_frame out"
  using assms
proof (induction ops arbitrary: p prev)
  case Nil
  then show ?case by simp
next
  case (Cons op ops)
  have rest: "shows_own_frame out"
    if "fst (painter_step p op) = q" "snd (painter_step p op) = []" "follows_frames q" "upload_tracks prev q"
      "well_fed (pt_max q) (pt_visible q) prev ops" for q
    using Cons.IH [of q prev] that Cons.prems(4) by (simp add: run_steps_Cons_snd del: run_steps.simps(2))
  show ?case
  proof (cases op)
    case (Present_Frame acqs f)
    with Cons.prems(3) obtain fr where f: "f = Frame_Copied fr" by (cases f) auto
    let ?q = "p\<lparr>pt_mode := Some Copied\<rparr>"
    obtain r p' where pr: "present_pixels acqs fr ?q = (r, p')" by fastforce
    have "follows_frames ?q" "upload_tracks prev ?q"
      using Cons.prems by (simp_all add: follows_frames_def upload_tracks_def split: option.splits)
    then have t: "follows_frames p' \<and> upload_tracks (if pt_visible p then Some fr else prev) p' \<and>
        pt_visible p' = pt_visible p \<and> pt_max p' = pt_max p \<and> shows_own_frame (Frame_Copied fr, r)"
      using present_tracks [OF _ _ _ _ _ _ _ pr] present_hidden [OF _ pr] Cons.prems(3) Present_Frame f
      by (cases "pt_visible p") auto
    have "pt_mode p = None \<or> pt_mode p = Some Copied"
      using Cons.prems(1) by (cases "pt_mode p") (auto simp: follows_frames_def intro: paint_mode.exhaust)
    then have step: "painter_step p op = (p', [(Frame_Copied fr, r)])"
      using pr by (auto simp: Present_Frame f present_frame_def Let_def)
    have "well_fed (pt_max p') (pt_visible p') (if pt_visible p then Some fr else prev) ops"
      using t Cons.prems(3) by (auto simp: Present_Frame f split: if_splits)
    then show ?thesis
      using Cons.IH [of p' "if pt_visible p then Some fr else prev"] t Cons.prems(4) step by (auto simp: run_steps_Cons_snd simp del: run_steps.simps(2))
  next
    case (Resize_To w h)
    then show ?thesis
      using rest Cons.prems
      by (simp add: resize_def follows_frames_def Let_def split: option.splits)
  next
    case Content_Detached
    then show ?thesis
      using rest Cons.prems by (simp add: content_detached_def follows_frames_def)
  next
    case (Set_Visible v)
    then show ?thesis
      using rest Cons.prems by (simp add: set_painter_visible_def follows_frames_def)
  next
    case Take_Configured
    then show ?thesis
      using rest Cons.prems by (simp add: take_configured_def follows_frames_def)
  qed
qed


text \<open>A frame of two pixels.\<close>

definition demo_frame :: "jfn_rect list \<Rightarrow> bytes \<Rightarrow> frame" where
  "demo_frame dirty bgra =
     Frame_Copied \<lparr>px_w = 2, px_h = 1, px_stride = 8, px_bgra = bgra, px_dirty = dirty\<rparr>"

text \<open>
  A frame given while hidden uploads nothing, so its damage is lost: the next one, if it carries
  only its own, is shown over the pixels of the last frame given while visible.
\<close>

lemma hidden_frame_loses_damage:
  "(case new_painter 64 True Wayland (2, 1) of Inl _ \<Rightarrow> []
    | Inr p \<Rightarrow> map snd (snd (run_steps painter_step p
        [Present_Frame [Acq_Success] (demo_frame [] [1, 1, 1, 1, 1, 1, 1, 1]), Set_Visible False,
         Present_Frame [] (demo_frame [\<lparr>rect_x = 0, rect_y = 0, rect_w = 1, rect_h = 1\<rparr>] [2, 2, 2, 2, 1, 1, 1, 1]),
         Set_Visible True, Present_Frame [Acq_Success]
           (demo_frame [\<lparr>rect_x = 1, rect_y = 0, rect_w = 1, rect_h = 1\<rparr>] [2, 2, 2, 2, 2, 2, 2, 2])]))) =
   [Presented_Yes (Shown_Copied 2 1 [1, 1, 1, 1, 1, 1, 1, 1]), Presented_Skipped,
    Presented_Yes (Shown_Copied 2 1 [1, 1, 1, 1, 2, 2, 2, 2])]"
  by code_simp

section \<open>No slice leaves its buffer\<close>

definition has_extent :: "painter \<Rightarrow> bool" where
  "has_extent p \<longleftrightarrow> 0 < pt_width p \<and> 0 < pt_height p"

text \<open>Frames with \<open>i32\<close> extents and rectangles whose sums stay in \<open>i32\<close>; anything else of a frame,
  buffer and stride included, may be wrong.\<close>

fun sane_op :: "painter_op \<Rightarrow> bool" where
  "sane_op (Present_Frame acqs (Frame_Copied px)) \<longleftrightarrow>
     px_w px \<le> i32_max \<and> px_h px \<le> i32_max \<and> list_all small_rect (px_dirty px)"
| "sane_op _ \<longleftrightarrow> True"

lemma has_extent_frame [simp]:
  "has_extent (p\<lparr>pt_upload := u\<rparr>) = has_extent p" "has_extent (p\<lparr>pt_configured := b\<rparr>) = has_extent p"
  "has_extent (p\<lparr>pt_visible := b\<rparr>) = has_extent p" "has_extent (p\<lparr>pt_needs_configure := b\<rparr>) = has_extent p"
  "has_extent (p\<lparr>pt_mode := m\<rparr>) = has_extent p" "has_extent (p\<lparr>pt_bind := i\<rparr>) = has_extent p"
  "has_extent (p\<lparr>pt_pending_size := sz\<rparr>) = has_extent p"
  by (simp_all add: has_extent_def)

lemma reconfigure_has_extent:
  "has_extent p \<Longrightarrow> 0 < cw \<Longrightarrow> 0 < ch \<Longrightarrow> has_extent (reconfigure_to cw ch p)"
  by (simp add: reconfigure_to_def configure_now_def Let_def) (simp add: has_extent_def)

lemma clamp_extent_pos: "clamp_extent p sz = (w, h) \<Longrightarrow> 0 < w \<and> 0 < h"
  by (auto simp: clamp_extent_def Let_def less_max_iff_disj)

lemma extent_for_has_extent:
  assumes "has_extent p" "0 < fst fr" "0 < snd fr" "extent_for fr p = ((cw, ch), p')"
  shows "has_extent p' \<and> 0 < cw \<and> 0 < ch"
proof -
  obtain w h where "clamp_extent p (pt_pending_size p) = (w, h)" by fastforce
  with assms clamp_extent_pos [OF this] have "has_extent p'"
    by (cases fr) (auto simp: extent_for_def Let_def intro!: reconfigure_has_extent split: if_splits size_policy.splits)
  then show ?thesis using assms(4) by (auto simp: extent_for_def Let_def has_extent_def)
qed

lemma draw_has_extent:
  "has_extent p \<Longrightarrow> draw_and_present acqs img p = (r, p') \<Longrightarrow> has_extent p' \<and> r \<noteq> Aborted"
  by (auto dest!: draw_keeps)

lemma present_pixels_safe:
  assumes "has_extent p" "px_w fr \<le> i32_max" "px_h fr \<le> i32_max" "list_all small_rect (px_dirty fr)"
    "present_pixels acqs fr p = (r, p')"
  shows "has_extent p' \<and> r \<noteq> Aborted"
proof (cases "frame_extent (pt_max p) (px_w fr, px_h fr)")
  case (Inl k)
  with assms show ?thesis by (auto simp: present_pixels_def)
next
  case (Inr e)
  then have e: "e = (px_w fr, px_h fr)" "0 < px_w fr" "0 < px_h fr"
    by (auto simp: frame_extent_def texels_def split: if_splits option.splits)
  show ?thesis
  proof (cases "check_buffer fr (px_w fr) (px_h fr) \<noteq> None \<or> \<not> pt_visible p")
    case True
    with assms Inr e show ?thesis by (auto simp: present_pixels_def split: option.splits)
  next
    case False
    then have fits: "frame_fits fr" using e assms by (simp add: frame_fits_def)
    obtain cw ch q where ext: "extent_for (px_w fr, px_h fr) p = ((cw, ch), q)" by (metis prod.exhaust)
    have q: "has_extent q" "0 < cw" "0 < ch" using extent_for_has_extent [OF assms(1) _ _ ext] e by simp_all
    obtain u q' where take: "take_upload cw ch q = (u, q')" by fastforce
    have q': "q' = q\<lparr>pt_upload := None\<rparr>" "ut_w u = cw" "ut_h u = ch"
      using take by (auto simp: take_upload_def Let_def split: option.splits if_splits)
    obtain v where wr: "upload_write u fr cw ch = Some v"
      using upload_write_in_frame [OF fits assms(4), of u] q q' by auto
    obtain r2 q2 where draw: "draw_and_present acqs (Shown_Copied cw ch (ut_tex v)) (q\<lparr>pt_upload := Some v\<rparr>) = (r2, q2)"
      by fastforce
    have "present_pixels acqs fr p = (r2, q2)"
      unfolding present_pixels_def Inr using False by (simp add: e ext take wr draw q')
    with draw_has_extent [OF _ draw] q assms(5) show ?thesis by simp
  qed
qed

lemma present_shared_safe:
  assumes "has_extent p" "present_shared acqs t imported p = (r, p')"
  shows "has_extent p' \<and> r \<noteq> Aborted"
proof (cases "frame_extent (pt_max p) (tx_coded t)")
  case (Inl k)
  with assms show ?thesis by (auto simp: present_shared_def)
next
  case (Inr e)
  then have e: "0 < fst e" "0 < snd e"
    by (cases "tx_coded t"; auto simp: frame_extent_def texels_def split: if_splits)+
  obtain cw ch q where ext: "extent_for e p = ((cw, ch), q)" by (metis prod.exhaust)
  have q: "has_extent q" using extent_for_has_extent [OF assms(1) e ext] by simp
  show ?thesis
  proof (cases "imported = None \<or> \<not> pt_visible p")
    case True
    with assms Inr ext q show ?thesis
      by (auto simp: present_shared_def split: prod.splits option.splits if_splits)
  next
    case False
    then obtain tex reused where i: "imported = Some (tex, reused)" "pt_visible p" by auto
    have "has_extent (snd (draw_and_present acqs img (q\<lparr>pt_bind := None\<rparr>))) \<and>
        fst (draw_and_present acqs img (q\<lparr>pt_bind := None\<rparr>)) \<noteq> Aborted" for img
      using draw_has_extent [of "q\<lparr>pt_bind := None\<rparr>"] q by (metis has_extent_frame(6) prod.collapse)
    with assms(2) Inr i ext show ?thesis
      by (cases e) (auto simp: present_shared_def Let_def split_beta)
  qed
qed

lemma painter_step_safe:
  assumes "has_extent p" "sane_op op"
  shows "has_extent (fst (painter_step p op)) \<and> list_all (\<lambda>(f, r). r \<noteq> Aborted) (snd (painter_step p op))"
proof (cases op)
  case (Present_Frame acqs f)
  obtain r p' where step: "present_frame acqs f p = (r, p')" by fastforce
  have "has_extent p' \<and> r \<noteq> Aborted"
  proof (cases "pt_mode p \<noteq> None \<and> pt_mode p \<noteq> Some (frame_mode f)")
    case True
    with step assms show ?thesis by (auto simp: present_frame_def)
  next
    case False
    let ?q = "p\<lparr>pt_mode := Some (frame_mode f)\<rparr>"
    have q: "has_extent ?q" using assms by simp
    show ?thesis
    proof (cases f)
      case (Frame_Copied px)
      with False step have "present_pixels acqs px ?q = (r, p')" by (auto simp: present_frame_def Let_def)
      then show ?thesis
        using present_pixels_safe [OF q _ _ _ \<open>present_pixels acqs px ?q = (r, p')\<close>] assms(2)
        by (simp add: Present_Frame Frame_Copied)
    next
      case (Frame_Shared t i)
      with False step have "present_shared acqs t i ?q = (r, p')" by (auto simp: present_frame_def Let_def)
      with q show ?thesis using present_shared_safe by blast
    qed
  qed
  then show ?thesis by (simp add: Present_Frame step)
next
  case (Resize_To w h)
  obtain cw ch where c: "clamp_extent (p\<lparr>pt_pending_size := (w, h)\<rparr>) (w, h) = (cw, ch)" by fastforce
  show ?thesis
    using assms(1) c clamp_extent_pos [OF c]
    by (auto simp: Resize_To resize_def texels_def Let_def intro!: reconfigure_has_extent split: option.splits)
qed (use assms in \<open>simp_all add: content_detached_def set_painter_visible_def take_configured_def\<close>)


text \<open>The clip itself overflows: a rectangle inside the frame whose far edge passes \<open>i32::MAX\<close> is
  not shortened, and the upload slices past the buffer.\<close>

lemma far_damage_aborts:
  assumes "\<not> ut_needs_base u" "px_w fr = 4" "px_h fr = 1" "px_stride fr = 16" "length (px_bgra fr) = 16"
    "px_dirty fr = [\<lparr>rect_x = 1, rect_y = 0, rect_w = 2147483647, rect_h = 1\<rparr>]"
  shows "frame_fits fr \<and> upload_write u fr 4 1 = None"
proof -
  have "painter_clip_rect 1 0 2147483647 1 4 1 = (1, 0, 2147483647, 1)"
    by (simp add: painter_clip_rect_def wrap32_def)
  moreover have "write_rect u fr 1 0 2147483647 1 = None"
    using assms by (simp add: write_rect_def get_range_def as_usize_def)
  ultimately show ?thesis
    using assms by (simp add: upload_write_def frame_fits_def check_buffer_def)
qed

text \<open>The theorems at a concrete run: a frame of two pixels, then one whose second pixel changed,
  with a stale swapchain in between.\<close>

definition demo_ops :: "painter_op list" where
  "demo_ops =
     [Present_Frame [Acq_Success] (demo_frame [] [1, 2, 3, 4, 5, 6, 7, 8]), Take_Configured, Resize_To 7 7,
      Present_Frame [Acq_Outdated, Acq_Suboptimal]
        (demo_frame [\<lparr>rect_x = 1, rect_y = 0, rect_w = 5, rect_h = 1\<rparr>] [1, 2, 3, 4, 9, 9, 9, 9])]"



end
