(* ===== verification/Layer_Actor.thy ===== *)
theory Layer_Actor
  imports Gpu_Painter
begin

text \<open>
  A Wayland content layer (\<open>wayland/src/layer_actor.rs\<close>, \<open>layer.rs\<close> and the surface operations of
  \<open>wl_ops.rs\<close>): the mailbox CEF's thread fills, the worker that takes from it and commits buffers,
  and the requests on the wire. The surface operations run one at a time under the state's lock,
  each a sequence of actor calls; every call and both halves of a worker iteration (take, work)
  are steps of their own, in any interleaving. What the window system, the buffer pool and the GPU
  answer comes in with each step.
\<close>

section \<open>The mailbox\<close>

record viewport_state =
  vp_lw :: int
  vp_lh :: int
  vp_pw :: int
  vp_ph :: int

type_synonym colour = "8 word \<times> 8 word \<times> 8 word"

text \<open>A dmabuf frame: its first plane's stride, if it has a plane, and the identity behind the
  file descriptor, if it could be read.\<close>

record dmabuf_frame = shared_texture +
  df_plane :: "int option"
  df_modifier :: int
  df_key :: "(int \<times> int) option"

datatype pending_frame =
  Pend_Gpu pixels
| Pend_Shm shm_payload
| Pend_Dmabuf dmabuf_frame
| Pend_Placeholder colour

datatype shadow_state = Stale | Valid "int \<times> int"

record layer_state =
  ls_pending :: "pending_frame option"
  ls_shadow :: shadow_state
  ls_viewport :: viewport_state
  ls_visible :: bool
  ls_hide_pending :: bool
  ls_viewport_dirty :: bool
  ls_shutdown :: bool

definition new_layer_state :: "viewport_state \<Rightarrow> bool \<Rightarrow> layer_state" where
  "new_layer_state vp vis =
     \<lparr>ls_pending = None, ls_shadow = Stale, ls_viewport = vp, ls_visible = vis,
      ls_hide_pending = False, ls_viewport_dirty = False, ls_shutdown = False\<rparr>"

definition layer_set_visible :: "bool \<Rightarrow> layer_state \<Rightarrow> layer_state" where
  "layer_set_visible vis s =
     (let s = s\<lparr>ls_visible := vis\<rparr>
      in if \<not> vis then s\<lparr>ls_pending := None, ls_hide_pending := True, ls_shadow := Stale\<rparr> else s)"

definition layer_resize :: "viewport_state \<Rightarrow> layer_state \<Rightarrow> layer_state" where
  "layer_resize vp s =
     (if ls_viewport s = vp then s
      else s\<lparr>ls_viewport := vp, ls_viewport_dirty := True, ls_shadow := Stale\<rparr>)"

definition request_placeholder :: "colour \<Rightarrow> layer_state \<Rightarrow> layer_state" where
  "request_placeholder c s = s\<lparr>ls_pending := Some (Pend_Placeholder c), ls_shadow := Stale\<rparr>"

definition mailbox_dmabuf :: "dmabuf_frame \<Rightarrow> layer_state \<Rightarrow> layer_state" where
  "mailbox_dmabuf fr s = s\<lparr>ls_pending := Some (Pend_Dmabuf fr), ls_shadow := Stale\<rparr>"

definition enqueue_gpu :: "pixels \<Rightarrow> layer_state \<Rightarrow> layer_state" where
  "enqueue_gpu payload s = s\<lparr>ls_pending := Some (Pend_Gpu payload)\<rparr>"

definition needs_full_copy :: "int \<Rightarrow> int \<Rightarrow> layer_state \<Rightarrow> bool" where
  "needs_full_copy w h s \<longleftrightarrow>
     ls_shadow s \<noteq> Valid (w, h) \<or>
     (case ls_pending s of Some (Pend_Shm p) \<Rightarrow> pl_full p \<noteq> None | _ \<Rightarrow> False)"

definition store_shm :: "shm_rect list \<Rightarrow> bytes option \<Rightarrow> int \<Rightarrow> int \<Rightarrow> layer_state \<Rightarrow> layer_state" where
  "store_shm rects full w h s =
     (let s = (if full \<noteq> None then s\<lparr>ls_shadow := Valid (w, h)\<rparr> else s);
          fresh = s\<lparr>ls_pending := Some (Pend_Shm \<lparr>pl_rects = rects, pl_full = full, pl_width = w, pl_height = h\<rparr>)\<rparr>
      in if full \<noteq> None then fresh
         else (case ls_pending s of
                 Some (Pend_Shm existing) \<Rightarrow>
                   if pl_full existing = None \<and> pl_width existing = w \<and> pl_height existing = h
                   then s\<lparr>ls_pending := Some (Pend_Shm (existing\<lparr>pl_rects := pl_rects existing @ rects\<rparr>))\<rparr>
                   else fresh
               | _ \<Rightarrow> fresh))"

section \<open>The actor's producers\<close>

datatype layer_kind = Kind_Gpu | Kind_Shm

datatype route = Route_Gpu | Route_Shm

definition route_software :: "layer_kind \<Rightarrow> bool \<Rightarrow> route" where
  "route_software k gpu_failed = (if k = Kind_Gpu \<and> \<not> gpu_failed then Route_Gpu else Route_Shm)"

datatype present = Committed | Skipped

datatype present_error = Present_Bad_Dimensions int int | Short_Buffer nat nat | Gpu_Error lost_kind | Shm_Alloc | Dmabuf_Create

definition validate_present_dims :: "int \<Rightarrow> int \<Rightarrow> present_error option" where
  "validate_present_dims w h = (if w \<le> 0 \<or> h \<le> 0 then Some (Present_Bad_Dimensions w h) else None)"

record soft_frame =
  so_pixels :: bytes
  so_w :: int
  so_h :: int
  so_dirty :: "jfn_rect list"

text \<open>The checks of \<open>present_software\<close>: stride and length of what is copied.\<close>

definition software_span :: "soft_frame \<Rightarrow> present_error + (nat \<times> nat)" where
  "software_span fr =
     (case validate_present_dims (so_w fr) (so_h fr) of
        Some e \<Rightarrow> Inl e
      | None \<Rightarrow>
          (case frame_span (so_w fr) (so_h fr) of
             None \<Rightarrow> Inl (Present_Bad_Dimensions (so_w fr) (so_h fr))
           | Some (stride, len) \<Rightarrow>
               if length (so_pixels fr) < len then Inl (Short_Buffer (length (so_pixels fr)) len)
               else Inr (stride, len)))"

text \<open>\<open>stride as u32\<close>.\<close>

definition gpu_payload :: "soft_frame \<Rightarrow> nat \<Rightarrow> nat \<Rightarrow> pixels" where
  "gpu_payload fr stride len =
     \<lparr>px_w = so_w fr, px_h = so_h fr, px_stride = nat (int stride mod 4294967296),
      px_bgra = take len (so_pixels fr), px_dirty = so_dirty fr\<rparr>"

definition enqueue_shm :: "soft_frame \<Rightarrow> nat \<Rightarrow> nat \<Rightarrow> layer_state \<Rightarrow> present \<times> layer_state" where
  "enqueue_shm fr stride len s =
     (let rects = List.map_filter (copy_dirty_rect (so_pixels fr) stride (so_w fr) (so_h fr)) (so_dirty fr);
          full = (if needs_full_copy (so_w fr) (so_h fr) s then Some (take len (so_pixels fr)) else None)
      in if rects = [] \<and> full = None then (Skipped, s)
         else (Committed, store_shm rects full (so_w fr) (so_h fr) s))"

section \<open>The wire\<close>

datatype content = Content_Shm int int bytes | Content_Dmabuf nat int int

datatype wire =
  Set_Source int int
| Set_Destination int int
| Attach content
| Attach_None
| Damage_Buffer int int
| Commit
| Swap shown
| Flush_And_Ring

definition viewport_update :: "int \<Rightarrow> int \<Rightarrow> int \<Rightarrow> int \<Rightarrow> bool \<times> bool" where
  "viewport_update sw sh dw dh = (0 < sw \<and> 0 < sh, 0 < dw \<and> 0 < dh)"

definition clamp_source :: "int \<Rightarrow> int \<Rightarrow> int \<Rightarrow> int \<Rightarrow> int \<times> int" where
  "clamp_source sw sh bw bh = (min sw bw, min sh bh)"

definition set_viewport :: "bool \<Rightarrow> int \<Rightarrow> int \<Rightarrow> int \<Rightarrow> int \<Rightarrow> wire list" where
  "set_viewport has_viewport sw sh dw dh =
     (if \<not> has_viewport then []
      else let (send_source, send_destination) = viewport_update sw sh dw dh
           in (if send_source then [Set_Source sw sh] else []) @
              (if send_destination then [Set_Destination dw dh] else []))"

text \<open>\<open>FrameCommit::new\<close> and \<open>LayerSurface::present\<close>.\<close>

definition layer_present :: "bool \<Rightarrow> content \<Rightarrow> int \<Rightarrow> int \<Rightarrow> int \<Rightarrow> int \<Rightarrow> int \<Rightarrow> int \<Rightarrow> wire list" where
  "layer_present has_viewport buf bw bh sw sh dw dh =
     (let (sw, sh) = clamp_source sw sh bw bh
      in set_viewport has_viewport sw sh dw dh @ [Attach buf, Damage_Buffer bw bh, Commit])"

section \<open>The worker\<close>

datatype backend = Gpu_Backend "painter option" | Shm_Backend shm_shadow

record dmabuf_buf =
  db_id :: "int \<times> int"
  db_w :: int
  db_h :: int
  db_stride :: int
  db_modifier :: int
  db_buf :: nat

datatype attached = Attached_Shm | Attached_Dmabuf nat

record runner =
  rn_viewport :: bool
  rn_shm_pool :: bool
  rn_dmabuf :: bool
  rn_backend :: backend
  rn_gpu :: "int option"
  rn_present_failing :: bool
  rn_pool :: "dmabuf_buf list"
  rn_current :: "attached option"
  rn_has_content :: bool

text \<open>What a worker iteration is answered: a slot of the shm pool, the native window, support for
  the surface, the swapchain, whether a buffer is idle, a new dmabuf buffer.\<close>

record work_answers =
  wa_slot :: bool
  wa_target :: bool
  wa_supported :: bool
  wa_acquired :: "acquired list"
  wa_idle :: "nat \<Rightarrow> bool"
  wa_create :: "nat option"

definition DMABUF_POOL_CAP :: nat where "DMABUF_POOL_CAP = 16"

definition hide_detaches :: "backend \<Rightarrow> bool" where
  "hide_detaches b = (case b of Shm_Backend _ \<Rightarrow> True | Gpu_Backend _ \<Rightarrow> False)"

definition is_degrading_error :: "present_error \<Rightarrow> bool" where
  "is_degrading_error e = (case e of Gpu_Error _ \<Rightarrow> True | _ \<Rightarrow> False)"

definition hide :: "runner \<Rightarrow> bool \<times> runner \<times> wire list" where
  "hide r =
     (let r = (case rn_backend r of
                 Gpu_Backend (Some p) \<Rightarrow> r\<lparr>rn_backend := Gpu_Backend (Some (set_painter_visible False p))\<rparr>
               | _ \<Rightarrow> r)
      in if hide_detaches (rn_backend r) then (True, r\<lparr>rn_current := None\<rparr>, [Attach_None, Commit])
         else (False, r, []))"

text \<open>Degrading stores the shared flag: the second component says whether it does.\<close>

definition degrade :: "runner \<Rightarrow> runner" where
  "degrade r = r\<lparr>rn_backend := Shm_Backend default_shadow\<rparr>"

definition on_present_error :: "present_error \<Rightarrow> runner \<Rightarrow> bool \<times> runner" where
  "on_present_error e r =
     (let degraded = is_degrading_error e; r = (if degraded then degrade r else r)
      in (degraded, r\<lparr>rn_present_failing := True\<rparr>))"

definition argb8888_opaque :: "colour \<Rightarrow> bytes" where
  "argb8888_opaque c = (case c of (r, g, b) \<Rightarrow> [b, g, r, 255])"

definition argb8888_span :: "int \<Rightarrow> int \<Rightarrow> (int \<times> nat) option" where
  "argb8888_span w h =
     (if i32_max < w * 4 \<or> w * 4 \<le> 0 \<or> h \<le> 0 then None
      else map_option (\<lambda>len. (w * 4, len)) (checked (nat h * nat (w * 4))))"

text \<open>\<open>draw_argb8888\<close> and \<open>draw_from_pixels\<close>: the buffer's pixels, unless the pool has no slot.\<close>

definition draw_from_pixels :: "bool \<Rightarrow> bytes \<Rightarrow> int \<Rightarrow> int \<Rightarrow> content option" where
  "draw_from_pixels slot px w h =
     (case argb8888_span w h of
        None \<Rightarrow> None
      | Some (_, len) \<Rightarrow>
          if \<not> slot then None
          else if length px < len then None else Some (Content_Shm w h (take len px)))"

type_synonym outcome = "((present_error + present) option \<times> runner \<times> wire list)"

definition present_placeholder :: "work_answers \<Rightarrow> viewport_state \<Rightarrow> colour \<Rightarrow> runner \<Rightarrow> outcome" where
  "present_placeholder wa vps bg r =
     (if \<not> rn_shm_pool r then (Some (Inl Shm_Alloc), r, [])
      else (case draw_from_pixels (wa_slot wa) (argb8888_opaque bg) 1 1 of
              None \<Rightarrow> (Some (Inl Shm_Alloc), r, [])
            | Some buf \<Rightarrow>
                (Some (Inr Committed), r\<lparr>rn_current := Some Attached_Shm\<rparr>,
                 layer_present (rn_viewport r) buf 1 1 1 1 (vp_lw vps) (vp_lh vps))))"

text \<open>The painter's owner; \<open>None\<close> as result is the abort of an upload out of range.\<close>

definition present_gpu :: "work_answers \<Rightarrow> viewport_state \<Rightarrow> pixels \<Rightarrow> runner \<Rightarrow> outcome" where
  "present_gpu wa vps p r =
     (case (rn_backend r, rn_gpu r) of
        (Gpu_Backend painter, Some mx) \<Rightarrow>
          (let made = (case painter of
                         Some q \<Rightarrow> Some (Inr q)
                       | None \<Rightarrow> if wa_target wa
                                then Some (new_painter mx (wa_supported wa) Wayland (px_w p, px_h p)) else None)
           in case made of
                None \<Rightarrow> (Some (Inr Skipped), r, [])
              | Some (Inl k) \<Rightarrow> (Some (Inl (Gpu_Error k)), r, [])
              | Some (Inr q) \<Rightarrow>
                  let q = resize (max 1 (vp_pw vps), max 1 (vp_ph vps)) (set_painter_visible True q);
                      (res, q) = present_frame (wa_acquired wa) (Frame_Copied p) q;
                      r = r\<lparr>rn_backend := Gpu_Backend (Some q)\<rparr>
                  in (case res of
                        Presented_Yes img \<Rightarrow>
                          (Some (Inr Committed), r,
                           set_viewport (rn_viewport r) (min (px_w p) (vp_pw vps)) (min (px_h p) (vp_ph vps))
                             (vp_lw vps) (vp_lh vps) @ [Swap img])
                      | Presented_Skipped \<Rightarrow> (Some (Inr Skipped), r, [])
                      | Surface_Lost k \<Rightarrow> (Some (Inl (Gpu_Error k)), r, [])
                      | Aborted \<Rightarrow> (None, r, [])))
      | _ \<Rightarrow> (Some (Inr Skipped), r, []))"

definition present_shm :: "work_answers \<Rightarrow> viewport_state \<Rightarrow> shm_payload \<Rightarrow> runner \<Rightarrow> outcome" where
  "present_shm wa vps p r =
     (case rn_backend r of
        Gpu_Backend _ \<Rightarrow> (Some (Inr Skipped), r, [])
      | Shm_Backend shadow \<Rightarrow>
          (case compose_shm_shadow shadow p of
             Inl (w, h) \<Rightarrow> (Some (Inl (Present_Bad_Dimensions w h)), r, [])
           | Inr shadow \<Rightarrow>
               let r = r\<lparr>rn_backend := Shm_Backend shadow\<rparr>; w = pl_width p; h = pl_height p
               in if \<not> rn_shm_pool r then (Some (Inl Shm_Alloc), r, [])
                  else (case draw_from_pixels (wa_slot wa) (sh_pixels shadow) w h of
                          None \<Rightarrow> (Some (Inl Shm_Alloc), r, [])
                        | Some buf \<Rightarrow>
                            (Some (Inr Committed), r\<lparr>rn_current := Some Attached_Shm\<rparr>,
                             layer_present (rn_viewport r) buf w h (min w (vp_pw vps)) (min h (vp_ph vps))
                               (vp_lw vps) (vp_lh vps)))))"

text \<open>\<open>Vec::iter().position\<close> and \<open>Vec::remove\<close>.\<close>

fun position :: "('a \<Rightarrow> bool) \<Rightarrow> 'a list \<Rightarrow> nat option" where
  "position P [] = None"
| "position P (x # xs) = (if P x then Some 0 else map_option Suc (position P xs))"

definition remove_at :: "nat \<Rightarrow> 'a list \<Rightarrow> 'a list" where
  "remove_at i xs = take i xs @ drop (Suc i) xs"

datatype dmabuf_lease = Pooled | One_Shot nat

text \<open>The miss: an entry of the same buffer with other attributes goes, a new one is made.\<close>

definition lease_fresh :: "work_answers \<Rightarrow> dmabuf_frame \<Rightarrow> int \<times> int \<Rightarrow> int \<Rightarrow> dmabuf_buf list \<Rightarrow> runner \<Rightarrow> dmabuf_lease option \<times> runner" where
  "lease_fresh wa fr key stride pool r =
     (let pool = (case position (\<lambda>e. db_id e = key) pool of Some stale \<Rightarrow> remove_at stale pool | None \<Rightarrow> pool)
      in case wa_create wa of
           None \<Rightarrow> (None, r\<lparr>rn_pool := pool\<rparr>)
         | Some buf \<Rightarrow>
             (Some Pooled, r\<lparr>rn_pool := take DMABUF_POOL_CAP
                (\<lparr>db_id = key, db_w = fst (tx_coded fr), db_h = snd (tx_coded fr), db_stride = stride,
                  db_modifier = df_modifier fr, db_buf = buf\<rparr> # pool)\<rparr>))"

definition lease_dmabuf :: "work_answers \<Rightarrow> dmabuf_frame \<Rightarrow> runner \<Rightarrow> dmabuf_lease option \<times> runner" where
  "lease_dmabuf wa fr r =
     (case (rn_dmabuf r, df_plane fr) of
        (True, Some stride) \<Rightarrow>
          (case df_key fr of
             None \<Rightarrow> (map_option One_Shot (wa_create wa), r)
           | Some key \<Rightarrow>
               let w = fst (tx_coded fr); h = snd (tx_coded fr);
                   pool = rn_pool r;
                   hit = position (\<lambda>e. db_id e = key \<and> db_w e = w \<and> db_h e = h \<and>
                                       db_stride e = stride \<and> db_modifier e = df_modifier fr) pool
               in (case hit of
                     Some pos \<Rightarrow> if wa_idle wa (db_buf (pool ! pos))
                                then (Some Pooled, r\<lparr>rn_pool := (pool ! pos) # remove_at pos pool\<rparr>)
                                else lease_fresh wa fr key stride (remove_at pos pool) r
                   | None \<Rightarrow> lease_fresh wa fr key stride pool r))
      | _ \<Rightarrow> (None, r))"

definition present_dmabuf :: "work_answers \<Rightarrow> viewport_state \<Rightarrow> dmabuf_frame \<Rightarrow> runner \<Rightarrow> outcome" where
  "present_dmabuf wa vps fr r =
     (let (vw, vh) = tx_visible (shared_texture.truncate fr); (cw, ch) = tx_coded fr
      in case lease_dmabuf wa fr r of
           (None, r) \<Rightarrow> (Some (Inl Dmabuf_Create), r, [])
         | (Some Pooled, r) \<Rightarrow>
             (Some (Inr Committed), r\<lparr>rn_current := None\<rparr>,
              layer_present (rn_viewport r) (Content_Dmabuf (db_buf (hd (rn_pool r))) cw ch) cw ch vw vh (vp_lw vps) (vp_lh vps))
         | (Some (One_Shot buf), r) \<Rightarrow>
             (Some (Inr Committed), r\<lparr>rn_current := Some (Attached_Dmabuf buf)\<rparr>,
              layer_present (rn_viewport r) (Content_Dmabuf buf cw ch) cw ch vw vh (vp_lw vps) (vp_lh vps)))"

definition present_pending :: "work_answers \<Rightarrow> viewport_state \<Rightarrow> pending_frame \<Rightarrow> runner \<Rightarrow> outcome" where
  "present_pending wa vps fr r =
     (case fr of
        Pend_Gpu p \<Rightarrow> present_gpu wa vps p r
      | Pend_Shm p \<Rightarrow> present_shm wa vps p r
      | Pend_Dmabuf t \<Rightarrow> present_dmabuf wa vps t r
      | Pend_Placeholder c \<Rightarrow> present_placeholder wa vps c r)"

section \<open>One iteration\<close>

datatype 'f action = Act_Hide | Act_Present 'f | Act_Reapply_Viewport | Act_Nop

fun next_content :: "bool \<Rightarrow> 'f action \<Rightarrow> bool \<Rightarrow> bool \<Rightarrow> bool" where
  "next_content prev Act_Hide committed is_placeholder = False"
| "next_content prev (Act_Present f) committed is_placeholder = (if committed \<and> \<not> is_placeholder then True else prev)"
| "next_content prev _ committed is_placeholder = prev"

definition decide :: "'f option \<Rightarrow> bool \<Rightarrow> bool \<Rightarrow> bool \<Rightarrow> bool \<Rightarrow> 'f action" where
  "decide pend is_placeholder vis has_content viewport_dirty =
     (if \<not> vis then Act_Hide
      else (case pend of
              Some fr \<Rightarrow> if is_placeholder \<and> has_content then Act_Nop else Act_Present fr
            | None \<Rightarrow> if viewport_dirty then Act_Reapply_Viewport else Act_Nop))"

record snapshot =
  sn_pending :: "pending_frame option"
  sn_viewport :: viewport_state
  sn_visible :: bool
  sn_viewport_dirty :: bool
  sn_shutdown :: bool

definition worker_ready :: "layer_state \<Rightarrow> bool" where
  "worker_ready s \<longleftrightarrow> ls_pending s \<noteq> None \<or> ls_shutdown s \<or> ls_hide_pending s \<or> ls_viewport_dirty s"

definition worker_take :: "layer_state \<Rightarrow> snapshot \<times> layer_state" where
  "worker_take s =
     (\<lparr>sn_pending = ls_pending s, sn_viewport = ls_viewport s, sn_visible = ls_visible s,
       sn_viewport_dirty = ls_viewport_dirty s, sn_shutdown = ls_shutdown s\<rparr>,
      s\<lparr>ls_hide_pending := False, ls_viewport_dirty := False, ls_pending := None\<rparr>)"

definition is_placeholder :: "pending_frame option \<Rightarrow> bool" where
  "is_placeholder p = (case p of Some (Pend_Placeholder _) \<Rightarrow> True | _ \<Rightarrow> False)"

text \<open>The action: whether the layer was committed, whether a present was, and whether the GPU was
  given up; \<open>None\<close> is the abort.\<close>

definition act :: "work_answers \<Rightarrow> viewport_state \<Rightarrow> pending_frame action \<Rightarrow> runner
    \<Rightarrow> ((bool \<times> bool \<times> bool) option \<times> runner \<times> wire list)" where
  "act wa vps a r =
     (case a of
        Act_Hide \<Rightarrow> (case hide r of (c, r, ws) \<Rightarrow> (Some (c, False, False), r, ws))
      | Act_Present fr \<Rightarrow>
          (case present_pending wa vps fr r of
             (None, r, ws) \<Rightarrow> (None, r, ws)
           | (Some (Inr Committed), r, ws) \<Rightarrow> (Some (True, True, False), r\<lparr>rn_present_failing := False\<rparr>, ws)
           | (Some (Inr Skipped), r, ws) \<Rightarrow> (Some (False, False, False), r, ws)
           | (Some (Inl e), r, ws) \<Rightarrow>
               (case on_present_error e r of (degraded, r) \<Rightarrow> (Some (False, False, degraded), r, ws)))
      | Act_Reapply_Viewport \<Rightarrow>
          (Some (True, False, False), r, set_viewport (rn_viewport r) 0 0 (vp_lw vps) (vp_lh vps) @ [Commit])
      | Act_Nop \<Rightarrow> (Some (False, False, False), r, []))"

text \<open>One turn of \<open>run\<close> after the snapshot, its shutdown check apart.\<close>

definition iteration :: "work_answers \<Rightarrow> snapshot \<Rightarrow> runner \<Rightarrow> bool option \<times> runner \<times> wire list" where
  "iteration wa sn r =
     (let vps = sn_viewport sn;
          placeholder = is_placeholder (sn_pending sn);
          a = decide (sn_pending sn) placeholder (sn_visible sn) (rn_has_content r) (sn_viewport_dirty sn)
      in case act wa vps a r of
           (None, r, ws) \<Rightarrow> (None, r, ws)
         | (Some (layer_committed, present_committed, degraded), r, ws) \<Rightarrow>
             let r = r\<lparr>rn_has_content := next_content (rn_has_content r) a present_committed placeholder\<rparr>;
                 fallback = (sn_visible sn \<and> \<not> layer_committed \<and> sn_viewport_dirty sn);
                 ws = ws @ (if fallback
                            then set_viewport (rn_viewport r) 0 0 (vp_lw vps) (vp_lh vps) @ [Commit] else [])
             in (Some degraded, r, ws @ (if layer_committed \<or> fallback then [Flush_And_Ring] else [])))"

text \<open>\<open>Runner::shutdown\<close>.\<close>

definition runner_shutdown :: "runner \<Rightarrow> runner" where
  "runner_shutdown r =
     (let r = r\<lparr>rn_current := None, rn_pool := []\<rparr>
      in case rn_backend r of Gpu_Backend (Some _) \<Rightarrow> r\<lparr>rn_backend := Gpu_Backend None\<rparr> | _ \<Rightarrow> r)"

section \<open>The surface operations\<close>

record platform_surface =
  ps_surface :: bool
  ps_visible :: bool
  ps_null_attached :: bool
  ps_actor :: bool

text \<open>Calls of the actor. \<open>Call_Software\<close> runs up to the load of the shared flag, the two
  \<open>Call_Enqueue\<close>s are the update of the mailbox on either route.\<close>

datatype call =
  Call_Set_Visible bool
| Call_Resize viewport_state
| Call_Placeholder colour
| Call_Dmabuf dmabuf_frame
| Call_Software soft_frame
| Call_Enqueue route soft_frame nat nat
| Call_Shutdown

type_synonym extent = "(int \<times> int \<times> int \<times> int) option"

definition extent_or :: "extent \<Rightarrow> int \<Rightarrow> int \<Rightarrow> viewport_state" where
  "extent_or ext w h =
     (case ext of
        None \<Rightarrow> \<lparr>vp_lw = w, vp_lh = h, vp_pw = w, vp_ph = h\<rparr>
      | Some (lw, lh, pw, ph) \<Rightarrow> \<lparr>vp_lw = lw, vp_lh = lh, vp_pw = pw, vp_ph = ph\<rparr>)"

definition surface_set_visible :: "bool \<Rightarrow> bool \<Rightarrow> colour \<Rightarrow> platform_surface \<Rightarrow> platform_surface \<times> call list" where
  "surface_set_visible use_gpu_paint vis bg s =
     (if ps_visible s = vis then (s, [])
      else
        let s = s\<lparr>ps_visible := vis\<rparr>
        in if \<not> ps_surface s then (s, [])
           else (s\<lparr>ps_null_attached := \<not> vis\<rparr>,
                 if ps_actor s
                 then Call_Set_Visible vis # (if vis \<and> \<not> use_gpu_paint then [Call_Placeholder bg] else [])
                 else []))"

definition surface_present :: "bool \<Rightarrow> bool \<Rightarrow> extent \<Rightarrow> dmabuf_frame \<Rightarrow> platform_surface \<Rightarrow> platform_surface \<times> call list" where
  "surface_present dmabuf in_tolerance ext fr s =
     (if \<not> ps_surface s \<or> \<not> ps_visible s \<or> \<not> dmabuf then (s, [])
      else if \<not> in_tolerance \<and> \<not> ps_null_attached s then (s, [])
      else
        let s = s\<lparr>ps_null_attached := False\<rparr>
        in (s, if ps_actor s
               then [Call_Set_Visible (ps_visible s), Call_Resize (extent_or ext (fst (tx_coded fr)) (snd (tx_coded fr))),
                     Call_Dmabuf fr]
               else []))"

definition surface_present_software :: "extent \<Rightarrow> soft_frame \<Rightarrow> platform_surface \<Rightarrow> platform_surface \<times> call list" where
  "surface_present_software ext fr s =
     (if so_w fr \<le> 0 \<or> so_h fr \<le> 0 then (s, [])
      else if \<not> ps_surface s \<or> \<not> ps_visible s then (s, [])
      else
        let s = s\<lparr>ps_null_attached := False\<rparr>
        in (s, if ps_actor s
               then [Call_Set_Visible (ps_visible s), Call_Resize (extent_or ext (so_w fr) (so_h fr)), Call_Software fr]
               else []))"

text \<open>A configure of the window resizes every layer of the stack, once the window's extent is known.\<close>

definition surface_on_configure :: "bool \<Rightarrow> extent \<Rightarrow> platform_surface \<Rightarrow> platform_surface \<times> call list" where
  "surface_on_configure in_stack ext s =
     (s, if ext \<noteq> None \<and> in_stack \<and> ps_actor s then [Call_Resize (extent_or ext 0 0)] else [])"

text \<open>\<open>free_surface\<close>, as far as the actor goes.\<close>

definition free_surface :: "platform_surface \<Rightarrow> platform_surface \<times> call list" where
  "free_surface s = (s\<lparr>ps_actor := False\<rparr>, if ps_actor s then [Call_Shutdown] else [])"

section \<open>The layer\<close>

datatype worker_pc = Waiting | Working snapshot | Ended | Crashed

text \<open>\<open>ly_cef\<close> is the last software frame CEF painted, kept for the statements below.\<close>

record layer =
  ly_use_gpu_paint :: bool
  ly_kind :: layer_kind
  ly_gpu_failed :: bool
  ly_mailbox :: layer_state
  ly_surface :: platform_surface
  ly_todo :: "call list"
  ly_worker :: worker_pc
  ly_runner :: runner
  ly_wire :: "wire list"
  ly_cef :: "soft_frame option"

datatype layer_op =
  Op_Set_Visible bool colour
| Op_Present bool extent dmabuf_frame
| Op_Present_Software extent soft_frame
| Op_Configure bool extent
| Op_Free

datatype layer_input = In_Op layer_op | In_Call | In_Take | In_Work work_answers

text \<open>An actor call, answered for the mailbox and with the calls it goes on as.\<close>

fun actor_call :: "layer_kind \<Rightarrow> bool \<Rightarrow> call \<Rightarrow> layer_state \<Rightarrow> call list \<times> layer_state" where
  "actor_call k failed (Call_Set_Visible v) s = ([], layer_set_visible v s)"
| "actor_call k failed (Call_Resize vp) s =
     ([], if vp_pw vp \<le> 0 \<or> vp_ph vp \<le> 0 then s else layer_resize vp s)"
| "actor_call k failed (Call_Placeholder c) s = ([], request_placeholder c s)"
| "actor_call k failed (Call_Dmabuf fr) s =
     ([], if validate_present_dims (fst (tx_coded fr)) (snd (tx_coded fr)) \<noteq> None then s else mailbox_dmabuf fr s)"
| "actor_call k failed (Call_Software fr) s =
     (case software_span fr of
        Inl e \<Rightarrow> ([], s)
      | Inr (stride, len) \<Rightarrow> ([Call_Enqueue (route_software k failed) fr stride len], s))"
| "actor_call k failed (Call_Enqueue Route_Gpu fr stride len) s = ([], enqueue_gpu (gpu_payload fr stride len) s)"
| "actor_call k failed (Call_Enqueue Route_Shm fr stride len) s = ([], snd (enqueue_shm fr stride len s))"
| "actor_call k failed Call_Shutdown s = ([], s\<lparr>ls_shutdown := True, ls_pending := None\<rparr>)"

definition start_op :: "layer \<Rightarrow> layer_op \<Rightarrow> layer" where
  "start_op w op =
     (let s = ly_surface w;
          (s, cs) = (case op of
             Op_Set_Visible v bg \<Rightarrow> surface_set_visible (ly_use_gpu_paint w) v bg s
           | Op_Present tol ext fr \<Rightarrow> surface_present (rn_dmabuf (ly_runner w)) tol ext fr s
           | Op_Present_Software ext fr \<Rightarrow> surface_present_software ext fr s
           | Op_Configure in_stack ext \<Rightarrow> surface_on_configure in_stack ext s
           | Op_Free \<Rightarrow> free_surface s)
      in w\<lparr>ly_surface := s, ly_todo := cs,
           ly_cef := (case op of Op_Present_Software ext fr \<Rightarrow> Some fr | _ \<Rightarrow> ly_cef w)\<rparr>)"

text \<open>A step that cannot be taken is \<open>None\<close>: a freed surface takes no more operations, and an abort
  takes the process with it.\<close>

fun live_step :: "layer \<Rightarrow> layer_input \<Rightarrow> layer option" where
  "live_step w (In_Op op) = (if ly_todo w = [] \<and> ps_actor (ly_surface w) then Some (start_op w op) else None)"
| "live_step w In_Call =
     (case ly_todo w of
        [] \<Rightarrow> None
      | c # cs \<Rightarrow>
          (case actor_call (ly_kind w) (ly_gpu_failed w) c (ly_mailbox w) of
             (next_calls, mb) \<Rightarrow> Some (w\<lparr>ly_todo := next_calls @ cs, ly_mailbox := mb\<rparr>)))"
| "live_step w In_Take =
     (if ly_worker w = Waiting \<and> worker_ready (ly_mailbox w)
      then (case worker_take (ly_mailbox w) of
              (sn, mb) \<Rightarrow> Some (w\<lparr>ly_mailbox := mb, ly_worker := Working sn\<rparr>))
      else None)"
| "live_step w (In_Work wa) =
     (case ly_worker w of
        Working sn \<Rightarrow>
          if sn_shutdown sn then Some (w\<lparr>ly_worker := Ended, ly_runner := runner_shutdown (ly_runner w)\<rparr>)
          else (case iteration wa sn (ly_runner w) of
                  (None, r, ws) \<Rightarrow> Some (w\<lparr>ly_worker := Crashed, ly_runner := r, ly_wire := ly_wire w @ ws\<rparr>)
                | (Some degraded, r, ws) \<Rightarrow>
                    Some (w\<lparr>ly_worker := Waiting, ly_runner := r, ly_wire := ly_wire w @ ws,
                            ly_gpu_failed := ly_gpu_failed w \<or> degraded\<rparr>))
      | _ \<Rightarrow> None)"

definition layer_step :: "layer \<Rightarrow> layer_input \<Rightarrow> layer option" where
  "layer_step w i = (if ly_worker w = Crashed then None else live_step w i)"

fun layer_run :: "layer \<Rightarrow> layer_input list \<Rightarrow> layer option" where
  "layer_run w [] = Some w"
| "layer_run w (i # is) = (case layer_step w i of None \<Rightarrow> None | Some w' \<Rightarrow> layer_run w' is)"

text \<open>The layer as \<open>alloc_surface\<close> leaves it.\<close>

definition layer_gpu :: "bool \<Rightarrow> int option \<Rightarrow> int option" where
  "layer_gpu use_gpu_paint gpu = (if use_gpu_paint then gpu else None)"

definition new_layer :: "bool \<Rightarrow> int option \<Rightarrow> extent \<Rightarrow> bool \<Rightarrow> bool \<Rightarrow> bool \<Rightarrow> layer" where
  "new_layer use_gpu_paint gpu ext has_viewport pool dmabuf =
     (let g = layer_gpu use_gpu_paint gpu
      in \<lparr>ly_use_gpu_paint = use_gpu_paint,
          ly_kind = (if g = None then Kind_Shm else Kind_Gpu), ly_gpu_failed = False,
          ly_mailbox = new_layer_state (extent_or ext 0 0) True,
          ly_surface = \<lparr>ps_surface = True, ps_visible = True, ps_null_attached = False, ps_actor = True\<rparr>,
          ly_todo = [], ly_worker = Waiting,
          ly_runner = \<lparr>rn_viewport = has_viewport, rn_shm_pool = pool, rn_dmabuf = dmabuf,
            rn_backend = (if g = None then Shm_Backend default_shadow else Gpu_Backend None),
            rn_gpu = g, rn_present_failing = False, rn_pool = [], rn_current = None, rn_has_content = False\<rparr>,
          ly_wire = [], ly_cef = None\<rparr>)"

end
