(* ===== verification/Layer_Runs.thy ===== *)
theory Layer_Runs
  imports Layer_Actor
begin

text \<open>
  What a layer shows (\<open>Layer_Actor\<close>) under every interleaving of CEF's thread and the worker: on
  shared memory always the last frame painted, viewport sources inside their buffers, pooled
  dmabuf buffers never reused while the compositor reads them; and how the GPU path loses damage.
\<close>

section \<open>Payloads and shadows\<close>

definition good_frame :: "soft_frame \<Rightarrow> bool" where
  "good_frame fr \<longleftrightarrow> 0 < so_w fr \<and> so_w fr \<le> i32_max \<and> 0 < so_h fr \<and> so_h fr \<le> i32_max \<and>
     length (so_pixels fr) = nat (so_h fr) * (nat (so_w fr) * 4)"

definition shadow_wf :: "shm_shadow \<Rightarrow> bool" where
  "shadow_wf sh \<longleftrightarrow> length (sh_pixels sh) = nat (snd (sh_size sh)) * (nat (fst (sh_size sh)) * 4)"

definition payload_wf :: "shm_payload \<Rightarrow> bool" where
  "payload_wf p \<longleftrightarrow> 0 < pl_width p \<and> pl_width p \<le> i32_max \<and> 0 < pl_height p \<and> pl_height p \<le> i32_max"

definition pending_wf :: "pending_frame option \<Rightarrow> bool" where
  "pending_wf p = (case p of Some (Pend_Shm p) \<Rightarrow> payload_wf p | _ \<Rightarrow> True)"

text \<open>The shadow once this is presented.\<close>

definition after :: "pending_frame option \<Rightarrow> shm_shadow \<Rightarrow> shm_shadow" where
  "after p sh =
     (case p of
        Some (Pend_Shm p) \<Rightarrow> (case compose_shm_shadow sh p of Inr s \<Rightarrow> s | Inl _ \<Rightarrow> sh)
      | _ \<Rightarrow> sh)"

lemma after_None [simp]: "after None sh = sh"
  by (simp add: after_def)

lemma get_range_bounds: "get_range xs a b = Some ys \<Longrightarrow> length ys = b - a \<and> a \<le> b \<and> b \<le> length xs"
  by (auto simp: get_range_def split: if_splits)

lemma apply_row_length: "length (apply_row r st x n sh row) = length sh"
  by (auto simp: apply_row_def checked_nat bind_eq_Some_conv split: option.split if_splits dest!: get_range_bounds)

lemma apply_rect_length [simp]: "length (apply_rect st sh r) = length sh"
proof -
  have "length (foldl (apply_row r st x n) sh rows) = length sh" for x n rows
    by (induction rows arbitrary: sh) (simp_all add: apply_row_length)
  then show ?thesis by (simp add: apply_rect_def split: option.split)
qed

lemma apply_dirty_length [simp]: "length (apply_dirty_to_shadow sh w rs) = length sh"
proof -
  have "length (foldl (apply_rect st) sh rs) = length sh" for st
    by (induction rs arbitrary: sh) simp_all
  then show ?thesis by (simp add: apply_dirty_to_shadow_def split: option.split)
qed

lemma compose_wf:
  assumes "shadow_wf sh" "payload_wf p"
  shows "\<exists>s. compose_shm_shadow sh p = Inr s \<and> shadow_wf s \<and> sh_size s = (pl_width p, pl_height p)"
  using assms frame_span_valid [of "pl_width p" "pl_height p"]
  by (auto simp: compose_shm_shadow_def payload_wf_def shadow_wf_def put_range_def Let_def split: option.split)

lemma after_wf: "shadow_wf sh \<Longrightarrow> pending_wf p \<Longrightarrow> shadow_wf (after p sh)"
  using compose_wf by (fastforce simp: after_def pending_wf_def split: option.split pending_frame.split)

section \<open>Storing a frame\<close>

definition shm_or_none :: "pending_frame option \<Rightarrow> bool" where
  "shm_or_none p \<longleftrightarrow> p = None \<or> (\<exists>q. p = Some (Pend_Shm q))"

lemma enqueue_shm_held:
  assumes "good_frame fr" "shadow_wf sh" "pending_wf (ls_pending s)"
    and "\<And>sz. ls_shadow s = Valid sz \<Longrightarrow> shm_or_none (ls_pending s) \<and> sh_size (after (ls_pending s) sh) = sz \<and>
      (sz = (so_w fr, so_h fr) \<longrightarrow> damage_covers (so_w fr) (so_dirty fr) (sh_pixels (after (ls_pending s) sh)) (so_pixels fr))"
    and "enqueue_shm fr (nat (so_w fr) * 4) (nat (so_h fr) * (nat (so_w fr) * 4)) s = (res, s')"
  shows "ls_shadow s' = Valid (so_w fr, so_h fr) \<and>
    after (ls_pending s') sh = \<lparr>sh_pixels = so_pixels fr, sh_size = (so_w fr, so_h fr)\<rparr> \<and>
    shm_or_none (ls_pending s') \<and> pending_wf (ls_pending s') \<and>
    s' = s\<lparr>ls_pending := ls_pending s', ls_shadow := ls_shadow s'\<rparr> \<and> (ls_pending s' = None \<longrightarrow> s' = s)"
proof -
  let ?W = "so_w fr" and ?H = "so_h fr"
  let ?cut = "cut (so_pixels fr) ?W ?H (so_dirty fr)"
  have dims: "0 < ?W" "?W \<le> i32_max" "0 < ?H" "?H \<le> i32_max"
    and len: "length (so_pixels fr) = nat ?H * (nat ?W * 4)"
    using assms(1) by (simp_all add: good_frame_def)
  have all: "take (nat ?H * (nat ?W * 4)) (so_pixels fr) = so_pixels fr" using len by simp
  show ?thesis
  proof (cases "needs_full_copy ?W ?H s")
    case True
    let ?p = "\<lparr>pl_rects = ?cut, pl_full = Some (so_pixels fr), pl_width = ?W, pl_height = ?H\<rparr>"
    have s': "s' = s\<lparr>ls_shadow := Valid (?W, ?H), ls_pending := Some (Pend_Shm ?p)\<rparr>"
      using assms(5) True all by (simp add: enqueue_shm_def store_shm_def Let_def)
    have "compose_shm_shadow sh ?p = Inr \<lparr>sh_pixels = so_pixels fr, sh_size = (?W, ?H)\<rparr>"
      using assms(2) by (intro compose_full dims len) (simp add: shadow_wf_def)
    then show ?thesis using s' dims by (simp add: after_def shm_or_none_def pending_wf_def payload_wf_def)
  next
    case False
    then have valid: "ls_shadow s = Valid (?W, ?H)"
      and part: "\<And>p. ls_pending s = Some (Pend_Shm p) \<Longrightarrow> pl_full p = None"
      by (auto simp: needs_full_copy_def)
    let ?S = "after (ls_pending s) sh"
    have S: "sh_size ?S = (?W, ?H)" "shm_or_none (ls_pending s)"
      and cov: "damage_covers ?W (so_dirty fr) (sh_pixels ?S) (so_pixels fr)"
      using assms(4) [OF valid] by simp_all
    have patch: "apply_dirty_to_shadow (sh_pixels ?S) ?W ?cut = so_pixels fr"
      using merged_rects_patch [OF dims, of "sh_pixels ?S" "so_pixels fr"] cov len patch_damage [OF cov]
      by (simp add: damage_covers_def)
    show ?thesis
    proof (cases "?cut = []")
      case True
      then have "s' = s" using assms(5) False by (simp add: enqueue_shm_def)
      moreover have "sh_pixels ?S = so_pixels fr"
        using patch by (simp add: True apply_dirty_to_shadow_def split: option.splits)
      ultimately show ?thesis using valid S assms(3) by (cases ?S) simp
    next
      case ne: False
      show ?thesis
      proof (cases "ls_pending s")
        case None
        then have s': "s' = s\<lparr>ls_pending := Some (Pend_Shm \<lparr>pl_rects = ?cut, pl_full = None, pl_width = ?W, pl_height = ?H\<rparr>)\<rparr>"
          using assms(5) False ne by (simp add: enqueue_shm_def store_shm_def Let_def)
        have "sh_size sh = (?W, ?H)" using S None by simp
        then show ?thesis
          using s' valid patch None compose_dirty [of sh ?W ?H ?cut] dims
          by (simp add: after_def shm_or_none_def pending_wf_def payload_wf_def)
      next
        case (Some q)
        then obtain p where p: "ls_pending s = Some (Pend_Shm p)" using S(2) by (auto simp: shm_or_none_def)
        then have pd: "pl_full p = None" using part by simp
        have "payload_wf p" using assms(3) p by (simp add: pending_wf_def)
        then obtain c where c: "compose_shm_shadow sh p = Inr c" "sh_size c = (pl_width p, pl_height p)"
          using compose_wf assms(2) by blast
        then have sz: "pl_width p = ?W" "pl_height p = ?H" and Sc: "?S = c"
          using S(1) p by (simp_all add: after_def)
        let ?q = "p\<lparr>pl_rects := pl_rects p @ ?cut\<rparr>"
        have s': "s' = s\<lparr>ls_pending := Some (Pend_Shm ?q)\<rparr>"
          using assms(5) False ne p pd sz by (simp add: enqueue_shm_def store_shm_def Let_def)
        have "compose_shm_shadow sh ?q = Inr (c\<lparr>sh_pixels := apply_dirty_to_shadow (sh_pixels c) ?W ?cut\<rparr>)"
          using c(1) pd sz by (auto simp: compose_shm_shadow_def apply_dirty_append Let_def split: sum.splits if_splits)
        then show ?thesis
          using s' valid patch Sc c sz \<open>payload_wf p\<close>
          by (cases c) (simp add: after_def shm_or_none_def pending_wf_def payload_wf_def)
      qed
    qed
  qed
qed

section \<open>What is promised of CEF\<close>

definition so_follows :: "soft_frame option \<Rightarrow> soft_frame \<Rightarrow> bool" where
  "so_follows prev fr =
     (case prev of None \<Rightarrow> True
      | Some q \<Rightarrow> (so_w q, so_h q) \<noteq> (so_w fr, so_h fr) \<or>
                  damage_covers (so_w fr) (so_dirty fr) (so_pixels q) (so_pixels fr))"

fun well_painted :: "soft_frame option \<Rightarrow> layer_input list \<Rightarrow> bool" where
  "well_painted prev [] = True"
| "well_painted prev (In_Op (Op_Present_Software ext fr) # is) =
     (good_frame fr \<and> so_follows prev fr \<and> well_painted (Some fr) is)"
| "well_painted prev (_ # is) = well_painted prev is"

section \<open>The invariant\<close>

text \<open>The calls still to come, from a mailbox that is visible or not, end with the surface's own
  visibility; frames are handed over only while visible, a software frame last.\<close>

fun calls_ok :: "bool \<Rightarrow> bool \<Rightarrow> call list \<Rightarrow> bool" where
  "calls_ok v pv [] \<longleftrightarrow> v = pv"
| "calls_ok v pv (Call_Set_Visible b # cs) \<longleftrightarrow> calls_ok b pv cs"
| "calls_ok v pv (Call_Placeholder c # cs) \<longleftrightarrow> v \<and> calls_ok v pv cs"
| "calls_ok v pv (Call_Dmabuf fr # cs) \<longleftrightarrow> v \<and> calls_ok v pv cs"
| "calls_ok v pv (Call_Software fr # cs) \<longleftrightarrow> v \<and> v = pv \<and> good_frame fr \<and> cs = []"
| "calls_ok v pv (Call_Enqueue r fr st len # cs) \<longleftrightarrow> v \<and> v = pv \<and> good_frame fr \<and> cs = [] \<and>
     st = nat (so_w fr) * 4 \<and> len = nat (so_h fr) * (nat (so_w fr) * 4)"
| "calls_ok v pv (Call_Shutdown # cs) \<longleftrightarrow> v = pv \<and> cs = []"
| "calls_ok v pv (_ # cs) \<longleftrightarrow> calls_ok v pv cs"

fun software_call :: "call list \<Rightarrow> soft_frame option" where
  "software_call [] = None"
| "software_call (Call_Software fr # cs) = Some fr"
| "software_call (Call_Enqueue r fr st len # cs) = Some fr"
| "software_call (_ # cs) = software_call cs"

definition worker_shadow :: "runner \<Rightarrow> shm_shadow" where
  "worker_shadow r = (case rn_backend r of Shm_Backend sh \<Rightarrow> sh | Gpu_Backend _ \<Rightarrow> default_shadow)"

definition in_hand :: "worker_pc \<Rightarrow> pending_frame option" where
  "in_hand pc = (case pc of Working sn \<Rightarrow> if sn_visible sn then sn_pending sn else None | _ \<Rightarrow> None)"

definition held_shadow :: "layer \<Rightarrow> shm_shadow" where
  "held_shadow w = after (in_hand (ly_worker w)) (worker_shadow (ly_runner w))"

definition held :: "layer \<Rightarrow> shm_shadow" where
  "held w = after (ls_pending (ly_mailbox w)) (held_shadow w)"

fun attached_content :: "content option \<Rightarrow> wire \<Rightarrow> content option" where
  "attached_content c (Attach b) = Some b"
| "attached_content c Attach_None = None"
| "attached_content c (Swap img) = None"
| "attached_content c _ = c"

definition on_screen :: "wire list \<Rightarrow> content option" where
  "on_screen ws = foldl attached_content None ws"

text \<open>Well-formedness of what is queued, in hand and kept.\<close>

definition parts_wf :: "layer \<Rightarrow> bool" where
  "parts_wf w \<longleftrightarrow> pending_wf (ls_pending (ly_mailbox w)) \<and> pending_wf (in_hand (ly_worker w)) \<and>
     shadow_wf (worker_shadow (ly_runner w))"

text \<open>Visibility: a hidden mailbox holds nothing.\<close>

definition visible_ok :: "layer \<Rightarrow> bool" where
  "visible_ok w \<longleftrightarrow>
     calls_ok (ls_visible (ly_mailbox w)) (ps_visible (ly_surface w)) (ly_todo w) \<and>
     (ls_visible (ly_mailbox w) \<or> ls_pending (ly_mailbox w) = None \<and> ls_shadow (ly_mailbox w) = Stale) \<and>
     ps_surface (ly_surface w) \<and>
     (Call_Shutdown \<in> set (ly_todo w) \<longrightarrow> \<not> ps_actor (ly_surface w)) \<and>
     (ls_shutdown (ly_mailbox w) \<longrightarrow> \<not> ps_actor (ly_surface w) \<and> ly_todo w = []) \<and>
     (software_call (ly_todo w) \<noteq> None \<longrightarrow> software_call (ly_todo w) = ly_cef w)"

text \<open>The route: nothing for shared memory is about while the GPU paints, nothing for the GPU once a
  shadow counts as valid.\<close>

definition gpu_route :: "layer \<Rightarrow> bool" where
  "gpu_route w \<longleftrightarrow> ly_kind w = Kind_Gpu \<and> \<not> ly_gpu_failed w"

definition no_shm :: "pending_frame option \<Rightarrow> bool" where
  "no_shm p \<longleftrightarrow> (\<forall>q. p \<noteq> Some (Pend_Shm q))"

definition route_ok :: "layer \<Rightarrow> bool" where
  "route_ok w \<longleftrightarrow>
     (gpu_route w \<longleftrightarrow> (\<exists>p. rn_backend (ly_runner w) = Gpu_Backend p)) \<and>
     (gpu_route w \<longrightarrow> ls_shadow (ly_mailbox w) = Stale \<and> no_shm (ls_pending (ly_mailbox w)) \<and>
        no_shm (in_hand (ly_worker w)) \<and> (\<forall>fr st len. Call_Enqueue Route_Shm fr st len \<notin> set (ly_todo w))) \<and>
     (\<forall>fr st len. Call_Enqueue Route_Gpu fr st len \<in> set (ly_todo w) \<longrightarrow> ls_shadow (ly_mailbox w) = Stale)"

text \<open>The heart: a shadow counted as valid is the last frame painted, once what is queued and in
  hand is applied; while a frame is being handed over, the one before it.\<close>

definition shadow_ok :: "layer \<Rightarrow> bool" where
  "shadow_ok w \<longleftrightarrow> (\<forall>sz. ls_shadow (ly_mailbox w) = Valid sz \<longrightarrow> \<not> ls_shutdown (ly_mailbox w) \<longrightarrow>
     shm_or_none (ls_pending (ly_mailbox w)) \<and> sh_size (held w) = sz \<and>
     (case software_call (ly_todo w) of
        Some fr \<Rightarrow> sz = (so_w fr, so_h fr) \<longrightarrow> damage_covers (so_w fr) (so_dirty fr) (sh_pixels (held w)) (so_pixels fr)
      | None \<Rightarrow> (case ly_cef w of None \<Rightarrow> False
                | Some fr \<Rightarrow> sz = (so_w fr, so_h fr) \<and> sh_pixels (held w) = so_pixels fr)))"

text \<open>With nothing queued the worker has that shadow in hand or has shown it.\<close>

definition screen_ok :: "layer \<Rightarrow> bool" where
  "screen_ok w \<longleftrightarrow> (\<forall>sz. ls_shadow (ly_mailbox w) = Valid sz \<longrightarrow> \<not> ls_shutdown (ly_mailbox w) \<longrightarrow>
     ls_pending (ly_mailbox w) = None \<longrightarrow>
     \<not> ls_hide_pending (ly_mailbox w) \<and> \<not> ls_viewport_dirty (ly_mailbox w) \<and>
     (case ly_worker w of
        Waiting \<Rightarrow> rn_present_failing (ly_runner w) \<or>
          on_screen (ly_wire w) = Some (Content_Shm (fst sz) (snd sz) (sh_pixels (worker_shadow (ly_runner w))))
      | Working sn \<Rightarrow> \<not> sn_shutdown sn \<and> sn_visible sn \<and> (\<exists>p. sn_pending sn = Some (Pend_Shm p))
      | _ \<Rightarrow> False))"

definition worker_ok :: "layer \<Rightarrow> bool" where
  "worker_ok w \<longleftrightarrow>
     (case ly_worker w of
        Working sn \<Rightarrow> (sn_shutdown sn \<longrightarrow> ls_shutdown (ly_mailbox w)) \<and> (sn_visible sn \<or> sn_pending sn = None)
      | Ended \<Rightarrow> ls_shutdown (ly_mailbox w)
      | _ \<Rightarrow> True)"

definition layer_inv :: "layer \<Rightarrow> bool" where
  "layer_inv w \<longleftrightarrow> parts_wf w \<and> visible_ok w \<and> route_ok w \<and> shadow_ok w \<and> screen_ok w \<and> worker_ok w"

lemma new_layer_inv: "layer_inv (new_layer use_gpu gpu ext vp pool dma)"
  by (simp add: new_layer_def layer_inv_def parts_wf_def visible_ok_def route_ok_def shadow_ok_def screen_ok_def
      worker_ok_def new_layer_state_def pending_wf_def in_hand_def worker_shadow_def shadow_wf_def default_shadow_def
      gpu_route_def no_shm_def Let_def)

section \<open>Every step keeps it\<close>

definition op_ok :: "soft_frame option \<Rightarrow> layer_op \<Rightarrow> bool" where
  "op_ok prev op = (case op of Op_Present_Software ext fr \<Rightarrow> good_frame fr \<and> so_follows prev fr | _ \<Rightarrow> True)"

lemma start_frame [simp]:
  "ly_kind (start_op w op) = ly_kind w" "ly_gpu_failed (start_op w op) = ly_gpu_failed w"
  "ly_mailbox (start_op w op) = ly_mailbox w" "ly_worker (start_op w op) = ly_worker w"
  "ly_runner (start_op w op) = ly_runner w" "ly_wire (start_op w op) = ly_wire w"
  by (simp_all add: start_op_def split_beta Let_def)

lemma start_held [simp]: "held (start_op w op) = held w"
  by (simp add: held_def held_shadow_def)

lemma start_visible_ok:
  assumes "visible_ok w" "ly_todo w = []" "ps_actor (ly_surface w)" "op_ok (ly_cef w) op"
  shows "visible_ok (start_op w op)"
  using assms
  by (cases op) (auto simp: visible_ok_def start_op_def surface_set_visible_def surface_present_def
      surface_present_software_def free_surface_def surface_on_configure_def op_ok_def Let_def split_beta)

lemma start_other:
  assumes "\<And>ext fr. op \<noteq> Op_Present_Software ext fr"
  shows "software_call (ly_todo (start_op w op)) = None" "ly_cef (start_op w op) = ly_cef w"
  using assms
  by (cases op; simp add: start_op_def surface_set_visible_def surface_present_def free_surface_def surface_on_configure_def Let_def split_beta)+

lemma start_other_shadow:
  assumes "\<And>ext fr. op \<noteq> Op_Present_Software ext fr" "ly_todo w = []"
  shows "shadow_ok (start_op w op) = shadow_ok w"
  unfolding shadow_ok_def start_frame start_held start_other [of op w, OF assms(1)] by (simp add: assms(2))

lemma start_shadow_ok:
  assumes "visible_ok w" "shadow_ok w" "ly_todo w = []" "ps_actor (ly_surface w)" "op_ok (ly_cef w) op"
  shows "shadow_ok (start_op w op)"
proof (cases op)
  case (Op_Present_Software ext fr)
  then have fr: "good_frame fr" "so_follows (ly_cef w) fr" using assms(5) by (simp_all add: op_ok_def)
  let ?w = "start_op w op"
  have vis: "ls_visible (ly_mailbox w) = ps_visible (ly_surface w)" "ps_surface (ly_surface w)"
    using assms(1,3) by (auto simp: visible_ok_def)
  show ?thesis
    unfolding shadow_ok_def start_frame start_held
  proof (intro allI impI)
    fix sz assume v: "ls_shadow (ly_mailbox w) = Valid sz" and live: "\<not> ls_shutdown (ly_mailbox w)"
    then have old: "shm_or_none (ls_pending (ly_mailbox w))" "sh_size (held w) = sz"
      "\<exists>q. ly_cef w = Some q \<and> sz = (so_w q, so_h q) \<and> sh_pixels (held w) = so_pixels q"
      using assms(2,3) by (auto simp: shadow_ok_def split: option.splits)
    have "ps_visible (ly_surface w)" using assms(1) v vis by (auto simp: visible_ok_def)
    then have call: "software_call (ly_todo ?w) = Some fr"
      using vis fr(1) assms(4) by (auto simp: Op_Present_Software start_op_def surface_present_software_def good_frame_def)
    show "shm_or_none (ls_pending (ly_mailbox w)) \<and> sh_size (held w) = sz \<and>
       (case software_call (ly_todo ?w) of
          Some fr \<Rightarrow> sz = (so_w fr, so_h fr) \<longrightarrow> damage_covers (so_w fr) (so_dirty fr) (sh_pixels (held w)) (so_pixels fr)
        | None \<Rightarrow> (case ly_cef ?w of None \<Rightarrow> False
                  | Some fr \<Rightarrow> sz = (so_w fr, so_h fr) \<and> sh_pixels (held w) = so_pixels fr))"
      using old call fr(2) by (auto simp: so_follows_def)
  qed
qed (use assms start_other_shadow [of op w] in auto)

lemma start_inv:
  assumes "layer_inv w" "ly_todo w = []" "ps_actor (ly_surface w)" "op_ok (ly_cef w) op"
  shows "layer_inv (start_op w op)"
proof -
  have "\<forall>r fr st len. Call_Enqueue r fr st len \<notin> set (ly_todo (start_op w op))"
    by (cases op) (simp_all add: start_op_def surface_set_visible_def surface_present_def surface_present_software_def
        free_surface_def surface_on_configure_def Let_def split_beta)
  then have "route_ok (start_op w op)"
    using assms(1) by (simp add: layer_inv_def route_ok_def gpu_route_def)
  moreover have "screen_ok (start_op w op) = screen_ok w" "worker_ok (start_op w op) = worker_ok w"
    "parts_wf (start_op w op) = parts_wf w"
    by (simp_all only: screen_ok_def worker_ok_def parts_wf_def start_frame)
  ultimately show ?thesis
    using assms start_visible_ok [of w op] start_shadow_ok [of w op] by (simp add: layer_inv_def)
qed

text \<open>A call of the actor: only the mailbox and the calls to come change.\<close>

abbreviation called :: "layer \<Rightarrow> call list \<Rightarrow> layer_state \<Rightarrow> layer" where
  "called w cs mb \<equiv> w\<lparr>ly_todo := cs, ly_mailbox := mb\<rparr>"

lemma called_frame:
  "ly_mailbox (called w cs mb) = mb" "ly_worker (called w cs mb) = ly_worker w"
  "ly_runner (called w cs mb) = ly_runner w" "ly_wire (called w cs mb) = ly_wire w"
  "ly_cef (called w cs mb) = ly_cef w" "ly_todo (called w cs mb) = cs"
  by simp_all

lemma called_held [simp]: "held_shadow (called w cs mb) = held_shadow w"
  by (simp add: held_shadow_def)

lemma called_inv:
  assumes "layer_inv w"
    and "pending_wf (ls_pending mb)"
    and "visible_ok (called w cs mb)" "route_ok (called w cs mb)" "shadow_ok (called w cs mb)"
    and "ls_shutdown (ly_mailbox w) \<Longrightarrow> ls_shutdown mb"
    and "\<And>sz. ls_shadow mb = Valid sz \<Longrightarrow> \<not> ls_shutdown mb \<Longrightarrow> ls_pending mb = None \<Longrightarrow> mb = ly_mailbox w"
  shows "layer_inv (called w cs mb)"
proof -
  have "screen_ok (called w cs mb)"
  proof (cases "\<exists>sz. ls_shadow mb = Valid sz \<and> \<not> ls_shutdown mb \<and> ls_pending mb = None")
    case True
    with assms(7) have "mb = ly_mailbox w" by blast
    then have "screen_ok (called w cs mb) = screen_ok w" by (simp only: screen_ok_def called_frame)
    with assms(1) show ?thesis by (simp add: layer_inv_def)
  next
    case False
    then show ?thesis by (auto simp: screen_ok_def)
  qed
  moreover have "parts_wf (called w cs mb)" "worker_ok (called w cs mb)"
    using assms(1,2,6) by (auto simp: layer_inv_def parts_wf_def worker_ok_def split: worker_pc.splits)
  ultimately show ?thesis using assms by (simp add: layer_inv_def)
qed

text \<open>The calls that leave the shadow stale.\<close>

lemma stale_call_inv:
  assumes "layer_inv w" "ls_shadow mb = Stale" "pending_wf (ls_pending mb)" "visible_ok (called w cs mb)"
    "gpu_route w \<Longrightarrow> no_shm (ls_pending mb) \<and> (\<forall>fr st len. Call_Enqueue Route_Shm fr st len \<notin> set cs)"
    "ls_shutdown (ly_mailbox w) \<Longrightarrow> ls_shutdown mb"
  shows "layer_inv (called w cs mb)"
proof (rule called_inv [OF assms(1,3,4)])
  show "route_ok (called w cs mb)"
    using assms by (simp add: layer_inv_def route_ok_def gpu_route_def)
  show "shadow_ok (called w cs mb)" using assms(2) by (simp add: shadow_ok_def)
qed (use assms in auto)

lemma same_call_inv:
  assumes "layer_inv w" "visible_ok (called w cs (ly_mailbox w))" "software_call cs = software_call (ly_todo w)"
    "\<And>fr st len. Call_Enqueue Route_Shm fr st len \<in> set cs \<Longrightarrow> \<not> gpu_route w"
    "\<And>fr st len. Call_Enqueue Route_Gpu fr st len \<in> set cs \<Longrightarrow> ls_shadow (ly_mailbox w) = Stale"
  shows "layer_inv (called w cs (ly_mailbox w))"
proof (rule called_inv [OF assms(1) _ assms(2)])
  show "route_ok (called w cs (ly_mailbox w))"
    using assms(1,4,5) unfolding layer_inv_def route_ok_def gpu_route_def by auto
  have e: "held (called w cs (ly_mailbox w)) = held w" by (simp add: held_def held_shadow_def)
  have "shadow_ok (called w cs (ly_mailbox w)) = shadow_ok w"
    by (simp only: shadow_ok_def called_frame e assms(3))
  then show "shadow_ok (called w cs (ly_mailbox w))" using assms(1) by (simp add: layer_inv_def)
qed (use assms(1) in \<open>simp_all add: layer_inv_def parts_wf_def\<close>)

lemma call_inv:
  assumes inv: "layer_inv w" and todo: "ly_todo w = c # cs"
    and step: "actor_call (ly_kind w) (ly_gpu_failed w) c (ly_mailbox w) = (rest, mb)"
  shows "layer_inv (called w (rest @ cs) mb)"
proof -
  let ?mb = "ly_mailbox w"
  have ok: "calls_ok (ls_visible ?mb) (ps_visible (ly_surface w)) (c # cs)"
    and hid: "ls_visible ?mb \<or> ls_pending ?mb = None \<and> ls_shadow ?mb = Stale"
    and live: "\<not> ls_shutdown ?mb" and vis: "visible_ok w"
    and wf: "pending_wf (ls_pending ?mb)"
    using inv todo by (auto simp: layer_inv_def visible_ok_def parts_wf_def)
  have enq: "\<And>fr st len. gpu_route w \<Longrightarrow> Call_Enqueue Route_Shm fr st len \<notin> set (c # cs)"
    "\<And>fr st len. Call_Enqueue Route_Gpu fr st len \<in> set (c # cs) \<Longrightarrow> ls_shadow ?mb = Stale"
    "gpu_route w \<Longrightarrow> ls_shadow ?mb = Stale \<and> no_shm (ls_pending ?mb)"
    using inv todo by (auto simp: layer_inv_def route_ok_def)
  show ?thesis
  proof (cases c)
    case (Call_Set_Visible b)
    then have st: "rest = []" "mb = layer_set_visible b ?mb" using step by simp_all
    have vo: "visible_ok (called w cs mb)"
      using vis ok todo hid unfolding Call_Set_Visible st
      by (cases b) (auto simp: visible_ok_def layer_set_visible_def Let_def)
    show ?thesis
    proof (cases "b \<and> ls_visible ?mb")
      case True
      then have "mb = ?mb" using st by (simp add: layer_set_visible_def)
      then show ?thesis
        using same_call_inv [OF inv, of cs] vo enq st todo Call_Set_Visible by auto
    next
      case False
      have "layer_inv (called w cs mb)"
      proof (rule stale_call_inv [OF inv])
        show "ls_shadow mb = Stale" "pending_wf (ls_pending mb)" "ls_shutdown ?mb \<Longrightarrow> ls_shutdown mb"
          "gpu_route w \<Longrightarrow> no_shm (ls_pending mb) \<and> (\<forall>fr st len. Call_Enqueue Route_Shm fr st len \<notin> set cs)"
          using False hid wf enq(1,3) unfolding st
          by (auto simp: layer_set_visible_def pending_wf_def no_shm_def Let_def)
      qed (rule vo)
      then show ?thesis using st by simp
    qed
  next
    case (Call_Resize vp)
    have vo: "visible_ok (called w cs mb)"
      using vis ok todo step Call_Resize
      by (auto simp: visible_ok_def layer_resize_def split: if_splits)
    show ?thesis
    proof (cases "mb = ?mb")
      case True
      then show ?thesis
        using same_call_inv [OF inv, of cs] vo enq step todo Call_Resize by auto
    next
      case False
      then have mb: "rest = []" "mb = ?mb\<lparr>ls_viewport := vp, ls_viewport_dirty := True, ls_shadow := Stale\<rparr>"
        using step Call_Resize by (auto simp: layer_resize_def split: if_splits)
      have "layer_inv (called w cs mb)"
        by (rule stale_call_inv [OF inv _ _ vo]) (use mb wf enq(1,3) in auto)
      then show ?thesis using mb by simp
    qed
  next
    case (Call_Placeholder col)
    then have mb: "rest = []" "mb = request_placeholder col ?mb" using step by simp_all
    have "layer_inv (called w cs mb)"
    proof (rule stale_call_inv [OF inv])
      show "visible_ok (called w cs mb)"
        using vis ok todo by (auto simp: Call_Placeholder mb request_placeholder_def visible_ok_def)
    qed (use mb enq(1) in \<open>auto simp: request_placeholder_def pending_wf_def no_shm_def\<close>)
    then show ?thesis using mb by simp
  next
    case (Call_Dmabuf fr)
    have vo: "visible_ok (called w cs mb)"
      using vis ok todo step Call_Dmabuf by (auto simp: visible_ok_def mailbox_dmabuf_def split: if_splits)
    show ?thesis
    proof (cases "mb = ?mb")
      case True
      then show ?thesis
        using same_call_inv [OF inv, of cs] vo enq step todo Call_Dmabuf by auto
    next
      case False
      then have mb: "rest = []" "mb = mailbox_dmabuf fr ?mb" using step Call_Dmabuf by (auto split: if_splits)
      have "layer_inv (called w cs mb)"
        by (rule stale_call_inv [OF inv _ _ vo])
          (use mb enq(1) in \<open>auto simp: mailbox_dmabuf_def pending_wf_def no_shm_def\<close>)
      then show ?thesis using mb by simp
    qed
  next
    case (Call_Software fr)
    have fr: "good_frame fr" "cs = []" using ok by (simp_all add: Call_Software)
    then have "software_span fr = Inr (nat (so_w fr) * 4, nat (so_h fr) * (nat (so_w fr) * 4))"
      by (simp add: software_span_def validate_present_dims_def good_frame_def frame_span_valid)
    then have st: "rest = [Call_Enqueue (route_software (ly_kind w) (ly_gpu_failed w)) fr
        (nat (so_w fr) * 4) (nat (so_h fr) * (nat (so_w fr) * 4))]" "mb = ?mb"
      using step by (simp_all add: Call_Software)
    have "visible_ok (called w rest ?mb)"
      using vis ok todo by (auto simp: visible_ok_def st Call_Software)
    then show ?thesis
      using same_call_inv [OF inv, of rest] enq(3) todo fr
      by (auto simp: st Call_Software route_software_def gpu_route_def split: if_splits)
  next
    case (Call_Enqueue r fr st len)
    have fr: "good_frame fr" "cs = []" "st = nat (so_w fr) * 4" "len = nat (so_h fr) * (nat (so_w fr) * 4)"
      using ok by (simp_all add: Call_Enqueue)
    show ?thesis
    proof (cases r)
      case Route_Gpu
      then have mb: "rest = []" "mb = enqueue_gpu (gpu_payload fr st len) ?mb"
        using step by (simp_all add: Call_Enqueue)
      have "layer_inv (called w cs mb)"
      proof (rule stale_call_inv [OF inv])
        show "visible_ok (called w cs mb)"
          using vis ok todo by (auto simp: Call_Enqueue mb enqueue_gpu_def visible_ok_def)
        show "ls_shadow mb = Stale" using enq(2) [of fr st len] by (simp add: mb enqueue_gpu_def Call_Enqueue Route_Gpu)
      qed (use mb fr in \<open>auto simp: enqueue_gpu_def pending_wf_def no_shm_def\<close>)
      then show ?thesis using mb by simp
    next
      case Route_Shm
      then have shm: "\<not> gpu_route w" using enq(1) [of fr st len] by (auto simp: Call_Enqueue)
      obtain res where e: "enqueue_shm fr st len ?mb = (res, mb)" and rest: "rest = []"
        using step by (auto simp: Call_Enqueue Route_Shm prod_eq_iff)
      have sw: "software_call (ly_todo w) = Some fr" "ly_cef w = Some fr"
        using vis todo by (auto simp: visible_ok_def Call_Enqueue)
      have swf: "shadow_wf (held_shadow w)"
        using inv by (simp add: layer_inv_def parts_wf_def held_shadow_def after_wf)
      have K: "ls_shadow mb = Valid (so_w fr, so_h fr) \<and>
          after (ls_pending mb) (held_shadow w) = \<lparr>sh_pixels = so_pixels fr, sh_size = (so_w fr, so_h fr)\<rparr> \<and>
          shm_or_none (ls_pending mb) \<and> pending_wf (ls_pending mb) \<and>
          mb = ?mb\<lparr>ls_pending := ls_pending mb, ls_shadow := ls_shadow mb\<rparr> \<and> (ls_pending mb = None \<longrightarrow> mb = ?mb)"
      proof (rule enqueue_shm_held [OF fr(1) swf wf])
        show "enqueue_shm fr (nat (so_w fr) * 4) (nat (so_h fr) * (nat (so_w fr) * 4)) ?mb = (res, mb)"
          using e fr by simp
        show "shm_or_none (ls_pending ?mb) \<and> sh_size (after (ls_pending ?mb) (held_shadow w)) = sz \<and>
          (sz = (so_w fr, so_h fr) \<longrightarrow>
             damage_covers (so_w fr) (so_dirty fr) (sh_pixels (after (ls_pending ?mb) (held_shadow w))) (so_pixels fr))"
          if "ls_shadow ?mb = Valid sz" for sz
          using inv that live sw(1) by (simp add: layer_inv_def shadow_ok_def held_def)
      qed
      then have same: "ls_visible mb = ls_visible ?mb" "ls_shutdown mb = ls_shutdown ?mb" by (metis layer_state.ext_inject layer_state.surjective layer_state.update_convs)+
      have "layer_inv (called w cs mb)"
      proof (rule called_inv [OF inv])
        show "visible_ok (called w cs mb)"
          using vis ok todo K same live fr(2) by (auto simp: Call_Enqueue visible_ok_def)
        show "route_ok (called w cs mb)"
          using inv shm fr(2) by (auto simp: layer_inv_def route_ok_def gpu_route_def)
        show "shadow_ok (called w cs mb)"
          using K fr(2) sw(2) by (simp add: shadow_ok_def held_def)
        show "pending_wf (ls_pending mb)" using K by (elim conjE)
        show "ls_shutdown mb" if "ls_shutdown ?mb" using same that by simp
        show "mb = ?mb" if "ls_pending mb = None" using K that by (elim conjE) (erule mp)
      qed
      then show ?thesis using rest by simp
    qed
  next
    case Call_Shutdown
    then have mb: "rest = []" "mb = ?mb\<lparr>ls_shutdown := True, ls_pending := None\<rparr>" "cs = []"
      using step ok by simp_all
    have "layer_inv (called w cs mb)"
    proof (rule called_inv [OF inv])
      show "visible_ok (called w cs mb)"
        using vis ok todo by (auto simp: Call_Shutdown mb visible_ok_def)
      show "route_ok (called w cs mb)"
        using inv mb by (simp add: layer_inv_def route_ok_def gpu_route_def no_shm_def)
      show "shadow_ok (called w cs mb)" by (simp add: shadow_ok_def mb)
    qed (use mb in \<open>simp_all add: pending_wf_def\<close>)
    then show ?thesis using mb by simp
  qed
qed

lemma shadow_ok_same:
  assumes "shadow_ok w" "held v = held w" "ly_todo v = ly_todo w" "ly_cef v = ly_cef w"
    "ls_shadow (ly_mailbox v) = ls_shadow (ly_mailbox w)" "ls_shutdown (ly_mailbox v) = ls_shutdown (ly_mailbox w)"
    "shm_or_none (ls_pending (ly_mailbox w)) \<Longrightarrow> shm_or_none (ls_pending (ly_mailbox v))"
  shows "shadow_ok v"
  using assms(1,7) unfolding shadow_ok_def assms(2-6) by blast

lemma take_inv:
  assumes inv: "layer_inv w" and idle: "ly_worker w = Waiting" and ready: "worker_ready (ly_mailbox w)"
    and taken: "worker_take (ly_mailbox w) = (sn, mb)"
  shows "layer_inv (w\<lparr>ly_mailbox := mb, ly_worker := Working sn\<rparr>)" (is "layer_inv ?w")
proof -
  let ?mb = "ly_mailbox w"
  have mb: "mb = ?mb\<lparr>ls_hide_pending := False, ls_viewport_dirty := False, ls_pending := None\<rparr>"
    and sn: "sn_pending sn = ls_pending ?mb" "sn_visible sn = ls_visible ?mb" "sn_shutdown sn = ls_shutdown ?mb"
    using taken by (auto simp: worker_take_def)
  have hid: "ls_visible ?mb \<or> ls_pending ?mb = None \<and> ls_shadow ?mb = Stale"
    using inv by (simp add: layer_inv_def visible_ok_def)
  then have hand: "in_hand (Working sn) = ls_pending ?mb" by (auto simp: in_hand_def sn)
  have held: "held ?w = held w"
    using hand idle by (simp add: held_def held_shadow_def mb in_hand_def)
  have "parts_wf ?w" "visible_ok ?w" "worker_ok ?w"
    using inv hand hid by (auto simp: layer_inv_def parts_wf_def visible_ok_def worker_ok_def mb pending_wf_def sn)
  moreover have "route_ok ?w"
    using inv hand by (auto simp: layer_inv_def route_ok_def gpu_route_def mb no_shm_def)
  moreover have "shadow_ok ?w"
    by (rule shadow_ok_same [OF _ held]) (use inv in \<open>simp_all add: layer_inv_def mb shm_or_none_def\<close>)
  moreover have "screen_ok ?w"
    unfolding screen_ok_def
  proof (intro allI impI)
    fix sz assume v: "ls_shadow (ly_mailbox ?w) = Valid sz" "\<not> ls_shutdown (ly_mailbox ?w)"
    then have m: "ls_shadow ?mb = Valid sz" "\<not> ls_shutdown ?mb" by (simp_all add: mb)
    then have "shm_or_none (ls_pending ?mb)" using inv by (auto simp: layer_inv_def shadow_ok_def)
    moreover have "ls_pending ?mb \<noteq> None"
    proof
      assume "ls_pending ?mb = None"
      then have "\<not> ls_hide_pending ?mb \<and> \<not> ls_viewport_dirty ?mb"
        using inv m by (auto simp: layer_inv_def screen_ok_def)
      with ready m \<open>ls_pending ?mb = None\<close> show False by (simp add: worker_ready_def)
    qed
    ultimately show "\<not> ls_hide_pending (ly_mailbox ?w) \<and> \<not> ls_viewport_dirty (ly_mailbox ?w) \<and>
      (case ly_worker ?w of
         Waiting \<Rightarrow> rn_present_failing (ly_runner ?w) \<or>
           on_screen (ly_wire ?w) = Some (Content_Shm (fst sz) (snd sz) (sh_pixels (worker_shadow (ly_runner ?w))))
       | Working sn \<Rightarrow> \<not> sn_shutdown sn \<and> sn_visible sn \<and> (\<exists>p. sn_pending sn = Some (Pend_Shm p))
       | _ \<Rightarrow> False)"
      using m hid by (auto simp: mb sn shm_or_none_def)
  qed
  ultimately show ?thesis by (simp add: layer_inv_def)
qed

subsection \<open>One iteration\<close>

lemma on_screen_snoc [simp]: "on_screen (ws @ [x]) = attached_content (on_screen ws) x"
  and on_screen_append: "on_screen (ws @ vs) = foldl attached_content (on_screen ws) vs"
  by (simp_all add: on_screen_def)

lemma viewport_attached [simp]: "foldl attached_content c (set_viewport v sw sh dw dh) = c"
  by (simp add: set_viewport_def Let_def split_beta)

lemma iteration_shm:
  assumes "rn_backend r = Shm_Backend sh" "shadow_wf sh" "payload_wf p"
    "sn_visible sn" "sn_pending sn = Some (Pend_Shm p)" "iteration wa sn r = (res, r', ws)"
  shows "res = Some False \<and> rn_backend r' = Shm_Backend (after (sn_pending sn) sh) \<and>
    sh_size (after (sn_pending sn) sh) = (pl_width p, pl_height p) \<and>
    (rn_present_failing r' \<or>
     on_screen (vs @ ws) = Some (Content_Shm (pl_width p) (pl_height p) (sh_pixels (after (sn_pending sn) sh))))"
proof -
  obtain c where c: "compose_shm_shadow sh p = Inr c" "shadow_wf c" "sh_size c = (pl_width p, pl_height p)"
    using compose_wf [OF assms(2,3)] by blast
  have aft: "after (sn_pending sn) sh = c" by (simp add: assms(5) after_def c)
  have dec: "decide (sn_pending sn) (is_placeholder (sn_pending sn)) (sn_visible sn) (rn_has_content r) (sn_viewport_dirty sn)
      = Act_Present (Pend_Shm p)"
    by (simp add: assms decide_def is_placeholder_def)
  let ?r = "r\<lparr>rn_backend := Shm_Backend c\<rparr>"
  show ?thesis
  proof (cases "rn_shm_pool r \<and> (\<exists>b. draw_from_pixels (wa_slot wa) (sh_pixels c) (pl_width p) (pl_height p) = Some b)")
    case False
    then have "present_shm wa (sn_viewport sn) p r = (Some (Inl Shm_Alloc), ?r, [])"
      by (auto simp: present_shm_def assms(1) c Let_def split: option.split)
    then show ?thesis
      using assms(6) unfolding iteration_def Let_def dec aft
      by (auto simp: act_def present_pending_def on_present_error_def is_degrading_error_def Let_def c)
  next
    case True
    then obtain b where b: "draw_from_pixels (wa_slot wa) (sh_pixels c) (pl_width p) (pl_height p) = Some b" by blast
    then have "b = Content_Shm (pl_width p) (pl_height p) (sh_pixels c)"
      using c assms(3)
      by (auto simp: draw_from_pixels_def argb8888_span_def shadow_wf_def payload_wf_def nat_mult_distrib checked_def
          split: option.splits if_splits)
    then show ?thesis
      using assms(6) True b unfolding iteration_def Let_def dec aft
      by (auto simp: act_def present_pending_def present_shm_def assms(1) c Let_def layer_present_def on_screen_append split_beta)
  qed
qed

lemma iteration_other:
  assumes "no_shm (in_hand (Working sn))" "sn_visible sn \<or> sn_pending sn = None" "iteration wa sn r = (res, r', ws)"
  shows "worker_shadow r' = worker_shadow r \<and>
    ((\<exists>p. rn_backend r' = Gpu_Backend p) \<longleftrightarrow> (\<exists>p. rn_backend r = Gpu_Backend p) \<and> res \<noteq> Some True) \<and>
    (res \<noteq> Some False \<longrightarrow> (\<exists>p. rn_backend r = Gpu_Backend p))"
proof -
  let ?vps = "sn_viewport sn"
  define a where "a = decide (sn_pending sn) (is_placeholder (sn_pending sn)) (sn_visible sn) (rn_has_content r) (sn_viewport_dirty sn)"
  obtain out q vs where act: "act wa ?vps a r = (out, q, vs)" by (metis prod_cases3)
  have r': "rn_backend r' = rn_backend q" and res: "res = map_option (\<lambda>(c, p, d). d) out"
    using assms(3) act unfolding iteration_def Let_def a_def [symmetric]
    by (auto split: option.splits prod.splits)
  have key: "(case out of
      Some (_, _, True) \<Rightarrow> (\<exists>p. rn_backend r = Gpu_Backend p) \<and> rn_backend q = Shm_Backend default_shadow
    | Some (_, _, False) \<Rightarrow> rn_backend q = rn_backend r \<or>
        (\<exists>p p'. rn_backend r = Gpu_Backend p \<and> rn_backend q = Gpu_Backend p')
    | None \<Rightarrow> \<exists>p p'. rn_backend r = Gpu_Backend p \<and> rn_backend q = Gpu_Backend p')"
  proof (cases a)
    case Act_Hide
    with act show ?thesis
      by (auto simp: act_def hide_def Let_def split: backend.splits option.splits if_splits)
  next
    case (Act_Present fr)
    then have fr: "sn_pending sn = Some fr" "sn_visible sn"
      by (auto simp: a_def decide_def split: option.splits if_splits)
    then have ns: "\<And>p. fr \<noteq> Pend_Shm p" using assms(1) by (auto simp: no_shm_def in_hand_def)
    obtain o1 q1 v1 where pp: "present_pending wa ?vps fr r = (o1, q1, v1)" by (metis prod_cases3)
    have kept: "(rn_backend q1 = rn_backend r \<or>
        (\<exists>p p'. rn_backend r = Gpu_Backend p \<and> rn_backend q1 = Gpu_Backend p')) \<and>
        (o1 = None \<or> (\<exists>k. o1 = Some (Inl (Gpu_Error k))) \<longrightarrow> (\<exists>p p'. rn_backend r = Gpu_Backend p \<and> rn_backend q1 = Gpu_Backend p'))"
    proof (cases fr)
      case (Pend_Gpu p)
      with pp show ?thesis
        by (auto simp: present_pending_def present_gpu_def Let_def split_beta
            split: backend.splits option.splits sum.splits presented.splits if_splits)
    next
      case (Pend_Dmabuf t)
      have "rn_backend (snd (lease_dmabuf wa t r)) = rn_backend r"
        by (cases "rn_dmabuf r") (auto simp: lease_dmabuf_def lease_fresh_def Let_def split: option.splits)
      with Pend_Dmabuf pp show ?thesis
        by (auto simp: present_pending_def present_dmabuf_def Let_def split: prod.splits option.splits dmabuf_lease.splits)
    next
      case (Pend_Placeholder c)
      with pp show ?thesis
        by (auto simp: present_pending_def present_placeholder_def split: if_splits option.splits)
    qed (use ns in blast)
    show ?thesis
    proof (cases o1)
      case None
      then show ?thesis using act pp kept by (auto simp: act_def Act_Present)
    next
      case (Some x)
      show ?thesis
      proof (cases x)
        case (Inr pr)
        then show ?thesis using act pp kept Some by (cases pr) (auto simp: act_def Act_Present)
      next
        case (Inl e)
        then show ?thesis
          using act pp kept Some
          by (cases e) (auto simp: act_def Act_Present on_present_error_def is_degrading_error_def degrade_def Let_def)
      qed
    qed
  next
    case Act_Reapply_Viewport
    with act show ?thesis by (auto simp: act_def)
  next
    case Act_Nop
    with act show ?thesis by (auto simp: act_def)
  qed
  show ?thesis
  proof (cases out)
    case None
    with key res r' show ?thesis by (auto simp: worker_shadow_def)
  next
    case (Some x)
    obtain c p d where x: "x = (c, p, d)" by (metis prod_cases3)
    show ?thesis
      using key res r' by (cases d; cases "rn_backend r") (auto simp: Some x worker_shadow_def)
  qed
qed

lemma work_inv:
  assumes inv: "layer_inv w" and step: "live_step w (In_Work wa) = Some w'"
  shows "layer_inv w'"
proof -
  obtain sn where sn: "ly_worker w = Working sn"
    using step by (cases "ly_worker w") auto
  let ?r = "ly_runner w"
  show ?thesis
  proof (cases "sn_shutdown sn")
    case True
    then have w': "w' = w\<lparr>ly_worker := Ended, ly_runner := runner_shutdown ?r\<rparr>" using step sn by simp
    have down: "ls_shutdown (ly_mailbox w)" using inv sn True by (simp add: layer_inv_def worker_ok_def)
    have r: "worker_shadow (runner_shutdown ?r) = worker_shadow ?r \<and>
        ((\<exists>p. rn_backend (runner_shutdown ?r) = Gpu_Backend p) \<longleftrightarrow> (\<exists>p. rn_backend ?r = Gpu_Backend p))"
      by (auto simp: runner_shutdown_def worker_shadow_def Let_def split: backend.splits option.splits)
    have hand: "in_hand (ly_worker w') = None" by (simp add: w' in_hand_def)
    have "parts_wf w'" using inv r hand by (simp add: layer_inv_def parts_wf_def w' pending_wf_def)
    moreover have "visible_ok w'" using inv by (simp add: layer_inv_def visible_ok_def w')
    moreover have "route_ok w'" using inv r hand by (simp add: layer_inv_def route_ok_def gpu_route_def w' no_shm_def)
    moreover have "shadow_ok w'" "screen_ok w'" "worker_ok w'"
      using down by (simp_all add: shadow_ok_def screen_ok_def worker_ok_def w')
    ultimately show ?thesis by (simp add: layer_inv_def)
  next
    case False
    obtain res r' ws where it: "iteration wa sn ?r = (res, r', ws)" by (metis prod_cases3)
    define pc where "pc = (if res = None then Crashed else Waiting)"
    have w': "w' = w\<lparr>ly_worker := pc, ly_runner := r', ly_wire := ly_wire w @ ws,
        ly_gpu_failed := ly_gpu_failed w \<or> res = Some True\<rparr>"
      using step sn False it by (cases res) (auto simp: pc_def)
    have hand: "in_hand pc = None" by (simp add: pc_def in_hand_def)
    have wok: "sn_visible sn \<or> sn_pending sn = None" using inv sn by (simp add: layer_inv_def worker_ok_def)
    have swf: "shadow_wf (worker_shadow ?r)" and pwf: "pending_wf (in_hand (Working sn))"
      using inv sn by (simp_all add: layer_inv_def parts_wf_def)
    have gpu: "gpu_route w \<longleftrightarrow> (\<exists>p. rn_backend ?r = Gpu_Backend p)" "gpu_route w \<Longrightarrow> no_shm (in_hand (Working sn))"
      using inv sn by (auto simp: layer_inv_def route_ok_def)
    have core: "worker_shadow r' = after (in_hand (Working sn)) (worker_shadow ?r) \<and>
        ((\<exists>p. rn_backend r' = Gpu_Backend p) \<longleftrightarrow> (\<exists>p. rn_backend ?r = Gpu_Backend p) \<and> res \<noteq> Some True) \<and>
        (\<forall>p. sn_visible sn \<longrightarrow> sn_pending sn = Some (Pend_Shm p) \<longrightarrow> res = Some False \<and>
          (rn_present_failing r' \<or> on_screen (ly_wire w @ ws) =
             Some (Content_Shm (fst (sh_size (worker_shadow r'))) (snd (sh_size (worker_shadow r'))) (sh_pixels (worker_shadow r')))))"
    proof (cases "no_shm (in_hand (Working sn))")
      case True
      then have "after (in_hand (Working sn)) (worker_shadow ?r) = worker_shadow ?r"
        by (auto simp: after_def no_shm_def split: option.split pending_frame.split)
      then show ?thesis using iteration_other [OF True wok it] True by (auto simp: no_shm_def in_hand_def)
    next
      case shm: False
      then obtain p where p: "sn_visible sn" "sn_pending sn = Some (Pend_Shm p)"
        by (auto simp: no_shm_def in_hand_def split: if_splits)
      obtain sh where sh: "rn_backend ?r = Shm_Backend sh"
        using gpu shm by (cases "rn_backend ?r") auto
      have "payload_wf p" using pwf p by (simp add: in_hand_def pending_wf_def)
      then show ?thesis
        using iteration_shm [OF sh _ _ p it, of "ly_wire w"] swf p sh
        by (simp add: worker_shadow_def in_hand_def)
    qed
    have held: "held w' = held w"
      using core sn by (simp add: held_def held_shadow_def w' hand)
    have "parts_wf w'" using inv core swf pwf by (simp add: layer_inv_def parts_wf_def w' hand pending_wf_def after_wf)
    moreover have "visible_ok w'" using inv by (simp add: layer_inv_def visible_ok_def w')
    moreover have "route_ok w'"
      using inv core gpu(1) by (auto simp: layer_inv_def route_ok_def gpu_route_def w' hand no_shm_def)
    moreover have "shadow_ok w'"
      by (rule shadow_ok_same [OF _ held]) (use inv in \<open>simp_all add: layer_inv_def w'\<close>)
    moreover have "worker_ok w'" by (simp add: worker_ok_def w' pc_def)
    moreover have "screen_ok w'"
      unfolding screen_ok_def
    proof (intro allI impI)
      fix sz assume v: "ls_shadow (ly_mailbox w') = Valid sz" "\<not> ls_shutdown (ly_mailbox w')" "ls_pending (ly_mailbox w') = None"
      then have m: "ls_shadow (ly_mailbox w) = Valid sz" "\<not> ls_shutdown (ly_mailbox w)" "ls_pending (ly_mailbox w) = None"
        by (simp_all add: w')
      then have flags: "\<not> ls_hide_pending (ly_mailbox w) \<and> \<not> ls_viewport_dirty (ly_mailbox w)"
        and "sn_visible sn \<and> (\<exists>p. sn_pending sn = Some (Pend_Shm p))"
        using inv sn by (simp_all add: layer_inv_def screen_ok_def)
      moreover have "sh_size (worker_shadow r') = sz"
        using inv m core sn by (simp add: layer_inv_def shadow_ok_def held_def held_shadow_def)
      ultimately show "\<not> ls_hide_pending (ly_mailbox w') \<and> \<not> ls_viewport_dirty (ly_mailbox w') \<and>
        (case ly_worker w' of
           Waiting \<Rightarrow> rn_present_failing (ly_runner w') \<or>
             on_screen (ly_wire w') = Some (Content_Shm (fst sz) (snd sz) (sh_pixels (worker_shadow (ly_runner w'))))
         | Working sn \<Rightarrow> \<not> sn_shutdown sn \<and> sn_visible sn \<and> (\<exists>p. sn_pending sn = Some (Pend_Shm p))
         | _ \<Rightarrow> False)"
        using core by (auto simp: w' pc_def)
    qed
    ultimately show ?thesis by (simp add: layer_inv_def)
  qed
qed

lemma step_inv:
  assumes "layer_inv w" "layer_step w i = Some w'" "\<And>op. i = In_Op op \<Longrightarrow> op_ok (ly_cef w) op"
  shows "layer_inv w'"
proof -
  have step: "live_step w i = Some w'" using assms(2) by (simp add: layer_step_def split: if_splits)
  show ?thesis
  proof (cases i)
    case (In_Op op)
    then show ?thesis using step assms start_inv by (auto split: if_splits)
  next
    case In_Call
    then obtain c cs where todo: "ly_todo w = c # cs" using step by (cases "ly_todo w") auto
    obtain rest mb where "actor_call (ly_kind w) (ly_gpu_failed w) c (ly_mailbox w) = (rest, mb)" by fastforce
    with In_Call step todo call_inv [OF assms(1) todo] show ?thesis by auto
  next
    case In_Take
    obtain sn mb where "worker_take (ly_mailbox w) = (sn, mb)" by fastforce
    with In_Take step take_inv [OF assms(1)] show ?thesis by (auto split: if_splits)
  next
    case (In_Work wa)
    then show ?thesis using step work_inv [OF assms(1)] by simp
  qed
qed

lemma step_cef:
  assumes "layer_step w i = Some w'"
  shows "ly_cef w' = (case i of In_Op (Op_Present_Software ext fr) \<Rightarrow> Some fr | _ \<Rightarrow> ly_cef w)"
  using assms
  by (cases i; cases "ly_worker w")
    (auto simp: layer_step_def start_op_def Let_def split_beta split: if_splits list.splits option.splits layer_op.splits)

lemma run_inv_layer:
  "layer_inv w \<Longrightarrow> well_painted (ly_cef w) is \<Longrightarrow> layer_run w is = Some w' \<Longrightarrow> layer_inv w'"
proof (induction "is" arbitrary: w)
  case Nil
  then show ?case by simp
next
  case (Cons i "is")
  then obtain v where v: "layer_step w i = Some v" "layer_run v is = Some w'"
    by (auto split: option.splits)
  have "layer_inv v"
    using Cons.prems(2) by (intro step_inv [OF Cons.prems(1) v(1)]) (auto simp: op_ok_def split: layer_op.splits)
  moreover have "well_painted (ly_cef v) is"
    using Cons.prems(2) step_cef [OF v(1)] by (cases i) (auto split: layer_op.splits)
  ultimately show ?case using Cons.IH v(2) by blast
qed

section \<open>The screen follows CEF\<close>

definition layer_quiet :: "layer \<Rightarrow> bool" where
  "layer_quiet w \<longleftrightarrow> ly_todo w = [] \<and> ls_pending (ly_mailbox w) = None \<and> ly_worker w = Waiting \<and>
     \<not> ls_shutdown (ly_mailbox w)"

text \<open>
  C4: Under every interleaving of CEF's thread and the worker, and whatever is resized, hidden,
  covered by placeholders or dmabuf frames, and fails in between: whenever nothing is queued or
  in hand and the mailbox counts the shadow as valid, the buffer attached to the surface shows
  exactly the last frame CEF painted, or the last present failed. Frames carry only their dirty
  rectangles once a shadow is valid, any number of them merged into one commit; all that is asked
  of CEF is that a frame differs from its predecessor of the same size only inside them.
\<close>

theorem layer_shows_last_frame:
  assumes "well_painted None is"
    and "layer_run (new_layer use_gpu gpu ext has_viewport pool dmabuf) is = Some w"
    and "layer_quiet w" "ls_shadow (ly_mailbox w) = Valid sz" "\<not> rn_present_failing (ly_runner w)"
  shows "\<exists>fr. ly_cef w = Some fr \<and> sz = (so_w fr, so_h fr) \<and>
    on_screen (ly_wire w) = Some (Content_Shm (so_w fr) (so_h fr) (so_pixels fr))"
proof -
  have "ly_cef (new_layer use_gpu gpu ext has_viewport pool dmabuf) = None"
    by (simp add: new_layer_def Let_def)
  then have inv: "layer_inv w" using run_inv_layer [OF new_layer_inv _ assms(2)] assms(1) by simp
  have q: "ly_todo w = []" "ls_pending (ly_mailbox w) = None" "ly_worker w = Waiting" "\<not> ls_shutdown (ly_mailbox w)"
    using assms(3) by (simp_all add: layer_quiet_def)
  have "held w = worker_shadow (ly_runner w)" using q by (simp add: held_def held_shadow_def in_hand_def)
  then obtain fr where fr: "ly_cef w = Some fr" "sz = (so_w fr, so_h fr)" "sh_pixels (worker_shadow (ly_runner w)) = so_pixels fr"
    using inv q assms(4) by (auto simp: layer_inv_def shadow_ok_def split: option.splits)
  moreover have "on_screen (ly_wire w) = Some (Content_Shm (fst sz) (snd sz) (sh_pixels (worker_shadow (ly_runner w))))"
    using inv q assms(4,5) by (auto simp: layer_inv_def screen_ok_def)
  ultimately show ?thesis by simp
qed

text \<open>A frame accepted on the shared-memory route makes the shadow valid.\<close>

lemma enqueued_frame_validates:
  assumes "layer_inv w" "ly_todo w = [Call_Enqueue Route_Shm fr st len]" "layer_step w In_Call = Some w'"
  shows "ls_shadow (ly_mailbox w') = Valid (so_w fr, so_h fr)"
proof -
  have "st = nat (so_w fr) * 4" "len = nat (so_h fr) * (nat (so_w fr) * 4)"
    using assms(1,2) by (auto simp: layer_inv_def visible_ok_def)
  then show ?thesis
    using assms(2,3)
    by (auto simp: layer_step_def enqueue_shm_def store_shm_def needs_full_copy_def Let_def
        split: if_splits option.splits pending_frame.splits)
qed

section \<open>What the GPU path loses\<close>

definition pixel_frame :: "bytes \<Rightarrow> int \<Rightarrow> soft_frame" where
  "pixel_frame bs x = \<lparr>so_pixels = bs, so_w = 2, so_h = 1,
     so_dirty = [\<lparr>rect_x = x, rect_y = 0, rect_w = 1, rect_h = 1\<rparr>]\<rparr>"

definition paint_pixels :: "bytes \<Rightarrow> int \<Rightarrow> layer_input list" where
  "paint_pixels bs x =
     [In_Op (Op_Present_Software (Some (2, 1, 2, 1)) (pixel_frame bs x)), In_Call, In_Call, In_Call, In_Call]"

definition worker_turn :: "layer_input list" where
  "worker_turn = [In_Take, In_Work \<lparr>wa_slot = True, wa_target = True, wa_supported = True, wa_acquired = [Acq_Success],
                                   wa_idle = (\<lambda>_. True), wa_create = None\<rparr>]"

text \<open>Three frames, the second and third painted before the worker's next turn.\<close>

definition coalesced_run :: "layer_input list" where
  "coalesced_run =
     paint_pixels [1, 1, 1, 1, 1, 1, 1, 1] 0 @ worker_turn @
     paint_pixels [2, 2, 2, 2, 1, 1, 1, 1] 0 @ paint_pixels [2, 2, 2, 2, 3, 3, 3, 3] 1 @ worker_turn"

text \<open>The mailbox keeps the newer payload and with it only the newer rectangles; the painter's texture
  never gets the first pixel of the second frame.\<close>

lemma coalesced_gpu_frames_lose_damage:
  "well_painted None coalesced_run \<and>
   map_option (\<lambda>w. filter (\<lambda>e. case e of Swap _ \<Rightarrow> True | _ \<Rightarrow> False) (ly_wire w))
     (layer_run (new_layer True (Some 64) (Some (2, 1, 2, 1)) True True True) coalesced_run)
   = Some [Swap (Shown_Copied 2 1 [1, 1, 1, 1, 1, 1, 1, 1]), Swap (Shown_Copied 2 1 [1, 1, 1, 1, 3, 3, 3, 3])]"
  by code_simp

lemma layer_shows_last_frame_witness:
  "\<exists>w fr. layer_run (new_layer False None (Some (2, 1, 2, 1)) True True True) coalesced_run = Some w \<and>
     ly_cef w = Some fr \<and> (2, 1) = (so_w fr, so_h fr) \<and>
     on_screen (ly_wire w) = Some (Content_Shm (so_w fr) (so_h fr) (so_pixels fr))"
proof -
  let ?w = "layer_run (new_layer False None (Some (2, 1, 2, 1)) True True True) coalesced_run"
  have "case ?w of None \<Rightarrow> False
      | Some w \<Rightarrow> layer_quiet w \<and> ls_shadow (ly_mailbox w) = Valid (2, 1) \<and> \<not> rn_present_failing (ly_runner w)"
    by code_simp
  then obtain w where w: "?w = Some w" "layer_quiet w" "ls_shadow (ly_mailbox w) = Valid (2, 1)"
    "\<not> rn_present_failing (ly_runner w)" by (auto split: option.splits)
  have "well_painted None coalesced_run" by code_simp
  from layer_shows_last_frame [OF this w] w(1) show ?thesis by blast
qed

end
