(* ===== verification/Layer_Wire.thy ===== *)
theory Layer_Wire
  imports Layer_Actor
begin

text \<open>
  What a layer (\<open>Layer_Actor\<close>) may not do to the compositor: commit a viewport source larger than
  the buffer it reads from, which is fatal, or attach a pooled dmabuf buffer that is still read.
\<close>

section \<open>The viewport\<close>

text \<open>The \<open>wp_viewport\<close> rules over the requests sent: source, buffer, and whether all went well.\<close>

type_synonym vp_state = "(int \<times> int) option \<times> (int \<times> int) option \<times> bool"

definition source_fits :: "(int \<times> int) option \<Rightarrow> (int \<times> int) option \<Rightarrow> bool" where
  "source_fits src buf =
     (case (src, buf) of (Some (a, b), Some (w, h)) \<Rightarrow> a \<le> w \<and> b \<le> h | _ \<Rightarrow> True)"

fun buffer_size :: "content \<Rightarrow> int \<times> int" where
  "buffer_size (Content_Shm w h bs) = (w, h)"
| "buffer_size (Content_Dmabuf i w h) = (w, h)"

fun shown_size :: "shown \<Rightarrow> (int \<times> int) option" where
  "shown_size (Shown_Copied w h bs) = Some (w, h)"
| "shown_size (Shown_Shared t v) = None"

fun viewport_step :: "vp_state \<Rightarrow> wire \<Rightarrow> vp_state" where
  "viewport_step (src, buf, ok) (Set_Source a b) = (Some (a, b), buf, ok \<and> 0 < a \<and> 0 < b)"
| "viewport_step (src, buf, ok) (Set_Destination a b) = (src, buf, ok \<and> 0 < a \<and> 0 < b)"
| "viewport_step (src, buf, ok) (Attach c) = (src, Some (buffer_size c), ok)"
| "viewport_step (src, buf, ok) Attach_None = (src, None, ok)"
| "viewport_step (src, buf, ok) Commit = (src, buf, ok \<and> source_fits src buf)"
| "viewport_step (src, buf, ok) (Swap img) = (src, shown_size img, ok \<and> source_fits src (shown_size img))"
| "viewport_step s _ = s"

definition viewport_ok :: "wire list \<Rightarrow> bool" where
  "viewport_ok ws \<longleftrightarrow> snd (snd (foldl viewport_step (None, None, True) ws))"

text \<open>A state from which any commit without a new source or buffer is allowed.\<close>

definition vp_settled :: "bool \<Rightarrow> vp_state \<Rightarrow> bool" where
  "vp_settled has_viewport s \<longleftrightarrow> (case s of (src, buf, ok) \<Rightarrow> ok \<and> source_fits src buf \<and> (has_viewport \<or> src = None))"

lemma source_fits_simps [simp]: "source_fits None buf" "source_fits src None"
  "source_fits (Some (a, b)) (Some (w, h)) \<longleftrightarrow> a \<le> w \<and> b \<le> h"
  by (simp_all add: source_fits_def split: option.split)

lemma vp_settled_viewport:
  assumes "vp_settled v s"
  shows "vp_settled v (foldl viewport_step s (set_viewport v 0 0 dw dh @ [Commit]))"
  using assms by (cases s) (auto simp: vp_settled_def set_viewport_def viewport_update_def)

lemma vp_settled_layer_present:
  assumes "vp_settled v s" "0 < sw" "0 < sh" "0 < bw" "0 < bh" "buffer_size b = (bw, bh)"
  shows "vp_settled v (foldl viewport_step s (layer_present v b bw bh sw sh dw dh))"
  using assms
  by (cases s) (auto simp: vp_settled_def layer_present_def clamp_source_def set_viewport_def viewport_update_def)

lemma vp_settled_swap:
  assumes "vp_settled v s" "0 < sw" "0 < sh" "shown_size img = Some (w, h)" "sw \<le> w" "sh \<le> h"
  shows "vp_settled v (foldl viewport_step s (set_viewport v sw sh dw dh @ [Swap img]))"
  using assms by (cases s) (auto simp: vp_settled_def set_viewport_def viewport_update_def)

lemma vp_settled_hide: "vp_settled v s \<Longrightarrow> vp_settled v (foldl viewport_step s [Attach_None, Commit])"
  by (cases s) (auto simp: vp_settled_def)

lemma vp_settled_flush: "vp_settled v s \<Longrightarrow> vp_settled v (viewport_step s Flush_And_Ring)"
  by (cases s) (auto simp: vp_settled_def)

subsection \<open>What reaches the worker has an extent\<close>

definition vp_pos :: "viewport_state \<Rightarrow> bool" where
  "vp_pos vp \<longleftrightarrow> 0 < vp_pw vp \<and> 0 < vp_ph vp"

definition sized :: "viewport_state \<Rightarrow> pending_frame option \<Rightarrow> bool" where
  "sized vp p =
     (case p of
        Some (Pend_Shm q) \<Rightarrow> 0 < pl_width q \<and> 0 < pl_height q \<and> vp_pos vp
      | Some (Pend_Gpu q) \<Rightarrow> 0 < px_w q \<and> 0 < px_h q \<and> vp_pos vp
      | Some (Pend_Dmabuf t) \<Rightarrow> 0 < fst (tx_coded t) \<and> 0 < snd (tx_coded t)
      | _ \<Rightarrow> True)"

fun sized_calls :: "bool \<Rightarrow> call list \<Rightarrow> bool" where
  "sized_calls b [] = True"
| "sized_calls b (Call_Resize vp # cs) = sized_calls (b \<or> vp_pos vp) cs"
| "sized_calls b (Call_Software fr # cs) = (b \<and> sized_calls b cs)"
| "sized_calls b (Call_Enqueue r fr st len # cs) = (b \<and> 0 < so_w fr \<and> 0 < so_h fr \<and> sized_calls b cs)"
| "sized_calls b (_ # cs) = sized_calls b cs"

definition painter_follows :: "backend \<Rightarrow> bool" where
  "painter_follows b =
     (case b of Gpu_Backend (Some q) \<Rightarrow> pt_policy q = Follow_Frame \<and> pt_site q = At_Painter | _ \<Rightarrow> True)"

text \<open>The window's extent, where there is one, is not empty.\<close>

fun sized_input :: "layer_input \<Rightarrow> bool" where
  "sized_input (In_Op (Op_Present_Software (Some (lw, lh, pw, ph)) fr)) \<longleftrightarrow> 0 < pw \<and> 0 < ph"
| "sized_input _ \<longleftrightarrow> True"

definition wire_inv :: "layer \<Rightarrow> bool" where
  "wire_inv w \<longleftrightarrow>
     vp_settled (rn_viewport (ly_runner w)) (foldl viewport_step (None, None, True) (ly_wire w)) \<and>
     painter_follows (rn_backend (ly_runner w)) \<and>
     sized_calls (vp_pos (ls_viewport (ly_mailbox w))) (ly_todo w) \<and>
     sized (ls_viewport (ly_mailbox w)) (ls_pending (ly_mailbox w)) \<and>
     (case ly_worker w of Working sn \<Rightarrow> sized (sn_viewport sn) (sn_pending sn) | _ \<Rightarrow> True)"

lemma sized_None [simp]: "sized vp None"
  by (simp add: sized_def)

lemma sized_resize: "sized vp p \<Longrightarrow> vp_pos vp' \<Longrightarrow> sized vp' p"
  by (auto simp: sized_def split: option.splits pending_frame.splits)

lemma software_span_pos: "software_span fr = Inr x \<Longrightarrow> 0 < so_w fr \<and> 0 < so_h fr"
  by (auto simp: software_span_def validate_present_dims_def split: if_splits)

lemma sized_calls_mono: "sized_calls b cs \<Longrightarrow> sized_calls True cs"
  by (induction b cs rule: sized_calls.induct) auto

lemma call_wire:
  assumes "sized_calls (vp_pos (ls_viewport mb)) (c # cs)" "sized (ls_viewport mb) (ls_pending mb)"
    "actor_call k failed c mb = (rest, mb')"
  shows "sized_calls (vp_pos (ls_viewport mb')) (rest @ cs) \<and> sized (ls_viewport mb') (ls_pending mb')"
proof (cases c)
  case (Call_Set_Visible v)
  then show ?thesis using assms by (cases v) (auto simp: layer_set_visible_def Let_def)
next
  case (Call_Resize vp)
  then show ?thesis
    using assms sized_resize sized_calls_mono
    by (auto simp: layer_resize_def vp_pos_def split: if_splits)
next
  case (Call_Software fr)
  then show ?thesis
    using assms by (auto split: sum.splits prod.splits dest!: software_span_pos)
next
  case (Call_Enqueue r fr st len)
  then show ?thesis
    using assms
    by (cases r) (auto simp: enqueue_gpu_def gpu_payload_def enqueue_shm_def store_shm_def sized_def Let_def
        split: option.splits pending_frame.splits if_splits)
qed (use assms in \<open>auto simp: request_placeholder_def mailbox_dmabuf_def
    validate_present_dims_def sized_def Let_def split: if_splits\<close>)

lemma start_wire:
  assumes "wire_inv w" "ly_todo w = []" "sized_input (In_Op op)"
  shows "wire_inv (start_op w op)"
proof -
  have "sized_calls (vp_pos (ls_viewport (ly_mailbox w))) (ly_todo (start_op w op))"
  proof (cases op)
    case (Op_Present_Software ext fr)
    then show ?thesis
      using assms(3)
      by (cases ext) (auto simp: start_op_def surface_present_software_def extent_or_def vp_pos_def Let_def split: if_splits)
  qed (auto simp: start_op_def surface_set_visible_def surface_present_def free_surface_def surface_on_configure_def Let_def split_beta)
  with assms(1) show ?thesis
    by (simp add: wire_inv_def start_op_def split_beta Let_def)
qed

subsection \<open>The actions\<close>

lemma painter_present_follows:
  assumes "pt_policy q = Follow_Frame" "pt_site q = At_Painter" "present_frame acqs (Frame_Copied p) q = (res, q')"
  shows "pt_policy q' = Follow_Frame \<and> pt_site q' = At_Painter \<and>
    (\<forall>img. res = Presented_Yes img \<longrightarrow> shown_size img = Some (px_w p, px_h p))"
proof (cases "pt_mode q \<noteq> None \<and> pt_mode q \<noteq> Some Copied")
  case True
  with assms show ?thesis by (auto simp: present_frame_def)
next
  case False
  let ?q = "q\<lparr>pt_mode := Some Copied\<rparr>"
  have fol: "follows_frames ?q" using assms by (simp add: follows_frames_def)
  have pp: "present_pixels acqs p ?q = (res, q')" using assms(3) False by (auto simp: present_frame_def Let_def)
  show ?thesis
  proof (cases "frame_extent (pt_max ?q) (px_w p, px_h p)")
    case (Inl k)
    then show ?thesis using pp assms by (auto simp: present_pixels_def)
  next
    case (Inr e)
    then have e: "e = (px_w p, px_h p)"
      by (auto simp: frame_extent_def texels_def split: if_splits option.splits)
    show ?thesis
    proof (cases "check_buffer p (px_w p) (px_h p) \<noteq> None \<or> \<not> pt_visible q")
      case True
      with pp Inr e assms show ?thesis by (auto simp: present_pixels_def split: option.splits)
    next
      case False
      obtain x v where ext: "extent_for (px_w p, px_h p) ?q = (x, v)" by fastforce
      note v = extent_for_follow [OF fol ext]
      obtain u y where take: "take_upload (px_w p) (px_h p) v = (u, y)" by fastforce
      have y: "y = v\<lparr>pt_upload := None\<rparr>" using take by (simp add: take_upload_def Let_def)
      have x: "x = (px_w p, px_h p)" using v by simp
      show ?thesis
      proof (cases "upload_write u p (px_w p) (px_h p)")
        case None
        then have "(res, q') = (Aborted, y)"
          using pp Inr False unfolding present_pixels_def by (simp add: e ext x take)
        then show ?thesis using v by (simp add: y follows_frames_def)
      next
        case (Some u')
        let ?y = "y\<lparr>pt_upload := Some u'\<rparr>"
        obtain r2 q2 where draw: "draw_and_present acqs (Shown_Copied (px_w p) (px_h p) (ut_tex u')) ?y = (r2, q2)"
          by fastforce
        have "(res, q') = (r2, q2)"
          using pp Inr False Some draw unfolding present_pixels_def by (simp add: e ext x take)
        then show ?thesis using v draw_keeps [OF draw] by (auto simp: y follows_frames_def)
      qed
    qed
  qed
qed

lemma present_pending_settled:
  assumes "vp_settled (rn_viewport r) s" "painter_follows (rn_backend r)" "sized vps (Some fr)"
    "present_pending wa vps fr r = (out, r', ws)"
  shows "vp_settled (rn_viewport r) (foldl viewport_step s ws) \<and> painter_follows (rn_backend r') \<and> rn_viewport r' = rn_viewport r"
proof (cases fr)
  case (Pend_Gpu p)
  have pos: "0 < px_w p" "0 < px_h p" "0 < vp_pw vps" "0 < vp_ph vps"
    using assms(3) by (simp_all add: Pend_Gpu sized_def vp_pos_def)
  show ?thesis
  proof (cases "\<exists>painter mx. rn_backend r = Gpu_Backend painter \<and> rn_gpu r = Some mx")
    case False
    with assms show ?thesis
      by (auto simp: Pend_Gpu present_pending_def present_gpu_def split: backend.splits option.splits)
  next
    case True
    then obtain painter mx where b: "rn_backend r = Gpu_Backend painter" "rn_gpu r = Some mx" by blast
    define made where "made = (case painter of Some q \<Rightarrow> Some (Inr q)
      | None \<Rightarrow> if wa_target wa then Some (new_painter mx (wa_supported wa) Wayland (px_w p, px_h p)) else None)"
    show ?thesis
    proof (cases "\<exists>q. made = Some (Inr q)")
      case False
      with assms b show ?thesis
        by (auto simp: Pend_Gpu present_pending_def present_gpu_def made_def [symmetric] split: option.splits sum.splits)
    next
      case True
      then obtain q0 where q0: "made = Some (Inr q0)" by blast
      have f0: "pt_policy q0 = Follow_Frame \<and> pt_site q0 = At_Painter"
        using q0 assms(2) b
        by (auto simp: made_def painter_follows_def new_painter_def configure_now_def split: option.splits if_splits)
      define q where "q = resize (max 1 (vp_pw vps), max 1 (vp_ph vps)) (set_painter_visible True q0)"
      have f: "pt_policy q = Follow_Frame" "pt_site q = At_Painter"
        using f0 by (simp_all add: q_def resize_def set_painter_visible_def Let_def split: option.split)
      obtain res q' where pf: "present_frame (wa_acquired wa) (Frame_Copied p) q = (res, q')" by fastforce
      note k = painter_present_follows [OF f pf]
      have "(out, r', ws) = (case res of
          Presented_Yes img \<Rightarrow> (Some (Inr Committed), r\<lparr>rn_backend := Gpu_Backend (Some q')\<rparr>,
             set_viewport (rn_viewport r) (min (px_w p) (vp_pw vps)) (min (px_h p) (vp_ph vps)) (vp_lw vps) (vp_lh vps) @ [Swap img])
        | Presented_Skipped \<Rightarrow> (Some (Inr Skipped), r\<lparr>rn_backend := Gpu_Backend (Some q')\<rparr>, [])
        | Surface_Lost k \<Rightarrow> (Some (Inl (Gpu_Error k)), r\<lparr>rn_backend := Gpu_Backend (Some q')\<rparr>, [])
        | Aborted \<Rightarrow> (None, r\<lparr>rn_backend := Gpu_Backend (Some q')\<rparr>, []))"
        using assms(4) b q0 pf
        by (cases res) (simp_all add: Pend_Gpu present_pending_def present_gpu_def made_def [symmetric] q_def [symmetric] Let_def)
      then show ?thesis
        using k assms(1) pos
        by (cases res) (auto simp: painter_follows_def intro!: vp_settled_swap [unfolded foldl_append, simplified])
    qed
  qed
next
  case (Pend_Shm p)
  have pos: "0 < pl_width p" "0 < pl_height p" "0 < vp_pw vps" "0 < vp_ph vps"
    using assms(3) by (simp_all add: Pend_Shm sized_def vp_pos_def)
  have sz: "buffer_size b = (w, h)" if "draw_from_pixels slot px w h = Some b" for slot px w h b
    using that by (auto simp: draw_from_pixels_def split: option.splits if_splits)
  show ?thesis
    using assms(1,2,4) pos sz vp_settled_layer_present [OF assms(1)]
    by (auto simp: Pend_Shm present_pending_def present_shm_def Let_def painter_follows_def
        split: backend.splits sum.splits prod.splits if_splits option.splits)
next
  case (Pend_Dmabuf t)
  have pos: "0 < fst (tx_coded t)" "0 < snd (tx_coded t)" using assms(3) by (simp_all add: Pend_Dmabuf sized_def)
  then have vis: "0 < fst (tx_visible (shared_texture.truncate t))" "0 < snd (tx_visible (shared_texture.truncate t))"
    by (auto simp: tx_visible_def visible_or_coded_def shared_texture.truncate_def)
  obtain l q where l: "lease_dmabuf wa t r = (l, q)" by fastforce
  have q: "rn_viewport q = rn_viewport r" "rn_backend q = rn_backend r"
    using l by (cases "rn_dmabuf r"; auto simp: lease_dmabuf_def lease_fresh_def Let_def split: option.splits if_splits)+
  show ?thesis
    using assms(1,2,4) pos vis q l vp_settled_layer_present [OF assms(1)]
    by (cases "tx_visible (shared_texture.truncate t)"; cases "tx_coded t")
      (auto simp: Pend_Dmabuf present_pending_def present_dmabuf_def Let_def split: option.splits dmabuf_lease.splits)
next
  case (Pend_Placeholder c)
  have sz: "buffer_size b = (w, h)" if "draw_from_pixels slot px w h = Some b" for slot px w h b
    using that by (auto simp: draw_from_pixels_def split: option.splits if_splits)
  show ?thesis
    using assms(1,2,4) sz vp_settled_layer_present [OF assms(1)]
    by (auto simp: Pend_Placeholder present_pending_def present_placeholder_def split: if_splits option.splits)
qed

lemma iteration_wire:
  assumes "vp_settled (rn_viewport r) s" "painter_follows (rn_backend r)" "sized (sn_viewport sn) (sn_pending sn)"
    "iteration wa sn r = (res, r', ws)"
  shows "vp_settled (rn_viewport r') (foldl viewport_step s ws) \<and> painter_follows (rn_backend r')"
proof -
  let ?vps = "sn_viewport sn"
  define a where "a = decide (sn_pending sn) (is_placeholder (sn_pending sn)) (sn_visible sn) (rn_has_content r) (sn_viewport_dirty sn)"
  obtain out q vs where act: "act wa ?vps a r = (out, q, vs)" by (metis prod_cases3)
  have key: "vp_settled (rn_viewport q) (foldl viewport_step s vs) \<and> painter_follows (rn_backend q) \<and> rn_viewport q = rn_viewport r"
  proof (cases a)
    case Act_Hide
    with act assms(1,2) show ?thesis
      using vp_settled_hide [OF assms(1)]
      by (auto simp: act_def hide_def Let_def painter_follows_def set_painter_visible_def
          split: backend.splits option.splits if_splits)
  next
    case (Act_Present fr)
    then have fr: "sn_pending sn = Some fr"
      by (auto simp: a_def decide_def split: option.splits if_splits)
    obtain o1 q1 v1 where pp: "present_pending wa ?vps fr r = (o1, q1, v1)" by (metis prod_cases3)
    have k: "vp_settled (rn_viewport r) (foldl viewport_step s v1) \<and> painter_follows (rn_backend q1) \<and> rn_viewport q1 = rn_viewport r"
      using present_pending_settled [OF assms(1,2) _ pp] assms(3) fr by simp
    show ?thesis
    proof (cases o1)
      case None
      then show ?thesis using act pp k by (auto simp: act_def Act_Present)
    next
      case (Some x)
      show ?thesis
      proof (cases x)
        case (Inr pr)
        then show ?thesis using act pp k Some by (cases pr) (auto simp: act_def Act_Present)
      next
        case (Inl e)
        then show ?thesis
          using act pp k Some
          by (cases e) (auto simp: act_def Act_Present on_present_error_def is_degrading_error_def degrade_def painter_follows_def Let_def)
      qed
    qed
  next
    case Act_Reapply_Viewport
    with act assms(1,2) vp_settled_viewport [OF assms(1)] show ?thesis by (auto simp: act_def)
  next
    case Act_Nop
    with act assms(1,2) show ?thesis by (auto simp: act_def)
  qed
  show ?thesis
  proof (cases out)
    case None
    then show ?thesis using key act assms(4) unfolding iteration_def Let_def a_def [symmetric] by auto
  next
    case (Some x)
    obtain c p d where x: "x = (c, p, d)" by (metis prod_cases3)
    let ?more = "\<lambda>b dw dh. if b then set_viewport (rn_viewport q) 0 0 dw dh @ [Commit] else []"
    have one: "vp_settled (rn_viewport q) (foldl viewport_step (foldl viewport_step s vs) (?more b dw dh))" for b dw dh
      using key vp_settled_viewport [of "rn_viewport q" "foldl viewport_step s vs" dw dh] by (cases b) auto
    have all: "vp_settled (rn_viewport q)
        (foldl viewport_step s (vs @ ?more b dw dh @ (if b' then [Flush_And_Ring] else [])))" for b b' dw dh
    proof (cases b')
      case True
      then show ?thesis using vp_settled_flush [OF one] by (simp only: foldl_append if_True) simp
    next
      case False
      then show ?thesis using one by (simp only: foldl_append if_False) simp
    qed
    let ?b = "sn_visible sn \<and> \<not> c \<and> sn_viewport_dirty sn"
    have "ws = vs @ ?more ?b (vp_lw ?vps) (vp_lh ?vps) @ (if c \<or> ?b then [Flush_And_Ring] else [])"
      "rn_viewport r' = rn_viewport q" "rn_backend r' = rn_backend q"
      using act assms(4) unfolding iteration_def Let_def a_def [symmetric] by (auto simp: Some x)
    then show ?thesis using key all by (simp only: HOL.simp_thms)
  qed
qed

lemma step_wire:
  assumes "wire_inv w" "layer_step w i = Some w'" "sized_input i"
  shows "wire_inv w'"
proof -
  have step: "live_step w i = Some w'" using assms(2) by (simp add: layer_step_def split: if_splits)
  show ?thesis
  proof (cases i)
    case (In_Op op)
    then show ?thesis using step assms start_wire by (auto split: if_splits)
  next
    case In_Call
    then obtain c cs where todo: "ly_todo w = c # cs" using step by (cases "ly_todo w") auto
    obtain rest mb where a: "actor_call (ly_kind w) (ly_gpu_failed w) c (ly_mailbox w) = (rest, mb)" by fastforce
    then have "sized_calls (vp_pos (ls_viewport mb)) (rest @ cs) \<and> sized (ls_viewport mb) (ls_pending mb)"
      using assms(1) todo by (intro call_wire [OF _ _ a]) (simp_all add: wire_inv_def)
    moreover have "w' = w\<lparr>ly_todo := rest @ cs, ly_mailbox := mb\<rparr>" using In_Call step todo a by simp
    ultimately show ?thesis using assms(1) by (simp add: wire_inv_def)
  next
    case In_Take
    then show ?thesis
      using step assms(1) by (auto simp: wire_inv_def worker_take_def split: if_splits)
  next
    case (In_Work wa)
    then obtain sn where sn: "ly_worker w = Working sn" using step by (cases "ly_worker w") auto
    show ?thesis
    proof (cases "sn_shutdown sn")
      case True
      have "painter_follows (rn_backend (runner_shutdown (ly_runner w))) \<and>
          rn_viewport (runner_shutdown (ly_runner w)) = rn_viewport (ly_runner w)"
        using assms(1) by (auto simp: wire_inv_def runner_shutdown_def painter_follows_def Let_def
            split: backend.splits option.splits)
      with True step sn In_Work assms(1) show ?thesis by (auto simp: wire_inv_def)
    next
      case False
      obtain res r' ws where it: "iteration wa sn (ly_runner w) = (res, r', ws)" by (metis prod_cases3)
      have "vp_settled (rn_viewport r') (foldl viewport_step (foldl viewport_step (None, None, True) (ly_wire w)) ws) \<and>
          painter_follows (rn_backend r')"
        by (rule iteration_wire [OF _ _ _ it]) (use assms(1) sn in \<open>simp_all add: wire_inv_def\<close>)
      with False step sn In_Work it assms(1) show ?thesis
        by (cases res) (auto simp: wire_inv_def)
    qed
  qed
qed

text \<open>
  C18: In every run of a layer, on either backend and across a degrade from one to the other, no
  source or destination that is not positive is sent and no commit, the swapchain's included, is
  made with a viewport source larger than the buffer it reads from, which would kill the client:
  whatever sizes frames and window take and however late the worker sees them. Asked is only that
  the window's extent, when there is one, is not empty.
\<close>

theorem viewport_sources_fit:
  assumes "list_all sized_input is"
    and "layer_run (new_layer use_gpu gpu ext has_viewport pool dmabuf) is = Some w"
  shows "viewport_ok (ly_wire w)"
proof -
  have "wire_inv (new_layer use_gpu gpu ext has_viewport pool dmabuf)"
    by (simp add: new_layer_def wire_inv_def vp_settled_def painter_follows_def new_layer_state_def Let_def)
  then have "wire_inv w" using assms
  proof (induction "is" arbitrary: w rule: rev_induct)
    case Nil
    then show ?case by simp
  next
    case (snoc i "is")
    have "layer_run v (xs @ [i]) = Some w \<Longrightarrow> \<exists>u. layer_run v xs = Some u \<and> layer_step u i = Some w" for v xs
      by (induction xs arbitrary: v) (auto split: option.splits)
    then obtain u where "layer_run (new_layer use_gpu gpu ext has_viewport pool dmabuf) is = Some u" "layer_step u i = Some w"
      using snoc.prems(3) by blast
    then show ?case using snoc step_wire by auto
  qed
  then show ?thesis
    by (auto simp: wire_inv_def viewport_ok_def vp_settled_def split: prod.splits)
qed

text \<open>The run of a GPU layer whose painter loses its surface: the frame after goes through shared memory.\<close>

definition small_frame :: "int \<Rightarrow> soft_frame" where
  "small_frame w = \<lparr>so_pixels = replicate (nat w * 4) 7, so_w = w, so_h = 1,
     so_dirty = [\<lparr>rect_x = 0, rect_y = 0, rect_w = w, rect_h = 1\<rparr>]\<rparr>"

definition degrading_run :: "layer_input list" where
  "degrading_run =
     (let paint = (\<lambda>w. [In_Op (Op_Present_Software (Some (4, 1, 4, 1)) (small_frame w)), In_Call, In_Call, In_Call, In_Call]);
          turn = (\<lambda>a. [In_Take, In_Work \<lparr>wa_slot = True, wa_target = True, wa_supported = True, wa_acquired = [a],
                                        wa_idle = (\<lambda>_. True), wa_create = None\<rparr>])
      in paint 4 @ turn Acq_Success @ paint 4 @ turn Acq_Validation @ paint 2 @ turn Acq_Success)"

lemma viewport_sources_fit_witness:
  "\<exists>w. layer_run (new_layer True (Some 64) None True True True) degrading_run = Some w \<and>
     viewport_ok (ly_wire w) \<and> filter (\<lambda>e. case e of Set_Source _ _ \<Rightarrow> True | _ \<Rightarrow> False) (ly_wire w) = [Set_Source 4 1, Set_Source 2 1]"
proof -
  let ?r = "layer_run (new_layer True (Some 64) None True True True) degrading_run"
  have "map_option (\<lambda>w. filter (\<lambda>e. case e of Set_Source _ _ \<Rightarrow> True | _ \<Rightarrow> False) (ly_wire w)) ?r
      = Some [Set_Source 4 1, Set_Source 2 1]" by code_simp
  then obtain w where "?r = Some w"
    "filter (\<lambda>e. case e of Set_Source _ _ \<Rightarrow> True | _ \<Rightarrow> False) (ly_wire w) = [Set_Source 4 1, Set_Source 2 1]"
    by (auto split: option.splits)
  moreover have "list_all sized_input degrading_run" by code_simp
  ultimately show ?thesis using viewport_sources_fit by blast
qed

section \<open>The dmabuf pool\<close>

definition pool_ok :: "dmabuf_buf list \<Rightarrow> bool" where
  "pool_ok pool \<longleftrightarrow> length pool \<le> DMABUF_POOL_CAP \<and> distinct (map db_id pool)"

definition entry_matches :: "dmabuf_frame \<Rightarrow> dmabuf_buf \<Rightarrow> bool" where
  "entry_matches fr e \<longleftrightarrow>
     df_key fr = Some (db_id e) \<and> tx_coded fr = (db_w e, db_h e) \<and> df_plane fr = Some (db_stride e) \<and>
     df_modifier fr = db_modifier e"

lemma position_Some: "position P xs = Some i \<Longrightarrow> i < length xs \<and> P (xs ! i) \<and> (\<forall>j<i. \<not> P (xs ! j))"
proof (induction xs arbitrary: i)
  case (Cons x xs)
  then show ?case by (auto simp: nth_Cons' less_Suc_eq_0_disj split: if_splits)
qed simp

lemma position_None: "position P xs = None \<Longrightarrow> \<forall>x\<in>set xs. \<not> P x"
  by (induction xs) (auto split: if_splits)

lemma remove_at_set:
  assumes "i < length xs" "distinct (map f xs)"
  shows "set (remove_at i xs) \<subseteq> set xs" "f (xs ! i) \<notin> f ` set (remove_at i xs)" "distinct (map f (remove_at i xs))"
    "length (remove_at i xs) = length xs - 1"
proof -
  have xs: "xs = take i xs @ xs ! i # drop (Suc i) xs" using assms(1) by (rule id_take_nth_drop)
  then have d: "distinct (map f (take i xs @ xs ! i # drop (Suc i) xs))" using assms(2) by simp
  show "set (remove_at i xs) \<subseteq> set xs" by (auto simp: remove_at_def dest: in_set_takeD in_set_dropD)
  show "f (xs ! i) \<notin> f ` set (remove_at i xs)" using d by (auto simp: remove_at_def)
  show "distinct (map f (remove_at i xs))" using d by (auto simp: remove_at_def)
  show "length (remove_at i xs) = length xs - 1" using assms(1) by (simp add: remove_at_def min_def)
qed

lemma lease_fresh_pool:
  assumes "length pool \<le> DMABUF_POOL_CAP" "distinct (map db_id pool)" "df_key fr = Some key" "df_plane fr = Some stride"
    "lease_fresh wa fr key stride pool r = (l, r')"
  shows "pool_ok (rn_pool r') \<and>
    (l = Some Pooled \<longrightarrow> entry_matches fr (hd (rn_pool r')) \<and> wa_create wa = Some (db_buf (hd (rn_pool r'))))"
proof -
  define rest where "rest = (case position (\<lambda>e. db_id e = key) pool of Some i \<Rightarrow> remove_at i pool | None \<Rightarrow> pool)"
  have rest: "length rest \<le> DMABUF_POOL_CAP \<and> distinct (map db_id rest) \<and> key \<notin> db_id ` set rest"
  proof (cases "position (\<lambda>e. db_id e = key) pool")
    case None
    then show ?thesis using position_None [OF None] assms(1,2) by (auto simp: rest_def)
  next
    case (Some i)
    then have "i < length pool" "db_id (pool ! i) = key" using position_Some [OF Some] by simp_all
    then show ?thesis using remove_at_set [of i pool db_id] assms(1,2) Some by (simp add: rest_def)
  qed
  show ?thesis
  proof (cases "wa_create wa")
    case None
    then show ?thesis using assms(5) rest by (auto simp: lease_fresh_def rest_def [symmetric] pool_ok_def Let_def)
  next
    case (Some buf)
    define e where "e = \<lparr>db_id = key, db_w = fst (tx_coded fr), db_h = snd (tx_coded fr), db_stride = stride,
      db_modifier = df_modifier fr, db_buf = buf\<rparr>"
    have r': "rn_pool r' = e # take (DMABUF_POOL_CAP - 1) rest"
      using assms(5) Some by (auto simp: lease_fresh_def rest_def [symmetric] e_def [symmetric] Let_def take_Cons' DMABUF_POOL_CAP_def)
    have "distinct (map db_id (e # take (DMABUF_POOL_CAP - 1) rest))"
      using rest by (auto simp: e_def take_map [symmetric] dest: in_set_takeD)
    moreover have "length (e # take (DMABUF_POOL_CAP - 1) rest) \<le> DMABUF_POOL_CAP"
      by (simp add: DMABUF_POOL_CAP_def)
    moreover have "entry_matches fr e" using assms(3,4) by (simp add: entry_matches_def e_def)
    ultimately show ?thesis using Some unfolding r' by (simp add: pool_ok_def e_def)
  qed
qed

text \<open>
  C20: Leasing a buffer for a shared frame keeps the pool at 16 entries at most with no identity twice, and
  the entry the frame is then committed from, the first, is made for exactly this frame's
  identity, size, stride and modifier, and either was just created or was in the pool and idle: no
  buffer the compositor still reads is attached again.
\<close>

theorem leased_buffer_is_free:
  assumes "pool_ok (rn_pool r)" "lease_dmabuf wa fr r = (l, r')"
  shows "pool_ok (rn_pool r') \<and>
    (l = Some Pooled \<longrightarrow>
       entry_matches fr (hd (rn_pool r')) \<and>
       (wa_create wa = Some (db_buf (hd (rn_pool r'))) \<or>
        hd (rn_pool r') \<in> set (rn_pool r) \<and> wa_idle wa (db_buf (hd (rn_pool r')))))"
proof (cases "rn_dmabuf r \<and> (\<exists>stride key. df_plane fr = Some stride \<and> df_key fr = Some key)")
  case False
  then have "r' = r \<and> l \<noteq> Some Pooled"
    using assms(2) by (cases "rn_dmabuf r") (auto simp: lease_dmabuf_def split: option.splits)
  then show ?thesis using assms(1) by simp
next
  case True
  then obtain stride key where k: "rn_dmabuf r" "df_plane fr = Some stride" "df_key fr = Some key" by blast
  define P where "P = (\<lambda>e :: dmabuf_buf. db_id e = key \<and> db_w e = fst (tx_coded fr) \<and> db_h e = snd (tx_coded fr) \<and>
      db_stride e = stride \<and> db_modifier e = df_modifier fr)"
  let ?pool = "rn_pool r"
  have pool: "length ?pool \<le> DMABUF_POOL_CAP" "distinct (map db_id ?pool)" using assms(1) by (simp_all add: pool_ok_def)
  have lease: "lease_dmabuf wa fr r = (case position P ?pool of
      Some pos \<Rightarrow> if wa_idle wa (db_buf (?pool ! pos)) then (Some Pooled, r\<lparr>rn_pool := (?pool ! pos) # remove_at pos ?pool\<rparr>)
                  else lease_fresh wa fr key stride (remove_at pos ?pool) r
    | None \<Rightarrow> lease_fresh wa fr key stride ?pool r)"
    using k by (simp add: lease_dmabuf_def P_def Let_def)
  show ?thesis
  proof (cases "position P ?pool")
    case None
    with lease assms(2) have "lease_fresh wa fr key stride ?pool r = (l, r')" by simp
    then show ?thesis using lease_fresh_pool [OF pool k(3,2)] by blast
  next
    case (Some pos)
    then have pos: "pos < length ?pool" "P (?pool ! pos)" using position_Some [OF Some] by simp_all
    note rm = remove_at_set [OF pos(1) pool(2)]
    show ?thesis
    proof (cases "wa_idle wa (db_buf (?pool ! pos))")
      case True
      then have "r' = r\<lparr>rn_pool := (?pool ! pos) # remove_at pos ?pool\<rparr>" "l = Some Pooled"
        using lease assms(2) Some by simp_all
      moreover have "pool_ok ((?pool ! pos) # remove_at pos ?pool)"
        using rm pool pos(1) by (auto simp: pool_ok_def)
      moreover have "entry_matches fr (?pool ! pos)"
        using pos(2) k by (auto simp: P_def entry_matches_def prod_eq_iff)
      ultimately show ?thesis using True pos(1) by simp
    next
      case False
      with lease assms(2) Some have "lease_fresh wa fr key stride (remove_at pos ?pool) r = (l, r')" by simp
      moreover have "length (remove_at pos ?pool) \<le> DMABUF_POOL_CAP" using rm(4) pool(1) by simp
      ultimately show ?thesis using lease_fresh_pool [OF _ rm(3) k(3,2)] by blast
    qed
  qed
qed

lemma leased_buffer_is_free_witness:
  "\<exists>l r'. lease_dmabuf
      \<lparr>wa_slot = True, wa_target = True, wa_supported = True, wa_acquired = [], wa_idle = (\<lambda>_. False), wa_create = Some 9\<rparr>
      \<lparr>tx_coded = (4, 4), tx_visible_rect = (4, 4), df_plane = Some 16, df_modifier = 0, df_key = Some (1, 2)\<rparr>
      ((ly_runner (new_layer False None None True True True))\<lparr>rn_pool :=
         [\<lparr>db_id = (1, 2), db_w = 4, db_h = 4, db_stride = 16, db_modifier = 0, db_buf = 5\<rparr>]\<rparr>) = (l, r') \<and>
     pool_ok (rn_pool r') \<and> map db_buf (rn_pool r') = [9]"
proof -
  let ?wa = "\<lparr>wa_slot = True, wa_target = True, wa_supported = True, wa_acquired = [], wa_idle = (\<lambda>_. False), wa_create = Some 9\<rparr>"
  let ?fr = "\<lparr>tx_coded = (4, 4), tx_visible_rect = (4, 4), df_plane = Some 16, df_modifier = 0, df_key = Some (1, 2)\<rparr>"
  let ?r = "(ly_runner (new_layer False None None True True True))\<lparr>rn_pool :=
         [\<lparr>db_id = (1, 2), db_w = 4, db_h = 4, db_stride = 16, db_modifier = 0, db_buf = 5\<rparr>]\<rparr>"
  obtain l r' where l: "lease_dmabuf ?wa ?fr ?r = (l, r')" by fastforce
  have "map db_buf (rn_pool (snd (lease_dmabuf ?wa ?fr ?r))) = [9]" by code_simp
  moreover have "pool_ok (rn_pool ?r)" by code_simp
  from leased_buffer_is_free [OF this l] have "pool_ok (rn_pool r')" by blast
  ultimately show ?thesis using l by auto
qed

end
