(* ===== verification/Spec2Isabelle.thy ===== *)
theory Spec2Isabelle
  imports Signals Sink_Core Ingest Compositor Input_Gates Connect Migrate Paint_Scheduler Menu_Runs Save_Worker Root_Settle Layer_Runs Layer_Wire
begin

text \<open>
  A model of Astrofin, a Jellyfin desktop client: a CEF browser shows the server's web client,
  mpv plays the media, and Rust code connects the two with each other and with the desktop.
  All paths below are relative to \<open>src/\<close> of the repository, one crate per directory.

  How the parts interact. libmpv's events are decoded (\<open>Mpv_Events\<close>) and turned into inputs
  (\<open>Ingest\<close>), which the driver posts to the coordinator's queue. The coordinator's worker
  (\<open>Coordinator\<close>) drains the queue in batches, runs them through the playback state machine
  (\<open>State_Machine\<close>), publishes the new snapshot and hands the emitted events and actions to
  the sinks (\<open>Sinks\<close>, \<open>Sink_Core\<close>): the web view, the idle inhibition, the theme colour and the
  media sinks of the operating system. The loop points and the statistics bypass the
  coordinator (\<open>Telemetry\<close>); shutdown and lifecycle are process-wide signals (\<open>Signals\<close>).
  The window's geometry is computed, saved and restored (\<open>Geometry\<close>, \<open>Window_Lifecycle\<close>), the
  X11 backend decides what to do with it (\<open>X11_Logic\<close>), and overlays and surfaces follow
  (\<open>Compositor\<close>). The user's input passes small deciders (\<open>Input_Gates\<close>). The connect screen
  probes a typed address (\<open>Connect\<close>) under the URL rules of \<open>Jellyfin\<close>, which also decide
  which page is handed the native bridge. At the first start the profile of the program
  Astrofin grew out of is imported (\<open>Migrate\<close>). While a view is resized a loop on CEF's UI
  thread keeps it painting (\<open>Paint_Scheduler\<close>). On Linux the application draws its own menus
  (\<open>Menu_Engine\<close>). On Wayland one thread owns the window (\<open>Root_Window\<close>), and each content layer
  of the page has a worker that turns CEF's frames into buffers (\<open>Layer_Actor\<close>), through the GPU
  (\<open>Gpu_Painter\<close>) or through shared memory (\<open>Dirty_Rects\<close>). The settings are read at the start, changed by the page and written behind
  its back (\<open>Config\<close>, \<open>Save_Worker\<close>).

  The theories.
  \<^item> \<open>Prelude\<close>: machine integers, instants, decimal text, runs of step functions, and the
    locale \<open>machine\<close> every state machine of the development interprets on its own step.
  \<^item> \<open>Ieee\<close>: the binary floating point of the source, executable; its lemmas give the exact
    value where it is representable.
  \<^item> \<open>Text\<close>: Rust strings as code points, with the string operations of the URL code.
  \<^item> \<open>Playback_Types\<close>, \<open>State_Machine\<close>, \<open>Coordinator\<close>: \<open>playback/src/types.rs\<close>,
    \<open>state_machine.rs\<close> and \<open>coordinator.rs\<close>. The state is one record, each handler a function
    returning the state and the events; the coordinator is a labelled step relation. Shown:
    a cross-field invariant of all reachable states, what each event means, that the events
    determine the phase unless an end of file was hidden, and that the concurrent coordinator refines the sequential machine.
  \<^item> \<open>Sinks\<close>, \<open>Sink_Core\<close>, \<open>Signals\<close>: the other modules of \<open>playback/src\<close>. Shown: the platform's
    inhibition level follows the playback; media sinks receive their events in order, once.
  \<^item> \<open>Mpv_Events\<close>, \<open>Ingest\<close>, \<open>Telemetry\<close>: \<open>mpv/src/node.rs\<close>, \<open>event.rs\<close>, \<open>log.rs\<close>,
    \<open>playback/src/ingest.rs\<close>, \<open>ingest_driver.rs\<close>, \<open>ab_loop.rs\<close> and \<open>stats.rs\<close>. Shown: the side
    channels stay apart, what the page shows is what mpv has, pushes are spaced.
  \<^item> \<open>Geometry\<close>, \<open>Window_Lifecycle\<close>: \<open>platform_abi/src/geometry.rs\<close>, \<open>window_source.rs\<close>,
    \<open>jfn_rust/src/window_geometry.rs\<close>, \<open>jfn_cef/src/window_sync.rs\<close>. Shown: clamping fits the
    screen, pointers map inside the window, what is saved is restored, and when the CEF
    layers settle at the window's size - and when not.
  \<^item> \<open>X11_Logic\<close>, \<open>Compositor\<close>: the decision modules of \<open>x11/src\<close> and \<open>compositor_core/src\<close>.
    Shown: clipping is intersection, copies stay in bounds, resize commits answer their
    configure, the overlay machine converges in one pass.
  \<^item> \<open>Input_Gates\<close>: \<open>input/src/scroll.rs\<close>, \<open>click_count.rs\<close>, \<open>instance_ipc/src/policy.rs\<close>,
    \<open>jfn_cef/src/rate_gate.rs\<close>, \<open>menu_ownership.rs\<close>.
  \<^item> \<open>Jellyfin\<close>, \<open>Connect\<close>: \<open>jellyfin/src/lib.rs\<close>, \<open>jfn_cef/src/bridge_gate.rs\<close> and
    \<open>business_overlay.rs\<close>. Shown: origins print and parse back, the bridge is origin equality,
    the probe never answers for a host the user did not type, and every attempt is answered.
  \<^item> \<open>Migrate\<close>: \<open>paths/src/migrate.rs\<close>, over a parameter for what the file system answers to
    every call; a copy that fails may leave the first bytes of the file. Shown: the copy adds only
    what the source has, counts every file it cut short and is complete when nothing is skipped, a
    crash before the rename is made up for, the early end of the size check is harmless, the path
    rewrite hits exactly the occurrences, the repair keeps the configuration over any launches
    unless a backup was cut short; and how it is lost then.
  \<^item> \<open>Paint_Scheduler\<close>: \<open>jfn_cef/src/paint_scheduler.rs\<close>, with parts of \<open>client/resize.rs\<close> and
    \<open>client_logic.rs\<close> and the two halves of creating a browser (\<open>client/browser_ops.rs\<close>,
    \<open>lifecycle.rs\<close>). Shown: one loop at a time, its frame-rate boost ends with it, it ends within a
    bounded number of steps; and how a resize can be left without it and a refresh rate be lost.
  \<^item> \<open>Menu_Logic\<close>, \<open>Menu_Engine\<close>, \<open>Menu_Runs\<close>: \<open>linux_util/src/menu\<close> and the item rules of
    \<open>platform_abi/src/menu.rs\<close>; callers, flushing threads and render thread are a step relation.
    Shown: every request is answered once, the surface sees popups one after another and in
    order, the session's flags agree, a shaped menu answers with items that can be chosen, the
    arrow keys cycle; and what goes wrong when one menu replaces another.

  \<^item> \<open>Rounding_Bounds\<close>, \<open>Config\<close>, \<open>Save_Worker\<close>: \<open>config/src/lib.rs\<close>, with the decorations of
    \<open>platform_abi/src/lib.rs\<close> and the mailbox of \<open>mailbox/src/lib.rs\<close>. Shown: a document written is
    read back, a malformed key costs only itself, loaded settings are well typed, the shutdown
    loses no queued snapshot, the worker ends; and how an older snapshot can be written last.

  \<^item> \<open>Wayland_Scale\<close>, \<open>Root_Window\<close>, \<open>Root_Runs\<close>, \<open>Root_Settle\<close>: \<open>wayland/src/scale.rs\<close>,
    \<open>window_state.rs\<close>, \<open>root_window.rs\<close> and \<open>popup.rs\<close>. The thread that owns the Wayland window is one
    record; its loop, its requesters and the scale probe are steps that interleave. Shown: nothing is
    shown before a configure, the loop settles and never sleeps on a request, the popup stands where
    it was last wanted, sizes and modes come back; and where a request is lost.

  \<^item> \<open>Dirty_Rects\<close>, \<open>Gpu_Painter\<close>, \<open>Layer_Actor\<close>, \<open>Layer_Runs\<close>, \<open>Layer_Wire\<close>: the content layers,
    \<open>wayland/src/layer_actor.rs\<close>, \<open>layer.rs\<close> and the surface operations of \<open>wl_ops.rs\<close>, with the
    painter of \<open>gpu_paint/src/painter.rs\<close>, \<open>select.rs\<close> and \<open>types.rs\<close>. Calls of CEF's thread and both
    halves of a worker iteration interleave freely; pool, window system and swapchain answer with
    each step. Shown: cutting rectangles out and pasting them is patching the frame, a quiet layer
    shows CEF's last frame, the painter shows each frame whole and never aborts, viewport sources
    fit their buffers, no buffer in use is attached again; and how damage is lost on the GPU route.

  Bounds and fuel. No definition of the model takes fuel: loops are structural, or rounds of a
  step function over a list of events. Machine integers keep their width where the source
  computes with them (\<open>wrap32\<close>, saturating casts, words); fields that are only stored and
  compared are integers.

  Not modelled: the bindings to libmpv, CEF, xcb, Wayland, Win32 and AppKit, and the JSON and
  socket libraries, whose results appear as arguments of the operations that use them; file
  and log output; the pure rendering of JavaScript text; the build tools. The manifest lists
  every part of the repository with what is modelled of it.
\<close>

end
